(* ===== verification/Contexty_Prelude.thy ===== *)
theory Contexty_Prelude
  imports Main "HOL-Library.Word"
begin

text \<open>
  Shared foundations of the development: the sentinel errors of the library and
  Go's error wrapping, fallible results, cancellable computations (a Go
  \<^verbatim>\<open>context.Context\<close> threaded through the code), Go's 64-bit \<^verbatim>\<open>int\<close> arithmetic with
  its wrap-around, and generic list lemmas.
\<close>

named_theorems comp_defs "definitions of the computation combinators"
named_theorems comp_elims "inversion rules for successful computations"
named_theorems go_arith "facts on wrapped 64-bit arithmetic"

subsection \<open>Errors\<close>

text \<open>
  An exported sentinel error (an \<^verbatim>\<open>errors.New\<close> value compared with \<^verbatim>\<open>errors.Is\<close>) is
  \<open>Sentinel\<close> of its Go name. An anonymous \<^verbatim>\<open>errors.New\<close>/\<^verbatim>\<open>fmt.Errorf\<close> without a wrapped sentinel is
  \<open>Errorf\<close>; \<^verbatim>\<open>fmt.Errorf("%w: %w")\<close> and \<^verbatim>\<open>errors.Join\<close> are \<open>Wrap\<close>; the error of a
  cancelled context is \<open>Canceled\<close>; an error made by a host callback is \<open>HostError\<close>.
  A \<^verbatim>\<open>fmt.Errorf\<close> that wraps one error only adds text and is modelled by that error.
\<close>

datatype go_error =
  Sentinel string | Canceled | Errorf string | HostError string | Wrap go_error go_error

abbreviation ErrInvalidRole :: go_error where
  "ErrInvalidRole \<equiv> Sentinel ''ErrInvalidRole''"
abbreviation ErrInvalidContentPart :: go_error where
  "ErrInvalidContentPart \<equiv> Sentinel ''ErrInvalidContentPart''"
abbreviation ErrInvalidMediaPart :: go_error where
  "ErrInvalidMediaPart \<equiv> Sentinel ''ErrInvalidMediaPart''"
abbreviation ErrInvalidProvenance :: go_error where
  "ErrInvalidProvenance \<equiv> Sentinel ''ErrInvalidProvenance''"
abbreviation ErrBudgetExceeded :: go_error where
  "ErrBudgetExceeded \<equiv> Sentinel ''ErrBudgetExceeded''"
abbreviation ErrTokenCountFailed :: go_error where
  "ErrTokenCountFailed \<equiv> Sentinel ''ErrTokenCountFailed''"
abbreviation ErrInvalidCharsPerToken :: go_error where
  "ErrInvalidCharsPerToken \<equiv> Sentinel ''ErrInvalidCharsPerToken''"
abbreviation ErrBlockTooLarge :: go_error where
  "ErrBlockTooLarge \<equiv> Sentinel ''ErrBlockTooLarge''"
abbreviation ErrPendingExceedsBudget :: go_error where
  "ErrPendingExceedsBudget \<equiv> Sentinel ''ErrPendingExceedsBudget''"
abbreviation ErrDuplicateMessageID :: go_error where
  "ErrDuplicateMessageID \<equiv> Sentinel ''ErrDuplicateMessageID''"
abbreviation ErrInconsistentEstimate :: go_error where
  "ErrInconsistentEstimate \<equiv> Sentinel ''ErrInconsistentEstimate''"
abbreviation ErrUnknownEstimateCost :: go_error where
  "ErrUnknownEstimateCost \<equiv> Sentinel ''ErrUnknownEstimateCost''"
abbreviation ErrInvalidBudgetRequest :: go_error where
  "ErrInvalidBudgetRequest \<equiv> Sentinel ''ErrInvalidBudgetRequest''"
abbreviation ErrInvalidRetention :: go_error where
  "ErrInvalidRetention \<equiv> Sentinel ''ErrInvalidRetention''"
abbreviation ErrRetentionExceedsBudget :: go_error where
  "ErrRetentionExceedsBudget \<equiv> Sentinel ''ErrRetentionExceedsBudget''"
abbreviation ErrInvalidCompactionPolicy :: go_error where
  "ErrInvalidCompactionPolicy \<equiv> Sentinel ''ErrInvalidCompactionPolicy''"
abbreviation ErrInvalidRollingSummary :: go_error where
  "ErrInvalidRollingSummary \<equiv> Sentinel ''ErrInvalidRollingSummary''"
abbreviation ErrRecentTailExceedsBudget :: go_error where
  "ErrRecentTailExceedsBudget \<equiv> Sentinel ''ErrRecentTailExceedsBudget''"
abbreviation ErrInvalidToolRound :: go_error where
  "ErrInvalidToolRound \<equiv> Sentinel ''ErrInvalidToolRound''"
abbreviation ErrUnknownToolRoundState :: go_error where
  "ErrUnknownToolRoundState \<equiv> Sentinel ''ErrUnknownToolRoundState''"
abbreviation ErrToolRoundStateConflict :: go_error where
  "ErrToolRoundStateConflict \<equiv> Sentinel ''ErrToolRoundStateConflict''"
abbreviation ErrInvalidDescriptor :: go_error where
  "ErrInvalidDescriptor \<equiv> Sentinel ''ErrInvalidDescriptor''"
abbreviation ErrInvalidContentRef :: go_error where
  "ErrInvalidContentRef \<equiv> Sentinel ''ErrInvalidContentRef''"
abbreviation ErrInvalidLineage :: go_error where
  "ErrInvalidLineage \<equiv> Sentinel ''ErrInvalidLineage''"
abbreviation ErrDuplicateTransform :: go_error where
  "ErrDuplicateTransform \<equiv> Sentinel ''ErrDuplicateTransform''"
abbreviation ErrInvalidCompileConfiguration :: go_error where
  "ErrInvalidCompileConfiguration \<equiv> Sentinel ''ErrInvalidCompileConfiguration''"
abbreviation ErrConversationVersionConflict :: go_error where
  "ErrConversationVersionConflict \<equiv> Sentinel ''ErrConversationVersionConflict''"
abbreviation ErrConversationVersionExhausted :: go_error where
  "ErrConversationVersionExhausted \<equiv> Sentinel ''ErrConversationVersionExhausted''"
abbreviation ErrUnavailable :: go_error where
  "ErrUnavailable \<equiv> Sentinel ''ErrUnavailable''"
abbreviation ErrEmptyCheckpointCommit :: go_error where
  "ErrEmptyCheckpointCommit \<equiv> Sentinel ''ErrEmptyCheckpointCommit''"
abbreviation ErrInvalidCheckpoint :: go_error where
  "ErrInvalidCheckpoint \<equiv> Sentinel ''ErrInvalidCheckpoint''"
abbreviation ErrUnsupportedCheckpointSchema :: go_error where
  "ErrUnsupportedCheckpointSchema \<equiv> Sentinel ''ErrUnsupportedCheckpointSchema''"
abbreviation ErrInvalidDeltaIDs :: go_error where
  "ErrInvalidDeltaIDs \<equiv> Sentinel ''ErrInvalidDeltaIDs''"
abbreviation ErrUnavailableCandidate :: go_error where
  "ErrUnavailableCandidate \<equiv> Sentinel ''ErrUnavailableCandidate''"
abbreviation ErrDuplicateSelection :: go_error where
  "ErrDuplicateSelection \<equiv> Sentinel ''ErrDuplicateSelection''"
abbreviation ErrMandatorySelection :: go_error where
  "ErrMandatorySelection \<equiv> Sentinel ''ErrMandatorySelection''"
abbreviation ErrSelectionRound :: go_error where
  "ErrSelectionRound \<equiv> Sentinel ''ErrSelectionRound''"
abbreviation ErrInvalidSelection :: go_error where
  "ErrInvalidSelection \<equiv> Sentinel ''ErrInvalidSelection''"
abbreviation ErrInvalidBlob :: go_error where
  "ErrInvalidBlob \<equiv> Sentinel ''ErrInvalidBlob''"
abbreviation ErrBlobMissing :: go_error where
  "ErrBlobMissing \<equiv> Sentinel ''ErrBlobMissing''"
abbreviation ErrBlobDenied :: go_error where
  "ErrBlobDenied \<equiv> Sentinel ''ErrBlobDenied''"
abbreviation ErrBlobSizeLimit :: go_error where
  "ErrBlobSizeLimit \<equiv> Sentinel ''ErrBlobSizeLimit''"
abbreviation ErrBlobMediaLimit :: go_error where
  "ErrBlobMediaLimit \<equiv> Sentinel ''ErrBlobMediaLimit''"
abbreviation ErrBlobDigestMismatch :: go_error where
  "ErrBlobDigestMismatch \<equiv> Sentinel ''ErrBlobDigestMismatch''"
abbreviation ErrConfiguration :: go_error where
  "ErrConfiguration \<equiv> Sentinel ''ErrConfiguration''"
abbreviation ErrClaimConflict :: go_error where
  "ErrClaimConflict \<equiv> Sentinel ''ErrClaimConflict''"
abbreviation ErrActiveClaim :: go_error where
  "ErrActiveClaim \<equiv> Sentinel ''ErrActiveClaim''"
abbreviation ErrRetiring :: go_error where
  "ErrRetiring \<equiv> Sentinel ''ErrRetiring''"
abbreviation ErrMissingEventIdentity :: go_error where
  "ErrMissingEventIdentity \<equiv> Sentinel ''ErrMissingEventIdentity''"
abbreviation ErrInvalidCurrentTurn :: go_error where
  "ErrInvalidCurrentTurn \<equiv> Sentinel ''ErrInvalidCurrentTurn''"
abbreviation ErrInvalidCurrentTurnPersistencePolicy :: go_error where
  "ErrInvalidCurrentTurnPersistencePolicy \<equiv> Sentinel ''ErrInvalidCurrentTurnPersistencePolicy''"
abbreviation ErrInvalidCompaction :: go_error where
  "ErrInvalidCompaction \<equiv> Sentinel ''ErrInvalidCompaction''"

text \<open>\<^verbatim>\<open>errors.Is(err, target)\<close>: the chain of wrapped errors is searched.\<close>

fun errors_Is :: "go_error \<Rightarrow> go_error \<Rightarrow> bool" where
  "errors_Is (Wrap a b) t = (Wrap a b = t \<or> errors_Is a t \<or> errors_Is b t)"
| "errors_Is e t = (e = t)"

lemma errors_Is_refl [simp]: "errors_Is e e"
  by (cases e) auto

type_synonym 'a result = "go_error + 'a"

text \<open>\<^verbatim>\<open>if err != nil { return err }\<close> between two fallible calls.\<close>

definition bind_res :: "'a result \<Rightarrow> ('a \<Rightarrow> 'b result) \<Rightarrow> 'b result" where
  "bind_res r f = (case r of Inl e \<Rightarrow> Inl e | Inr x \<Rightarrow> f x)"

lemma bind_res_simps [simp]:
  "bind_res (Inl e) f = Inl e" "bind_res (Inr x) f = f x"
  by (simp_all add: bind_res_def)

lemma bind_res_Inr_iff: "bind_res r f = Inr y \<longleftrightarrow> (\<exists>x. r = Inr x \<and> f x = Inr y)"
  by (cases r) auto

lemma bind_res_InrE [comp_elims]:
  assumes "bind_res r f = Inr y"
  obtains x where "r = Inr x" "f x = Inr y"
  using assms by (auto simp: bind_res_Inr_iff)

text \<open>A loop that fails on its first failing element.\<close>

fun map_res :: "('a \<Rightarrow> 'b result) \<Rightarrow> 'a list \<Rightarrow> 'b list result" where
  "map_res f [] = Inr []"
| "map_res f (x # xs) = bind_res (f x) (\<lambda>y. bind_res (map_res f xs) (\<lambda>ys. Inr (y # ys)))"

lemma map_res_Inr_iff: "map_res f xs = Inr ys \<longleftrightarrow> list_all2 (\<lambda>x y. f x = Inr y) xs ys"
proof (induction xs arbitrary: ys)
  case Nil
  then show ?case by auto
next
  case (Cons x xs)
  show ?case by (cases ys) (auto simp: bind_res_Inr_iff Cons.IH)
qed

lemma map_res_length: "map_res f xs = Inr ys \<Longrightarrow> length ys = length xs"
  by (auto simp: map_res_Inr_iff dest: list_all2_lengthD)

lemma map_res_nth: "map_res f xs = Inr ys \<Longrightarrow> i < length xs \<Longrightarrow> f (xs ! i) = Inr (ys ! i)"
  by (auto simp: map_res_Inr_iff dest: list_all2_nthD)

lemma map_res_total: "(\<And>x. x \<in> set xs \<Longrightarrow> f x = Inr (g x)) \<Longrightarrow> map_res f xs = Inr (map g xs)"
  by (induction xs) auto

lemma map_res_unit: "(\<exists>us. map_res f xs = Inr (us :: unit list)) \<longleftrightarrow> (\<forall>x \<in> set xs. f x = Inr ())"
  by (induction xs) (auto simp: bind_res_Inr_iff)

subsection \<open>Cancellable computations\<close>

text \<open>
  A context is an oracle for the caller's cancellation: \<open>None\<close> is never cancelled,
  \<open>Some n\<close> lets \<open>n\<close> more \<^verbatim>\<open>ctx.Err()\<close> calls succeed and fails every later one, so a
  cancelled context stays cancelled. A computation polls the context at the points where
  the source calls \<^verbatim>\<open>ctx.Err()\<close> and returns the context it leaves behind.
\<close>

type_synonym ctx = "nat option"
type_synonym 'a comp = "ctx \<Rightarrow> 'a result \<times> ctx"

definition ret :: "'a \<Rightarrow> 'a comp" where
  [comp_defs]: "ret x = (\<lambda>c. (Inr x, c))"

definition fail :: "go_error \<Rightarrow> 'a comp" where
  [comp_defs]: "fail e = (\<lambda>c. (Inl e, c))"

definition lift_res :: "'a result \<Rightarrow> 'a comp" where
  [comp_defs]: "lift_res r = (\<lambda>c. (r, c))"

definition bind :: "'a comp \<Rightarrow> ('a \<Rightarrow> 'b comp) \<Rightarrow> 'b comp" where
  [comp_defs]: "bind m f =
     (\<lambda>c. case m c of (Inl e, c1) \<Rightarrow> (Inl e, c1) | (Inr x, c1) \<Rightarrow> f x c1)"

text \<open>\<^verbatim>\<open>if err := ctx.Err(); err != nil { return err }\<close>\<close>

definition poll :: "unit comp" where
  [comp_defs]: "poll =
     (\<lambda>c. case c of None \<Rightarrow> (Inr (), None)
        | Some 0 \<Rightarrow> (Inl Canceled, Some 0)
        | Some (Suc n) \<Rightarrow> (Inr (), Some n))"

text \<open>
  The pattern around host callbacks: the result is looked at only after
  \<^verbatim>\<open>if canceled := ctx.Err(); canceled != nil { return canceled }\<close>, so that cancellation
  dominates both a callback error and a usable return value.
\<close>

definition settle :: "'a comp \<Rightarrow> 'a comp" where
  [comp_defs]: "settle m =
     (\<lambda>c. let (r, c1) = m c in case poll c1 of (Inl e, c2) \<Rightarrow> (Inl e, c2) | (Inr _, c2) \<Rightarrow> (r, c2))"

text \<open>Replacing the error of a failed computation, as \<^verbatim>\<open>fmt.Errorf("%w: %w", s, err)\<close> does.\<close>

definition map_err :: "(go_error \<Rightarrow> go_error) \<Rightarrow> 'a comp \<Rightarrow> 'a comp" where
  [comp_defs]: "map_err g m =
     (\<lambda>c. case m c of (Inl e, c1) \<Rightarrow> (Inl (g e), c1) | (Inr x, c1) \<Rightarrow> (Inr x, c1))"

definition run :: "'a comp \<Rightarrow> 'a result" where
  "run m = fst (m None)"

lemma ret_simps [simp]: "ret x c = (Inr x, c)"
  by (simp add: ret_def)

lemma fail_simps [simp]: "fail e c = (Inl e, c)"
  by (simp add: fail_def)

lemma lift_res_simps [simp]: "lift_res r c = (r, c)"
  by (simp add: lift_res_def)

lemma poll_simps [simp]:
  "poll None = (Inr (), None)"
  "poll (Some 0) = (Inl Canceled, Some 0)"
  "poll (Some (Suc n)) = (Inr (), Some n)"
  by (simp_all add: poll_def)

lemma bind_ret [simp]: "bind (ret x) f = f x"
  by (rule ext) (simp add: bind_def)

lemma bind_fail [simp]: "bind (fail e) f = fail e"
  by (rule ext) (simp add: bind_def)

lemma bind_Inr_iff:
  "bind m f c = (Inr y, c') \<longleftrightarrow> (\<exists>x c1. m c = (Inr x, c1) \<and> f x c1 = (Inr y, c'))"
  by (auto simp: bind_def split: prod.splits sum.splits)

lemma bind_InrE [comp_elims]:
  assumes "bind m f c = (Inr y, c')"
  obtains x c1 where "m c = (Inr x, c1)" "f x c1 = (Inr y, c')"
  using assms by (auto simp: bind_Inr_iff)

lemma settle_Inr: "settle m c = (Inr y, c') \<Longrightarrow> \<exists>c1. m c = (Inr y, c1)"
  by (auto simp: settle_def Let_def split: prod.splits sum.splits)

lemma settle_InrE [comp_elims]:
  assumes "settle m c = (Inr y, c')"
  obtains c1 where "m c = (Inr y, c1)"
  using assms by (auto dest: settle_Inr)

lemma map_err_InrE [comp_elims]:
  assumes "map_err g m c = (Inr y, c')"
  obtains "m c = (Inr y, c')"
  using assms by (auto simp: map_err_def split: prod.splits sum.splits)

lemma fail_InrE [comp_elims]: "fail e c = (Inr y, c') \<Longrightarrow> P"
  by simp

lemma poll_cases: "poll c = (Inl Canceled, c) \<or> (\<exists>c'. poll c = (Inr (), c'))"
  by (cases c rule: option.exhaust) (simp_all add: poll_def split: nat.splits)

lemma settle_canceled: "m c = (r, Some 0) \<Longrightarrow> settle m c = (Inl Canceled, Some 0)"
  by (simp add: settle_def)

text \<open>A computation that neither polls nor depends on the context.\<close>

definition ctx_free :: "'a comp \<Rightarrow> bool" where
  "ctx_free m \<longleftrightarrow> (\<forall>c. m c = (fst (m None), c))"

lemma ctx_freeD: "ctx_free m \<Longrightarrow> m c = (r, c') \<Longrightarrow> m None = (r, None) \<and> c' = c"
  unfolding ctx_free_def by (metis fst_conv prod.inject)

lemma ctx_free_snd: "ctx_free m \<Longrightarrow> snd (m c) = c"
  unfolding ctx_free_def by (metis snd_conv)

lemma ctx_free_basic [intro, simp]: "ctx_free (ret x)" "ctx_free (fail e)" "ctx_free (lift_res r)"
  by (simp_all add: ctx_free_def)

lemma ctx_free_bind [intro]:
  assumes "ctx_free m" "\<And>x. ctx_free (f x)"
  shows "ctx_free (bind m f)"
  unfolding ctx_free_def
proof
  fix c
  have m: "m c = (fst (m None), c)" "m None = (fst (m None), None)"
    using assms(1) unfolding ctx_free_def by blast+
  show "bind m f c = (fst (bind m f None), c)"
  proof (cases "fst (m None)")
    case (Inl e)
    then show ?thesis using m by (simp add: bind_def)
  next
    case (Inr x)
    have "f x c = (fst (f x None), c)" using assms(2) unfolding ctx_free_def by blast
    with Inr m show ?thesis by (simp add: bind_def)
  qed
qed

lemma ctx_free_case_prod [intro]: "(\<And>a b. ctx_free (f a b)) \<Longrightarrow> ctx_free (case p of (a, b) \<Rightarrow> f a b)"
  by (cases p) simp

text \<open>A computation started on a context that is never cancelled leaves such a context.\<close>

definition keeps_live :: "'a comp \<Rightarrow> bool" where
  "keeps_live m \<longleftrightarrow> snd (m None) = None"

lemma keeps_live_basic [simp]:
  "keeps_live (ret x)" "keeps_live (fail e)" "keeps_live (lift_res r)" "keeps_live poll"
  by (simp_all add: keeps_live_def)

lemma keeps_live_ctx_free: "ctx_free m \<Longrightarrow> keeps_live m"
  by (simp add: keeps_live_def ctx_free_snd)

lemma keeps_live_bind [intro]: "keeps_live m \<Longrightarrow> (\<And>x. keeps_live (f x)) \<Longrightarrow> keeps_live (bind m f)"
  by (auto simp: keeps_live_def bind_def split: prod.splits sum.splits)

lemma keeps_live_settle [intro]: "keeps_live m \<Longrightarrow> keeps_live (settle m)"
  by (auto simp: keeps_live_def settle_def Let_def split: prod.splits sum.splits)

lemma keeps_live_run: "keeps_live m \<Longrightarrow> m None = (run m, None)"
  by (simp add: keeps_live_def run_def prod_eq_iff)

subsection \<open>Go's 64-bit integers\<close>

text \<open>
  A Go \<^verbatim>\<open>int\<close> (and \<^verbatim>\<open>int64\<close>) on the supported platforms has 64 bits; \<open>+\<close>, \<open>-\<close> and
  \<open>*\<close> wrap in two's complement and \<open>/\<close>, \<open>%\<close> truncate towards zero.
\<close>

definition MaxInt :: int where
  "MaxInt = 9223372036854775807"

definition wrap64 :: "int \<Rightarrow> int" where
  "wrap64 x = (x + 9223372036854775808) mod 18446744073709551616 - 9223372036854775808"

definition go_int :: "int \<Rightarrow> bool" where
  "go_int x \<longleftrightarrow> - MaxInt - 1 \<le> x \<and> x \<le> MaxInt"

definition go_add :: "int \<Rightarrow> int \<Rightarrow> int" where
  "go_add a b = wrap64 (a + b)"

definition go_sub :: "int \<Rightarrow> int \<Rightarrow> int" where
  "go_sub a b = wrap64 (a - b)"

definition go_mul :: "int \<Rightarrow> int \<Rightarrow> int" where
  "go_mul a b = wrap64 (a * b)"

definition go_div :: "int \<Rightarrow> int \<Rightarrow> int" where
  "go_div a b = wrap64 (sgn a * sgn b * (\<bar>a\<bar> div \<bar>b\<bar>))"

definition go_mod :: "int \<Rightarrow> int \<Rightarrow> int" where
  "go_mod a b = sgn a * (\<bar>a\<bar> mod \<bar>b\<bar>)"

text \<open>The wrap-around is the one of a 64-bit machine word.\<close>

lemma wrap64_word: "wrap64 x = sint (word_of_int x :: 64 word)"
  by (simp add: wrap64_def sint_uint uint_word_of_int signed_take_bit_eq_take_bit_shift
      take_bit_eq_mod mod_simps)

lemma wrap64_id [go_arith]: "go_int x \<Longrightarrow> wrap64 x = x"
  by (simp add: wrap64_def go_int_def MaxInt_def)

lemma go_int_wrap64 [simp]: "go_int (wrap64 x)"
proof -
  have "0 \<le> (x + 9223372036854775808) mod 18446744073709551616"
    "(x + 9223372036854775808) mod 18446744073709551616 < 18446744073709551616"
    by simp_all
  then show ?thesis by (simp add: wrap64_def go_int_def MaxInt_def)
qed

lemma go_add_exact [go_arith]: "go_int (a + b) \<Longrightarrow> go_add a b = a + b"
  by (simp add: go_add_def wrap64_id)

lemma go_sub_exact [go_arith]: "go_int (a - b) \<Longrightarrow> go_sub a b = a - b"
  by (simp add: go_sub_def wrap64_id)

lemma go_mul_exact [go_arith]: "go_int (a * b) \<Longrightarrow> go_mul a b = a * b"
  by (simp add: go_mul_def wrap64_id)

lemma go_div_nonneg [go_arith]:
  assumes "0 \<le> a" "a \<le> MaxInt" "0 < b"
  shows "go_div a b = a div b"
proof -
  have "0 \<le> a div b" "a div b \<le> a"
    using assms zdiv_mono2 [of a 1 b] by (simp_all add: pos_imp_zdiv_nonneg_iff)
  then have "go_int (a div b)"
    using assms by (simp add: go_int_def MaxInt_def)
  then show ?thesis
    using assms by (cases "a = 0") (simp_all add: go_div_def wrap64_id)
qed

lemma go_mod_nonneg [go_arith]: "0 \<le> a \<Longrightarrow> 0 < b \<Longrightarrow> go_mod a b = a mod b"
  by (cases "a = 0") (simp_all add: go_mod_def)

end
