(* ===== verification/Message_Model.thy ===== *)
theory Message_Model
  imports Contexty_Prelude
begin

text \<open>
  The typed message tree: roles (\<^verbatim>\<open>role.go\<close>), content parts and tool payloads
  (\<^verbatim>\<open>content_part.go\<close>, \<^verbatim>\<open>media_part.go\<close>), message metadata (\<^verbatim>\<open>annotations.go\<close>,
  \<^verbatim>\<open>source_ref.go\<close>, \<^verbatim>\<open>message_origin.go\<close>, \<^verbatim>\<open>extensions.go\<close>, \<^verbatim>\<open>provenance.go\<close>), the message
  itself with its accessors and deep copy (\<^verbatim>\<open>model.go\<close>), message equality
  (\<^verbatim>\<open>message_equal.go\<close>), content identity (\<^verbatim>\<open>lineage.go\<close>) and the ownership boundary
  (\<^verbatim>\<open>transform_record.go\<close>).

  A Go slice whose nil-ness is observable is a \<open>list option\<close> (\<open>None\<close> is nil); bytes
  and strings are both \<open>string\<close>, a \<open>char\<close> being a byte.
\<close>

subsection \<open>Slices, decimal and hexadecimal text\<close>

type_synonym 'a slice = "'a list option"

definition elems :: "'a slice \<Rightarrow> 'a list" where
  "elems s = (case s of None \<Rightarrow> [] | Some xs \<Rightarrow> xs)"

lemma elems_simps [simp]: "elems None = []" "elems (Some xs) = xs"
  by (simp_all add: elems_def)

text \<open>\<^verbatim>\<open>append([]T(nil), xs...)\<close> guarded by \<^verbatim>\<open>len(xs) > 0\<close>: empty becomes nil.\<close>

definition clone_nonempty :: "'a slice \<Rightarrow> 'a slice" where
  "clone_nonempty s = (if elems s = [] then None else Some (elems s))"

lemma elems_clone_nonempty [simp]: "elems (clone_nonempty s) = elems s"
  by (cases s) (auto simp: clone_nonempty_def)

lemma clone_nonempty_idem [simp]: "clone_nonempty (clone_nonempty s) = clone_nonempty s"
  by (simp add: clone_nonempty_def)

fun decimal :: "nat \<Rightarrow> string" where
  "decimal n = (if n < 10 then [char_of (48 + n)]
                else decimal (n div 10) @ [char_of (48 + n mod 10)])"

declare decimal.simps [simp del]

definition hex_digit :: "nat \<Rightarrow> char" where
  "hex_digit n = ''0123456789abcdef'' ! n"

fun bytesToHex :: "string \<Rightarrow> string" where
  "bytesToHex [] = []"
| "bytesToHex (b # bs) =
     hex_digit (of_char b div 16) # hex_digit (of_char b mod 16) # bytesToHex bs"

text \<open>One digit as \<^verbatim>\<open>strconv.ParseUint(s, 16, 8)\<close> and \<^verbatim>\<open>encoding/hex\<close> read it (both cases).\<close>

definition hex_value :: "char \<Rightarrow> nat option" where
  "hex_value ch = (let n = (of_char ch :: nat) in
     if 48 \<le> n \<and> n \<le> 57 then Some (n - 48)
     else if 97 \<le> n \<and> n \<le> 102 then Some (n - 87)
     else if 65 \<le> n \<and> n \<le> 70 then Some (n - 55)
     else None)"

fun hexPairs :: "string \<Rightarrow> string option" where
  "hexPairs [] = Some []"
| "hexPairs [_] = None"
| "hexPairs (h # l # cs) =
     (case (hex_value h, hex_value l, hexPairs cs) of
        (Some a, Some b, Some bs) \<Rightarrow> Some (char_of (16 * a + b) # bs)
      | _ \<Rightarrow> None)"

definition hexToBytes :: "string \<Rightarrow> (char slice) result" where
  "hexToBytes s =
     (if s = [] then Inr None
      else if length s mod 2 \<noteq> 0 then Inl (Errorf ''contexty: tool payload binary_hex has odd length'')
      else case hexPairs s of
             None \<Rightarrow> Inl (Errorf ''contexty: tool payload binary_hex'')
           | Some bs \<Rightarrow> Inr (Some bs))"

lemma hex_value_hex_digit: "n < 16 \<Longrightarrow> hex_value (hex_digit n) = Some n"
proof -
  assume "n < 16"
  then have "n \<in> {0,1,2,3,4,5,6,7,8,9,10,11,12,13,14,15}" by (simp; presburger)
  then show ?thesis by (auto simp: hex_value_def hex_digit_def)
qed

lemma hexPairs_bytesToHex [simp]: "hexPairs (bytesToHex bs) = Some bs"
proof (induction bs)
  case Nil
  then show ?case by simp
next
  case (Cons b bs)
  have "of_char b div 16 < (16::nat)"
    by (rule less_mult_imp_div_less) simp
  then show ?case
    by (simp add: hex_value_hex_digit Cons.IH)
qed

lemma length_bytesToHex [simp]: "length (bytesToHex bs) = 2 * length bs"
  by (induction bs) auto

lemma bytesToHex_eq_Nil [simp]: "bytesToHex bs = [] \<longleftrightarrow> bs = []"
  by (cases bs) auto

subsection \<open>Roles\<close>

text \<open>\<open>RoleUnknown\<close> is any other string, the empty one included.\<close>

datatype Role = RoleSystem | RoleDeveloper | RoleUser | RoleAssistant | RoleTool | RoleUnknown string

definition Role_Validate :: "Role \<Rightarrow> unit result" where
  "Role_Validate r = (case r of RoleUnknown _ \<Rightarrow> Inl ErrInvalidRole | _ \<Rightarrow> Inr ())"

subsection \<open>Tool payloads and content parts\<close>

record ToolError =
  TECode :: string
  TEMessage :: string

record ToolProgress =
  TPCurrent :: int
  TPTotal :: int
  TPMessage :: string

record ToolControl =
  TCAction :: string
  TCReason :: string

record ToolPayload =
  PayText :: string
  PayData :: "char slice"
  PayBinary :: "char slice"
  PayMIMEType :: string
  PayError :: "ToolError option"
  PayProgress :: "ToolProgress option"
  PayControl :: "ToolControl option"

definition TextPayload :: "string \<Rightarrow> ToolPayload" where
  "TextPayload t = \<lparr>PayText = t, PayData = None, PayBinary = None, PayMIMEType = [],
     PayError = None, PayProgress = None, PayControl = None\<rparr>"

definition JSONPayload :: "string \<Rightarrow> ToolPayload" where
  "JSONPayload raw = \<lparr>PayText = [], PayData = Some raw, PayBinary = None, PayMIMEType = [],
     PayError = None, PayProgress = None, PayControl = None\<rparr>"

definition BinaryPayload :: "string \<Rightarrow> string \<Rightarrow> ToolPayload" where
  "BinaryPayload d mime = \<lparr>PayText = [], PayData = None,
     PayBinary = clone_nonempty (Some d), PayMIMEType = mime,
     PayError = None, PayProgress = None, PayControl = None\<rparr>"

definition ToolPayload_Clone :: "ToolPayload \<Rightarrow> ToolPayload" where
  "ToolPayload_Clone p = p\<lparr>PayData := clone_nonempty (PayData p),
     PayBinary := clone_nonempty (PayBinary p)\<rparr>"

definition PlainText :: "ToolPayload \<Rightarrow> string" where
  "PlainText p =
     (if PayText p \<noteq> [] then PayText p
      else if elems (PayData p) \<noteq> [] then elems (PayData p)
      else case PayError p of Some e \<Rightarrow> TEMessage e | None \<Rightarrow>
           (case PayProgress p of Some g \<Rightarrow> TPMessage g | None \<Rightarrow>
           (case PayControl p of Some k \<Rightarrow> TCAction k | None \<Rightarrow>
              if elems (PayBinary p) \<noteq> []
              then ''['' @ decimal (length (elems (PayBinary p))) @ '' bytes]''
              else [])))"

record ContentRef =
  RefID :: string
  RefDigest :: string
  RefOccurrence :: string

record Descriptor =
  DescID :: string
  DescRevision :: string

record BlobDescriptor =
  BlobObject :: Descriptor
  BlobDigest :: string
  BlobLength :: int
  BlobMIMEType :: string
  BlobScopeRef :: string
  BlobRetentionRef :: string
  BlobSources :: "ContentRef slice"

record ToolCall =
  CallID :: string
  CallName :: string
  CallArguments :: ToolPayload
  CallArgumentsBlob :: "BlobDescriptor option"

record ToolResult =
  ResultCallID :: string
  ResultName :: string
  ResultPayload :: ToolPayload
  ResultIsError :: bool

datatype ContentPart =
    TextPart string
  | ImagePart string string
  | MediaPart string "char slice"
  | ToolCallPart ToolCall
  | ToolResultPart ToolResult

text \<open>
  An element of \<^verbatim>\<open>Parts []ContentPart\<close>: a nil interface, a value, or a pointer, which may
  itself be nil.
\<close>

datatype part = PartNil | PartValue ContentPart | PartPointer "ContentPart option"

definition canonicalPartValue :: "part \<Rightarrow> ContentPart option" where
  "canonicalPartValue p = (case p of PartNil \<Rightarrow> None | PartValue v \<Rightarrow> Some v | PartPointer q \<Rightarrow> q)"

definition clonePart :: "ContentPart \<Rightarrow> ContentPart" where
  "clonePart p = (case p of
     ToolCallPart tc \<Rightarrow> ToolCallPart (tc\<lparr>CallArguments := ToolPayload_Clone (CallArguments tc)\<rparr>)
   | ToolResultPart r \<Rightarrow> ToolResultPart (r\<lparr>ResultPayload := ToolPayload_Clone (ResultPayload r)\<rparr>)
   | _ \<Rightarrow> p)"

subsection \<open>Metadata\<close>

record SourceRef =
  SrcNamespace :: string
  SrcKind :: string
  SrcID :: string
  SrcCheckpointID :: string
  SrcURI :: string

record Actor =
  ActKind :: string
  ActID :: string
  ActDisplayName :: string
  ActSourceRefs :: "SourceRef slice"

definition Actor_Clone :: "Actor option \<Rightarrow> Actor option" where
  "Actor_Clone a = map_option (\<lambda>x. x\<lparr>ActSourceRefs := clone_nonempty (ActSourceRefs x)\<rparr>) a"

record MessageOrigin =
  OriginTemplateID :: string
  OriginLayerID :: string

text \<open>
  Host-owned interface values carry the behaviour of their methods: whether the pointer
  behind the interface is nil, the type identity, what \<^verbatim>\<open>json.Marshal\<close> yields (\<open>None\<close>
  is an error) and what the host's clone method returns (\<open>None\<close>: a faithful copy).
\<close>

datatype Extension =
  ExtNil | Ext (ext_ptr_nil: bool) (ext_type: string) (ext_json: "string option") (ext_copy: "Extension option")

datatype Provenance =
  ProvNil | Prov (prov_ptr_nil: bool) (prov_type: string) (prov_json: "string option") (prov_copy: "Provenance option")

definition nilExtension :: "Extension \<Rightarrow> bool" where
  "nilExtension e = (case e of ExtNil \<Rightarrow> True | Ext n _ _ _ \<Rightarrow> n)"

definition nilProvenance :: "Provenance \<Rightarrow> bool" where
  "nilProvenance p = (case p of ProvNil \<Rightarrow> True | Prov n _ _ _ \<Rightarrow> n)"

definition CloneExtension :: "Extension \<Rightarrow> Extension" where
  "CloneExtension e = (case e of Ext n t j (Some e') \<Rightarrow> e' | _ \<Rightarrow> e)"

definition CloneProvenance :: "Provenance \<Rightarrow> Provenance" where
  "CloneProvenance p = (case p of Prov n t j (Some p') \<Rightarrow> p' | _ \<Rightarrow> p)"

text \<open>A nil element of the slice is not copied and stays the nil interface.\<close>

definition cloneExtensions :: "Extension list \<Rightarrow> Extension list" where
  "cloneExtensions es = map (\<lambda>e. if nilExtension e then ExtNil else CloneExtension e) es"

subsection \<open>Messages\<close>

record Message =
  MsgID :: string
  MsgRole :: Role
  MsgActor :: "Actor option"
  MsgParts :: "part list"
  MsgTimestamp :: "int option"
  MsgSourceRefs :: "SourceRef slice"
  MsgExtensions :: "Extension list"
  MsgOrigin :: "MessageOrigin option"
  MsgLLMCache :: "string option"
  MsgProvenance :: Provenance

definition Message_Clone :: "Message \<Rightarrow> Message" where
  "Message_Clone m = m\<lparr>
     MsgActor := Actor_Clone (MsgActor m),
     MsgParts := map (\<lambda>p. case canonicalPartValue p of None \<Rightarrow> PartNil
                                | Some v \<Rightarrow> PartValue (clonePart v)) (MsgParts m),
     MsgSourceRefs := clone_nonempty (MsgSourceRefs m),
     MsgExtensions := cloneExtensions (MsgExtensions m),
     MsgProvenance := (if nilProvenance (MsgProvenance m) then MsgProvenance m
                       else CloneProvenance (MsgProvenance m))\<rparr>"

definition cloneMessageSlice :: "Message list \<Rightarrow> Message list" where
  "cloneMessageSlice msgs = map Message_Clone msgs"

fun text_of :: "part list \<Rightarrow> string" where
  "text_of [] = []"
| "text_of (p # ps) =
     (case canonicalPartValue p of Some (TextPart t) \<Rightarrow> t @ text_of ps | _ \<Rightarrow> text_of ps)"

definition TextContent :: "Message \<Rightarrow> string" where
  "TextContent m = text_of (MsgParts m)"

fun tool_calls_of :: "part list \<Rightarrow> ToolCall list" where
  "tool_calls_of [] = []"
| "tool_calls_of (p # ps) =
     (case canonicalPartValue p of Some (ToolCallPart tc) \<Rightarrow> tc # tool_calls_of ps
      | _ \<Rightarrow> tool_calls_of ps)"

definition ToolCallParts :: "Message \<Rightarrow> ToolCall list" where
  "ToolCallParts m = tool_calls_of (MsgParts m)"

fun tool_results_of :: "part list \<Rightarrow> ToolResult list" where
  "tool_results_of [] = []"
| "tool_results_of (p # ps) =
     (case canonicalPartValue p of Some (ToolResultPart r) \<Rightarrow> r # tool_results_of ps
      | _ \<Rightarrow> tool_results_of ps)"

definition ToolResultParts :: "Message \<Rightarrow> ToolResult list" where
  "ToolResultParts m = tool_results_of (MsgParts m)"

fun has_tool_call :: "part list \<Rightarrow> bool" where
  "has_tool_call [] = False"
| "has_tool_call (p # ps) =
     (case canonicalPartValue p of Some (ToolCallPart tc) \<Rightarrow> True | _ \<Rightarrow> has_tool_call ps)"

definition HasToolCalls :: "Message \<Rightarrow> bool" where
  "HasToolCalls m = has_tool_call (MsgParts m)"

fun validateMessageRoles :: "Message list \<Rightarrow> unit result" where
  "validateMessageRoles [] = Inr ()"
| "validateMessageRoles (m # ms) =
     bind_res (Role_Validate (MsgRole m)) (\<lambda>_. validateMessageRoles ms)"

lemma HasToolCalls_iff: "HasToolCalls m \<longleftrightarrow> ToolCallParts m \<noteq> []"
proof -
  have "has_tool_call ps \<longleftrightarrow> tool_calls_of ps \<noteq> []" for ps
    by (induction ps) (auto split: option.splits ContentPart.splits)
  then show ?thesis by (simp add: HasToolCalls_def ToolCallParts_def)
qed

lemma Role_Validate_Inr [simp]: "Role_Validate r = Inr () \<longleftrightarrow> (\<forall>s. r \<noteq> RoleUnknown s)"
  by (auto simp: Role_Validate_def split: Role.splits)

lemma validateMessageRoles_Inr:
  "validateMessageRoles ms = Inr () \<longleftrightarrow> (\<forall>m \<in> set ms. Role_Validate (MsgRole m) = Inr ())"
proof (induction ms)
  case (Cons m ms)
  then show ?case by (cases "MsgRole m") (auto simp: Role_Validate_def)
qed simp

subsection \<open>What the message code uses of the standard library\<close>

text \<open>
  \<open>ParseMediaType\<close> is \<^verbatim>\<open>mime.ParseMediaType\<close> restricted to its first result
  (\<open>None\<close> on an error). \<open>MarshalDigest\<close> is \<^verbatim>\<open>codec.Marshal\<close> followed by
  \<^verbatim>\<open>canonicalJSONDigest\<close>: JSON encoding, canonicalisation and SHA-256 of a message.
\<close>

record env =
  ParseMediaType :: "string \<Rightarrow> string option"
  MarshalDigest :: "Message \<Rightarrow> string result"

text \<open>\<^verbatim>\<open>strings.Cut(s, "/")\<close>: before, after, found.\<close>

definition cut_slash :: "string \<Rightarrow> string \<times> string \<times> bool" where
  "cut_slash s = (let pre = takeWhile (\<lambda>ch. ch \<noteq> CHR ''/'') s in
     if length pre < length s then (pre, drop (Suc (length pre)) s, True) else (s, [], False))"

definition MediaPart_Validate :: "env \<Rightarrow> string \<Rightarrow> unit result" where
  "MediaPart_Validate E mime =
     (case ParseMediaType E mime of
        None \<Rightarrow> Inl ErrInvalidMediaPart
      | Some mt \<Rightarrow>
          (case cut_slash mt of (major, minor, ok) \<Rightarrow>
             if \<not> ok \<or> major = [] \<or> minor = [] \<or> major = ''*'' \<or> minor = ''*''
             then Inl ErrInvalidMediaPart else Inr ()))"

fun validateContentParts :: "env \<Rightarrow> part list \<Rightarrow> unit result" where
  "validateContentParts E [] = Inr ()"
| "validateContentParts E (p # ps) =
     (case canonicalPartValue p of
        None \<Rightarrow> Inl ErrInvalidContentPart
      | Some (MediaPart mime _) \<Rightarrow>
          bind_res (MediaPart_Validate E mime) (\<lambda>_. validateContentParts E ps)
      | Some _ \<Rightarrow> validateContentParts E ps)"

subsection \<open>Identities and references\<close>

definition Descriptor_Validate :: "Descriptor \<Rightarrow> unit result" where
  "Descriptor_Validate d =
     (if DescID d = [] \<or> DescRevision d = [] then Inl ErrInvalidDescriptor else Inr ())"

definition ContentRef_Validate :: "ContentRef \<Rightarrow> unit result" where
  "ContentRef_Validate r =
     (case hexPairs (RefDigest r) of
        None \<Rightarrow> Inl ErrInvalidContentRef
      | Some b \<Rightarrow>
          if RefID r = [] \<or> length b \<noteq> 32 \<or> bytesToHex b \<noteq> RefDigest r
          then Inl ErrInvalidContentRef else Inr ())"

definition MessageContentRef :: "env \<Rightarrow> Message \<Rightarrow> ContentRef result" where
  "MessageContentRef E m =
     (if MsgID m = [] then Inl ErrInvalidContentRef
      else bind_res (MarshalDigest E m)
             (\<lambda>d. Inr \<lparr>RefID = MsgID m, RefDigest = d, RefOccurrence = []\<rparr>))"

subsection \<open>Message equality\<close>

text \<open>
  \<open>same\<close> tells whether the two \<^verbatim>\<open>Annotations.Timestamp\<close> pointers are the same pointer:
  \<^verbatim>\<open>a.Annotations != b.Annotations\<close> compares a struct whose only field is a pointer, so it
  compares addresses and not instants.
\<close>

definition annotationsEqual :: "bool \<Rightarrow> int option \<Rightarrow> int option \<Rightarrow> bool" where
  "annotationsEqual same a b =
     (case (a, b) of (None, None) \<Rightarrow> True | (Some _, Some _) \<Rightarrow> same | _ \<Rightarrow> False)"

definition extensionEqual :: "Extension \<Rightarrow> Extension \<Rightarrow> bool" where
  "extensionEqual a b =
     (if a = ExtNil \<and> b = ExtNil then True
      else if a = ExtNil \<or> b = ExtNil then False
      else if ext_type a \<noteq> ext_type b then False
      else case (ext_json a, ext_json b) of (Some ja, Some jb) \<Rightarrow> ja = jb | _ \<Rightarrow> False)"

definition extensionsEqual :: "Extension list \<Rightarrow> Extension list \<Rightarrow> bool" where
  "extensionsEqual a b = list_all2 extensionEqual a b"

definition provenanceEqual :: "Provenance \<Rightarrow> Provenance \<Rightarrow> bool" where
  "provenanceEqual a b =
     (if nilProvenance a \<and> nilProvenance b then True
      else if nilProvenance a \<or> nilProvenance b then False
      else if prov_type a \<noteq> prov_type b then False
      else case (prov_json a, prov_json b) of (Some ja, Some jb) \<Rightarrow> ja = jb | _ \<Rightarrow> False)"

definition contentPartsEqual :: "part \<Rightarrow> part \<Rightarrow> bool" where
  "contentPartsEqual a b \<longleftrightarrow> canonicalPartValue a = canonicalPartValue b"

definition MessageEqual :: "bool \<Rightarrow> Message \<Rightarrow> Message \<Rightarrow> bool" where
  "MessageEqual same a b \<longleftrightarrow>
     MsgRole a = MsgRole b \<and>
     list_all2 contentPartsEqual (MsgParts a) (MsgParts b) \<and>
     MsgID a = MsgID b \<and>
     annotationsEqual same (MsgTimestamp a) (MsgTimestamp b) \<and>
     MsgActor a = MsgActor b \<and>
     MsgSourceRefs a = MsgSourceRefs b \<and>
     MsgOrigin a = MsgOrigin b \<and>
     MsgLLMCache a = MsgLLMCache b \<and>
     extensionsEqual (MsgExtensions a) (MsgExtensions b) \<and>
     provenanceEqual (MsgProvenance a) (MsgProvenance b)"

subsection \<open>The ownership boundary\<close>

definition validateProvenanceClone :: "Provenance \<Rightarrow> Provenance \<Rightarrow> unit result" where
  "validateProvenanceClone before after =
     (if before = ProvNil \<and> after = ProvNil then Inr ()
      else if nilProvenance before \<or> nilProvenance after \<or> prov_type before = [] \<or>
              prov_type before \<noteq> prov_type after
      then Inl ErrInvalidProvenance else Inr ())"

definition ownCompileMessage :: "env \<Rightarrow> Message \<Rightarrow> Message result" where
  "ownCompileMessage E m =
     bind_res (Role_Validate (MsgRole m)) (\<lambda>_.
     bind_res (validateContentParts E (MsgParts m)) (\<lambda>_.
     if MsgProvenance m \<noteq> ProvNil \<and> nilProvenance (MsgProvenance m) then Inl ErrInvalidProvenance
     else let owned = Message_Clone m in
          bind_res (validateProvenanceClone (MsgProvenance m) (MsgProvenance owned))
            (\<lambda>_. Inr owned)))"

definition ownCompileMessages :: "env \<Rightarrow> Message list \<Rightarrow> Message list result" where
  "ownCompileMessages E ms = map_res (ownCompileMessage E) ms"

fun validateUniqueMessageIDs_from :: "string list \<Rightarrow> Message list \<Rightarrow> unit result" where
  "validateUniqueMessageIDs_from seen [] = Inr ()"
| "validateUniqueMessageIDs_from seen (m # ms) =
     (if MsgID m = [] then validateUniqueMessageIDs_from seen ms
      else if MsgID m \<in> set seen then Inl ErrDuplicateMessageID
      else validateUniqueMessageIDs_from (MsgID m # seen) ms)"

definition validateUniqueMessageIDs :: "Message list \<Rightarrow> unit result" where
  "validateUniqueMessageIDs ms = validateUniqueMessageIDs_from [] ms"

subsection \<open>Facts the components share\<close>

lemma Message_Clone_fields [simp]:
  "MsgID (Message_Clone m) = MsgID m"
  "MsgRole (Message_Clone m) = MsgRole m"
  "MsgTimestamp (Message_Clone m) = MsgTimestamp m"
  "MsgOrigin (Message_Clone m) = MsgOrigin m"
  "MsgLLMCache (Message_Clone m) = MsgLLMCache m"
  by (simp_all add: Message_Clone_def)

lemma cloneMessageSlice_simps [simp]:
  "cloneMessageSlice [] = []"
  "cloneMessageSlice (m # ms) = Message_Clone m # cloneMessageSlice ms"
  "length (cloneMessageSlice xs) = length xs"
  by (simp_all add: cloneMessageSlice_def)

lemma cloneMessageSlice_append [simp]:
  "cloneMessageSlice (xs @ ys) = cloneMessageSlice xs @ cloneMessageSlice ys"
  by (simp add: cloneMessageSlice_def)

lemma ToolPayload_Clone_idem [simp]: "ToolPayload_Clone (ToolPayload_Clone p) = ToolPayload_Clone p"
  by (simp add: ToolPayload_Clone_def)

lemma PlainText_Clone [simp]: "PlainText (ToolPayload_Clone p) = PlainText p"
  by (simp add: PlainText_def ToolPayload_Clone_def split: option.splits)

lemma clonePart_idem [simp]: "clonePart (clonePart p) = clonePart p"
  by (cases p) (simp_all add: clonePart_def)

lemma canonical_clone_value [simp]:
  "canonicalPartValue (case canonicalPartValue p of None \<Rightarrow> PartNil | Some v \<Rightarrow> PartValue (clonePart v)) =
   map_option clonePart (canonicalPartValue p)"
  by (simp add: canonicalPartValue_def split: part.splits option.splits)

lemma tool_calls_of_clone:
  "map CallID (tool_calls_of (MsgParts (Message_Clone m))) = map CallID (tool_calls_of (MsgParts m))"
proof -
  have "map CallID (tool_calls_of (map (\<lambda>p. case canonicalPartValue p of None \<Rightarrow> PartNil
      | Some v \<Rightarrow> PartValue (clonePart v)) ps)) = map CallID (tool_calls_of ps)" for ps
    by (induction ps) (auto simp: clonePart_def split: option.splits ContentPart.splits)
  then show ?thesis by (simp add: Message_Clone_def)
qed

lemma ToolCallParts_Clone [simp]:
  "map CallID (ToolCallParts (Message_Clone m)) = map CallID (ToolCallParts m)"
  by (simp add: ToolCallParts_def tool_calls_of_clone)

lemma HasToolCalls_Clone [simp]: "HasToolCalls (Message_Clone m) = HasToolCalls m"
  using ToolCallParts_Clone [of m] unfolding HasToolCalls_iff
  by (metis list.map_disc_iff)

lemma ToolResultParts_Clone [simp]:
  "map ResultCallID (ToolResultParts (Message_Clone m)) = map ResultCallID (ToolResultParts m)"
proof -
  have "map ResultCallID (tool_results_of (map (\<lambda>p. case canonicalPartValue p of None \<Rightarrow> PartNil
      | Some v \<Rightarrow> PartValue (clonePart v)) ps)) = map ResultCallID (tool_results_of ps)" for ps
    by (induction ps) (auto simp: clonePart_def split: option.splits ContentPart.splits)
  then show ?thesis by (simp add: ToolResultParts_def Message_Clone_def)
qed

lemma ownCompileMessage_Clone: "ownCompileMessage E m = Inr m' \<Longrightarrow> m' = Message_Clone m"
  by (auto simp: ownCompileMessage_def Let_def bind_res_Inr_iff split: if_splits)

lemma ownCompileMessages_clone:
  assumes "ownCompileMessages E ms = Inr ms'"
  shows "ms' = cloneMessageSlice ms"
proof -
  have "list_all2 (\<lambda>x y. y = Message_Clone x) ms ms'"
    using assms unfolding ownCompileMessages_def map_res_Inr_iff
    by (rule list_all2_mono) (auto dest: ownCompileMessage_Clone)
  then show ?thesis
    by (induction rule: list_all2_induct) auto
qed

lemma validateUniqueMessageIDs_from_Inr:
  "validateUniqueMessageIDs_from seen ms = Inr () \<longleftrightarrow>
   distinct (filter (\<lambda>i. i \<noteq> []) (map MsgID ms)) \<and>
   (\<forall>m \<in> set ms. MsgID m \<noteq> [] \<longrightarrow> MsgID m \<notin> set seen)"
  by (induction seen ms rule: validateUniqueMessageIDs_from.induct) (auto, (metis imageI)+)

lemma validateUniqueMessageIDs_Inr:
  "validateUniqueMessageIDs ms = Inr () \<longleftrightarrow> distinct (filter (\<lambda>i. i \<noteq> []) (map MsgID ms))"
  by (simp add: validateUniqueMessageIDs_def validateUniqueMessageIDs_from_Inr)

lemma MessageContentRef_ID: "MessageContentRef E m = Inr r \<Longrightarrow> RefID r = MsgID m \<and> MsgID m \<noteq> []"
  by (auto simp: MessageContentRef_def bind_res_Inr_iff split: if_splits)

end
