(* ===== verification/Samples.thy ===== *)
theory Samples
  imports Message_Model
begin

text \<open>
  Concrete messages and a concrete environment, on which the witnesses of the properties
  evaluate the definitions.
\<close>

definition sampleEnv :: env where
  "sampleEnv = \<lparr>ParseMediaType = (\<lambda>s. if s = [] then None else Some s),
     MarshalDigest = (\<lambda>m. Inr (bytesToHex (take 32 (MsgID m @ replicate 32 CHR ''0''))))\<rparr>"

definition sampleMessage :: "string \<Rightarrow> Role \<Rightarrow> part list \<Rightarrow> Message" where
  "sampleMessage i r ps = \<lparr>MsgID = i, MsgRole = r, MsgActor = None, MsgParts = ps, MsgTimestamp = None,
     MsgSourceRefs = None, MsgExtensions = [], MsgOrigin = None, MsgLLMCache = None, MsgProvenance = ProvNil\<rparr>"

definition userText :: "string \<Rightarrow> string \<Rightarrow> Message" where
  "userText i t = sampleMessage i RoleUser [PartValue (TextPart t)]"

definition assistantCall :: "string \<Rightarrow> string \<Rightarrow> Message" where
  "assistantCall i c = sampleMessage i RoleAssistant
     [PartValue (ToolCallPart \<lparr>CallID = c, CallName = ''f'', CallArguments = JSONPayload ''{}'', CallArgumentsBlob = None\<rparr>)]"

definition toolReply :: "string \<Rightarrow> string \<Rightarrow> Message" where
  "toolReply i c = sampleMessage i RoleTool
     [PartValue (ToolResultPart \<lparr>ResultCallID = c, ResultName = ''f'', ResultPayload = TextPayload ''ok'', ResultIsError = False\<rparr>)]"

end
