(* ===== verification/Tool_Rounds.thy ===== *)
theory Tool_Rounds
  imports Samples
begin

text \<open>
  Tool rounds: the assistant message with tool calls and the contiguous tool messages that
  answer it. Canonical rounds and their validation (\<^verbatim>\<open>tool_turn.go\<close>), the inspection of a
  whole history into observed rounds (\<^verbatim>\<open>round_state.go\<close>) and the index computations of
  the eviction code (\<^verbatim>\<open>pipeline.go\<close>).
\<close>

subsection \<open>Canonical rounds\<close>

record ToolRound =
  RoundAssistant :: Message
  RoundResults :: "Message list"

definition ToolRound_Messages :: "ToolRound \<Rightarrow> Message list" where
  "ToolRound_Messages r = Message_Clone (RoundAssistant r) # cloneMessageSlice (RoundResults r)"

text \<open>A Go set \<^verbatim>\<open>map[string]struct{}\<close> is the list of its keys.\<close>

fun toolRoundCallIDs_from :: "string list \<Rightarrow> ToolCall list \<Rightarrow> string list result" where
  "toolRoundCallIDs_from expected [] = Inr expected"
| "toolRoundCallIDs_from expected (call # calls) =
     (if CallID call = [] then Inl (Errorf ''contexty: tool round call missing id'')
      else if CallID call \<in> set expected then Inl (Errorf ''contexty: tool round duplicate call id'')
      else toolRoundCallIDs_from (CallID call # expected) calls)"

definition toolRoundCallIDs :: "ToolCall list \<Rightarrow> string list result" where
  "toolRoundCallIDs calls = toolRoundCallIDs_from [] calls"

fun validateToolRoundResultParts ::
  "ToolResult list \<Rightarrow> string list \<Rightarrow> string list \<Rightarrow> string list result" where
  "validateToolRoundResultParts [] expected seen = Inr seen"
| "validateToolRoundResultParts (p # ps) expected seen =
     (if ResultCallID p = [] then Inl (Errorf ''contexty: tool round result missing call id'')
      else if ResultCallID p \<notin> set expected
        then Inl (Errorf ''contexty: tool round result references unknown call id'')
      else if ResultCallID p \<in> set seen
        then Inl (Errorf ''contexty: tool round duplicate result for call id'')
      else validateToolRoundResultParts ps expected (ResultCallID p # seen))"

fun validateToolRoundResults_from ::
  "Message list \<Rightarrow> string list \<Rightarrow> string list \<Rightarrow> string list result" where
  "validateToolRoundResults_from [] expected seen = Inr seen"
| "validateToolRoundResults_from (r # rs) expected seen =
     (if MsgRole r \<noteq> RoleTool then Inl (Errorf ''contexty: tool round result role'')
      else if ToolResultParts r = []
        then Inl (Errorf ''contexty: tool round result message has no tool result parts'')
      else bind_res (validateToolRoundResultParts (ToolResultParts r) expected seen)
             (\<lambda>seen'. validateToolRoundResults_from rs expected seen'))"

definition validateToolRoundResults :: "Message list \<Rightarrow> string list \<Rightarrow> string list result" where
  "validateToolRoundResults results expected = validateToolRoundResults_from results expected []"

definition ToolRound_Validate :: "ToolRound \<Rightarrow> unit result" where
  "ToolRound_Validate r =
     (if MsgRole (RoundAssistant r) \<noteq> RoleAssistant
        then Inl (Errorf ''contexty: tool round assistant role'')
      else if ToolCallParts (RoundAssistant r) = []
        then Inl (Errorf ''contexty: tool round assistant has no tool calls'')
      else bind_res (toolRoundCallIDs (ToolCallParts (RoundAssistant r))) (\<lambda>expected.
           bind_res (validateToolRoundResults (RoundResults r) expected) (\<lambda>seenResults.
           if length seenResults \<noteq> length expected
             then Inl (Errorf ''contexty: tool round incomplete'') else Inr ())))"

definition leading_tools :: "Message list \<Rightarrow> Message list" where
  "leading_tools ms = takeWhile (\<lambda>m. MsgRole m = RoleTool) ms"

definition ToolRoundFromMessages :: "Message list \<Rightarrow> nat \<Rightarrow> ToolRound result" where
  "ToolRoundFromMessages msgs i =
     (if length msgs \<le> i then Inl (Errorf ''contexty: tool round assistant index out of range'')
      else let round = \<lparr>RoundAssistant = Message_Clone (msgs ! i),
                        RoundResults = cloneMessageSlice (leading_tools (drop (Suc i) msgs))\<rparr>
           in bind_res (ToolRound_Validate round) (\<lambda>_. Inr round))"

definition ToolTurnUsesCanonicalLayout :: "Message list \<Rightarrow> nat \<Rightarrow> bool" where
  "ToolTurnUsesCanonicalLayout msgs i =
     (case ToolRoundFromMessages msgs i of Inl _ \<Rightarrow> False | Inr _ \<Rightarrow> True)"

function toolRoundsFrom :: "Message list \<Rightarrow> nat \<Rightarrow> ToolRound list" where
  "toolRoundsFrom msgs i =
     (if length msgs \<le> i then []
      else if MsgRole (msgs ! i) \<noteq> RoleAssistant \<or> \<not> HasToolCalls (msgs ! i)
        then toolRoundsFrom msgs (Suc i)
      else case ToolRoundFromMessages msgs i of
             Inl _ \<Rightarrow> toolRoundsFrom msgs (Suc i)
           | Inr round \<Rightarrow> round # toolRoundsFrom msgs (Suc (i + length (RoundResults round))))"
  by pat_completeness auto
termination
  by (relation "measure (\<lambda>(msgs, i). length msgs - i)") auto

declare toolRoundsFrom.simps [simp del]

definition toolRoundsFromMessages :: "Message list \<Rightarrow> ToolRound list" where
  "toolRoundsFromMessages msgs = toolRoundsFrom msgs 0"

subsection \<open>Observed rounds\<close>

datatype ToolRoundState =
  ToolRoundComplete | ToolRoundPending | ToolRoundInterrupted | ToolRoundStateOther string

definition validToolRoundState :: "ToolRoundState \<Rightarrow> bool" where
  "validToolRoundState s = (case s of ToolRoundStateOther _ \<Rightarrow> False | _ \<Rightarrow> True)"

record ToolRoundObservation =
  ObsAssistantID :: string
  ObsStart :: nat
  ObsEnd :: nat
  ObsState :: ToolRoundState
  ObsMissing :: "string list"

text \<open>A host declaration \<^verbatim>\<open>map[string]ToolRoundState\<close> is an association list.\<close>

type_synonym declarations = "(string \<times> ToolRoundState) list"

fun contiguous_from :: "Message list \<Rightarrow> nat \<Rightarrow> nat \<Rightarrow> nat" where
  "contiguous_from [] idx end_idx = end_idx"
| "contiguous_from (m # ms) idx end_idx =
     (if MsgRole m \<noteq> RoleTool then end_idx else contiguous_from ms (Suc idx) idx)"

definition contiguousToolBlockEnd :: "Message list \<Rightarrow> nat \<Rightarrow> nat" where
  "contiguousToolBlockEnd msgs i = contiguous_from (drop (Suc i) msgs) (Suc i) i"

definition missingCallIDs :: "ToolCall list \<Rightarrow> string list \<Rightarrow> string list" where
  "missingCallIDs calls seen = filter (\<lambda>i. i \<notin> set seen) (map CallID calls)"

definition declareRound ::
  "declarations \<Rightarrow> ToolRoundObservation \<Rightarrow> ToolRoundObservation result" where
  "declareRound declared obs =
     (case map_of declared (ObsAssistantID obs) of
        None \<Rightarrow> Inr obs
      | Some d \<Rightarrow>
          if \<not> validToolRoundState d then Inl ErrUnknownToolRoundState
          else if d = ToolRoundInterrupted \<and> ObsState obs = ToolRoundPending
            then Inr (obs\<lparr>ObsState := d\<rparr>)
          else if d \<noteq> ObsState obs then Inl ErrToolRoundStateConflict
          else Inr obs)"

definition inspectToolRound ::
  "Message \<Rightarrow> Message list \<Rightarrow> nat \<Rightarrow> nat \<Rightarrow> declarations \<Rightarrow> ToolRoundObservation result" where
  "inspectToolRound assistant results start end_idx declared =
     (case toolRoundCallIDs (ToolCallParts assistant) of
        Inl e \<Rightarrow> Inl (Wrap ErrInvalidToolRound e)
      | Inr expected \<Rightarrow>
          (case validateToolRoundResults results expected of
             Inl e \<Rightarrow> Inl (Wrap ErrInvalidToolRound e)
           | Inr seen \<Rightarrow>
               if \<exists>r \<in> set results. HasToolCalls r then Inl ErrInvalidToolRound
               else let missing = missingCallIDs (ToolCallParts assistant) seen in
                    declareRound declared
                      \<lparr>ObsAssistantID = MsgID assistant, ObsStart = start, ObsEnd = end_idx,
                       ObsState = (if missing = [] then ToolRoundComplete else ToolRoundPending),
                       ObsMissing = missing\<rparr>))"

lemma contiguous_from_eq:
  "contiguous_from ms (Suc e) e = e + length (leading_tools ms)"
  by (induction ms arbitrary: e) (auto simp: leading_tools_def)

lemma contiguousToolBlockEnd_eq:
  "contiguousToolBlockEnd msgs i = i + length (leading_tools (drop (Suc i) msgs))"
  by (simp add: contiguousToolBlockEnd_def contiguous_from_eq)

lemma contiguousToolBlockEnd_ge [simp]: "i \<le> contiguousToolBlockEnd msgs i"
  by (simp add: contiguousToolBlockEnd_eq)

text \<open>The scanning loop; the context of declared states is checked after it.\<close>

function inspectRounds ::
  "Message list \<Rightarrow> declarations \<Rightarrow> nat \<Rightarrow> string list \<Rightarrow> (ToolRoundObservation list \<times> string list) result" where
  "inspectRounds msgs declared i seen =
     (if length msgs \<le> i then Inr ([], seen)
      else let m = msgs ! i in
        if MsgRole m = RoleTool \<or> ToolResultParts m \<noteq> [] then Inl ErrInvalidToolRound
        else if \<not> HasToolCalls m then inspectRounds msgs declared (Suc i) seen
        else if MsgRole m \<noteq> RoleAssistant then Inl ErrInvalidToolRound
        else if MsgID m \<noteq> [] \<and> MsgID m \<in> set seen then Inl ErrInvalidToolRound
        else let e = contiguousToolBlockEnd msgs i in
          bind_res (inspectToolRound m (take (e - i) (drop (Suc i) msgs)) i e declared) (\<lambda>obs.
          bind_res (inspectRounds msgs declared (Suc e) (MsgID m # seen)) (\<lambda>(rest, seen').
          Inr (obs # rest, seen'))))"
  by pat_completeness auto
termination
  by (relation "measure (\<lambda>(msgs, _, i, _). length msgs - i)")
    (auto simp: le_imp_less_Suc diff_less_mono2)

declare inspectRounds.simps [simp del]

definition InspectToolRoundStates ::
  "Message list \<Rightarrow> declarations \<Rightarrow> ToolRoundObservation list result" where
  "InspectToolRoundStates msgs declared =
     bind_res (inspectRounds msgs declared 0 []) (\<lambda>(obs, seen).
     if \<exists>(i, s) \<in> set declared. i = [] \<or> i \<notin> set seen \<or> \<not> validToolRoundState s
     then Inl ErrUnknownToolRoundState else Inr obs)"

subsection \<open>What validation means\<close>

definition call_ids :: "Message \<Rightarrow> string list" where
  "call_ids m = map CallID (ToolCallParts m)"

definition result_ids :: "Message list \<Rightarrow> string list" where
  "result_ids ms = concat (map (\<lambda>m. map ResultCallID (ToolResultParts m)) ms)"

text \<open>
  The contract of a round, without the loops: one assistant message whose calls carry
  distinct nonempty identities, and tool messages whose results answer these calls, each
  exactly once.
\<close>

definition well_formed_calls :: "Message \<Rightarrow> bool" where
  "well_formed_calls m \<longleftrightarrow> distinct (call_ids m) \<and> [] \<notin> set (call_ids m)"

definition answers :: "Message list \<Rightarrow> string list \<Rightarrow> bool" where
  "answers rs ids \<longleftrightarrow> (\<forall>r \<in> set rs. MsgRole r = RoleTool \<and> ToolResultParts r \<noteq> []) \<and>
     distinct (result_ids rs) \<and> [] \<notin> set (result_ids rs) \<and> set (result_ids rs) \<subseteq> set ids"

definition canonical_round :: "ToolRound \<Rightarrow> bool" where
  "canonical_round r \<longleftrightarrow> MsgRole (RoundAssistant r) = RoleAssistant \<and>
     call_ids (RoundAssistant r) \<noteq> [] \<and> well_formed_calls (RoundAssistant r) \<and>
     answers (RoundResults r) (call_ids (RoundAssistant r)) \<and>
     set (result_ids (RoundResults r)) = set (call_ids (RoundAssistant r))"

lemma result_ids_simps [simp]:
  "result_ids [] = []"
  "result_ids (m # ms) = map ResultCallID (ToolResultParts m) @ result_ids ms"
  by (simp_all add: result_ids_def)

lemma call_ids_Clone [simp]: "call_ids (Message_Clone m) = call_ids m"
  by (simp add: call_ids_def)

lemma result_ids_clone [simp]: "result_ids (cloneMessageSlice ms) = result_ids ms"
  by (induction ms) auto

lemma toolRoundCallIDs_from_Inr:
  "toolRoundCallIDs_from ex calls = Inr ex' \<longleftrightarrow>
     distinct (map CallID calls) \<and> [] \<notin> set (map CallID calls) \<and>
     set (map CallID calls) \<inter> set ex = {} \<and> ex' = rev (map CallID calls) @ ex"
  by (induction ex calls rule: toolRoundCallIDs_from.induct) auto

lemma toolRoundCallIDs_Inr:
  "toolRoundCallIDs (ToolCallParts m) = Inr ex \<longleftrightarrow> well_formed_calls m \<and> ex = rev (call_ids m)"
  by (auto simp: toolRoundCallIDs_def toolRoundCallIDs_from_Inr well_formed_calls_def call_ids_def)

lemma validateToolRoundResultParts_Inr:
  "validateToolRoundResultParts ps ex seen = Inr seen' \<longleftrightarrow>
     distinct (map ResultCallID ps) \<and> [] \<notin> set (map ResultCallID ps) \<and>
     set (map ResultCallID ps) \<subseteq> set ex \<and> set (map ResultCallID ps) \<inter> set seen = {} \<and>
     seen' = rev (map ResultCallID ps) @ seen"
  by (induction ps ex seen rule: validateToolRoundResultParts.induct) auto

lemma validateToolRoundResults_from_Inr:
  "validateToolRoundResults_from rs ex seen = Inr seen' \<longleftrightarrow>
     answers rs ex \<and> set (result_ids rs) \<inter> set seen = {} \<and> seen' = rev (result_ids rs) @ seen"
proof (induction rs ex seen arbitrary: seen' rule: validateToolRoundResults_from.induct)
  case (1 ex seen)
  then show ?case by (auto simp: answers_def)
next
  case (2 r rs ex seen)
  show ?case
    by (auto simp: "2.IH" answers_def bind_res_Inr_iff validateToolRoundResultParts_Inr)
qed

lemma validateToolRoundResults_Inr:
  "validateToolRoundResults rs ex = Inr seen \<longleftrightarrow> answers rs ex \<and> seen = rev (result_ids rs)"
  by (simp add: validateToolRoundResults_def validateToolRoundResults_from_Inr)

lemma answers_rev [simp]: "answers rs (rev ids) = answers rs ids"
  by (simp add: answers_def)

lemma answers_clone [simp]: "answers (cloneMessageSlice rs) ids = answers rs ids"
proof -
  have "(ToolResultParts (Message_Clone r) = []) = (ToolResultParts r = [])" for r
    using ToolResultParts_Clone [of r] by (metis list.map_disc_iff)
  then show ?thesis
    by (simp add: answers_def) (auto simp: cloneMessageSlice_def)
qed

lemma well_formed_calls_clone [simp]: "well_formed_calls (Message_Clone m) = well_formed_calls m"
  by (simp add: well_formed_calls_def)

lemma answered_all_iff:
  assumes "well_formed_calls m" "answers rs (call_ids m)"
  shows "length (result_ids rs) = length (call_ids m) \<longleftrightarrow> set (result_ids rs) = set (call_ids m)"
proof -
  have d: "distinct (result_ids rs)" "distinct (call_ids m)" "set (result_ids rs) \<subseteq> set (call_ids m)"
    using assms by (auto simp: answers_def well_formed_calls_def)
  then show ?thesis
    by (metis List.finite_set card_subset_eq distinct_card)
qed

lemma ToolRound_Validate_iff: "ToolRound_Validate r = Inr () \<longleftrightarrow> canonical_round r"
proof -
  have "ToolCallParts (RoundAssistant r) = [] \<longleftrightarrow> call_ids (RoundAssistant r) = []"
    by (simp add: call_ids_def)
  then show ?thesis
    by (auto simp: ToolRound_Validate_def canonical_round_def bind_res_Inr_iff
        toolRoundCallIDs_Inr validateToolRoundResults_Inr answered_all_iff)
qed

lemma canonical_round_clone:
  "canonical_round \<lparr>RoundAssistant = Message_Clone a, RoundResults = cloneMessageSlice rs\<rparr> \<longleftrightarrow>
   canonical_round \<lparr>RoundAssistant = a, RoundResults = rs\<rparr>"
  by (simp add: canonical_round_def)

lemma ToolRoundFromMessages_Inr:
  "ToolRoundFromMessages msgs i = Inr r \<longleftrightarrow>
     i < length msgs \<and>
     canonical_round \<lparr>RoundAssistant = msgs ! i, RoundResults = leading_tools (drop (Suc i) msgs)\<rparr> \<and>
     r = \<lparr>RoundAssistant = Message_Clone (msgs ! i),
          RoundResults = cloneMessageSlice (leading_tools (drop (Suc i) msgs))\<rparr>"
  by (auto simp: ToolRoundFromMessages_def Let_def bind_res_Inr_iff ToolRound_Validate_iff
      canonical_round_clone)

lemma leading_tools_role: "m \<in> set (leading_tools ms) \<Longrightarrow> MsgRole m = RoleTool"
  by (auto simp: leading_tools_def dest: set_takeWhileD)

lemma leading_tools_all:
  "(\<forall>m \<in> set xs. MsgRole m = RoleTool) \<Longrightarrow> leading_tools (xs @ ys) = xs @ leading_tools ys"
  by (simp add: leading_tools_def)

lemma leading_tools_id [simp]:
  "(\<forall>m \<in> set xs. MsgRole m = RoleTool) \<Longrightarrow> leading_tools xs = xs"
  by (simp add: leading_tools_def)

lemma take_length_leading_tools [simp]:
  "take (length (leading_tools ms)) ms = leading_tools ms"
  by (metis leading_tools_def takeWhile_eq_take)

lemma Message_Clone_tool_rounds:
  assumes "canonical_round r"
  shows "ToolRoundFromMessages (ToolRound_Messages r) 0 =
         Inr \<lparr>RoundAssistant = Message_Clone (Message_Clone (RoundAssistant r)),
              RoundResults = cloneMessageSlice (cloneMessageSlice (RoundResults r))\<rparr>"
proof -
  have roles: "\<forall>m \<in> set (cloneMessageSlice (RoundResults r)). MsgRole m = RoleTool"
    using assms by (auto simp: canonical_round_def answers_def cloneMessageSlice_def)
  then have "leading_tools (cloneMessageSlice (RoundResults r)) = cloneMessageSlice (RoundResults r)"
    by simp
  with assms show ?thesis
    by (simp add: ToolRoundFromMessages_Inr ToolRound_Messages_def canonical_round_def)
qed

lemma leading_tools_nth:
  assumes "j < length (leading_tools (drop (Suc i) msgs))"
  shows "MsgRole (msgs ! (Suc i + j)) = RoleTool \<and> Suc i + j < length msgs"
proof -
  have len: "length (leading_tools (drop (Suc i) msgs)) \<le> length (drop (Suc i) msgs)"
    unfolding leading_tools_def by (rule length_takeWhile_le)
  have "leading_tools (drop (Suc i) msgs) ! j = drop (Suc i) msgs ! j"
    unfolding leading_tools_def by (rule takeWhile_nth) (use assms in \<open>simp add: leading_tools_def\<close>)
  moreover have "MsgRole (leading_tools (drop (Suc i) msgs) ! j) = RoleTool"
    by (rule leading_tools_role [OF nth_mem]) (use assms in simp)
  ultimately show ?thesis using assms len by simp
qed

lemma round_inside_tool:
  assumes "ToolRoundFromMessages msgs i = Inr r" "i < k" "k \<le> i + length (RoundResults r)"
  shows "MsgRole (msgs ! k) = RoleTool \<and> k < length msgs"
proof -
  have "k - Suc i < length (leading_tools (drop (Suc i) msgs))"
    using assms by (auto simp: ToolRoundFromMessages_Inr)
  from leading_tools_nth [OF this] assms(2) show ?thesis by simp
qed

lemma round_start_assistant:
  "ToolRoundFromMessages msgs i = Inr r \<Longrightarrow> MsgRole (msgs ! i) = RoleAssistant \<and> i < length msgs"
  by (auto simp: ToolRoundFromMessages_Inr canonical_round_def)

subsection \<open>What an inspection means\<close>

text \<open>The tool messages of an observed round.\<close>

definition round_results :: "Message list \<Rightarrow> nat \<Rightarrow> Message list" where
  "round_results msgs i = leading_tools (drop (Suc i) msgs)"

text \<open>
  \<open>observed msgs obs\<close>: the observation describes a round that is really there, with
  exactly the calls that have no result listed as missing.
\<close>

definition observed :: "Message list \<Rightarrow> ToolRoundObservation \<Rightarrow> bool" where
  "observed msgs obs \<longleftrightarrow>
     ObsStart obs < length msgs \<and> ObsEnd obs = ObsStart obs + length (round_results msgs (ObsStart obs)) \<and>
     MsgRole (msgs ! ObsStart obs) = RoleAssistant \<and> HasToolCalls (msgs ! ObsStart obs) \<and>
     ObsAssistantID obs = MsgID (msgs ! ObsStart obs) \<and>
     well_formed_calls (msgs ! ObsStart obs) \<and>
     answers (round_results msgs (ObsStart obs)) (call_ids (msgs ! ObsStart obs)) \<and>
     (\<forall>r \<in> set (round_results msgs (ObsStart obs)). \<not> HasToolCalls r) \<and>
     ObsMissing obs = filter (\<lambda>i. i \<notin> set (result_ids (round_results msgs (ObsStart obs))))
                        (call_ids (msgs ! ObsStart obs)) \<and>
     (ObsState obs = ToolRoundComplete \<longleftrightarrow> ObsMissing obs = []) \<and>
     validToolRoundState (ObsState obs)"

text \<open>A message with no role in any round.\<close>

definition plain :: "Message \<Rightarrow> bool" where
  "plain m \<longleftrightarrow> MsgRole m \<noteq> RoleTool \<and> ToolResultParts m = [] \<and> \<not> HasToolCalls m"

definition in_round :: "ToolRoundObservation list \<Rightarrow> nat \<Rightarrow> bool" where
  "in_round obs k \<longleftrightarrow> (\<exists>o' \<in> set obs. ObsStart o' \<le> k \<and> k \<le> ObsEnd o')"

definition before_round :: "ToolRoundObservation \<Rightarrow> ToolRoundObservation \<Rightarrow> bool" where
  "before_round a b \<longleftrightarrow> ObsEnd a < ObsStart b"

lemma declareRound_Inr:
  assumes "declareRound d obs = Inr obs'" and "validToolRoundState (ObsState obs)"
  shows "obs' = obs \<or> (ObsState obs = ToolRoundPending \<and> obs' = obs\<lparr>ObsState := ToolRoundInterrupted\<rparr>)"
  using assms by (auto simp: declareRound_def split: option.splits if_splits)

lemma inspectToolRound_Inr:
  assumes "inspectToolRound (msgs ! i) (round_results msgs i) i (i + length (round_results msgs i)) d = Inr obs"
    and "i < length msgs" "MsgRole (msgs ! i) = RoleAssistant" "HasToolCalls (msgs ! i)"
  shows "observed msgs obs \<and> ObsStart obs = i"
proof -
  let ?m = "msgs ! i" and ?rs = "round_results msgs i"
  let ?missing = "missingCallIDs (ToolCallParts ?m) (rev (result_ids ?rs))"
  from assms(1) have wf: "well_formed_calls ?m" "answers ?rs (call_ids ?m)" "\<forall>r \<in> set ?rs. \<not> HasToolCalls r"
    and decl: "declareRound d \<lparr>ObsAssistantID = MsgID ?m, ObsStart = i, ObsEnd = i + length ?rs,
        ObsState = (if ?missing = [] then ToolRoundComplete else ToolRoundPending),
        ObsMissing = ?missing\<rparr> = Inr obs"
    by (auto simp: inspectToolRound_def Let_def toolRoundCallIDs_Inr validateToolRoundResults_Inr
        split: sum.splits if_splits)
  have "validToolRoundState (if ?missing = [] then ToolRoundComplete else ToolRoundPending)"
    by (simp add: validToolRoundState_def)
  with declareRound_Inr [OF decl] obtain st where
    obs: "obs = \<lparr>ObsAssistantID = MsgID ?m, ObsStart = i, ObsEnd = i + length ?rs,
        ObsState = st, ObsMissing = ?missing\<rparr>" and
    st: "st = ToolRoundComplete \<longleftrightarrow> ?missing = []" "validToolRoundState st"
    by (auto simp: validToolRoundState_def split: if_splits)
  have "?missing = filter (\<lambda>i. i \<notin> set (result_ids ?rs)) (call_ids ?m)"
    by (simp add: missingCallIDs_def call_ids_def)
  with st wf assms(2-4) show ?thesis
    by (simp add: obs observed_def)
qed

lemma round_results_take:
  "take (contiguousToolBlockEnd msgs i - i) (drop (Suc i) msgs) = round_results msgs i"
  by (simp add: contiguousToolBlockEnd_eq round_results_def)

lemma inspectRounds_sound:
  assumes "inspectRounds msgs d i seen = Inr (obs, seen')"
  shows "sorted_wrt before_round obs \<and> (\<forall>x \<in> set obs. i \<le> ObsStart x \<and> observed msgs x) \<and>
         (\<forall>k. i \<le> k \<and> k < length msgs \<longrightarrow> in_round obs k \<or> plain (msgs ! k)) \<and>
         seen' = rev (map ObsAssistantID obs) @ seen"
  using assms
proof (induction msgs d i seen arbitrary: obs seen' rule: inspectRounds.induct)
  case (1 msgs d i seen)
  show ?case
  proof (cases "i < length msgs")
    case False
    with "1.prems" show ?thesis by (auto simp: inspectRounds.simps [of msgs d i])
  next
    case True
    let ?m = "msgs ! i" and ?e = "contiguousToolBlockEnd msgs i"
    show ?thesis
    proof (cases "HasToolCalls ?m")
      case False
      with True "1.prems" have "\<not> (MsgRole ?m = RoleTool \<or> ToolResultParts ?m \<noteq> [])"
        and rest: "inspectRounds msgs d (Suc i) seen = Inr (obs, seen')"
        by (auto simp: inspectRounds.simps [of msgs d i] Let_def split: if_splits)
      with False have "plain ?m" by (simp add: plain_def)
      moreover have "sorted_wrt before_round obs \<and> (\<forall>x \<in> set obs. Suc i \<le> ObsStart x \<and> observed msgs x) \<and>
         (\<forall>k. Suc i \<le> k \<and> k < length msgs \<longrightarrow> in_round obs k \<or> plain (msgs ! k)) \<and>
         seen' = rev (map ObsAssistantID obs) @ seen"
        using "1.IH"(1) [OF _ refl _ False rest] True \<open>\<not> (MsgRole ?m = RoleTool \<or> ToolResultParts ?m \<noteq> [])\<close>
        by simp
      ultimately show ?thesis by (metis Suc_leD le_antisym not_less_eq_eq)
    next
      case calls: True
      from True calls "1.prems" obtain x rest where
        guards: "\<not> (MsgRole ?m = RoleTool \<or> ToolResultParts ?m \<noteq> [])" "MsgRole ?m = RoleAssistant"
          "\<not> (MsgID ?m \<noteq> [] \<and> MsgID ?m \<in> set seen)" and
        x: "inspectToolRound ?m (round_results msgs i) i ?e d = Inr x" and
        r: "inspectRounds msgs d (Suc ?e) (MsgID ?m # seen) = Inr (rest, seen')" and
        obs: "obs = x # rest"
        by (auto simp: inspectRounds.simps [of msgs d i] Let_def bind_res_Inr_iff round_results_take
            split: if_splits)
      have e: "?e = i + length (round_results msgs i)"
        by (simp add: contiguousToolBlockEnd_eq round_results_def)
      have ob: "observed msgs x" "ObsStart x = i"
        using inspectToolRound_Inr x True guards calls unfolding e by blast+
      have IH: "sorted_wrt before_round rest \<and> (\<forall>y \<in> set rest. Suc ?e \<le> ObsStart y \<and> observed msgs y) \<and>
         (\<forall>k. Suc ?e \<le> k \<and> k < length msgs \<longrightarrow> in_round rest k \<or> plain (msgs ! k)) \<and>
         seen' = rev (map ObsAssistantID rest) @ MsgID ?m # seen"
        using "1.IH"(2) [OF _ refl _ _ _ _ refl r] True calls guards by simp
      have xe: "ObsEnd x = ?e" "ObsAssistantID x = MsgID ?m" using ob e by (auto simp: observed_def)
      have cover: "in_round obs k \<or> plain (msgs ! k)" if "i \<le> k" "k < length msgs" for k
      proof (cases "k \<le> ?e")
        case True
        then show ?thesis using ob xe that by (auto simp: in_round_def obs)
      next
        case False
        then show ?thesis using IH that by (auto simp: in_round_def obs)
      qed
      have "i \<le> ObsStart y \<and> observed msgs y" if "y \<in> set obs" for y
      proof (cases "y = x")
        case True
        then show ?thesis using ob by simp
      next
        case False
        with that IH have "Suc ?e \<le> ObsStart y" "observed msgs y" by (auto simp: obs)
        then show ?thesis using contiguousToolBlockEnd_ge [of i msgs] by linarith
      qed
      then have "\<forall>y \<in> set obs. i \<le> ObsStart y \<and> observed msgs y" by blast
      moreover have "sorted_wrt before_round obs"
        using IH xe by (auto simp: obs before_round_def Suc_le_eq)
      ultimately show ?thesis using cover IH xe by (auto simp: obs)
    qed
  qed
qed

lemma InspectToolRoundStates_sound:
  assumes "InspectToolRoundStates msgs d = Inr obs"
  shows "sorted_wrt before_round obs" "\<And>x. x \<in> set obs \<Longrightarrow> observed msgs x"
    "\<And>k. k < length msgs \<Longrightarrow> in_round obs k \<or> plain (msgs ! k)"
    "\<And>i s. (i, s) \<in> set d \<Longrightarrow> i \<in> ObsAssistantID ` set obs \<and> validToolRoundState s"
proof -
  from assms obtain seen where "inspectRounds msgs d 0 [] = Inr (obs, seen)"
    and "\<not> (\<exists>(i, s) \<in> set d. i = [] \<or> i \<notin> set seen \<or> \<not> validToolRoundState s)"
    by (auto simp: InspectToolRoundStates_def bind_res_Inr_iff split: if_splits)
  from inspectRounds_sound [OF this(1)] this(2)
  show "sorted_wrt before_round obs" "\<And>x. x \<in> set obs \<Longrightarrow> observed msgs x"
    "\<And>k. k < length msgs \<Longrightarrow> in_round obs k \<or> plain (msgs ! k)"
    "\<And>i s. (i, s) \<in> set d \<Longrightarrow> i \<in> ObsAssistantID ` set obs \<and> validToolRoundState s"
    by auto
qed

lemma observed_complete_iff:
  assumes "observed msgs x"
  shows "ObsState x = ToolRoundComplete \<longleftrightarrow> ToolTurnUsesCanonicalLayout msgs (ObsStart x)"
proof -
  have "ObsState x = ToolRoundComplete \<longleftrightarrow>
      set (call_ids (msgs ! ObsStart x)) \<subseteq> set (result_ids (round_results msgs (ObsStart x)))"
    using assms by (auto simp: observed_def filter_empty_conv)
  also have "\<dots> \<longleftrightarrow> canonical_round \<lparr>RoundAssistant = msgs ! ObsStart x,
      RoundResults = leading_tools (drop (Suc (ObsStart x)) msgs)\<rparr>"
    using assms by (auto simp: observed_def canonical_round_def round_results_def answers_def
        HasToolCalls_iff call_ids_def)
  also have "\<dots> \<longleftrightarrow> ToolTurnUsesCanonicalLayout msgs (ObsStart x)"
  proof -
    have "ObsStart x < length msgs" using assms by (simp add: observed_def)
    then show ?thesis
      by (auto simp: ToolTurnUsesCanonicalLayout_def ToolRoundFromMessages_Inr split: sum.splits)
        (metis ToolRoundFromMessages_Inr Inr_not_Inl)
  qed
  finally show ?thesis .
qed


subsection \<open>Properties\<close>

text \<open>
  C17. \<^verbatim>\<open>ToolRound.Validate\<close> accepts exactly the canonical rounds: an assistant message whose
  tool calls have distinct nonempty identities, followed by tool messages that carry
  results only, and answer each of these calls exactly once.
\<close>

theorem ToolRound_Validate_canonical: "ToolRound_Validate r = Inr () \<longleftrightarrow> canonical_round r"
  by (rule ToolRound_Validate_iff)

definition sampleRoundHistory :: "Message list" where
  "sampleRoundHistory = [userText ''u1'' ''hello'', assistantCall ''a1'' ''c1'', toolReply ''t1'' ''c1'',
     assistantCall ''a2'' ''c2'']"

text \<open>
  C16. A successful inspection describes the whole history: the observed rounds are disjoint
  and in order, every observation is accurate (its range is the maximal block of tool
  messages, its missing identities are exactly the unanswered calls, it is complete
  exactly when none is missing and then passes \<^verbatim>\<open>ToolRoundFromMessages\<close>), every message
  outside of the rounds is free of tool calls and results, and every declared state
  belongs to an observed round.
\<close>

theorem InspectToolRoundStates_accurate:
  assumes "InspectToolRoundStates msgs declared = Inr obs"
  shows "sorted_wrt before_round obs \<and>
     (\<forall>x \<in> set obs. observed msgs x \<and>
        (ObsState x = ToolRoundComplete \<longleftrightarrow> ToolTurnUsesCanonicalLayout msgs (ObsStart x))) \<and>
     (\<forall>k < length msgs. in_round obs k \<or> plain (msgs ! k)) \<and>
     (\<forall>(i, s) \<in> set declared. i \<in> ObsAssistantID ` set obs \<and> validToolRoundState s)"
  using InspectToolRoundStates_sound [OF assms] observed_complete_iff by auto

lemma sampleRoundHistory_inspect:
  "InspectToolRoundStates sampleRoundHistory [(''a2'', ToolRoundInterrupted)] =
     Inr [\<lparr>ObsAssistantID = ''a1'', ObsStart = 1, ObsEnd = 2, ObsState = ToolRoundComplete, ObsMissing = []\<rparr>,
          \<lparr>ObsAssistantID = ''a2'', ObsStart = 3, ObsEnd = 3, ObsState = ToolRoundInterrupted, ObsMissing = [''c2'']\<rparr>]"
  by code_simp

theorem InspectToolRoundStates_accurate_witness:
  "ToolTurnUsesCanonicalLayout sampleRoundHistory 1 \<and> \<not> ToolTurnUsesCanonicalLayout sampleRoundHistory 3"
  using InspectToolRoundStates_accurate [OF sampleRoundHistory_inspect] by simp

text \<open>
  A canonical round survives the trip through its messages: rebuilding it from
  \<^verbatim>\<open>ToolRound.Messages()\<close> succeeds and yields the same calls and results.
\<close>

theorem ToolRound_Messages_roundtrip:
  assumes "ToolRound_Validate r = Inr ()"
  shows "\<exists>r'. ToolRoundFromMessages (ToolRound_Messages r) 0 = Inr r' \<and>
     call_ids (RoundAssistant r') = call_ids (RoundAssistant r) \<and>
     result_ids (RoundResults r') = result_ids (RoundResults r) \<and> ToolRound_Validate r' = Inr ()"
  using assms by (simp add: ToolRound_Validate_iff Message_Clone_tool_rounds canonical_round_clone)
    (simp add: canonical_round_def)

theorem ToolRound_Messages_roundtrip_witness:
  "\<exists>r'. ToolRoundFromMessages
       (ToolRound_Messages \<lparr>RoundAssistant = assistantCall ''a1'' ''c1'', RoundResults = [toolReply ''t1'' ''c1'']\<rparr>) 0 =
       Inr r' \<and> call_ids (RoundAssistant r') = [''c1'']"
proof -
  let ?r = "\<lparr>RoundAssistant = assistantCall ''a1'' ''c1'', RoundResults = [toolReply ''t1'' ''c1'']\<rparr>"
  have "ToolRound_Validate ?r = Inr ()" "call_ids (RoundAssistant ?r) = [''c1'']" by code_simp+
  with ToolRound_Messages_roundtrip [of ?r] show ?thesis by metis
qed

end
