(* ===== verification/Estimators.thy ===== *)
theory Estimators
  imports Samples
begin

text \<open>
  Token estimation: checked arithmetic (\<^verbatim>\<open>estimate_arithmetic.go\<close>, \<^verbatim>\<open>estimate_report.go\<close>),
  the character, fixed-weight and character-ratio estimators (\<^verbatim>\<open>estimator.go\<close>,
  \<^verbatim>\<open>fixed_estimator.go\<close>, \<^verbatim>\<open>token.go\<close>) and the callback boundary
  (\<^verbatim>\<open>estimator_callback.go\<close>).
\<close>

subsection \<open>Checked arithmetic\<close>

definition addEstimateTokens :: "int \<Rightarrow> int \<Rightarrow> int result" where
  "addEstimateTokens a b =
     (if a < 0 \<or> b < 0 \<or> b > go_sub MaxInt a then Inl ErrInconsistentEstimate
      else Inr (go_add a b))"

definition multiplyEstimateTokens :: "int \<Rightarrow> int \<Rightarrow> int result" where
  "multiplyEstimateTokens a b =
     (if a < 0 \<or> b < 0 \<or> (a \<noteq> 0 \<and> b > go_div MaxInt a) then Inl ErrInconsistentEstimate
      else Inr (go_mul a b))"

fun sum_from :: "int \<Rightarrow> int list \<Rightarrow> int result" where
  "sum_from tot [] = Inr tot"
| "sum_from tot (w # ws) = bind_res (addEstimateTokens tot w) (\<lambda>t. sum_from t ws)"

definition sumEstimateTokens :: "int list \<Rightarrow> int result" where
  "sumEstimateTokens ws = sum_from 0 ws"

subsection \<open>Runes\<close>

text \<open>
  \<^verbatim>\<open>utf8.RuneCountInString\<close>: the width of the first rune of a nonempty byte string, one
  byte for every byte that does not start a well-formed sequence.
\<close>

definition continuation :: "nat \<Rightarrow> nat \<Rightarrow> char list \<Rightarrow> nat \<Rightarrow> bool" where
  "continuation lo hi bs n \<longleftrightarrow> n < length bs \<and> lo \<le> of_char (bs ! n) \<and> of_char (bs ! n) \<le> hi"

definition rune_width :: "string \<Rightarrow> nat" where
  "rune_width bs = (let b = (of_char (hd bs) :: nat) in
     if 194 \<le> b \<and> b \<le> 223 then (if continuation 128 191 bs 1 then 2 else 1)
     else if 224 \<le> b \<and> b \<le> 239 then
       (if continuation (if b = 224 then 160 else 128) (if b = 237 then 159 else 191) bs 1 \<and>
           continuation 128 191 bs 2 then 3 else 1)
     else if 240 \<le> b \<and> b \<le> 244 then
       (if continuation (if b = 240 then 144 else 128) (if b = 244 then 143 else 191) bs 1 \<and>
           continuation 128 191 bs 2 \<and> continuation 128 191 bs 3 then 4 else 1)
     else 1)"

lemma rune_width_pos [simp]: "0 < rune_width bs"
  by (simp add: rune_width_def Let_def)

function RuneCountInString :: "string \<Rightarrow> nat" where
  "RuneCountInString bs = (if bs = [] then 0 else Suc (RuneCountInString (drop (rune_width bs) bs)))"
  by pat_completeness auto
termination
  by (relation "measure length") (auto simp: rune_width_pos)

declare RuneCountInString.simps [simp del]

subsection \<open>Estimators\<close>

definition DefaultTokensPerNonTextPart :: int where
  "DefaultTokensPerNonTextPart = 85"

definition ToolCallOverhead :: int where
  "ToolCallOverhead = 20"

definition OpaqueStateExtensionType :: string where
  "OpaqueStateExtensionType = ''contexty.opaque_state''"

record FixedWeights =
  TokensPerMessage :: int
  TokensPerContentPart :: int
  TokensPerToolCall :: int

record FallbackWeights =
  CharsPerToken :: int
  TokensPerNonTextPart :: int
  EstimateTool :: "(ToolCall \<Rightarrow> int) option"

text \<open>
  The estimators the library switches on. A pointer type carries an option; a reporter
  wraps another estimator and, like a host estimator, is given by its two methods.
\<close>

datatype TokenEstimator =
    NilEstimator
  | CharTokenEstimator
  | FixedEstimator "FixedWeights option"
  | CharFallbackEstimator "FallbackWeights option"
  | EstimateReporter TokenEstimator "Message list \<Rightarrow> int comp" "Message list \<Rightarrow> int list comp"
  | HostEstimator "Message list \<Rightarrow> int comp" "Message list \<Rightarrow> int list comp"

definition nilEstimator :: "TokenEstimator \<Rightarrow> bool" where
  "nilEstimator est = (case est of NilEstimator \<Rightarrow> True | FixedEstimator None \<Rightarrow> True
     | CharFallbackEstimator None \<Rightarrow> True | _ \<Rightarrow> False)"

fun validateBuiltinEstimator :: "TokenEstimator \<Rightarrow> unit result" where
  "validateBuiltinEstimator (FixedEstimator None) = Inl ErrInconsistentEstimate"
| "validateBuiltinEstimator (FixedEstimator (Some w)) =
     (if TokensPerMessage w < 0 \<or> TokensPerContentPart w < 0 \<or> TokensPerToolCall w < 0
      then Inl ErrInconsistentEstimate else Inr ())"
| "validateBuiltinEstimator (CharFallbackEstimator None) = Inl ErrInvalidCharsPerToken"
| "validateBuiltinEstimator (CharFallbackEstimator (Some w)) =
     (if CharsPerToken w \<le> 0 then Inl ErrInvalidCharsPerToken
      else if TokensPerNonTextPart w < 0 then Inl ErrInconsistentEstimate else Inr ())"
| "validateBuiltinEstimator (EstimateReporter est _ _) =
     (if nilEstimator est then Inl ErrInvalidBudgetRequest else validateBuiltinEstimator est)"
| "validateBuiltinEstimator _ = Inr ()"

definition intrinsicAdditiveEstimator :: "TokenEstimator \<Rightarrow> bool" where
  "intrinsicAdditiveEstimator est =
     (case est of CharTokenEstimator \<Rightarrow> True | FixedEstimator _ \<Rightarrow> True
      | CharFallbackEstimator (Some w) \<Rightarrow> EstimateTool w = None | _ \<Rightarrow> False)"

text \<open>The intrinsic character counter borrows its input; every other callback owns a copy.\<close>

definition estimatorCallbackInput :: "TokenEstimator \<Rightarrow> Message list \<Rightarrow> Message list" where
  "estimatorCallbackInput est msgs =
     (case est of CharTokenEstimator \<Rightarrow> msgs | _ \<Rightarrow> cloneMessageSlice msgs)"

definition rejectOpaqueEstimateCost :: "Message \<Rightarrow> unit result" where
  "rejectOpaqueEstimateCost m =
     (if \<exists>e \<in> set (MsgExtensions m). \<not> nilExtension e \<and> ext_type e = OpaqueStateExtensionType
      then Inl ErrUnknownEstimateCost else Inr ())"

fun rejectUnknownParts :: "part list \<Rightarrow> unit result" where
  "rejectUnknownParts [] = Inr ()"
| "rejectUnknownParts (p # ps) =
     (case canonicalPartValue p of
        Some (MediaPart _ _) \<Rightarrow> Inl ErrUnknownEstimateCost
      | Some (ToolCallPart tc) \<Rightarrow>
          if elems (PayBinary (CallArguments tc)) \<noteq> [] then Inl ErrUnknownEstimateCost
          else rejectUnknownParts ps
      | Some (ToolResultPart r) \<Rightarrow>
          if elems (PayBinary (ResultPayload r)) \<noteq> [] then Inl ErrUnknownEstimateCost
          else rejectUnknownParts ps
      | _ \<Rightarrow> rejectUnknownParts ps)"

definition rejectUnknownMedia :: "env \<Rightarrow> Message \<Rightarrow> unit result" where
  "rejectUnknownMedia E m =
     bind_res (validateContentParts E (MsgParts m)) (\<lambda>_.
     bind_res (rejectOpaqueEstimateCost m) (\<lambda>_.
     rejectUnknownParts (MsgParts m)))"

definition part_rune_weights :: "ContentPart option \<Rightarrow> int list" where
  "part_rune_weights p = (case p of
     Some (TextPart t) \<Rightarrow> [int (RuneCountInString t), 0, 0]
   | Some (ImagePart url _) \<Rightarrow> [int (length url), 0, 0]
   | Some (ToolCallPart tc) \<Rightarrow>
       [int (length (CallName tc)), int (length (PlainText (CallArguments tc))), int (length (CallID tc))]
   | Some (ToolResultPart r) \<Rightarrow>
       [int (length (PlainText (ResultPayload r))), int (length (ResultCallID r)), 0]
   | _ \<Rightarrow> [0, 0, 0])"

definition messageRuneWeight :: "Message \<Rightarrow> int result" where
  "messageRuneWeight m = sum_from 0 (concat (map (\<lambda>p. part_rune_weights (canonicalPartValue p)) (MsgParts m)))"

definition fixedMessageWeight :: "FixedWeights \<Rightarrow> Message \<Rightarrow> int result" where
  "fixedMessageWeight w m =
     bind_res (multiplyEstimateTokens (int (length (MsgParts m))) (TokensPerContentPart w)) (\<lambda>partCost.
     bind_res (multiplyEstimateTokens (int (length (ToolCallParts m))) (TokensPerToolCall w)) (\<lambda>toolCost.
     bind_res (addEstimateTokens (TokensPerMessage w) partCost) (\<lambda>x.
     addEstimateTokens x toolCost)))"

subsection \<open>The character-ratio estimator\<close>

definition toolComponents :: "FallbackWeights \<Rightarrow> ToolCall \<Rightarrow> (int \<times> int \<times> int) comp" where
  "toolComponents w call =
     (case EstimateTool w of
        None \<Rightarrow> bind (lift_res (addEstimateTokens
                  (int (RuneCountInString (PlainText (CallArguments call))))
                  (int (RuneCountInString (CallName call)))))
                (\<lambda>runes. ret (runes, ToolCallOverhead, 0))
      | Some f \<Rightarrow>
          bind poll (\<lambda>_.
          bind poll (\<lambda>_.
          bind (lift_res (addEstimateTokens
                  (f (call\<lparr>CallArguments := ToolPayload_Clone (CallArguments call)\<rparr>)) ToolCallOverhead))
            (\<lambda>tokens. ret (0, tokens, 0)))))"

definition partComponents :: "FallbackWeights \<Rightarrow> int \<Rightarrow> ContentPart option \<Rightarrow> (int \<times> int \<times> int) comp" where
  "partComponents w nonText p = (case p of
     Some (TextPart t) \<Rightarrow> ret (int (RuneCountInString t), 0, 0)
   | Some (ImagePart _ _) \<Rightarrow> ret (0, 0, nonText)
   | Some (ToolCallPart tc) \<Rightarrow> toolComponents w tc
   | Some (ToolResultPart r) \<Rightarrow> ret (int (RuneCountInString (PlainText (ResultPayload r))), 0, 0)
   | _ \<Rightarrow> fail ErrUnknownEstimateCost)"

fun messageComponents ::
  "FallbackWeights \<Rightarrow> int \<Rightarrow> part list \<Rightarrow> int \<times> int \<times> int \<Rightarrow> (int \<times> int \<times> int) comp" where
  "messageComponents w nonText [] acc = ret acc"
| "messageComponents w nonText (p # ps) (runes, tools, other) =
     bind (partComponents w nonText (canonicalPartValue p)) (\<lambda>(r, t, n).
     bind (lift_res (addEstimateTokens runes r)) (\<lambda>runes'.
     bind (lift_res (addEstimateTokens tools t)) (\<lambda>tools'.
     bind (lift_res (addEstimateTokens other n)) (\<lambda>other'.
     messageComponents w nonText ps (runes', tools', other')))))"

text \<open>Quotient and remainder, so that the ceiling cannot overflow.\<close>

definition tokensFromRunes :: "int \<Rightarrow> int \<Rightarrow> int" where
  "tokensFromRunes runes perToken =
     (if runes > 0 then
        (if go_mod runes perToken \<noteq> 0 then go_add (go_div runes perToken) 1 else go_div runes perToken)
      else 0)"

definition fallbackMessageWeight :: "env \<Rightarrow> FallbackWeights \<Rightarrow> Message \<Rightarrow> int comp" where
  "fallbackMessageWeight E w m =
     bind (lift_res (rejectUnknownMedia E m)) (\<lambda>_.
     bind poll (\<lambda>_.
     bind (messageComponents w
             (if TokensPerNonTextPart w = 0 then DefaultTokensPerNonTextPart else TokensPerNonTextPart w)
             (MsgParts m) (0, 0, 0)) (\<lambda>(runes, tools, other).
     bind (lift_res (addEstimateTokens (tokensFromRunes runes (CharsPerToken w)) tools)) (\<lambda>x.
     lift_res (addEstimateTokens x other)))))"

subsection \<open>The estimator interface\<close>

fun mapM_comp :: "('a \<Rightarrow> 'b comp) \<Rightarrow> 'a list \<Rightarrow> 'b list comp" where
  "mapM_comp f [] = ret []"
| "mapM_comp f (x # xs) = bind (f x) (\<lambda>y. bind (mapM_comp f xs) (\<lambda>ys. ret (y # ys)))"

definition charPerMessage :: "env \<Rightarrow> Message list \<Rightarrow> int list comp" where
  "charPerMessage E msgs =
     bind poll (\<lambda>_. lift_res (map_res (\<lambda>m. bind_res (rejectUnknownMedia E m) (\<lambda>_. messageRuneWeight m)) msgs))"

definition fixedPerMessage :: "env \<Rightarrow> FixedWeights option \<Rightarrow> Message list \<Rightarrow> int list comp" where
  "fixedPerMessage E w msgs =
     bind (lift_res (validateBuiltinEstimator (FixedEstimator w))) (\<lambda>_.
     bind poll (\<lambda>_.
     mapM_comp (\<lambda>m. bind (lift_res (validateContentParts E (MsgParts m))) (\<lambda>_.
                   bind (lift_res (rejectOpaqueEstimateCost m)) (\<lambda>_.
                   bind poll (\<lambda>_. lift_res (fixedMessageWeight (the w) m))))) msgs))"

definition fallbackPerMessage :: "env \<Rightarrow> FallbackWeights option \<Rightarrow> Message list \<Rightarrow> int list comp" where
  "fallbackPerMessage E w msgs =
     bind (lift_res (validateBuiltinEstimator (CharFallbackEstimator w))) (\<lambda>_.
     bind poll (\<lambda>_. mapM_comp (fallbackMessageWeight E (the w)) msgs))"

definition EstimatePerMessage :: "env \<Rightarrow> TokenEstimator \<Rightarrow> Message list \<Rightarrow> int list comp" where
  "EstimatePerMessage E est msgs = (case est of
     NilEstimator \<Rightarrow> fail (Errorf ''nil pointer dereference'')
   | CharTokenEstimator \<Rightarrow> charPerMessage E msgs
   | FixedEstimator w \<Rightarrow> fixedPerMessage E w msgs
   | CharFallbackEstimator w \<Rightarrow> fallbackPerMessage E w msgs
   | EstimateReporter _ _ per \<Rightarrow> per msgs
   | HostEstimator _ per \<Rightarrow> per msgs)"

definition Estimate :: "env \<Rightarrow> TokenEstimator \<Rightarrow> Message list \<Rightarrow> int comp" where
  "Estimate E est msgs = (case est of
     CharTokenEstimator \<Rightarrow>
       bind poll (\<lambda>_. bind (EstimatePerMessage E est msgs) (\<lambda>ws. lift_res (sumEstimateTokens ws)))
   | EstimateReporter _ tot _ \<Rightarrow> tot msgs
   | HostEstimator tot _ \<Rightarrow> tot msgs
   | _ \<Rightarrow> bind (EstimatePerMessage E est msgs) (\<lambda>ws. lift_res (sumEstimateTokens ws)))"

definition estimateOwned :: "env \<Rightarrow> TokenEstimator \<Rightarrow> Message list \<Rightarrow> int comp" where
  "estimateOwned E est msgs =
     bind poll (\<lambda>_.
     if nilEstimator est then fail ErrInvalidBudgetRequest
     else bind (settle (Estimate E est (estimatorCallbackInput est msgs))) (\<lambda>tot.
          if tot < 0 then fail ErrInconsistentEstimate else ret tot))"

subsection \<open>The arithmetic is exact\<close>

lemma addEstimateTokens_Inr:
  assumes "a \<le> MaxInt"
  shows "addEstimateTokens a b = Inr c \<longleftrightarrow> 0 \<le> a \<and> 0 \<le> b \<and> a + b \<le> MaxInt \<and> c = a + b"
proof (cases "0 \<le> a \<and> 0 \<le> b")
  case True
  have "go_sub MaxInt a = MaxInt - a"
    using assms True by (intro go_sub_exact) (simp add: go_int_def MaxInt_def)
  moreover have "go_add a b = a + b" if "a + b \<le> MaxInt"
    using that True by (intro go_add_exact) (simp add: go_int_def MaxInt_def)
  ultimately show ?thesis using True by (auto simp: addEstimateTokens_def)
next
  case False
  then show ?thesis by (auto simp: addEstimateTokens_def)
qed

lemma addEstimateTokens_err: "addEstimateTokens a b = Inl e \<Longrightarrow> e = ErrInconsistentEstimate"
  by (auto simp: addEstimateTokens_def split: if_splits)

lemma multiplyEstimateTokens_Inr:
  assumes "a \<le> MaxInt" "b \<le> MaxInt"
  shows "multiplyEstimateTokens a b = Inr c \<longleftrightarrow> 0 \<le> a \<and> 0 \<le> b \<and> a * b \<le> MaxInt \<and> c = a * b"
proof (cases "0 \<le> a \<and> 0 \<le> b")
  case True
  have exact: "go_mul a b = a * b" if "a * b \<le> MaxInt"
  proof -
    have "0 \<le> a * b" using True by simp
    with that show ?thesis by (intro go_mul_exact) (simp add: go_int_def MaxInt_def)
  qed
  show ?thesis
  proof (cases "a = 0")
    case True
    then show ?thesis using assms exact by (auto simp: multiplyEstimateTokens_def MaxInt_def)
  next
    case False
    then have "go_div MaxInt a = MaxInt div a"
      using True by (intro go_div_nonneg) (auto simp: MaxInt_def)
    moreover have "b \<le> MaxInt div a \<longleftrightarrow> a * b \<le> MaxInt"
    proof
      assume "b \<le> MaxInt div a"
      then have "a * b \<le> a * (MaxInt div a)" using True by (simp add: mult_left_mono)
      also have "\<dots> \<le> MaxInt" using mult_div_mod_eq [of a MaxInt] pos_mod_sign [of a MaxInt] False True
        by linarith
      finally show "a * b \<le> MaxInt" .
    next
      assume "a * b \<le> MaxInt"
      then have "(a * b) div a \<le> MaxInt div a" using False True by (intro zdiv_mono1) auto
      then show "b \<le> MaxInt div a" using False by simp
    qed
    ultimately show ?thesis using True False exact by (auto simp: multiplyEstimateTokens_def)
  qed
next
  case False
  then show ?thesis by (auto simp: multiplyEstimateTokens_def)
qed

lemma sum_list_nonneg_int: "(\<forall>w \<in> set ws. (0::int) \<le> w) \<Longrightarrow> 0 \<le> sum_list ws"
  by (induction ws) auto

lemma sum_from_Inr:
  assumes "0 \<le> t" "t \<le> MaxInt"
  shows "sum_from t ws = Inr n \<longleftrightarrow>
     (\<forall>w \<in> set ws. 0 \<le> w) \<and> t + sum_list ws \<le> MaxInt \<and> n = t + sum_list ws"
  using assms
proof (induction ws arbitrary: t)
  case Nil
  then show ?case by auto
next
  case (Cons w ws)
  show ?case
  proof (cases "0 \<le> w \<and> t + w \<le> MaxInt")
    case True
    then have "addEstimateTokens t w = Inr (t + w)"
      using Cons.prems by (simp add: addEstimateTokens_Inr)
    then show ?thesis using Cons.IH [of "t + w"] True Cons.prems by (auto simp: algebra_simps)
  next
    case False
    then have "sum_from t (w # ws) \<noteq> Inr n"
      using Cons.prems by (auto simp: bind_res_Inr_iff addEstimateTokens_Inr)
    moreover have "\<not> ((\<forall>x \<in> set (w # ws). 0 \<le> x) \<and> t + sum_list (w # ws) \<le> MaxInt)"
      using False sum_list_nonneg_int [of ws] by auto
    ultimately show ?thesis by blast
  qed
qed

lemma sumEstimateTokens_Inr:
  "sumEstimateTokens ws = Inr n \<longleftrightarrow>
     (\<forall>w \<in> set ws. 0 \<le> w) \<and> sum_list ws \<le> MaxInt \<and> n = sum_list ws"
  by (simp add: sumEstimateTokens_def sum_from_Inr MaxInt_def)

subsection \<open>Additivity of the intrinsic estimators\<close>

text \<open>The weight of one message, as the callback sees it, without the context.\<close>

definition pureWeight :: "env \<Rightarrow> TokenEstimator \<Rightarrow> Message \<Rightarrow> int result" where
  "pureWeight E est m = (case est of
     CharTokenEstimator \<Rightarrow> bind_res (rejectUnknownMedia E m) (\<lambda>_. messageRuneWeight m)
   | FixedEstimator w \<Rightarrow> bind_res (validateContentParts E (MsgParts m)) (\<lambda>_.
       bind_res (rejectOpaqueEstimateCost m) (\<lambda>_. fixedMessageWeight (the w) m))
   | CharFallbackEstimator w \<Rightarrow> fst (fallbackMessageWeight E (the w) m None)
   | _ \<Rightarrow> Inl ErrUnknownEstimateCost)"

definition callbackMessage :: "TokenEstimator \<Rightarrow> Message \<Rightarrow> Message" where
  "callbackMessage est m = (case est of CharTokenEstimator \<Rightarrow> m | _ \<Rightarrow> Message_Clone m)"

definition ownedWeight :: "env \<Rightarrow> TokenEstimator \<Rightarrow> Message \<Rightarrow> int result" where
  "ownedWeight E est m = pureWeight E est (callbackMessage est m)"

lemma estimatorCallbackInput_map: "estimatorCallbackInput est ms = map (callbackMessage est) ms"
  by (cases est)
    (simp_all add: estimatorCallbackInput_def callbackMessage_def [abs_def] cloneMessageSlice_def)

lemma map_res_map: "map_res f (map g xs) = map_res (\<lambda>x. f (g x)) xs"
  by (induction xs) auto

lemma mapM_comp_Inr:
  assumes "mapM_comp f xs c = (Inr ys, c')"
    and "\<And>x y c c'. f x c = (Inr y, c') \<Longrightarrow> g x = Inr y"
  shows "map_res g xs = Inr ys"
  using assms(1)
proof (induction xs arbitrary: c ys)
  case Nil
  then show ?case by simp
next
  case (Cons x xs)
  then show ?case by (auto simp: bind_Inr_iff dest: assms(2))
qed

lemma mapM_comp_None:
  assumes "\<And>x. f x None = (g x, None)"
  shows "mapM_comp f xs None = (map_res g xs, None)"
  by (induction xs) (auto simp: bind_def assms split: sum.splits prod.splits)

lemma partComponents_free: "EstimateTool w = None \<Longrightarrow> ctx_free (partComponents w n p)"
  by (auto simp: partComponents_def toolComponents_def split: option.splits ContentPart.splits)

lemma messageComponents_free:
  "EstimateTool w = None \<Longrightarrow> ctx_free (messageComponents w n ps acc)"
proof (induction ps arbitrary: acc)
  case (Cons p ps)
  obtain runes tools other where acc: "acc = (runes, tools, other)" by (cases acc)
  have "ctx_free (messageComponents w n ps acc')" for acc' using Cons by simp
  then show ?case
    using Cons.prems by (auto simp: acc intro!: ctx_free_bind partComponents_free)
qed auto

lemma fallbackMessageWeight_pure:
  assumes free: "EstimateTool w = None" and eq: "fallbackMessageWeight E w m c = (Inr y, c')"
  shows "fst (fallbackMessageWeight E w m None) = Inr y"
proof -
  let ?n = "if TokensPerNonTextPart w = 0 then DefaultTokensPerNonTextPart else TokensPerNonTextPart w"
  from eq obtain c1 c2 r t n x where
    *: "rejectUnknownMedia E m = Inr ()" "poll c = (Inr (), c1)"
      "messageComponents w ?n (MsgParts m) (0, 0, 0) c1 = (Inr (r, t, n), c2)"
      "addEstimateTokens (tokensFromRunes r (CharsPerToken w)) t = Inr x"
      "addEstimateTokens x n = Inr y"
    by (auto simp: fallbackMessageWeight_def bind_Inr_iff)
  from ctx_freeD [OF messageComponents_free [OF free] *(3)]
  have "messageComponents w ?n (MsgParts m) (0, 0, 0) None = (Inr (r, t, n), None)" by simp
  with * show ?thesis by (simp add: fallbackMessageWeight_def bind_def)
qed

lemma fallbackMessageWeight_live: "EstimateTool w = None \<Longrightarrow> keeps_live (fallbackMessageWeight E w m)"
  unfolding fallbackMessageWeight_def
  by (intro keeps_live_bind) (auto intro: keeps_live_ctx_free messageComponents_free)

lemma EstimatePerMessage_additive:
  assumes "intrinsicAdditiveEstimator est" "EstimatePerMessage E est ms c = (Inr ws, c')"
  shows "map_res (pureWeight E est) ms = Inr ws \<and> validateBuiltinEstimator est = Inr ()"
proof (cases est)
  case CharTokenEstimator
  then show ?thesis
    using assms by (auto simp: EstimatePerMessage_def charPerMessage_def bind_Inr_iff pureWeight_def [abs_def])
next
  case (FixedEstimator w)
  then obtain c1 where v: "validateBuiltinEstimator (FixedEstimator w) = Inr ()"
    and m: "mapM_comp (\<lambda>m. bind (lift_res (validateContentParts E (MsgParts m))) (\<lambda>_.
        bind (lift_res (rejectOpaqueEstimateCost m)) (\<lambda>_.
        bind poll (\<lambda>_. lift_res (fixedMessageWeight (the w) m))))) ms c1 = (Inr ws, c')"
    using assms by (auto simp: EstimatePerMessage_def fixedPerMessage_def bind_Inr_iff)
  from m have "map_res (pureWeight E est) ms = Inr ws"
    by (rule mapM_comp_Inr) (auto simp: FixedEstimator pureWeight_def bind_Inr_iff)
  with v FixedEstimator show ?thesis by simp
next
  case (CharFallbackEstimator w)
  then obtain w' where w: "w = Some w'" "EstimateTool w' = None"
    using assms by (auto simp: intrinsicAdditiveEstimator_def split: option.splits)
  then obtain c1 where v: "validateBuiltinEstimator (CharFallbackEstimator w) = Inr ()"
    and m: "mapM_comp (fallbackMessageWeight E w') ms c1 = (Inr ws, c')"
    using assms CharFallbackEstimator
    by (auto simp: EstimatePerMessage_def fallbackPerMessage_def bind_Inr_iff)
  from m have "map_res (pureWeight E est) ms = Inr ws"
    by (rule mapM_comp_Inr) (simp add: CharFallbackEstimator w pureWeight_def fallbackMessageWeight_pure [OF w(2)])
  with v CharFallbackEstimator show ?thesis by simp
qed (use assms in \<open>auto simp: intrinsicAdditiveEstimator_def\<close>)

text \<open>Conversely, without cancellation the pure weights are what the estimator returns.\<close>

lemma EstimatePerMessage_None:
  assumes "intrinsicAdditiveEstimator est" "validateBuiltinEstimator est = Inr ()"
  shows "EstimatePerMessage E est ms None = (map_res (pureWeight E est) ms, None)"
proof (cases est)
  case CharTokenEstimator
  then show ?thesis
    by (simp add: EstimatePerMessage_def charPerMessage_def bind_def pureWeight_def [abs_def])
next
  case (FixedEstimator w)
  have "mapM_comp (\<lambda>m. bind (lift_res (validateContentParts E (MsgParts m))) (\<lambda>_.
        bind (lift_res (rejectOpaqueEstimateCost m)) (\<lambda>_.
        bind poll (\<lambda>_. lift_res (fixedMessageWeight (the w) m))))) ms None =
        (map_res (pureWeight E est) ms, None)"
    by (rule mapM_comp_None)
      (auto simp: FixedEstimator pureWeight_def bind_def bind_res_def split: sum.splits)
  then show ?thesis
    using assms by (simp add: FixedEstimator EstimatePerMessage_def fixedPerMessage_def bind_def)
next
  case (CharFallbackEstimator w)
  then obtain w' where w: "w = Some w'" "EstimateTool w' = None"
    using assms by (auto simp: intrinsicAdditiveEstimator_def split: option.splits)
  have "snd (fallbackMessageWeight E w' m None) = None" for m
    using fallbackMessageWeight_live [OF w(2)] by (simp add: keeps_live_def)
  then have "mapM_comp (fallbackMessageWeight E w') ms None = (map_res (pureWeight E est) ms, None)"
    by (intro mapM_comp_None) (simp add: CharFallbackEstimator w pureWeight_def prod_eq_iff)
  then show ?thesis
    using assms by (simp add: CharFallbackEstimator w EstimatePerMessage_def fallbackPerMessage_def bind_def)
qed (use assms in \<open>auto simp: intrinsicAdditiveEstimator_def\<close>)

lemma nilEstimator_additive:
  "intrinsicAdditiveEstimator est \<Longrightarrow> validateBuiltinEstimator est = Inr () \<Longrightarrow> \<not> nilEstimator est"
  by (cases est rule: validateBuiltinEstimator.cases)
    (auto simp: intrinsicAdditiveEstimator_def nilEstimator_def)

lemma Estimate_additive:
  "intrinsicAdditiveEstimator est \<Longrightarrow> Estimate E est ms c = (Inr n, c') \<Longrightarrow>
   \<exists>ws c1 c2. EstimatePerMessage E est ms c1 = (Inr ws, c2) \<and> sumEstimateTokens ws = Inr n"
  by (cases est) (auto simp: Estimate_def bind_Inr_iff intrinsicAdditiveEstimator_def)

lemma estimateOwned_additive:
  assumes "intrinsicAdditiveEstimator est" "estimateOwned E est ms c = (Inr n, c')"
  shows "\<exists>ws. map_res (ownedWeight E est) ms = Inr ws \<and> sumEstimateTokens ws = Inr n"
proof -
  from assms obtain c1 c2 where "Estimate E est (estimatorCallbackInput est ms) c1 = (Inr n, c2)"
    by (auto simp: estimateOwned_def bind_Inr_iff split: if_splits elim!: settle_InrE)
  from Estimate_additive [OF assms(1) this] obtain ws c3 c4 where
    "EstimatePerMessage E est (estimatorCallbackInput est ms) c3 = (Inr ws, c4)" "sumEstimateTokens ws = Inr n"
    by blast
  with EstimatePerMessage_additive [OF assms(1) this(1)] show ?thesis
    by (auto simp: estimatorCallbackInput_map map_res_map ownedWeight_def [abs_def])
qed

lemma estimateOwned_None:
  assumes "intrinsicAdditiveEstimator est" "validateBuiltinEstimator est = Inr ()"
    and "map_res (ownedWeight E est) ms = Inr ws" "sumEstimateTokens ws = Inr n"
  shows "run (estimateOwned E est ms) = Inr n"
proof -
  have "Estimate E est (estimatorCallbackInput est ms) None = (Inr n, None)"
    using assms EstimatePerMessage_None [OF assms(1,2), of E "estimatorCallbackInput est ms"]
    by (cases est) (auto simp: Estimate_def bind_def estimatorCallbackInput_map map_res_map
        ownedWeight_def [abs_def] intrinsicAdditiveEstimator_def)
  moreover have "\<not> n < 0"
    using assms(4) sum_list_nonneg_int [of ws] by (auto simp: sumEstimateTokens_Inr)
  ultimately show ?thesis
    using nilEstimator_additive [OF assms(1,2)]
    by (simp add: run_def estimateOwned_def bind_def settle_def)
qed

lemma map_res_nths:
  "map_res f xs = Inr ys \<Longrightarrow> map_res f (nths xs I) = Inr (nths ys I)"
proof (induction xs arbitrary: ys I)
  case Nil
  then show ?case by simp
next
  case (Cons x xs)
  then obtain y ys' where "f x = Inr y" "map_res f xs = Inr ys'" "ys = y # ys'"
    by (auto simp: bind_res_Inr_iff)
  then show ?case by (simp add: nths_Cons Cons.IH)
qed

lemma sum_list_nths_le:
  "(\<forall>w \<in> set ws. (0::int) \<le> w) \<Longrightarrow> sum_list (nths ws I) \<le> sum_list ws"
proof (induction ws arbitrary: I)
  case (Cons w ws)
  then have "sum_list (nths ws {j. Suc j \<in> I}) \<le> sum_list ws" by simp
  with Cons.prems show ?case by (simp add: nths_Cons)
qed simp

subsection \<open>Properties\<close>

text \<open>
  The sum of per-message weights is exact: it succeeds exactly when no weight is negative
  and the mathematical sum fits a Go \<^verbatim>\<open>int\<close>, and then it is that sum, so the wrapping
  additions never wrap. Otherwise the error is \<^verbatim>\<open>ErrInconsistentEstimate\<close>.
\<close>

theorem sumEstimateTokens_exact:
  "sumEstimateTokens ws =
     (if (\<forall>w \<in> set ws. 0 \<le> w) \<and> sum_list ws \<le> MaxInt then Inr (sum_list ws)
      else Inl ErrInconsistentEstimate)"
proof (cases "sumEstimateTokens ws")
  case (Inl e)
  have "sum_from t xs = Inl e' \<Longrightarrow> e' = ErrInconsistentEstimate" for t xs e'
    by (induction xs arbitrary: t) (auto simp: bind_res_def split: sum.splits dest: addEstimateTokens_err)
  then have "e = ErrInconsistentEstimate" using Inl by (simp add: sumEstimateTokens_def)
  then show ?thesis using Inl sumEstimateTokens_Inr [of ws "sum_list ws"] by auto
next
  case (Inr n)
  then show ?thesis by (auto simp: sumEstimateTokens_Inr)
qed

theorem sumEstimateTokens_exact_witness: "sumEstimateTokens [3, 4] = Inr 7 \<and> sumEstimateTokens [1, -1] = Inl ErrInconsistentEstimate"
  by (simp add: sumEstimateTokens_exact MaxInt_def)

text \<open>
  The intrinsic estimators are additive: a successful total is the exact sum of weights
  that depend on one message each, and dropping messages only lowers it, so that without
  cancellation every subset of the messages is estimated successfully, at its own sum.
\<close>

theorem intrinsic_estimators_additive:
  assumes "intrinsicAdditiveEstimator est" "validateBuiltinEstimator est = Inr ()"
    and "estimateOwned E est msgs c = (Inr n, c')"
  shows "\<exists>ws. map_res (ownedWeight E est) msgs = Inr ws \<and> n = sum_list ws \<and>
     (\<forall>I. run (estimateOwned E est (nths msgs I)) = Inr (sum_list (nths ws I)) \<and> sum_list (nths ws I) \<le> n)"
proof -
  from estimateOwned_additive [OF assms(1,3)] obtain ws where
    ws: "map_res (ownedWeight E est) msgs = Inr ws" "sumEstimateTokens ws = Inr n" by blast
  then have nn: "\<forall>w \<in> set ws. 0 \<le> w" "sum_list ws \<le> MaxInt" "n = sum_list ws"
    by (auto simp: sumEstimateTokens_Inr)
  have "run (estimateOwned E est (nths msgs I)) = Inr (sum_list (nths ws I))" for I
  proof (rule estimateOwned_None [OF assms(1,2) map_res_nths [OF ws(1)]])
    show "sumEstimateTokens (nths ws I) = Inr (sum_list (nths ws I))"
      using nn sum_list_nths_le [OF nn(1), of I] by (auto simp: sumEstimateTokens_Inr dest: in_set_nthsD)
  qed
  then show ?thesis using ws(1) nn sum_list_nths_le [OF nn(1)] by blast
qed

theorem intrinsic_estimators_additive_witness:
  "\<exists>ws. map_res (ownedWeight sampleEnv CharTokenEstimator) [userText ''u'' ''abc'', userText ''v'' ''de''] = Inr ws \<and>
     5 = sum_list ws \<and>
     (\<forall>I. run (estimateOwned sampleEnv CharTokenEstimator (nths [userText ''u'' ''abc'', userText ''v'' ''de''] I)) =
        Inr (sum_list (nths ws I)) \<and> sum_list (nths ws I) \<le> 5)"
proof (rule intrinsic_estimators_additive)
  show "estimateOwned sampleEnv CharTokenEstimator [userText ''u'' ''abc'', userText ''v'' ''de''] None = (Inr 5, None)"
    by code_simp
qed (simp_all add: intrinsicAdditiveEstimator_def)

end
