(* ===== verification/Eviction.thy ===== *)
theory Eviction
  imports Tool_Rounds Estimators
begin

text \<open>
  Eviction strategies (\<^verbatim>\<open>strategies.go\<close>, \<^verbatim>\<open>options.go\<close>) and the index computations they
  use (\<^verbatim>\<open>pipeline.go\<close>). A strategy sees the messages, their estimated total and a limit.
  The report of evicted messages to a trace or an observer has no influence on the result
  and is left out. A nil message slice and an empty one are both \<open>[]\<close>.
\<close>

subsection \<open>Round boundaries\<close>

definition toolRoundEndIndex :: "Message list \<Rightarrow> nat \<Rightarrow> nat" where
  "toolRoundEndIndex msgs assistantIdx =
     (case ToolRoundFromMessages msgs assistantIdx of
        Inl _ \<Rightarrow> assistantIdx
      | Inr round \<Rightarrow> assistantIdx + length (RoundResults round))"

definition activeIndexes :: "Message list \<Rightarrow> nat \<Rightarrow> bool list option \<Rightarrow> nat list" where
  "activeIndexes cur startIdx deleted =
     takeWhile (\<lambda>idx. idx = startIdx \<or> MsgRole (cur ! idx) = RoleTool)
       (filter (\<lambda>idx. case deleted of None \<Rightarrow> True | Some d \<Rightarrow> \<not> d ! idx) [startIdx ..< length cur])"

definition activeToolRoundEndIndex :: "Message list \<Rightarrow> nat \<Rightarrow> bool list option \<Rightarrow> nat" where
  "activeToolRoundEndIndex cur startIdx deleted =
     (if length cur \<le> startIdx then startIdx
      else let indexes = activeIndexes cur startIdx deleted;
               visible = map (\<lambda>idx. Message_Clone (cur ! idx)) indexes
           in case ToolRoundFromMessages visible 0 of
                Inl _ \<Rightarrow> startIdx
              | Inr round \<Rightarrow>
                  if length indexes \<le> length (RoundResults round) then startIdx
                  else indexes ! length (RoundResults round))"

fun tailToolsStart :: "Message list \<Rightarrow> nat \<Rightarrow> nat" where
  "tailToolsStart msgs 0 = 0"
| "tailToolsStart msgs (Suc n) =
     (if MsgRole (msgs ! n) = RoleTool then tailToolsStart msgs n else Suc n)"

definition toolRoundStartForTail :: "Message list \<Rightarrow> nat" where
  "toolRoundStartForTail msgs =
     (let last = length msgs - 1; start = tailToolsStart msgs last
      in if start > 0 \<and> MsgRole (msgs ! (start - 1)) = RoleAssistant \<and> HasToolCalls (msgs ! (start - 1))
            \<and> toolRoundEndIndex msgs (start - 1) = last
         then start - 1 else last)"

subsection \<open>Strict, drop and drop-tail\<close>

definition strictStrategy_Apply :: "Message list \<Rightarrow> int \<Rightarrow> int \<Rightarrow> Message list comp" where
  "strictStrategy_Apply msgs originalTokens limit =
     bind poll (\<lambda>_. if originalTokens > limit then fail ErrBudgetExceeded else ret msgs)"

definition dropStrategy_Apply :: "Message list \<Rightarrow> int \<Rightarrow> int \<Rightarrow> Message list comp" where
  "dropStrategy_Apply msgs originalTokens limit =
     bind poll (\<lambda>_. if originalTokens > limit then ret [] else ret msgs)"

definition dropTailAtomicUnit :: "Message list \<Rightarrow> Message list" where
  "dropTailAtomicUnit msgs =
     (if msgs = [] then msgs
      else if MsgRole (msgs ! (length msgs - 1)) \<noteq> RoleTool then take (length msgs - 1) msgs
      else take (toolRoundStartForTail msgs) msgs)"

lemma toolRoundStartForTail_le: "toolRoundStartForTail msgs \<le> length msgs - 1"
proof -
  have "tailToolsStart msgs n \<le> n" for n by (induction n) auto
  then show ?thesis
    by (simp add: toolRoundStartForTail_def Let_def) (metis diff_le_self le_trans)
qed

lemma dropTailAtomicUnit_length: "msgs \<noteq> [] \<Longrightarrow> length (dropTailAtomicUnit msgs) < length msgs"
  using toolRoundStartForTail_le [of msgs] by (cases msgs) (auto simp: dropTailAtomicUnit_def)

function dropTailLoop :: "env \<Rightarrow> TokenEstimator \<Rightarrow> int \<Rightarrow> Message list \<Rightarrow> Message list comp" where
  "dropTailLoop E est limit out =
     (if length out > 1 then
        let out' = dropTailAtomicUnit out in
        bind (settle (map_err (Wrap ErrTokenCountFailed) (estimateOwned E est out'))) (\<lambda>tokens.
        if tokens \<le> limit then ret out'
        else bind poll (\<lambda>_. dropTailLoop E est limit out'))
      else fail ErrBlockTooLarge)"
  by pat_completeness auto
termination
  by (relation "measure (\<lambda>(_, _, _, out). length out)") (auto intro: dropTailAtomicUnit_length)

declare dropTailLoop.simps [simp del]

definition dropTailStrategy_Apply ::
  "env \<Rightarrow> Message list \<Rightarrow> int \<Rightarrow> int \<Rightarrow> TokenEstimator \<Rightarrow> Message list comp" where
  "dropTailStrategy_Apply E msgs originalTokens limit est =
     bind poll (\<lambda>_.
     if msgs = [] then ret []
     else if originalTokens \<le> limit then ret msgs
     else dropTailLoop E est limit msgs)"

subsection \<open>Drop-head\<close>

record DropHeadConfig =
  KeepTurnAtomicity :: "bool option"
  MinMessages :: int

definition keepTurnAtomicity :: "DropHeadConfig \<Rightarrow> bool" where
  "keepTurnAtomicity cfg = (case KeepTurnAtomicity cfg of None \<Rightarrow> True | Some b \<Rightarrow> b)"

definition DropHeadConfig_normalized :: "DropHeadConfig \<Rightarrow> DropHeadConfig" where
  "DropHeadConfig_normalized cfg =
     \<lparr>KeepTurnAtomicity = Some (keepTurnAtomicity cfg), MinMessages = MinMessages cfg\<rparr>"

definition enforceMinMessages :: "DropHeadConfig \<Rightarrow> Message list \<Rightarrow> Message list" where
  "enforceMinMessages cfg msgs =
     (if msgs = [] then []
      else if MinMessages cfg > 0 \<and> int (length msgs) < MinMessages cfg then []
      else msgs)"

fun suffixSums :: "int list \<Rightarrow> int list" where
  "suffixSums [] = [0]"
| "suffixSums (w # ws) = (let s = suffixSums ws in go_add (hd s) w # s)"

function searchSuffix :: "int list \<Rightarrow> int \<Rightarrow> int \<Rightarrow> int \<Rightarrow> int \<Rightarrow> int" where
  "searchSuffix suffixSum limit low high best =
     (if low \<le> high then
        let mid = low + (high - low) div 2 in
        if suffixSum ! nat mid \<le> limit then searchSuffix suffixSum limit low (mid - 1) mid
        else searchSuffix suffixSum limit (mid + 1) high best
      else best)"
  by pat_completeness auto
termination
  by (relation "measure (\<lambda>(_, _, low, high, _). nat (high + 1 - low))") auto

declare searchSuffix.simps [simp del]

definition applyFastPath :: "DropHeadConfig \<Rightarrow> Message list \<Rightarrow> int list \<Rightarrow> int \<Rightarrow> Message list" where
  "applyFastPath cfg msgs weights limit =
     (let bestValidIdx = searchSuffix (suffixSums weights) limit 0 (int (length msgs)) (int (length msgs))
      in enforceMinMessages cfg (drop (nat bestValidIdx) msgs))"

record dropHeadState =
  stMsgs :: "Message list"
  stWeights :: "int list"
  stDeleted :: "bool list"
  stTotal :: int
  stSearchStart :: nat

definition retainedDropHeadMessages :: "dropHeadState \<Rightarrow> Message list" where
  "retainedDropHeadMessages st =
     map fst (filter (\<lambda>(m, d). \<not> d) (zip (stMsgs st) (stDeleted st)))"

definition findFirstDroppableIndex :: "dropHeadState \<Rightarrow> nat option" where
  "findFirstDroppableIndex st =
     find (\<lambda>idx. \<not> stDeleted st ! idx) [stSearchStart st ..< length (stMsgs st)]"

definition removeIndex :: "nat \<Rightarrow> dropHeadState \<Rightarrow> dropHeadState" where
  "removeIndex i st =
     (if stDeleted st ! i then st
      else st\<lparr>stDeleted := (stDeleted st)[i := True], stTotal := go_sub (stTotal st) (stWeights st ! i)\<rparr>)"

definition removeUnit :: "nat \<Rightarrow> nat \<Rightarrow> dropHeadState \<Rightarrow> dropHeadState" where
  "removeUnit start end_idx st =
     fold removeIndex [start ..< min (Suc end_idx) (length (stMsgs st))] st"

definition selectiveUnit :: "DropHeadConfig \<Rightarrow> nat \<Rightarrow> dropHeadState \<Rightarrow> dropHeadState" where
  "selectiveUnit cfg startIdx st =
     (let endIdx =
        (if keepTurnAtomicity cfg \<and> MsgRole (stMsgs st ! startIdx) = RoleAssistant
            \<and> HasToolCalls (stMsgs st ! startIdx)
         then activeToolRoundEndIndex (stMsgs st) startIdx (Some (stDeleted st)) else startIdx)
      in (removeUnit startIdx endIdx st)\<lparr>stSearchStart := Suc endIdx\<rparr>)"

lemma activeIndexes_ge: "i \<in> set (activeIndexes cur s d) \<Longrightarrow> s \<le> i"
  unfolding activeIndexes_def by (drule set_takeWhileD) simp

lemma activeToolRoundEndIndex_ge: "s \<le> activeToolRoundEndIndex cur s d"
  by (auto simp: activeToolRoundEndIndex_def Let_def not_le split: sum.splits
      intro: activeIndexes_ge [OF nth_mem])

lemma findFirst_SomeD:
  "findFirstDroppableIndex st = Some i \<Longrightarrow>
   stSearchStart st \<le> i \<and> i < length (stMsgs st) \<and> \<not> stDeleted st ! i"
  unfolding findFirstDroppableIndex_def find_Some_iff by auto

lemma removeIndex_msgs [simp]:
  "stMsgs (removeIndex i st) = stMsgs st" "stWeights (removeIndex i st) = stWeights st"
  by (simp_all add: removeIndex_def)

lemma removeUnit_msgs [simp]:
  "stMsgs (removeUnit s e st) = stMsgs st" "stWeights (removeUnit s e st) = stWeights st"
proof -
  have "stMsgs (fold removeIndex is st) = stMsgs st \<and> stWeights (fold removeIndex is st) = stWeights st" for "is"
    by (induction "is" arbitrary: st) auto
  then show "stMsgs (removeUnit s e st) = stMsgs st" "stWeights (removeUnit s e st) = stWeights st"
    by (simp_all add: removeUnit_def)
qed

lemma selectiveUnit_msgs [simp]:
  "stMsgs (selectiveUnit cfg i st) = stMsgs st" "stWeights (selectiveUnit cfg i st) = stWeights st"
  "i < stSearchStart (selectiveUnit cfg i st)"
  using activeToolRoundEndIndex_ge [of i "stMsgs st" "Some (stDeleted st)"]
  by (simp_all add: selectiveUnit_def Let_def)

lemma selectiveUnit_measure:
  "findFirstDroppableIndex st = Some i \<Longrightarrow>
   length (stMsgs st) - stSearchStart (selectiveUnit cfg i st) < length (stMsgs st) - stSearchStart st"
  using findFirst_SomeD [of st i] selectiveUnit_msgs(3) [of i cfg st] by linarith

function selectiveLoop ::
  "env \<Rightarrow> DropHeadConfig \<Rightarrow> TokenEstimator \<Rightarrow> int \<Rightarrow> dropHeadState \<Rightarrow> dropHeadState comp" where
  "selectiveLoop E cfg est limit st =
     (if stTotal st > limit then
        bind poll (\<lambda>_.
        case findFirstDroppableIndex st of
          None \<Rightarrow> ret st
        | Some startIdx \<Rightarrow>
            let st' = selectiveUnit cfg startIdx st in
            if intrinsicAdditiveEstimator est then selectiveLoop E cfg est limit st'
            else bind (estimateOwned E est (retainedDropHeadMessages st')) (\<lambda>tot.
                 selectiveLoop E cfg est limit (st'\<lparr>stTotal := tot\<rparr>)))
      else ret st)"
  by pat_completeness auto
termination
  by (relation "measure (\<lambda>(_, _, _, _, st). length (stMsgs st) - stSearchStart st)")
    (auto simp: selectiveUnit_measure)

declare selectiveLoop.simps [simp del]

definition applySelectivePath ::
  "env \<Rightarrow> DropHeadConfig \<Rightarrow> dropHeadState \<Rightarrow> int \<Rightarrow> TokenEstimator \<Rightarrow> Message list comp" where
  "applySelectivePath E cfg st limit est =
     bind (selectiveLoop E cfg est limit st) (\<lambda>st'.
     if stTotal st' > limit then ret []
     else ret (enforceMinMessages cfg (retainedDropHeadMessages st')))"

definition dropHeadStrategy_Apply ::
  "env \<Rightarrow> DropHeadConfig \<Rightarrow> Message list \<Rightarrow> int \<Rightarrow> int \<Rightarrow> TokenEstimator \<Rightarrow> Message list comp" where
  "dropHeadStrategy_Apply E cfg msgs originalTokens limit est =
     bind poll (\<lambda>_.
     if nilEstimator est \<or> MinMessages cfg < 0 \<or> originalTokens < 0 \<or> limit < 0 then fail ErrInvalidBudgetRequest
     else bind (lift_res (validateBuiltinEstimator est)) (\<lambda>_.
     if msgs = [] then ret []
     else if originalTokens \<le> limit then ret msgs
     else bind (map_err (Wrap ErrTokenCountFailed)
                  (EstimatePerMessage E est (estimatorCallbackInput est msgs))) (\<lambda>weights.
     if length weights \<noteq> length msgs then fail ErrTokenCountFailed
     else bind poll (\<lambda>_.
     bind (lift_res (sumEstimateTokens weights)) (\<lambda>sum.
     if sum \<noteq> originalTokens then fail ErrInconsistentEstimate
     else if \<not> keepTurnAtomicity cfg \<and> intrinsicAdditiveEstimator est
       then ret (applyFastPath cfg msgs weights limit)
     else applySelectivePath E cfg
            \<lparr>stMsgs = msgs, stWeights = weights, stDeleted = replicate (length msgs) False,
             stTotal = originalTokens, stSearchStart = 0\<rparr> limit est)))))"

subsection \<open>The strategy interface\<close>

datatype EvictionStrategy =
    StrictStrategy
  | DropStrategy
  | DropTailStrategy
  | DropHeadStrategy DropHeadConfig
  | HostStrategy "Message list \<Rightarrow> int \<Rightarrow> int \<Rightarrow> TokenEstimator \<Rightarrow> Message list comp"

definition NewDropHeadStrategy :: "DropHeadConfig \<Rightarrow> EvictionStrategy" where
  "NewDropHeadStrategy cfg = DropHeadStrategy (DropHeadConfig_normalized cfg)"

definition EvictionStrategy_Apply ::
  "env \<Rightarrow> EvictionStrategy \<Rightarrow> Message list \<Rightarrow> int \<Rightarrow> int \<Rightarrow> TokenEstimator \<Rightarrow> Message list comp" where
  "EvictionStrategy_Apply E s msgs originalTokens limit est = (case s of
     StrictStrategy \<Rightarrow> strictStrategy_Apply msgs originalTokens limit
   | DropStrategy \<Rightarrow> dropStrategy_Apply msgs originalTokens limit
   | DropTailStrategy \<Rightarrow> dropTailStrategy_Apply E msgs originalTokens limit est
   | DropHeadStrategy cfg \<Rightarrow> dropHeadStrategy_Apply E cfg msgs originalTokens limit est
   | HostStrategy f \<Rightarrow> f msgs originalTokens limit est)"

subsection \<open>The fast path finds the longest fitting suffix\<close>

lemma suffixSums_length [simp]: "length (suffixSums ws) = Suc (length ws)" "suffixSums ws \<noteq> []"
  by (induction ws) (auto simp: Let_def)

lemma suffixSums_nth:
  assumes "\<forall>w \<in> set ws. 0 \<le> w" "sum_list ws \<le> MaxInt" "i \<le> length ws"
  shows "suffixSums ws ! i = sum_list (drop i ws)"
  using assms
proof (induction ws arbitrary: i)
  case (Cons w ws)
  have nonneg: "0 \<le> w" "0 \<le> sum_list ws" using Cons.prems sum_list_nonneg_int [of ws] by auto
  then have IH: "suffixSums ws ! j = sum_list (drop j ws)" if "j \<le> length ws" for j
    using Cons that by simp
  have "hd (suffixSums ws) = sum_list ws"
    using IH [of 0] by (simp add: hd_conv_nth)
  moreover have "go_add (sum_list ws) w = sum_list ws + w"
    using nonneg Cons.prems by (intro go_add_exact) (simp add: go_int_def MaxInt_def)
  ultimately show ?case
    using IH Cons.prems by (cases i) (simp_all add: Let_def)
qed simp

lemma searchSuffix_least:
  assumes "0 \<le> low" "low \<le> high + 1" "high \<le> best" "best \<le> high + 1" "best \<le> n" "0 \<le> best"
    and "\<forall>j. 0 \<le> j \<and> j < low \<longrightarrow> limit < s ! nat j" "s ! nat best \<le> limit"
    and "\<forall>i j. 0 \<le> i \<and> i \<le> j \<and> j \<le> n \<longrightarrow> s ! nat j \<le> s ! nat i"
  shows "0 \<le> searchSuffix s limit low high best \<and> searchSuffix s limit low high best \<le> n \<and>
     s ! nat (searchSuffix s limit low high best) \<le> limit \<and>
     (\<forall>j. 0 \<le> j \<and> j < searchSuffix s limit low high best \<longrightarrow> limit < s ! nat j)"
  using assms
proof (induction s limit low high best rule: searchSuffix.induct)
  case (1 s limit low high best)
  let ?mid = "low + (high - low) div 2"
  show ?case
  proof (cases "low \<le> high")
    case True
    then have mid: "low \<le> ?mid" "?mid \<le> high" by auto
    show ?thesis
    proof (cases "s ! nat ?mid \<le> limit")
      case fit: True
      then show ?thesis
        using True mid "1.IH"(1) [OF True refl fit] "1.prems"
        by (simp add: searchSuffix.simps [of s limit low high best] Let_def)
    next
      case False
      have "limit < s ! nat j" if "0 \<le> j" "j < ?mid + 1" for j
      proof -
        have "s ! nat ?mid \<le> s ! nat j"
          using "1.prems"(9) [rule_format, of j ?mid] that mid "1.prems" by simp
        with False show ?thesis by simp
      qed
      then show ?thesis
        using True mid "1.IH"(2) [OF True refl False] "1.prems" False
        by (simp add: searchSuffix.simps [of s limit low high best] Let_def)
    qed
  next
    case False
    then have "best = low"
      using "1.prems"(2-4,6,8) "1.prems"(7) [rule_format, of best] by linarith
    then show ?thesis
      using False "1.prems" by (simp add: searchSuffix.simps [of s limit low high low])
  qed
qed

lemma sum_list_drop_anti:
  assumes "\<forall>w \<in> set ws. (0::int) \<le> w" "i \<le> j"
  shows "sum_list (drop j ws) \<le> sum_list (drop i ws)"
proof -
  have "sum_list (drop i ws) = sum_list (take (j - i) (drop i ws)) + sum_list (drop j ws)"
    using assms(2) by (metis append_take_drop_id drop_drop le_add_diff_inverse2 sum_list.append)
  moreover have "0 \<le> sum_list (take (j - i) (drop i ws))"
    by (rule sum_list_nonneg_int) (use assms(1) in \<open>auto dest!: in_set_takeD in_set_dropD\<close>)
  ultimately show ?thesis by simp
qed

lemma applyFastPath_longest:
  assumes "\<forall>w \<in> set ws. 0 \<le> w" "sum_list ws \<le> MaxInt" "length ws = length msgs" "0 \<le> limit"
  shows "applyFastPath cfg msgs ws limit =
     enforceMinMessages cfg (drop (LEAST i. sum_list (drop i ws) \<le> limit) msgs)"
proof -
  let ?n = "int (length msgs)" and ?s = "suffixSums ws"
  let ?r = "searchSuffix ?s limit 0 ?n ?n"
  have nth: "?s ! nat i = sum_list (drop (nat i) ws)" if "0 \<le> i" "i \<le> ?n" for i
    using that suffixSums_nth [OF assms(1,2), of "nat i"] assms(3) by simp
  have anti: "?s ! nat j \<le> ?s ! nat i" if "0 \<le> i" "i \<le> j" "j \<le> ?n" for i j
    using that sum_list_drop_anti [OF assms(1), of "nat i" "nat j"] by (simp add: nth)
  have "?s ! nat ?n \<le> limit"
    using nth [of ?n] assms(3,4) by simp
  then have *: "0 \<le> ?r" "?r \<le> ?n" "?s ! nat ?r \<le> limit" "\<forall>j. 0 \<le> j \<and> j < ?r \<longrightarrow> limit < ?s ! nat j"
    using searchSuffix_least [of 0 ?n ?n ?n limit ?s] anti by auto
  have "(LEAST i. sum_list (drop i ws) \<le> limit) = nat ?r"
  proof (rule Least_equality)
    show "sum_list (drop (nat ?r) ws) \<le> limit" using * nth by simp
    fix i assume i: "sum_list (drop i ws) \<le> limit"
    show "nat ?r \<le> i"
    proof (rule ccontr)
      assume "\<not> nat ?r \<le> i"
      then have "int i < ?r" by simp
      then have "limit < ?s ! nat (int i)" using *(4) by (metis of_nat_0_le_iff)
      then show False using *(2) \<open>int i < ?r\<close> nth [of "int i"] i by simp
    qed
  qed
  then show ?thesis by (simp add: applyFastPath_def Let_def)
qed

subsection \<open>Drop-head keeps the longest fitting suffix at a boundary\<close>

text \<open>
  The boundaries at which drop-head may cut: behind one message, or behind a canonical tool
  round when the turn atomicity is kept.
\<close>

definition nextCut :: "bool \<Rightarrow> Message list \<Rightarrow> nat \<Rightarrow> nat" where
  "nextCut keep msgs s = Suc (if keep then toolRoundEndIndex msgs s else s)"

definition cutAt :: "bool \<Rightarrow> Message list \<Rightarrow> nat \<Rightarrow> nat" where
  "cutAt keep msgs n = (nextCut keep msgs ^^ n) 0"

lemma cutAt_simps [simp]: "cutAt keep msgs 0 = 0" "cutAt keep msgs (Suc n) = nextCut keep msgs (cutAt keep msgs n)"
  by (simp_all add: cutAt_def)

lemma nextCut_gt: "s < nextCut keep msgs s"
  by (simp add: nextCut_def toolRoundEndIndex_def split: sum.split)

lemma cutAt_strict_mono: "strict_mono (cutAt keep msgs)"
  by (simp add: strict_mono_Suc_iff nextCut_gt)

lemma cutAt_ge: "n \<le> cutAt keep msgs n"
  using cutAt_strict_mono by (rule strict_mono_imp_increasing)

lemma cutAt_False [simp]: "cutAt False msgs n = n"
  by (induction n) (simp_all add: nextCut_def)

lemma toolRoundEndIndex_round:
  "ToolRoundFromMessages msgs i = Inr r \<Longrightarrow> toolRoundEndIndex msgs i = i + length (RoundResults r)"
  by (simp add: toolRoundEndIndex_def)

lemma cut_outside_rounds:
  assumes round: "ToolRoundFromMessages msgs i = Inr r"
  shows "cutAt True msgs n \<le> i \<or> i + length (RoundResults r) < cutAt True msgs n"
proof (induction n)
  case (Suc n)
  let ?s = "cutAt True msgs n"
  from Suc consider "?s < i" | "?s = i" | "i + length (RoundResults r) < ?s" by linarith
  then show ?case
  proof cases
    case 1
    have "toolRoundEndIndex msgs ?s < i"
    proof (cases "ToolRoundFromMessages msgs ?s")
      case (Inl e)
      then show ?thesis using 1 by (simp add: toolRoundEndIndex_def)
    next
      case (Inr r')
      then show ?thesis
        using round_inside_tool [OF Inr 1] round_start_assistant [OF round]
        by (auto simp: toolRoundEndIndex_round not_less [symmetric])
    qed
    then show ?thesis by (simp add: nextCut_def)
  next
    case 2
    then show ?thesis using round by (simp add: nextCut_def toolRoundEndIndex_round)
  next
    case 3
    then show ?thesis using nextCut_gt [of ?s True msgs] by simp
  qed
qed simp

text \<open>The state of the selective loop after the messages before \<open>s\<close> were removed.\<close>

definition suffix_state :: "Message list \<Rightarrow> int list \<Rightarrow> nat \<Rightarrow> dropHeadState \<Rightarrow> bool" where
  "suffix_state msgs ws s st \<longleftrightarrow>
     stMsgs st = msgs \<and> stWeights st = ws \<and> stSearchStart st = s \<and> s \<le> length msgs \<and>
     stDeleted st = replicate s True @ replicate (length msgs - s) False"

lemma suffix_state_retained:
  assumes "suffix_state msgs ws s st"
  shows "retainedDropHeadMessages st = drop s msgs"
proof -
  have "zip msgs (replicate s True @ replicate (length msgs - s) False) =
      zip (take s msgs) (replicate s True) @ zip (drop s msgs) (replicate (length msgs - s) False)"
    using assms by (simp add: suffix_state_def zip_append2 min_def)
  moreover have "filter (\<lambda>(m, d). \<not> d) (zip xs (replicate k True)) = []" for xs :: "Message list" and k
    by (auto simp: filter_empty_conv dest!: set_zip_rightD)
  moreover have "filter (\<lambda>(m, d). \<not> d) (zip xs (replicate k False)) = zip xs (replicate k False)"
    for xs :: "Message list" and k
    by (auto simp: filter_id_conv dest!: set_zip_rightD)
  ultimately show ?thesis
    using assms by (simp add: suffix_state_def retainedDropHeadMessages_def)
qed

lemma suffix_state_deleted:
  "suffix_state msgs ws s st \<Longrightarrow> i < length msgs \<Longrightarrow> stDeleted st ! i \<longleftrightarrow> i < s"
  by (auto simp: suffix_state_def nth_append)

lemma suffix_state_find:
  assumes "suffix_state msgs ws s st"
  shows "findFirstDroppableIndex st = (if s < length msgs then Some s else None)"
proof (cases "s < length msgs")
  case True
  then have "[s ..< length msgs] = s # [Suc s ..< length msgs]" by (rule upt_conv_Cons)
  with True assms suffix_state_deleted [OF assms True] show ?thesis
    by (simp add: findFirstDroppableIndex_def suffix_state_def)
qed (use assms in \<open>simp add: findFirstDroppableIndex_def suffix_state_def\<close>)


lemma filter_upt_ge: "s \<le> n \<Longrightarrow> filter (\<lambda>i. \<not> i < s) [s ..< n] = [s ..< n]"
  by (simp add: filter_id_conv)

lemma takeWhile_tools_upt:
  "takeWhile (\<lambda>i. MsgRole (msgs ! i) = RoleTool) [k ..< length msgs] =
   [k ..< k + length (leading_tools (drop k msgs))]"
proof (induction "length msgs - k" arbitrary: k)
  case 0
  then show ?case by (simp add: leading_tools_def)
next
  case (Suc d)
  then have k: "k < length msgs" by simp
  then have d: "drop k msgs = msgs ! k # drop (Suc k) msgs" "[k ..< length msgs] = k # [Suc k ..< length msgs]"
    by (simp_all add: Cons_nth_drop_Suc upt_conv_Cons)
  have IH: "takeWhile (\<lambda>i. MsgRole (msgs ! i) = RoleTool) [Suc k ..< length msgs] =
     [Suc k ..< Suc k + length (leading_tools (drop (Suc k) msgs))]"
    using Suc by (intro Suc.hyps) simp
  then show ?case by (simp add: d leading_tools_def upt_conv_Cons del: upt_Suc)
qed

lemma activeIndexes_suffix:
  assumes "suffix_state msgs ws s st" "s < length msgs"
  shows "activeIndexes msgs s (Some (stDeleted st)) = [s ..< Suc s + length (leading_tools (drop (Suc s) msgs))]"
proof -
  have "filter (\<lambda>i. \<not> stDeleted st ! i) [s ..< length msgs] = [s ..< length msgs]"
    using suffix_state_deleted [OF assms(1)] by (simp add: filter_id_conv)
  moreover have "takeWhile (\<lambda>i. i = s \<or> MsgRole (msgs ! i) = RoleTool) [Suc s ..< length msgs] =
      takeWhile (\<lambda>i. MsgRole (msgs ! i) = RoleTool) [Suc s ..< length msgs]"
    by (rule takeWhile_cong) auto
  ultimately show ?thesis
    using assms(2) by (simp add: activeIndexes_def upt_conv_Cons takeWhile_tools_upt del: upt_Suc)
qed

lemma map_nth_leading_tools:
  "map (\<lambda>i. msgs ! i) [Suc s ..< Suc s + length (leading_tools (drop (Suc s) msgs))] =
   leading_tools (drop (Suc s) msgs)"
proof (rule nth_equalityI)
  fix j assume j: "j < length (map (\<lambda>i. msgs ! i) [Suc s ..< Suc s + length (leading_tools (drop (Suc s) msgs))])"
  then have "leading_tools (drop (Suc s) msgs) ! j = drop (Suc s) msgs ! j"
    unfolding leading_tools_def by (intro takeWhile_nth) (simp add: leading_tools_def del: upt_Suc)
  then show "map (\<lambda>i. msgs ! i) [Suc s ..< Suc s + length (leading_tools (drop (Suc s) msgs))] ! j =
      leading_tools (drop (Suc s) msgs) ! j"
    using j leading_tools_nth [of j s msgs] by (simp del: upt_Suc)
qed (simp del: upt_Suc)

lemma activeToolRoundEndIndex_suffix:
  assumes "suffix_state msgs ws s st" "s < length msgs"
  shows "activeToolRoundEndIndex msgs s (Some (stDeleted st)) = toolRoundEndIndex msgs s"
proof -
  let ?ts = "leading_tools (drop (Suc s) msgs)"
  have vis: "map (\<lambda>i. Message_Clone (msgs ! i)) [s ..< Suc s + length ?ts] =
      Message_Clone (msgs ! s) # cloneMessageSlice ?ts"
    using map_nth_leading_tools [of msgs s]
    by (simp add: upt_conv_Cons cloneMessageSlice_def del: upt_Suc)
      (metis (no_types, lifting) comp_apply list.map_comp map_eq_conv)
  have tools: "leading_tools (cloneMessageSlice ?ts) = cloneMessageSlice ?ts"
    by (rule leading_tools_id) (auto simp: cloneMessageSlice_def dest: leading_tools_role)
  have round: "ToolRoundFromMessages (Message_Clone (msgs ! s) # cloneMessageSlice ?ts) 0 = Inr r \<longleftrightarrow>
      canonical_round \<lparr>RoundAssistant = msgs ! s, RoundResults = ?ts\<rparr> \<and>
      r = \<lparr>RoundAssistant = Message_Clone (Message_Clone (msgs ! s)),
           RoundResults = cloneMessageSlice (cloneMessageSlice ?ts)\<rparr>" for r
    by (simp add: ToolRoundFromMessages_Inr tools canonical_round_clone)
  show ?thesis
  proof (cases "canonical_round \<lparr>RoundAssistant = msgs ! s, RoundResults = ?ts\<rparr>")
    case True
    then have "toolRoundEndIndex msgs s = s + length ?ts"
      using assms(2) by (subst toolRoundEndIndex_round) (auto simp: ToolRoundFromMessages_Inr)
    moreover from True round obtain r where
      "ToolRoundFromMessages (Message_Clone (msgs ! s) # cloneMessageSlice ?ts) 0 = Inr r"
      "length (RoundResults r) = length ?ts" by simp
    ultimately show ?thesis
      using assms(2) by (simp add: activeToolRoundEndIndex_def Let_def activeIndexes_suffix [OF assms]
          vis [unfolded add_Suc] del: upt_Suc)
  next
    case False
    then obtain e e' where "ToolRoundFromMessages (Message_Clone (msgs ! s) # cloneMessageSlice ?ts) 0 = Inl e"
      "ToolRoundFromMessages msgs s = Inl e'"
      using round by (metis ToolRoundFromMessages_Inr sum.exhaust)
    then show ?thesis
      by (simp add: activeToolRoundEndIndex_def Let_def toolRoundEndIndex_def activeIndexes_suffix [OF assms]
          vis [unfolded add_Suc] del: upt_Suc)
  qed
qed

lemma replicate_mark:
  "s < n \<Longrightarrow> (replicate s True @ replicate (n - s) False)[s := True] =
     replicate (Suc s) True @ replicate (n - Suc s) False"
proof -
  assume "s < n"
  then have "n - s = Suc (n - Suc s)" by simp
  then show ?thesis by (simp add: list_update_append replicate_app_Cons_same)
qed

lemma suffix_state_removeIndex:
  assumes "suffix_state msgs ws s st" "s < length msgs"
  shows "suffix_state msgs ws (Suc s) ((removeIndex s st)\<lparr>stSearchStart := Suc s\<rparr>)"
    "stTotal (removeIndex s st) = go_sub (stTotal st) (ws ! s)"
  using assms suffix_state_deleted [OF assms] replicate_mark [OF assms(2)]
  by (simp_all add: suffix_state_def removeIndex_def)

text \<open>Removing the messages from \<open>s\<close> up to \<open>e\<close> shifts the state and reduces the total exactly.\<close>

lemma removeIndex_searchStart [simp]:
  "removeIndex i (st\<lparr>stSearchStart := k\<rparr>) = (removeIndex i st)\<lparr>stSearchStart := k\<rparr>"
  by (simp add: removeIndex_def)

lemma fold_removeIndex_searchStart:
  "fold removeIndex is (st\<lparr>stSearchStart := k\<rparr>) = (fold removeIndex is st)\<lparr>stSearchStart := k\<rparr>"
  by (induction "is" arbitrary: st) simp_all

lemma suffix_state_removeRange:
  assumes "suffix_state msgs ws s st" "s \<le> t" "t \<le> length msgs"
  shows "suffix_state msgs ws t ((fold removeIndex [s ..< t] st)\<lparr>stSearchStart := t\<rparr>)"
  using assms
proof (induction "t - s" arbitrary: s st)
  case 0
  then show ?case by (simp add: suffix_state_def)
next
  case (Suc d)
  then have s: "s < t" "s < length msgs" by simp_all
  let ?st = "(removeIndex s st)\<lparr>stSearchStart := Suc s\<rparr>"
  have "suffix_state msgs ws t ((fold removeIndex [Suc s ..< t] ?st)\<lparr>stSearchStart := t\<rparr>)"
    using Suc s suffix_state_removeIndex(1) [OF Suc.prems(1) s(2)] by (intro Suc.hyps) simp_all
  then show ?case
    using s(1) by (simp add: upt_conv_Cons fold_removeIndex_searchStart)
qed

lemma removeRange_total:
  assumes "suffix_state msgs ws s st" "s \<le> t" "t \<le> length msgs" "length ws = length msgs"
    and "\<forall>w \<in> set ws. 0 \<le> w" "sum_list ws \<le> MaxInt" "stTotal st = sum_list (drop s ws)"
  shows "stTotal (fold removeIndex [s ..< t] st) = sum_list (drop t ws)"
  using assms
proof (induction "t - s" arbitrary: s st)
  case 0
  then show ?case by simp
next
  case (Suc d)
  then have s: "s < t" "s < length msgs" by simp_all
  let ?st = "(removeIndex s st)\<lparr>stSearchStart := Suc s\<rparr>"
  have split: "sum_list (drop s ws) = ws ! s + sum_list (drop (Suc s) ws)"
    using s Suc.prems(4) by (metis Cons_nth_drop_Suc sum_list.Cons)
  have bounds: "0 \<le> sum_list (drop (Suc s) ws)" "sum_list (drop s ws) \<le> sum_list ws" "0 \<le> ws ! s"
    using sum_list_drop_anti [OF Suc.prems(5), of 0 s] Suc.prems(4,5) s
    by (auto intro!: sum_list_nonneg_int dest: in_set_dropD)
  have "go_sub (sum_list (drop s ws)) (ws ! s) = sum_list (drop (Suc s) ws)"
    using split bounds Suc.prems(6) by (subst go_sub_exact) (auto simp: go_int_def MaxInt_def)
  then have "stTotal ?st = sum_list (drop (Suc s) ws)"
    using suffix_state_removeIndex(2) [OF Suc.prems(1) s(2)] Suc.prems(7) by simp
  then have "stTotal (fold removeIndex [Suc s ..< t] ?st) = sum_list (drop t ws)"
    using Suc s suffix_state_removeIndex(1) [OF Suc.prems(1) s(2)] by (intro Suc.hyps) simp_all
  then show ?case
    using s(1) by (simp add: upt_conv_Cons fold_removeIndex_searchStart)
qed

lemma toolRoundEndIndex_lt: "s < length msgs \<Longrightarrow> toolRoundEndIndex msgs s < length msgs"
proof (cases "ToolRoundFromMessages msgs s")
  case (Inr r)
  assume s: "s < length msgs"
  show ?thesis
  proof (cases "RoundResults r")
    case Nil
    then show ?thesis using s Inr by (simp add: toolRoundEndIndex_round)
  next
    case (Cons x xs)
    then show ?thesis
      using round_inside_tool [OF Inr, of "s + length (RoundResults r)"] Inr by (simp add: toolRoundEndIndex_round)
  qed
qed (simp add: toolRoundEndIndex_def)

lemma toolRoundEndIndex_plain:
  "\<not> (MsgRole (msgs ! s) = RoleAssistant \<and> HasToolCalls (msgs ! s)) \<Longrightarrow> toolRoundEndIndex msgs s = s"
  by (auto simp: toolRoundEndIndex_def ToolRoundFromMessages_Inr canonical_round_def HasToolCalls_iff
      call_ids_def split: sum.splits)

lemma selectiveUnit_suffix:
  assumes "suffix_state msgs ws s st" "s < length msgs"
  shows "suffix_state msgs ws (nextCut (keepTurnAtomicity cfg) msgs s) (selectiveUnit cfg s st)"
    and "length ws = length msgs \<Longrightarrow> \<forall>w \<in> set ws. 0 \<le> w \<Longrightarrow> sum_list ws \<le> MaxInt \<Longrightarrow>
      stTotal st = sum_list (drop s ws) \<Longrightarrow>
      stTotal (selectiveUnit cfg s st) = sum_list (drop (nextCut (keepTurnAtomicity cfg) msgs s) ws)"
proof -
  let ?t = "nextCut (keepTurnAtomicity cfg) msgs s"
  have t: "s \<le> ?t" "?t \<le> length msgs"
    using nextCut_gt [of s "keepTurnAtomicity cfg" msgs] toolRoundEndIndex_lt [OF assms(2)] assms(2)
    by (simp_all add: nextCut_def)
  have m: "stMsgs st = msgs" using assms(1) by (simp add: suffix_state_def)
  have unit: "selectiveUnit cfg s st = (fold removeIndex [s ..< ?t] st)\<lparr>stSearchStart := ?t\<rparr>"
    using t assms(2) activeToolRoundEndIndex_suffix [OF assms] toolRoundEndIndex_plain [of msgs s]
    by (auto simp: selectiveUnit_def Let_def m nextCut_def removeUnit_def min_def simp del: upt_Suc)
  show "suffix_state msgs ws ?t (selectiveUnit cfg s st)"
    unfolding unit by (rule suffix_state_removeRange [OF assms(1) t])
  show "stTotal (selectiveUnit cfg s st) = sum_list (drop ?t ws)"
    if "length ws = length msgs" "\<forall>w \<in> set ws. 0 \<le> w" "sum_list ws \<le> MaxInt" "stTotal st = sum_list (drop s ws)"
    using removeRange_total [OF assms(1) t that] by (simp add: unit)
qed

lemma cutAt_bound: "suffix_state msgs ws (cutAt keep msgs n) st \<Longrightarrow> cutAt keep msgs n \<le> length msgs"
  by (simp add: suffix_state_def)

text \<open>What the selective loop leaves behind, for every estimator.\<close>

lemma selectiveLoop_suffix:
  assumes "selectiveLoop E cfg est limit st c = (Inr st', c')"
    and "suffix_state msgs ws (cutAt (keepTurnAtomicity cfg) msgs n) st"
  shows "\<exists>m \<ge> n. suffix_state msgs ws (cutAt (keepTurnAtomicity cfg) msgs m) st' \<and>
     (stTotal st' \<le> limit \<longrightarrow>
        (m = n \<and> st' = st) \<or>
        intrinsicAdditiveEstimator est \<or>
        (\<exists>c1 c2. estimateOwned E est (drop (cutAt (keepTurnAtomicity cfg) msgs m) msgs) c1 = (Inr (stTotal st'), c2)))"
  using assms
proof (induction E cfg est limit st arbitrary: n c rule: selectiveLoop.induct)
  case (1 E cfg est limit st)
  let ?cut = "cutAt (keepTurnAtomicity cfg) msgs"
  show ?case
  proof (cases "stTotal st > limit \<and> ?cut n < length msgs")
    case False
    then have "st' = st"
      using "1.prems" suffix_state_find [OF "1.prems"(2)]
      by (subst (asm) selectiveLoop.simps) (auto simp: bind_Inr_iff split: if_splits)
    then show ?thesis using "1.prems"(2) by blast
  next
    case True
    let ?st = "selectiveUnit cfg (?cut n) st"
    have find: "findFirstDroppableIndex st = Some (?cut n)"
      using suffix_state_find [OF "1.prems"(2)] True by simp
    have next': "suffix_state msgs ws (?cut (Suc n)) ?st"
      using selectiveUnit_suffix(1) [OF "1.prems"(2)] True by simp
    show ?thesis
    proof (cases "intrinsicAdditiveEstimator est")
      case add: True
      then obtain c1 where "selectiveLoop E cfg est limit ?st c1 = (Inr st', c')"
        using "1.prems"(1) True find
        by (subst (asm) selectiveLoop.simps) (auto simp: bind_Inr_iff Let_def)
      from "1.IH"(1) [OF conjunct1 [OF True] find refl add this next'] add show ?thesis
        by (meson Suc_leD)
    next
      case False
      then obtain t c1 c2 c3 where
        est: "estimateOwned E est (retainedDropHeadMessages ?st) c2 = (Inr t, c3)" and
        "selectiveLoop E cfg est limit (?st\<lparr>stTotal := t\<rparr>) c3 = (Inr st', c')"
        using "1.prems"(1) True find
        by (subst (asm) selectiveLoop.simps) (auto simp: bind_Inr_iff Let_def)
      moreover have s': "suffix_state msgs ws (?cut (Suc n)) (?st\<lparr>stTotal := t\<rparr>)"
        using next' by (simp add: suffix_state_def)
      ultimately obtain m where m: "m \<ge> Suc n" "suffix_state msgs ws (?cut m) st'"
        "stTotal st' \<le> limit \<longrightarrow> (m = Suc n \<and> st' = ?st\<lparr>stTotal := t\<rparr>) \<or>
         (\<exists>c1 c2. estimateOwned E est (drop (?cut m) msgs) c1 = (Inr (stTotal st'), c2))"
        using "1.IH"(2) [OF conjunct1 [OF True] find refl False, of t c3 "Suc n"] False by auto
      have est': "estimateOwned E est (drop (?cut (Suc n)) msgs) c2 = (Inr t, c3)"
        using est suffix_state_retained [OF next'] by simp
      have "\<exists>c1 c2. estimateOwned E est (drop (?cut m) msgs) c1 = (Inr (stTotal st'), c2)"
        if fits: "stTotal st' \<le> limit"
      proof (cases "m = Suc n \<and> st' = ?st\<lparr>stTotal := t\<rparr>")
        case True
        with est' show ?thesis by (intro exI) simp
      next
        case False
        with m(3) fits show ?thesis by blast
      qed
      with m(1,2) show ?thesis by (meson Suc_leD)
    qed
  qed
qed

text \<open>With an additive estimator the loop stops at the first boundary whose suffix fits.\<close>

lemma selectiveLoop_additive:
  assumes "selectiveLoop E cfg est limit st c = (Inr st', c')" "intrinsicAdditiveEstimator est"
    and "suffix_state msgs ws (cutAt (keepTurnAtomicity cfg) msgs n) st"
    and "length ws = length msgs" "\<forall>w \<in> set ws. 0 \<le> w" "sum_list ws \<le> MaxInt" "0 \<le> limit"
    and "stTotal st = sum_list (drop (cutAt (keepTurnAtomicity cfg) msgs n) ws)"
    and "\<forall>k < n. limit < sum_list (drop (cutAt (keepTurnAtomicity cfg) msgs k) ws)"
  shows "\<exists>m. suffix_state msgs ws (cutAt (keepTurnAtomicity cfg) msgs m) st' \<and> stTotal st' \<le> limit \<and>
     m = (LEAST m. sum_list (drop (cutAt (keepTurnAtomicity cfg) msgs m) ws) \<le> limit)"
  using assms
proof (induction E cfg est limit st arbitrary: n c rule: selectiveLoop.induct)
  case (1 E cfg est limit st)
  let ?cut = "cutAt (keepTurnAtomicity cfg) msgs"
  show ?case
  proof (cases "stTotal st > limit")
    case False
    then have "st' = st"
      using "1.prems"(1) by (subst (asm) selectiveLoop.simps) auto
    moreover have "(LEAST m. sum_list (drop (?cut m) ws) \<le> limit) = n"
      using False "1.prems"(8,9) by (intro Least_equality) (auto simp: not_less [symmetric])
    ultimately show ?thesis using "1.prems"(3) False by (metis not_less)
  next
    case True
    then have lt: "?cut n < length msgs"
      using "1.prems"(4,7,8) by (cases "?cut n < length msgs") auto
    let ?st = "selectiveUnit cfg (?cut n) st"
    have find: "findFirstDroppableIndex st = Some (?cut n)"
      using suffix_state_find [OF "1.prems"(3)] lt by simp
    obtain c1 where step: "selectiveLoop E cfg est limit ?st c1 = (Inr st', c')"
      using "1.prems"(1,2) True find
      by (subst (asm) selectiveLoop.simps) (auto simp: bind_Inr_iff Let_def)
    have s': "suffix_state msgs ws (?cut (Suc n)) ?st" "stTotal ?st = sum_list (drop (?cut (Suc n)) ws)"
      using selectiveUnit_suffix [OF "1.prems"(3) lt] "1.prems"(4-6,8) by simp_all
    have k: "\<forall>k < Suc n. limit < sum_list (drop (?cut k) ws)"
      using "1.prems"(8,9) True by (auto simp: less_Suc_eq)
    show ?thesis
      by (rule "1.IH"(1) [OF True find refl "1.prems"(2) step "1.prems"(2) s'(1) "1.prems"(4-7) s'(2) k])
  qed
qed

lemma suffix_state_initial:
  "suffix_state msgs ws 0 \<lparr>stMsgs = msgs, stWeights = ws, stDeleted = replicate (length msgs) False,
     stTotal = t, stSearchStart = 0\<rparr>"
  by (simp add: suffix_state_def)

lemma enforceMinMessages_cases: "enforceMinMessages cfg ms = ms \<or> enforceMinMessages cfg ms = []"
  by (simp add: enforceMinMessages_def)

lemma dropHead_additive_aux:
  assumes "dropHeadStrategy_Apply E cfg msgs orig limit est c = (Inr out, c')"
    and "intrinsicAdditiveEstimator est" "limit < orig" "msgs \<noteq> []"
  shows "\<exists>ws. map_res (ownedWeight E est) msgs = Inr ws \<and> orig = sum_list ws \<and> (\<forall>w \<in> set ws. 0 \<le> w) \<and>
     out = enforceMinMessages cfg
       (drop (cutAt (keepTurnAtomicity cfg) msgs
               (LEAST n. sum_list (drop (cutAt (keepTurnAtomicity cfg) msgs n) ws) \<le> limit)) msgs)"
proof -
  let ?st = "\<lambda>ws. \<lparr>stMsgs = msgs, stWeights = ws, stDeleted = replicate (length msgs) False,
     stTotal = orig, stSearchStart = 0\<rparr>"
  from assms obtain ws c1 c2 c3 where limit: "0 \<le> limit"
    and ws: "EstimatePerMessage E est (estimatorCallbackInput est msgs) c1 = (Inr ws, c2)"
    and len: "length ws = length msgs" and sum: "sumEstimateTokens ws = Inr orig"
    and path: "(\<not> keepTurnAtomicity cfg \<and> out = applyFastPath cfg msgs ws limit) \<or>
       applySelectivePath E cfg (?st ws) limit est c3 = (Inr out, c')"
    by (auto simp: dropHeadStrategy_Apply_def bind_Inr_iff split: if_splits elim!: map_err_InrE)
  have w: "\<forall>w \<in> set ws. 0 \<le> w" "sum_list ws \<le> MaxInt" "orig = sum_list ws"
    using sum by (auto simp: sumEstimateTokens_Inr)
  have m: "map_res (ownedWeight E est) msgs = Inr ws"
    using EstimatePerMessage_additive [OF assms(2) ws]
    by (simp add: estimatorCallbackInput_map map_res_map ownedWeight_def [abs_def])
  have "out = enforceMinMessages cfg
       (drop (cutAt (keepTurnAtomicity cfg) msgs
               (LEAST n. sum_list (drop (cutAt (keepTurnAtomicity cfg) msgs n) ws) \<le> limit)) msgs)"
    using path
  proof
    assume "\<not> keepTurnAtomicity cfg \<and> out = applyFastPath cfg msgs ws limit"
    then show ?thesis using applyFastPath_longest [OF w(1,2) len limit] by simp
  next
    assume "applySelectivePath E cfg (?st ws) limit est c3 = (Inr out, c')"
    then obtain st' c4 c5 where loop: "selectiveLoop E cfg est limit (?st ws) c4 = (Inr st', c5)"
      and out: "out = (if stTotal st' > limit then [] else enforceMinMessages cfg (retainedDropHeadMessages st'))"
      by (auto simp: applySelectivePath_def bind_Inr_iff split: if_splits)
    from selectiveLoop_additive [OF loop assms(2), of msgs ws 0] w len limit suffix_state_initial
    show ?thesis by (auto simp: out suffix_state_retained)
  qed
  with m w show ?thesis by blast
qed

text \<open>For any estimator the result is a suffix cut at a boundary.\<close>

lemma dropHead_suffix_aux:
  assumes "dropHeadStrategy_Apply E cfg msgs orig limit est c = (Inr out, c')"
  shows "out = [] \<or> (\<exists>n. out = drop (cutAt (keepTurnAtomicity cfg) msgs n) msgs)"
proof (cases "msgs = [] \<or> orig \<le> limit")
  case True
  then have "out = msgs"
    using assms by (auto simp: dropHeadStrategy_Apply_def bind_Inr_iff split: if_splits)
  then show ?thesis by (metis cutAt_simps(1) drop0)
next
  case False
  show ?thesis
  proof (cases "intrinsicAdditiveEstimator est")
    case True
    from dropHead_additive_aux [OF assms True] False show ?thesis
      by (metis enforceMinMessages_cases not_le)
  next
    case add: False
    let ?st = "\<lambda>ws. \<lparr>stMsgs = msgs, stWeights = ws, stDeleted = replicate (length msgs) False,
       stTotal = orig, stSearchStart = 0\<rparr>"
    from assms False add obtain ws c3 where "applySelectivePath E cfg (?st ws) limit est c3 = (Inr out, c')"
      by (auto simp: dropHeadStrategy_Apply_def bind_Inr_iff split: if_splits)
    then obtain st' c4 c5 where loop: "selectiveLoop E cfg est limit (?st ws) c4 = (Inr st', c5)"
      and out: "out = (if stTotal st' > limit then [] else enforceMinMessages cfg (retainedDropHeadMessages st'))"
      by (auto simp: applySelectivePath_def bind_Inr_iff split: if_splits)
    have "suffix_state msgs ws (cutAt (keepTurnAtomicity cfg) msgs 0) (?st ws)"
      using suffix_state_initial by simp
    from selectiveLoop_suffix [OF loop this] obtain m where
      "suffix_state msgs ws (cutAt (keepTurnAtomicity cfg) msgs m) st'" by blast
    then show ?thesis
      using suffix_state_retained out enforceMinMessages_cases by metis
  qed
qed

subsection \<open>Drop-tail keeps a prefix cut at a boundary\<close>

lemma tailToolsStart_tools:
  "tailToolsStart msgs n \<le> n \<and> (\<forall>j. tailToolsStart msgs n \<le> j \<and> j < n \<longrightarrow> MsgRole (msgs ! j) = RoleTool) \<and>
   (tailToolsStart msgs n = 0 \<or> MsgRole (msgs ! (tailToolsStart msgs n - 1)) \<noteq> RoleTool)"
  by (induction n) (auto simp: less_Suc_eq)

lemma tailToolsStart_unique:
  assumes "\<forall>j. s \<le> j \<and> j < n \<longrightarrow> MsgRole (msgs ! j) = RoleTool" "s \<le> n" "0 < s"
    "MsgRole (msgs ! (s - 1)) \<noteq> RoleTool"
  shows "tailToolsStart msgs n = s"
  using assms
proof (induction n)
  case (Suc n)
  then show ?case by (cases "s = Suc n") auto
qed simp

text \<open>A round of a prefix that ends inside it is not a round any more; one that ends with it still is.\<close>

lemma round_of_prefix:
  assumes "ToolRoundFromMessages msgs i = Inr r" "k = Suc (i + length (RoundResults r))"
  shows "ToolRoundFromMessages (take k msgs) i = Inr r"
proof -
  have r: "i < length msgs" "canonical_round \<lparr>RoundAssistant = msgs ! i, RoundResults = leading_tools (drop (Suc i) msgs)\<rparr>"
    "r = \<lparr>RoundAssistant = Message_Clone (msgs ! i), RoundResults = cloneMessageSlice (leading_tools (drop (Suc i) msgs))\<rparr>"
    using assms(1) by (auto simp: ToolRoundFromMessages_Inr)
  have "drop (Suc i) (take k msgs) = leading_tools (drop (Suc i) msgs)"
    using assms(2) r(3) by (simp add: drop_take)
  moreover have "leading_tools (leading_tools (drop (Suc i) msgs)) = leading_tools (drop (Suc i) msgs)"
    by (rule leading_tools_id) (auto dest: leading_tools_role)
  ultimately show ?thesis
    using r assms(2) by (simp add: ToolRoundFromMessages_Inr)
qed

lemma canonical_round_nonempty: "ToolRoundFromMessages msgs i = Inr r \<Longrightarrow> RoundResults r \<noteq> []"
  by (auto simp: ToolRoundFromMessages_Inr canonical_round_def cloneMessageSlice_def)

definition outside :: "nat \<Rightarrow> ToolRound \<Rightarrow> nat \<Rightarrow> bool" where
  "outside i r k \<longleftrightarrow> k \<le> i \<or> i + length (RoundResults r) < k"


lemma toolRoundEndIndex_prefix_round:
  assumes "toolRoundEndIndex msgs a = e" "a < e"
  shows "\<exists>r. ToolRoundFromMessages msgs a = Inr r \<and> e = a + length (RoundResults r)"
  using assms by (auto simp: toolRoundEndIndex_def split: sum.splits)

lemma dropTailAtomicUnit_take:
  assumes "0 < k" "k \<le> length msgs"
  shows "\<exists>k' < k. dropTailAtomicUnit (take k msgs) = take k' msgs"
proof -
  have len: "length (take k msgs) = k" using assms by simp
  have "toolRoundStartForTail (take k msgs) \<le> k - 1"
    using toolRoundStartForTail_le [of "take k msgs"] len by simp
  then have "take (toolRoundStartForTail (take k msgs)) (take k msgs) =
      take (toolRoundStartForTail (take k msgs)) msgs" "toolRoundStartForTail (take k msgs) < k"
    using assms by (simp_all add: min_def)
  moreover have "take (k - 1) (take k msgs) = take (k - 1) msgs"
    by (simp add: min_def)
  moreover have "take k msgs \<noteq> []" using assms by auto
  ultimately show ?thesis
    unfolding dropTailAtomicUnit_def len by (metis assms(1) diff_less zero_less_one)
qed

lemma toolRoundStartForTail_eq:
  assumes "length ms = k" "tailToolsStart ms (k - 1) = s"
  shows "toolRoundStartForTail ms =
     (if s > 0 \<and> MsgRole (ms ! (s - 1)) = RoleAssistant \<and> HasToolCalls (ms ! (s - 1))
         \<and> toolRoundEndIndex ms (s - 1) = k - 1 then s - 1 else k - 1)"
  unfolding toolRoundStartForTail_def Let_def assms ..

lemma dropTail_whole_round:
  assumes round: "ToolRoundFromMessages msgs i = Inr r" and k: "k = Suc (i + length (RoundResults r))"
  shows "dropTailAtomicUnit (take k msgs) = take i msgs"
proof -
  let ?ms = "take k msgs"
  have pos: "0 < length (RoundResults r)" using canonical_round_nonempty [OF round] by simp
  have le: "k \<le> length msgs"
    using round_inside_tool [OF round, of "i + length (RoundResults r)"] pos k by simp
  then have len: "length ?ms = k" by simp
  have nth: "?ms ! j = msgs ! j" if "j < k" for j using that by simp
  have tools: "MsgRole (?ms ! j) = RoleTool" if "Suc i \<le> j" "j < k" for j
    using round_inside_tool [OF round, of j] that k by simp
  have start: "tailToolsStart ?ms (k - 1) = Suc i"
    by (rule tailToolsStart_unique) (use tools round_start_assistant [OF round] k pos in \<open>auto simp: nth Suc_le_eq\<close>)
  have pre: "ToolRoundFromMessages ?ms i = Inr r" by (rule round_of_prefix [OF round k])
  have "MsgRole (?ms ! i) = RoleAssistant \<and> HasToolCalls (?ms ! i)"
    using pre by (auto simp: ToolRoundFromMessages_Inr canonical_round_def HasToolCalls_iff call_ids_def)
  moreover have "toolRoundEndIndex ?ms i = k - 1"
    using toolRoundEndIndex_round [OF pre] k by simp
  ultimately have "toolRoundStartForTail ?ms = i"
    unfolding toolRoundStartForTail_eq [OF len start] by simp
  moreover have "MsgRole (?ms ! (k - 1)) = RoleTool" using tools [of "k - 1"] pos k by simp
  moreover have "?ms \<noteq> []" using k le by auto
  ultimately have "dropTailAtomicUnit ?ms = take i ?ms" unfolding dropTailAtomicUnit_def len by simp
  then show ?thesis using k by (simp add: min_def)
qed

lemma dropTail_round_start:
  assumes "0 < k" "k \<le> length msgs" "dropTailAtomicUnit (take k msgs) = take j msgs" "j < k - 1"
  shows "MsgRole (msgs ! j) = RoleAssistant \<and> (\<forall>x. j < x \<and> x < k \<longrightarrow> MsgRole (msgs ! x) = RoleTool)"
proof -
  let ?ms = "take k msgs"
  let ?s = "tailToolsStart ?ms (k - 1)"
  have len: "length ?ms = k" using assms by simp
  have nth: "?ms ! x = msgs ! x" if "x < k" for x using that by simp
  have lj: "length (dropTailAtomicUnit ?ms) = j" using assms by simp
  have ne: "?ms \<noteq> []" using assms by auto
  have le: "toolRoundStartForTail ?ms \<le> k - 1" using toolRoundStartForTail_le [of ?ms] len by simp
  have last: "MsgRole (?ms ! (k - 1)) = RoleTool"
  proof (rule ccontr)
    assume "MsgRole (?ms ! (k - 1)) \<noteq> RoleTool"
    then have "dropTailAtomicUnit ?ms = take (k - 1) ?ms" unfolding dropTailAtomicUnit_def len using ne by simp
    then have "length (dropTailAtomicUnit ?ms) = k - 1" using len by simp
    then show False using lj assms(4) by simp
  qed
  then have "dropTailAtomicUnit ?ms = take (toolRoundStartForTail ?ms) ?ms"
    unfolding dropTailAtomicUnit_def len using ne by simp
  then have "length (dropTailAtomicUnit ?ms) = toolRoundStartForTail ?ms" using le len by simp
  then have st: "toolRoundStartForTail ?ms = j" using lj by simp
  from st assms(4) have j: "?s > 0" "j = ?s - 1" "MsgRole (?ms ! j) = RoleAssistant"
    unfolding toolRoundStartForTail_eq [OF len refl] by (metis less_irrefl)+
  have "MsgRole (msgs ! x) = RoleTool" if "j < x" "x < k" for x
  proof (cases "x = k - 1")
    case True
    then show ?thesis using last nth that by simp
  next
    case False
    then have "?s \<le> x" "x < k - 1" using that j by auto
    then have "MsgRole (?ms ! x) = RoleTool" using tailToolsStart_tools [of ?ms "k - 1"] by blast
    then show ?thesis using nth that by simp
  qed
  then show ?thesis using j(3) nth assms(4) by simp
qed

lemma dropTailAtomicUnit_outside:
  assumes "0 < k" "k \<le> length msgs" "dropTailAtomicUnit (take k msgs) = take j msgs" "j < k"
    and round: "ToolRoundFromMessages msgs i = Inr r" and "outside i r k"
  shows "outside i r j"
proof (cases "k = Suc (i + length (RoundResults r))")
  case True
  then have "take j msgs = take i msgs" using dropTail_whole_round [OF round] assms(3) by simp
  then have "min (length msgs) j = min (length msgs) i" by (metis length_take min.commute)
  then show ?thesis
    using round_start_assistant [OF round] assms(2,4) by (simp add: outside_def min_def split: if_splits)
next
  case False
  show ?thesis
  proof (rule ccontr)
    assume n: "\<not> outside i r j"
    then have j: "i < j" "j \<le> i + length (RoundResults r)" by (auto simp: outside_def)
    with assms(4,6) False have "j < k - 1" by (auto simp: outside_def)
    from dropTail_round_start [OF assms(1-3) this] round_inside_tool [OF round j]
    show False by simp
  qed
qed

lemma dropTailLoop_prefix:
  assumes "dropTailLoop E est limit (take k msgs) c = (Inr out, c')" "k \<le> length msgs"
    and "\<forall>i r. ToolRoundFromMessages msgs i = Inr r \<longrightarrow> outside i r k"
  shows "\<exists>j < k. out = take j msgs \<and>
     (\<exists>c1 c2 n. estimateOwned E est out c1 = (Inr n, c2) \<and> n \<le> limit) \<and>
     (\<forall>i r. ToolRoundFromMessages msgs i = Inr r \<longrightarrow> outside i r j)"
  using assms
proof (induction k arbitrary: c rule: less_induct)
  case (less k)
  have k: "1 < k" using less.prems(1,2) by (subst (asm) dropTailLoop.simps) (auto split: if_splits)
  obtain j where j: "j < k" "dropTailAtomicUnit (take k msgs) = take j msgs"
    using dropTailAtomicUnit_take [of k msgs] k less.prems(2) by auto
  have out: "\<forall>i r. ToolRoundFromMessages msgs i = Inr r \<longrightarrow> outside i r j"
    using dropTailAtomicUnit_outside [OF _ less.prems(2) j(2,1)] k less.prems(3) by auto
  from less.prems(1) k less.prems(2) obtain n c1 where
    est: "estimateOwned E est (take j msgs) c = (Inr n, c1)" and
    rest: "n \<le> limit \<and> out = take j msgs \<or> (\<exists>c2. dropTailLoop E est limit (take j msgs) c2 = (Inr out, c'))"
    by (fastforce simp: dropTailLoop.simps [of E est limit "take k msgs"] Let_def j(2) bind_Inr_iff
        split: if_splits elim!: settle_InrE map_err_InrE)
  show ?case
  proof (cases "n \<le> limit \<and> out = take j msgs")
    case True
    with est out j(1) show ?thesis by blast
  next
    case False
    with rest obtain c2 where "dropTailLoop E est limit (take j msgs) c2 = (Inr out, c')" by auto
    from less.IH [OF j(1) this _ out] j(1) less.prems(2) show ?thesis
      by (meson le_trans less_imp_le less_trans)
  qed
qed

lemma outside_full: "ToolRoundFromMessages msgs i = Inr r \<Longrightarrow> outside i r (length msgs)"
  using round_inside_tool [of msgs i r "i + length (RoundResults r)"] canonical_round_nonempty [of msgs i r]
  by (auto simp: outside_def)


subsection \<open>Properties\<close>

text \<open>
  C13. With an intrinsically additive estimator, drop-head on an oversized block returns the
  longest suffix that starts at a message boundary (at a tool-round boundary when turns are
  kept atomic) and fits the limit, or nothing when that suffix is shorter than
  \<^verbatim>\<open>MinMessages\<close>. The binary search of the fast path and the selective loop agree on it.
\<close>

theorem dropHead_longest_fitting_suffix:
  assumes "dropHeadStrategy_Apply E cfg msgs originalTokens limit est c = (Inr out, c')"
    and "intrinsicAdditiveEstimator est" "limit < originalTokens" "msgs \<noteq> []"
  shows "\<exists>ws. map_res (ownedWeight E est) msgs = Inr ws \<and> originalTokens = sum_list ws \<and>
     out = enforceMinMessages cfg
       (drop (cutAt (keepTurnAtomicity cfg) msgs
               (LEAST n. sum_list (drop (cutAt (keepTurnAtomicity cfg) msgs n) ws) \<le> limit)) msgs)"
  using dropHead_additive_aux [OF assms] by blast

definition sampleHistory :: "Message list" where
  "sampleHistory = [userText ''u1'' ''hello'', assistantCall ''a1'' ''c1'', toolReply ''t1'' ''c1'', userText ''u2'' ''bye'']"

lemma sampleHistory_dropHead:
  "dropHeadStrategy_Apply sampleEnv \<lparr>KeepTurnAtomicity = None, MinMessages = 0\<rparr> sampleHistory 17 8
     CharTokenEstimator None = (Inr [userText ''u2'' ''bye''], None)"
  by code_simp


theorem dropHead_longest_fitting_suffix_witness:
  "\<exists>ws. map_res (ownedWeight sampleEnv CharTokenEstimator) sampleHistory = Inr ws \<and> 17 = sum_list ws \<and>
     [userText ''u2'' ''bye''] = enforceMinMessages \<lparr>KeepTurnAtomicity = None, MinMessages = 0\<rparr>
       (drop (cutAt (keepTurnAtomicity \<lparr>KeepTurnAtomicity = None, MinMessages = 0\<rparr>) sampleHistory
          (LEAST n. sum_list (drop (cutAt (keepTurnAtomicity \<lparr>KeepTurnAtomicity = None, MinMessages = 0\<rparr>)
             sampleHistory n) ws) \<le> 8)) sampleHistory)"
  by (rule dropHead_longest_fitting_suffix [OF sampleHistory_dropHead])
    (simp_all add: intrinsicAdditiveEstimator_def sampleHistory_def)

text \<open>What every built-in strategy does to the messages: it keeps the messages of a window.\<close>

definition kept_window :: "Message list \<Rightarrow> Message list \<Rightarrow> nat \<Rightarrow> nat \<Rightarrow> bool" where
  "kept_window msgs out a b \<longleftrightarrow> a \<le> b \<and> b \<le> length msgs \<and> out = take (b - a) (drop a msgs)"

definition builtin_strategy :: "EvictionStrategy \<Rightarrow> bool" where
  "builtin_strategy s = (case s of HostStrategy _ \<Rightarrow> False | _ \<Rightarrow> True)"

definition builtin_atomic :: "EvictionStrategy \<Rightarrow> bool" where
  "builtin_atomic s = (case s of HostStrategy _ \<Rightarrow> False | DropHeadStrategy cfg \<Rightarrow> keepTurnAtomicity cfg | _ \<Rightarrow> True)"

lemma kept_window_all: "kept_window msgs msgs 0 (length msgs)"
  and kept_window_none: "kept_window msgs [] 0 0"
  and kept_window_take: "j \<le> length msgs \<Longrightarrow> kept_window msgs (take j msgs) 0 j"
  by (simp_all add: kept_window_def)

lemma kept_window_drop: "kept_window msgs (drop k msgs) (min k (length msgs)) (length msgs)"
  by (simp add: kept_window_def min_def)

lemma whole_window:
  "\<exists>a b. kept_window msgs msgs a b \<and>
     (\<forall>i r. ToolRoundFromMessages msgs i = Inr r \<longrightarrow> outside i r a \<and> outside i r b)"
  using kept_window_all [of msgs] outside_full [of msgs] by (metis outside_def zero_le)

lemma builtin_atomic_window:
  assumes "EvictionStrategy_Apply E s msgs orig limit est c = (Inr out, c')" "builtin_atomic s"
  shows "\<exists>a b. kept_window msgs out a b \<and>
     (\<forall>i r. ToolRoundFromMessages msgs i = Inr r \<longrightarrow> outside i r a \<and> outside i r b)"
proof (cases s)
  case StrictStrategy
  then have "out = msgs"
    using assms by (auto simp: EvictionStrategy_Apply_def strictStrategy_Apply_def bind_Inr_iff split: if_splits)
  then show ?thesis using whole_window by simp
next
  case DropStrategy
  then have "out = msgs \<or> out = []"
    using assms by (auto simp: EvictionStrategy_Apply_def dropStrategy_Apply_def bind_Inr_iff split: if_splits)
  then show ?thesis
    using kept_window_all [of msgs] kept_window_none [of msgs] outside_full [of msgs]
    by (elim disjE) (metis outside_def zero_le)+
next
  case DropTailStrategy
  then consider "out = msgs" | c1 where "dropTailLoop E est limit (take (length msgs) msgs) c1 = (Inr out, c')"
    using assms by (auto simp: EvictionStrategy_Apply_def dropTailStrategy_Apply_def bind_Inr_iff split: if_splits)
  then show ?thesis
  proof cases
    case 1
    then show ?thesis using whole_window by simp
  next
    case 2
    from dropTailLoop_prefix [OF 2] outside_full obtain j where "j < length msgs" "out = take j msgs"
      "\<forall>i r. ToolRoundFromMessages msgs i = Inr r \<longrightarrow> outside i r j" by blast
    then show ?thesis using kept_window_take [of j msgs] by (metis less_imp_le outside_def zero_le)
  qed
next
  case (DropHeadStrategy cfg)
  then have keep: "keepTurnAtomicity cfg" using assms(2) by (simp add: builtin_atomic_def)
  from dropHead_suffix_aux [of E cfg msgs orig limit est c out c'] assms DropHeadStrategy
  consider "out = []" | n where "out = drop (cutAt True msgs n) msgs"
    by (auto simp: EvictionStrategy_Apply_def keep)
  then show ?thesis
  proof cases
    case 1
    then show ?thesis using kept_window_none [of msgs] by (auto simp: outside_def intro!: exI [of _ 0])
  next
    case 2
    have "outside i r (min (cutAt True msgs n) (length msgs))" if "ToolRoundFromMessages msgs i = Inr r" for i r
      using cut_outside_rounds [OF that, of n] outside_full [OF that] by (auto simp: outside_def min_def)
    then show ?thesis using 2 kept_window_drop outside_full by blast
  qed
qed (use assms in \<open>simp add: builtin_atomic_def\<close>)

lemma builtin_window:
  assumes "EvictionStrategy_Apply E s msgs orig limit est c = (Inr out, c')" "builtin_strategy s"
  shows "\<exists>a b. kept_window msgs out a b \<and>
     (builtin_atomic s \<longrightarrow> (\<forall>i r. ToolRoundFromMessages msgs i = Inr r \<longrightarrow> outside i r a \<and> outside i r b))"
proof (cases "builtin_atomic s")
  case True
  with builtin_atomic_window [OF assms(1)] show ?thesis by blast
next
  case False
  with assms(2) obtain cfg where cfg: "s = DropHeadStrategy cfg"
    by (cases s) (simp_all add: builtin_atomic_def builtin_strategy_def)
  with assms(1) have "dropHeadStrategy_Apply E cfg msgs orig limit est c = (Inr out, c')" by (simp add: EvictionStrategy_Apply_def)
  from dropHead_suffix_aux [OF this] False show ?thesis using kept_window_none [of msgs] kept_window_drop by blast
qed

text \<open>
  C2. Every built-in strategy returns a contiguous window of the input; and every one that is atomic - which is all of them
  but drop-head with an explicit \<^verbatim>\<open>KeepTurnAtomicity\<close> of false - splits no canonical tool round: the assistant message
  of a round with all its tool results is either inside the window or outside of it.
\<close>

theorem eviction_never_splits_rounds:
  assumes "EvictionStrategy_Apply E s msgs originalTokens limit est c = (Inr out, c')" "builtin_strategy s"
  shows "\<exists>a b. kept_window msgs out a b \<and>
     (builtin_atomic s \<longrightarrow> (\<forall>i r. ToolRoundFromMessages msgs i = Inr r \<longrightarrow>
        (a \<le> i \<and> i + length (RoundResults r) < b) \<or> b \<le> i \<or> i + length (RoundResults r) < a))"
proof -
  obtain a b where "kept_window msgs out a b"
    "builtin_atomic s \<longrightarrow> (\<forall>i r. ToolRoundFromMessages msgs i = Inr r \<longrightarrow> outside i r a \<and> outside i r b)"
    using builtin_window [OF assms] by blast
  then show ?thesis by (intro exI [of _ a] exI [of _ b]) (auto simp: outside_def kept_window_def)
qed

lemma sampleHistory_dropTail:
  "EvictionStrategy_Apply sampleEnv DropTailStrategy sampleHistory 17 6 CharTokenEstimator None =
     (Inr [userText ''u1'' ''hello''], None)"
  by code_simp

theorem eviction_never_splits_rounds_witness:
  "\<exists>a b. kept_window sampleHistory [userText ''u1'' ''hello''] a b \<and>
     (\<forall>i r. ToolRoundFromMessages sampleHistory i = Inr r \<longrightarrow>
        (a \<le> i \<and> i + length (RoundResults r) < b) \<or> b \<le> i \<or> i + length (RoundResults r) < a)"
  using eviction_never_splits_rounds [OF sampleHistory_dropTail] by (simp add: builtin_atomic_def builtin_strategy_def)

lemma builtin_estimate_valid:
  assumes "intrinsicAdditiveEstimator est" "estimateOwned E est ms c = (Inr n, c')"
  shows "validateBuiltinEstimator est = Inr ()"
proof -
  from assms obtain c1 c2 where "Estimate E est (estimatorCallbackInput est ms) c1 = (Inr n, c2)"
    by (auto simp: estimateOwned_def bind_Inr_iff split: if_splits elim!: settle_InrE)
  from Estimate_additive [OF assms(1) this] EstimatePerMessage_additive [OF assms(1)]
  show ?thesis by blast
qed

lemma estimateOwned_run:
  assumes "intrinsicAdditiveEstimator est" "estimateOwned E est ms c = (Inr n, c')"
  shows "run (estimateOwned E est ms) = Inr n"
  using estimateOwned_additive [OF assms] builtin_estimate_valid [OF assms] estimateOwned_None [OF assms(1)]
  by blast

lemma estimateOwned_Nil:
  assumes "intrinsicAdditiveEstimator est" "validateBuiltinEstimator est = Inr ()"
  shows "run (estimateOwned E est []) = Inr 0"
proof (rule estimateOwned_None [OF assms])
  show "map_res (ownedWeight E est) [] = Inr []" by simp
  show "sumEstimateTokens [] = Inr 0" by (simp add: sumEstimateTokens_Inr MaxInt_def)
qed

lemma estimateOwned_drop:
  assumes "intrinsicAdditiveEstimator est" "validateBuiltinEstimator est = Inr ()"
    and "map_res (ownedWeight E est) ms = Inr ws" "\<forall>w \<in> set ws. 0 \<le> w" "sum_list ws \<le> MaxInt"
  shows "run (estimateOwned E est (drop k ms)) = Inr (sum_list (drop k ws))"
proof (rule estimateOwned_None [OF assms(1,2)])
  show "map_res (ownedWeight E est) (drop k ms) = Inr (drop k ws)"
    using assms(3) by (auto simp: map_res_Inr_iff intro: list_all2_dropI)
  show "sumEstimateTokens (drop k ws) = Inr (sum_list (drop k ws))"
    using assms(4,5) sum_list_drop_anti [OF assms(4), of 0 k]
    by (auto simp: sumEstimateTokens_Inr dest: in_set_dropD)
qed


lemma run_InrD: "run m = Inr x \<Longrightarrow> \<exists>c. m None = (Inr x, c)"
  by (metis run_def surjective_pairing)


lemma dropHead_fits:
  assumes "dropHeadStrategy_Apply E cfg msgs orig limit est c = (Inr out, c')"
    and add: "intrinsicAdditiveEstimator est" and orig: "run (estimateOwned E est msgs) = Inr orig"
  shows "\<exists>n \<le> limit. run (estimateOwned E est out) = Inr n"
proof (cases "msgs = [] \<or> orig \<le> limit")
  case True
  with assms(1) have limit: "0 \<le> limit" and out: "out = msgs" "msgs = [] \<or> orig \<le> limit"
    by (auto simp: dropHeadStrategy_Apply_def bind_Inr_iff split: if_splits)
  show ?thesis
  proof (cases "msgs = []")
    case True
    have v: "validateBuiltinEstimator est = Inr ()"
      using run_InrD [OF orig] builtin_estimate_valid [OF add] by blast
    have "run (estimateOwned E est []) = Inr 0"
      by (rule estimateOwned_Nil [OF add v])
    then show ?thesis using limit out True by auto
  next
    case False
    then show ?thesis using out orig by auto
  qed
next
  case False
  then have lt: "limit < orig" "msgs \<noteq> []" by auto
  from dropHead_additive_aux [OF assms(1) add lt] obtain ws n where
    ws: "map_res (ownedWeight E est) msgs = Inr ws" "orig = sum_list ws" "\<forall>w \<in> set ws. 0 \<le> w" and
    n: "n = (LEAST n. sum_list (drop (cutAt (keepTurnAtomicity cfg) msgs n) ws) \<le> limit)" and
    out: "out = enforceMinMessages cfg (drop (cutAt (keepTurnAtomicity cfg) msgs n) msgs)"
    by blast
  from run_InrD [OF orig] obtain c1 where est: "estimateOwned E est msgs None = (Inr orig, c1)" ..
  have v: "validateBuiltinEstimator est = Inr ()" by (rule builtin_estimate_valid [OF add est])
  from estimateOwned_additive [OF add est] ws have max: "sum_list ws \<le> MaxInt"
    by (auto simp: sumEstimateTokens_Inr)
  note cost = estimateOwned_drop [OF add v ws(1,3) max]
  have limit: "0 \<le> limit"
    using assms(1) by (auto simp: dropHeadStrategy_Apply_def bind_Inr_iff split: if_splits)
  have "length msgs \<le> cutAt (keepTurnAtomicity cfg) msgs (length msgs)" by (rule cutAt_ge)
  moreover have "length ws = length msgs" using ws(1) by (rule map_res_length)
  ultimately have "sum_list (drop (cutAt (keepTurnAtomicity cfg) msgs (length msgs)) ws) \<le> limit"
    using limit by simp
  then have "sum_list (drop (cutAt (keepTurnAtomicity cfg) msgs n) ws) \<le> limit"
    unfolding n by (rule LeastI)
  moreover have "run (estimateOwned E est []) = Inr 0" using cost [of "length msgs"] \<open>length ws = _\<close> by simp
  ultimately show ?thesis
    using cost [of "cutAt (keepTurnAtomicity cfg) msgs n"] enforceMinMessages_cases limit
    unfolding out by metis
qed

text \<open>
  C15. Whatever a built-in strategy returns fits the limit when it is estimated again, with an
  intrinsically additive estimator and the total that the estimator reports for the input.
\<close>

theorem eviction_fits_limit:
  assumes "EvictionStrategy_Apply E s msgs originalTokens limit est c = (Inr out, c')"
    and "builtin_strategy s" "intrinsicAdditiveEstimator est" "0 \<le> limit"
    and "run (estimateOwned E est msgs) = Inr originalTokens"
  shows "\<exists>n \<le> limit. run (estimateOwned E est out) = Inr n"
proof -
  from run_InrD [OF assms(5)] obtain c1 where est: "estimateOwned E est msgs None = (Inr originalTokens, c1)" ..
  have nil: "run (estimateOwned E est []) = Inr 0"
    by (rule estimateOwned_Nil [OF assms(3) builtin_estimate_valid [OF assms(3) est]])
  show ?thesis
  proof (cases s)
    case StrictStrategy
    then show ?thesis using assms(1,5)
      by (auto simp: EvictionStrategy_Apply_def strictStrategy_Apply_def bind_Inr_iff split: if_splits)
  next
    case DropStrategy
    then show ?thesis using assms(1,4,5) nil
      by (auto simp: EvictionStrategy_Apply_def dropStrategy_Apply_def bind_Inr_iff split: if_splits)
  next
    case DropTailStrategy
    then consider "out = []" | "out = msgs" "originalTokens \<le> limit"
      | c1 where "dropTailLoop E est limit (take (length msgs) msgs) c1 = (Inr out, c')"
      using assms(1)
      by (auto simp: EvictionStrategy_Apply_def dropTailStrategy_Apply_def bind_Inr_iff split: if_splits)
    then show ?thesis
    proof cases
      case 3
      from dropTailLoop_prefix [OF 3] outside_full obtain n c2 c3 where
        "estimateOwned E est out c2 = (Inr n, c3)" "n \<le> limit" by blast
      then show ?thesis using estimateOwned_run [OF assms(3)] by blast
    qed (use nil assms in auto)
  next
    case (DropHeadStrategy cfg)
    then show ?thesis using dropHead_fits [OF _ assms(3,5)] assms(1) by (simp add: EvictionStrategy_Apply_def)
  qed (use assms in \<open>simp add: builtin_strategy_def\<close>)
qed

lemma sampleHistory_estimate: "run (estimateOwned sampleEnv CharTokenEstimator sampleHistory) = Inr 17"
  by code_simp

theorem eviction_fits_limit_witness:
  "\<exists>n \<le> 6. run (estimateOwned sampleEnv CharTokenEstimator [userText ''u1'' ''hello'']) = Inr n"
  by (rule eviction_fits_limit [OF sampleHistory_dropTail _ _ _ sampleHistory_estimate])
    (simp_all add: builtin_strategy_def intrinsicAdditiveEstimator_def)

end
