(* ===== verification/Budget.thy ===== *)
theory Budget
  imports Eviction "HOL-Library.Sublist"
begin

text \<open>
  The budget pipeline: input budgets (\<^verbatim>\<open>budget_request.go\<close>), retention and compaction
  policies (\<^verbatim>\<open>budget_policy.go\<close>, \<^verbatim>\<open>rolling_summary.go\<close>), the selection and the merge of
  required content (\<^verbatim>\<open>budget_retention.go\<close>, \<^verbatim>\<open>budget_compile_scope.go\<close>), the eviction of
  complete candidates (\<^verbatim>\<open>budget_candidate.go\<close>) and the execution itself
  (\<^verbatim>\<open>budget_execution.go\<close>, \<^verbatim>\<open>pipeline.go\<close>). The model is a direct invocation: the Go
  context holds no compile trace, no compile session and no observer, so the trace stages
  return their input, the identity of a summary comes from \<open>NewMessageID\<close>, and
  a pipeline with a recorded compaction profile is refused. Interface fields of the
  configuration are absent or usable; typed nil pointers are not represented.
\<close>

subsection \<open>Budgets and policies\<close>

datatype BudgetMode = BudgetWindow | BudgetEffective | BudgetModeOther string

record BudgetRequest =
  BudMode :: BudgetMode
  BudWindow :: int
  OutputReservation :: int
  WireReservation :: int
  EffectiveLimit :: int

definition EffectiveInputBudget :: "int \<Rightarrow> BudgetRequest" where
  "EffectiveInputBudget limit = \<lparr>BudMode = BudgetEffective, BudWindow = 0, OutputReservation = 0,
     WireReservation = 0, EffectiveLimit = limit\<rparr>"

definition WindowInputBudget :: "int \<Rightarrow> int \<Rightarrow> int \<Rightarrow> BudgetRequest" where
  "WindowInputBudget window output wire = \<lparr>BudMode = BudgetWindow, BudWindow = window,
     OutputReservation = output, WireReservation = wire, EffectiveLimit = 0\<rparr>"

definition Resolve :: "BudgetRequest \<Rightarrow> int result" where
  "Resolve b =
     (if BudWindow b < 0 \<or> OutputReservation b < 0 \<or> WireReservation b < 0 \<or> EffectiveLimit b < 0
        then Inl ErrInvalidBudgetRequest
      else case BudMode b of
        BudgetEffective \<Rightarrow>
          if BudWindow b \<noteq> 0 \<or> OutputReservation b \<noteq> 0 \<or> WireReservation b \<noteq> 0
          then Inl ErrInvalidBudgetRequest else Inr (EffectiveLimit b)
      | BudgetWindow \<Rightarrow>
          if EffectiveLimit b \<noteq> 0 \<or> OutputReservation b > BudWindow b \<or>
             WireReservation b > go_sub (BudWindow b) (OutputReservation b)
          then Inl ErrInvalidBudgetRequest
          else Inr (go_sub (go_sub (BudWindow b) (OutputReservation b)) (WireReservation b))
      | BudgetModeOther _ \<Rightarrow> Inl ErrInvalidBudgetRequest)"

record RetentionPolicy =
  RetMessageIDs :: "string list"
  RetContentRefs :: "ContentRef list"
  RetRoles :: "Role list"

fun validateRetainedRoles :: "Role list \<Rightarrow> unit result" where
  "validateRetainedRoles [] = Inr ()"
| "validateRetainedRoles (r # rs) =
     (case Role_Validate r of Inl e \<Rightarrow> Inl (Wrap ErrInvalidRetention e) | Inr _ \<Rightarrow> validateRetainedRoles rs)"

definition RetentionPolicy_validate :: "RetentionPolicy \<Rightarrow> unit result" where
  "RetentionPolicy_validate p =
     (if [] \<in> set (RetMessageIDs p) then Inl ErrInvalidRetention
      else if \<exists>r \<in> set (RetContentRefs p). ContentRef_Validate r \<noteq> Inr () \<or> RefOccurrence r \<noteq> []
        then Inl ErrInvalidRetention
      else validateRetainedRoles (RetRoles p))"

record CompactionPolicy =
  PolicyDescriptor :: Descriptor
  TriggerPercent :: int
  TargetPercent :: int

definition CompactionPolicy_Validate :: "CompactionPolicy \<Rightarrow> unit result" where
  "CompactionPolicy_Validate p =
     (if Descriptor_Validate (PolicyDescriptor p) \<noteq> Inr () \<or> TargetPercent p < 1 \<or> TriggerPercent p > 100 \<or>
         TargetPercent p > TriggerPercent p
      then Inl ErrInvalidCompactionPolicy else Inr ())"

definition budgetPercent :: "int \<Rightarrow> int \<Rightarrow> int" where
  "budgetPercent limit percent =
     go_add (go_mul (go_div limit 100) percent) (go_div (go_mul (go_mod limit 100) percent) 100)"

record SummaryBudget =
  SumMaxTokens :: int
  SumTargetTokens :: int
  SumPurpose :: Descriptor

record SummaryRequest =
  ReqMessages :: "Message list"
  ReqMaxTokens :: int
  ReqTargetTokens :: int
  ReqPurpose :: Descriptor

record BudgetDecision =
  HardLimit :: int
  TriggerTokens :: int
  TargetTokens :: int
  BeforeTokens :: int
  AfterTokens :: int
  Required :: "ContentRef list"
  Summary :: "SummaryBudget option"
  Compacted :: bool
  TargetReached :: bool

definition SummaryBudget_validate :: "SummaryBudget \<Rightarrow> unit result" where
  "SummaryBudget_validate b =
     (if SumMaxTokens b < 0 \<or> SumTargetTokens b < 0 \<or> SumTargetTokens b > SumMaxTokens b
      then Inl ErrInvalidBudgetRequest else Descriptor_Validate (SumPurpose b))"

definition BudgetDecision_validate :: "BudgetDecision \<Rightarrow> unit result" where
  "BudgetDecision_validate d =
     (if HardLimit d < 0 \<or> TargetTokens d < 0 \<or> TriggerTokens d < TargetTokens d \<or>
         TriggerTokens d > HardLimit d \<or> BeforeTokens d < 0 \<or> AfterTokens d < 0 \<or>
         AfterTokens d > HardLimit d \<or> TargetReached d \<noteq> (AfterTokens d \<le> TargetTokens d) \<or>
         Compacted d \<noteq> (Summary d \<noteq> None)
      then Inl ErrInvalidBudgetRequest
      else bind_res (map_res ContentRef_Validate (Required d)) (\<lambda>_.
           case Summary d of
             None \<Rightarrow> Inr ()
           | Some s \<Rightarrow>
               if SumMaxTokens s > HardLimit d \<or> SumTargetTokens s > TargetTokens d
               then Inl ErrInvalidBudgetRequest else SummaryBudget_validate s))"

record RollingSummaryPolicy =
  RollDescriptor :: Descriptor
  RecentMessages :: int

definition RollingSummaryPolicy_Validate :: "RollingSummaryPolicy \<Rightarrow> unit result" where
  "RollingSummaryPolicy_Validate p =
     (if RecentMessages p \<le> 0 then Inl ErrInvalidRollingSummary else Descriptor_Validate (RollDescriptor p))"

definition rollingTailStart :: "nat \<Rightarrow> RollingSummaryPolicy \<Rightarrow> ToolRoundObservation list \<Rightarrow> nat" where
  "rollingTailStart count policy rounds =
     fold (\<lambda>round start.
             if (ObsState round = ToolRoundPending \<and> ObsStart round < start) \<or>
                (ObsStart round < start \<and> start \<le> ObsEnd round)
             then ObsStart round else start)
       rounds (if RecentMessages policy < int count then nat (int count - RecentMessages policy) else 0)"

definition validateRollingSummaryIdentity :: "Message \<Rightarrow> Message list \<Rightarrow> unit result" where
  "validateRollingSummaryIdentity summary inputs =
     (if MsgID summary = [] then Inr ()
      else if \<exists>m \<in> set inputs. MsgID m = MsgID summary then Inl ErrInvalidRollingSummary else Inr ())"

subsection \<open>The pipeline\<close>

text \<open>
  \<open>NewMessageID\<close> gives a summary without an identity its own: in a direct invocation \<^verbatim>\<open>newMessageID\<close> draws a random one, in a
  compile the identity policy of the request decides and may refuse;
  \<open>PipeCompaction\<close> is the policy descriptor of a recorded compaction profile.
\<close>

record BudgetPipeline =
  FixedIDs :: "string list"
  CfgRetention :: RetentionPolicy
  CfgCompaction :: "CompactionPolicy option"
  CfgBudget :: BudgetRequest
  CfgSummarizer :: "(SummaryRequest \<Rightarrow> Message comp) option"
  CfgTruncateStrategy :: "EvictionStrategy option"
  CfgDropHead :: DropHeadConfig
  PipeEstimator :: TokenEstimator
  PipeCompaction :: "Descriptor option"
  PipeRolling :: "RollingSummaryPolicy option"
  NewMessageID :: "Message \<Rightarrow> string result"

definition EnsureMessageID :: "(Message \<Rightarrow> string) \<Rightarrow> Message \<Rightarrow> Message" where
  "EnsureMessageID newID m = (if MsgID m \<noteq> [] then m else m\<lparr>MsgID := newID m\<rparr>)"

definition summaryPurpose :: "BudgetPipeline \<Rightarrow> Descriptor" where
  "summaryPurpose p = (case PipeCompaction p of Some d \<Rightarrow> d | None \<Rightarrow>
     (case CfgCompaction p of Some c \<Rightarrow> PolicyDescriptor c | None \<Rightarrow>
     (case PipeRolling p of Some r \<Rightarrow> RollDescriptor r | None \<Rightarrow>
        \<lparr>DescID = ''contexty/summary/whole-block'', DescRevision = ''budget-contract''\<rparr>)))"

definition validateRollingSummary :: "BudgetPipeline \<Rightarrow> unit result" where
  "validateRollingSummary p = (case PipeRolling p of
     None \<Rightarrow> Inr ()
   | Some r \<Rightarrow> bind_res (RollingSummaryPolicy_Validate r) (\<lambda>_.
       if CfgSummarizer p = None then Inl ErrInvalidRollingSummary
       else case PipeCompaction p of
              Some d \<Rightarrow> if d \<noteq> RollDescriptor r then Inl ErrInvalidCompaction else Inr ()
            | None \<Rightarrow> Inr ()))"

definition validateBudgetPolicy :: "BudgetPipeline \<Rightarrow> unit result" where
  "validateBudgetPolicy p =
     (if nilEstimator (PipeEstimator p) \<or> MinMessages (CfgDropHead p) < 0 then Inl ErrInvalidBudgetRequest
      else if (case CfgTruncateStrategy p of Some (DropHeadStrategy cfg) \<Rightarrow> MinMessages cfg < 0 | _ \<Rightarrow> False)
        then Inl ErrInvalidBudgetRequest
      else bind_res (validateBuiltinEstimator (PipeEstimator p)) (\<lambda>_.
           bind_res (RetentionPolicy_validate (CfgRetention p)) (\<lambda>_.
           bind_res (case CfgCompaction p of
                       None \<Rightarrow> Inr ()
                     | Some c \<Rightarrow> bind_res (CompactionPolicy_Validate c) (\<lambda>_.
                         if CfgSummarizer p = None then Inl ErrInvalidCompactionPolicy else Inr ())) (\<lambda>_.
           validateRollingSummary p))))"

definition validateCompactionContext :: "BudgetPipeline \<Rightarrow> unit result" where
  "validateCompactionContext p =
     (case PipeCompaction p of None \<Rightarrow> Inr () | Some _ \<Rightarrow> Inl (Sentinel ''ErrMissingLineage''))"

definition validateBudgetInvocation :: "BudgetPipeline \<Rightarrow> int \<Rightarrow> unit result" where
  "validateBudgetInvocation p limit =
     bind_res (validateBudgetPolicy p) (\<lambda>_.
     bind_res (Resolve (CfgBudget p)) (\<lambda>hard.
     if limit < 0 \<or> limit > hard then Inl ErrInvalidBudgetRequest else validateCompactionContext p))"

subsection \<open>Required content\<close>

text \<open>Fixed sections take part in an inspection as neutral system messages.\<close>

definition inspectBudgetRounds :: "BudgetPipeline \<Rightarrow> Message list \<Rightarrow> ToolRoundObservation list result" where
  "inspectBudgetRounds p messages =
     (if FixedIDs p = [] then InspectToolRoundStates messages []
      else InspectToolRoundStates
        (map (\<lambda>m. if MsgID m \<in> set (FixedIDs p) then m\<lparr>MsgRole := RoleSystem, MsgParts := []\<rparr> else m) messages) [])"

fun selectLoop ::
  "env \<Rightarrow> BudgetPipeline \<Rightarrow> Message list \<Rightarrow> (bool list \<times> string list \<times> ContentRef list) comp" where
  "selectLoop E p [] = ret ([], [], [])"
| "selectLoop E p (m # ms) =
     bind poll (\<lambda>_.
     let byID = MsgID m \<in> set (RetMessageIDs (CfgRetention p));
         sel = MsgID m \<in> set (FixedIDs p) \<or> MsgRole m \<in> set (RetRoles (CfgRetention p)) \<or> byID
     in bind (if RetContentRefs (CfgRetention p) \<noteq> [] then
                bind (lift_res (MessageContentRef E m)) (\<lambda>ref.
                if ref \<in> set (RetContentRefs (CfgRetention p)) then ret (True, [ref]) else ret (sel, []))
              else ret (sel, [])) (\<lambda>(sel', refs).
        if sel' \<and> MsgID m = [] then fail ErrInvalidRetention
        else bind (selectLoop E p ms) (\<lambda>(ss, ids, rs).
             ret (sel' # ss, (if byID then MsgID m # ids else ids), refs @ rs))))"

definition validateResolved :: "RetentionPolicy \<Rightarrow> string list \<Rightarrow> ContentRef list \<Rightarrow> unit result" where
  "validateResolved p ids refs =
     (if \<not> set (RetMessageIDs p) \<subseteq> set ids \<or> \<not> set (RetContentRefs p) \<subseteq> set refs
      then Inl ErrInvalidRetention else Inr ())"

definition setRange :: "nat \<Rightarrow> nat \<Rightarrow> bool list \<Rightarrow> bool list" where
  "setRange a b selected = map (\<lambda>(i, s). s \<or> (a \<le> i \<and> i \<le> b)) (enumerate 0 selected)"

definition expandRound :: "ToolRoundObservation \<Rightarrow> bool list \<Rightarrow> bool list" where
  "expandRound round selected =
     (if \<exists>i \<in> set [ObsStart round ..< Suc (ObsEnd round)]. selected ! i
      then setRange (ObsStart round) (ObsEnd round) selected else selected)"

definition expandRequiredRounds :: "bool list \<Rightarrow> ToolRoundObservation list \<Rightarrow> bool list" where
  "expandRequiredRounds selected rounds = fold expandRound rounds selected"

definition selectRequired ::
  "env \<Rightarrow> BudgetPipeline \<Rightarrow> Message list \<Rightarrow> ToolRoundObservation list \<Rightarrow> bool list comp" where
  "selectRequired E p messages rounds =
     bind (selectLoop E p messages) (\<lambda>(selected, ids, refs).
     bind (lift_res (validateResolved (CfgRetention p) ids refs)) (\<lambda>_.
     ret (expandRequiredRounds selected rounds)))"

definition suffixStart ::
  "nat \<Rightarrow> ToolRoundObservation list \<Rightarrow> RollingSummaryPolicy option \<Rightarrow> nat" where
  "suffixStart n rounds rolling =
     fold (\<lambda>round start. if ObsState round = ToolRoundPending \<and> ObsStart round < start then ObsStart round else start)
       rounds (case rolling of None \<Rightarrow> n | Some r \<Rightarrow> rollingTailStart n r rounds)"

definition protectBudgetSuffix ::
  "bool list \<Rightarrow> ToolRoundObservation list \<Rightarrow> RollingSummaryPolicy option \<Rightarrow> bool list" where
  "protectBudgetSuffix selected rounds rolling =
     map (\<lambda>(i, s). s \<or> suffixStart (length selected) rounds rolling \<le> i) (enumerate 0 selected)"

definition protectCompileBudgetSuffix ::
  "BudgetPipeline \<Rightarrow> Message list \<Rightarrow> bool list \<Rightarrow> ToolRoundObservation list \<Rightarrow> bool list" where
  "protectCompileBudgetSuffix p messages selected rounds =
     (if FixedIDs p = [] \<or> PipeRolling p = None then protectBudgetSuffix selected rounds (PipeRolling p)
      else
        let indexes = filter (\<lambda>i. MsgID (messages ! i) \<notin> set (FixedIDs p)) [0 ..< length messages];
            history = map (\<lambda>i. messages ! i) indexes;
            historyRounds = (case InspectToolRoundStates history [] of Inl _ \<Rightarrow> [] | Inr r \<Rightarrow> r);
            historySelected = protectBudgetSuffix (replicate (length history) False) historyRounds (PipeRolling p)
        in fold (\<lambda>(i, protect) sel. if protect then sel[i := True] else sel) (zip indexes historySelected) selected)"

definition splitRequired :: "Message list \<Rightarrow> bool list \<Rightarrow> Message list \<times> Message list" where
  "splitRequired messages selected =
     (map fst (filter snd (zip messages selected)), map fst (filter (\<lambda>(m, s). \<not> s) (zip messages selected)))"

fun explicitRequiredMessages :: "env \<Rightarrow> BudgetPipeline \<Rightarrow> Message list \<Rightarrow> Message list result" where
  "explicitRequiredMessages E p [] = Inr []"
| "explicitRequiredMessages E p (m # ms) =
     (let explicit = (MsgID m \<notin> set (FixedIDs p) \<or> MsgID m \<in> set (RetMessageIDs (CfgRetention p)) \<or>
                      MsgRole m \<in> set (RetRoles (CfgRetention p)))
      in bind_res (if \<not> explicit \<and> RetContentRefs (CfgRetention p) \<noteq> []
                   then bind_res (MessageContentRef E m) (\<lambda>ref. Inr (ref \<in> set (RetContentRefs (CfgRetention p))))
                   else Inr explicit) (\<lambda>explicit'.
         bind_res (explicitRequiredMessages E p ms) (\<lambda>out.
         Inr (if explicit' then m # out else out))))"

fun requiredRefs :: "env \<Rightarrow> Message list \<Rightarrow> ContentRef list result" where
  "requiredRefs E [] = Inr []"
| "requiredRefs E (m # ms) =
     (if MsgID m = [] then Inl ErrInvalidRetention
      else bind_res (MessageContentRef E m) (\<lambda>ref. bind_res (requiredRefs E ms) (\<lambda>refs. Inr (ref # refs))))"

definition requiredIDCollision :: "string \<Rightarrow> Message list \<Rightarrow> bool" where
  "requiredIDCollision i outputs \<longleftrightarrow> i \<noteq> [] \<and> (\<exists>output \<in> set outputs. MsgID output = i)"

text \<open>
  \<open>rank\<close> is the position of the message among the evictable ones. When the outputs are the
  evictable messages themselves (\<open>shared\<close>), the output at that position has the same
  timestamp pointer; an owned copy never has.
\<close>

definition takeMatchingOutput :: "bool \<Rightarrow> nat \<Rightarrow> Message \<Rightarrow> Message list \<Rightarrow> bool list \<Rightarrow> nat option" where
  "takeMatchingOutput shared rank message outputs consumed =
     find (\<lambda>i. \<not> consumed ! i \<and> MessageEqual (shared \<and> i = rank) (outputs ! i) message) [0 ..< length outputs]"

fun mergeLoop ::
  "bool \<Rightarrow> bool \<Rightarrow> (Message \<times> bool) list \<Rightarrow> Message list \<Rightarrow> nat \<Rightarrow> bool \<Rightarrow> bool list \<Rightarrow>
   (Message list \<times> bool list) result" where
  "mergeLoop shared summarized [] outputs rank inserted consumed = Inr ([], consumed)"
| "mergeLoop shared summarized ((m, sel) # rest) outputs rank inserted consumed =
     (if sel then
        if requiredIDCollision (MsgID m) outputs then Inl ErrInvalidRetention
        else bind_res (mergeLoop shared summarized rest outputs rank inserted consumed) (\<lambda>(out, con).
             Inr (Message_Clone m # out, con))
      else if summarized then
        bind_res (mergeLoop shared summarized rest outputs (Suc rank) True consumed) (\<lambda>(out, con).
        Inr ((if inserted then out else cloneMessageSlice outputs @ out), con))
      else case takeMatchingOutput shared rank m outputs consumed of
             None \<Rightarrow> mergeLoop shared summarized rest outputs (Suc rank) inserted consumed
           | Some i \<Rightarrow>
               bind_res (mergeLoop shared summarized rest outputs (Suc rank) inserted (consumed[i := True])) (\<lambda>(out, con).
               Inr (Message_Clone m # out, con)))"

definition mergeRequired ::
  "bool \<Rightarrow> Message list \<Rightarrow> bool list \<Rightarrow> Message list \<Rightarrow> bool \<Rightarrow> Message list result" where
  "mergeRequired shared before selected outputs summarized =
     (if True \<notin> set selected then Inr (cloneMessageSlice outputs)
      else bind_res (validateUniqueMessageIDs before) (\<lambda>_.
           bind_res (validateUniqueMessageIDs outputs) (\<lambda>_.
           bind_res (mergeLoop shared summarized (zip before selected) outputs 0 False
                       (replicate (length outputs) False)) (\<lambda>(out, consumed).
           if \<not> summarized \<and> False \<in> set consumed then Inl ErrInvalidRetention else Inr out))))"

text \<open>The first position of the required identity; every occurrence must have the required content.\<close>

fun requiredPosition_from :: "env \<Rightarrow> nat \<Rightarrow> Message list \<Rightarrow> ContentRef \<Rightarrow> nat option result" where
  "requiredPosition_from E i [] required = Inr None"
| "requiredPosition_from E i (m # ms) required =
     (if MsgID m \<noteq> RefID required then requiredPosition_from E (Suc i) ms required
      else bind_res (MessageContentRef E m) (\<lambda>ref.
           if ref \<noteq> required then Inl ErrInvalidRetention
           else bind_res (requiredPosition_from E (Suc i) ms required) (\<lambda>_. Inr (Some i))))"

definition requiredPosition :: "env \<Rightarrow> Message list \<Rightarrow> ContentRef \<Rightarrow> int result" where
  "requiredPosition E messages required =
     bind_res (requiredPosition_from E 0 messages required) (\<lambda>r.
     Inr (case r of None \<Rightarrow> -1 | Some i \<Rightarrow> int i))"

fun validateRequiredOutput_from :: "env \<Rightarrow> int \<Rightarrow> Message list \<Rightarrow> ContentRef list \<Rightarrow> unit result" where
  "validateRequiredOutput_from E previous messages [] = Inr ()"
| "validateRequiredOutput_from E previous messages (required # refs) =
     bind_res (requiredPosition E messages required) (\<lambda>first.
     if first \<le> previous then Inl ErrInvalidRetention
     else validateRequiredOutput_from E first messages refs)"

definition validateRequiredOutput :: "env \<Rightarrow> Message list \<Rightarrow> ContentRef list \<Rightarrow> unit result" where
  "validateRequiredOutput E messages refs = validateRequiredOutput_from E (-1) messages refs"

subsection \<open>Eviction of complete candidates\<close>

definition estimateBudgetMessages :: "env \<Rightarrow> BudgetPipeline \<Rightarrow> Message list \<Rightarrow> int comp" where
  "estimateBudgetMessages E p messages =
     bind poll (\<lambda>_.
     bind (settle (map_err (Wrap ErrTokenCountFailed) (estimateOwned E (PipeEstimator p) messages))) (\<lambda>tokens.
     if tokens < 0 then fail ErrInconsistentEstimate else ret tokens))"

definition validateEvictableRounds :: "Message list \<Rightarrow> unit result" where
  "validateEvictableRounds messages =
     bind_res (InspectToolRoundStates messages []) (\<lambda>rounds.
     if \<exists>r \<in> set rounds. ObsState r \<noteq> ToolRoundComplete then Inl ErrInvalidToolRound else Inr ())"

definition requiredOverflowError :: "BudgetPipeline \<Rightarrow> Message list \<Rightarrow> go_error" where
  "requiredOverflowError p messages =
     (if length (RetMessageIDs (CfgRetention p)) + length (RetContentRefs (CfgRetention p)) +
         length (RetRoles (CfgRetention p)) > 0 then ErrRetentionExceedsBudget
      else if PipeRolling p \<noteq> None then ErrRecentTailExceedsBudget
      else case InspectToolRoundStates messages [] of
             Inl _ \<Rightarrow> ErrBudgetExceeded
           | Inr rounds \<Rightarrow>
               if \<exists>r \<in> set rounds. ObsState r = ToolRoundPending then ErrPendingExceedsBudget else ErrBudgetExceeded)"

definition firstOptionalIndex :: "bool list \<Rightarrow> bool \<Rightarrow> nat option" where
  "firstOptionalIndex required tail =
     (if tail then find (\<lambda>i. \<not> required ! i) (rev [0 ..< length required])
      else find (\<lambda>i. \<not> required ! i) [0 ..< length required])"

definition optionalCount :: "bool list \<Rightarrow> nat" where
  "optionalCount required = length (filter Not required)"

definition removeBudgetCandidate ::
  "(Message \<times> bool) list \<Rightarrow> nat \<Rightarrow> nat \<Rightarrow> bool \<Rightarrow> (Message \<times> bool) list" where
  "removeBudgetCandidate candidate start end_idx all =
     map snd (filter (\<lambda>(i, m, sel). \<not> (\<not> sel \<and> (all \<or> (start \<le> i \<and> i \<le> end_idx)))) (enumerate 0 candidate))"

definition budgetCandidateUnit :: "Message list \<Rightarrow> nat \<Rightarrow> bool \<Rightarrow> bool \<Rightarrow> nat \<times> nat" where
  "budgetCandidateUnit messages index tail keepAtomic =
     (let start = (if tail \<and> MsgRole (messages ! index) = RoleTool
                   then toolRoundStartForTail (take (Suc index) messages) else index)
      in (start, if keepAtomic \<and> HasToolCalls (messages ! start) then toolRoundEndIndex messages start else index))"

text \<open>
  The loop over candidates, which pairs every message with its required flag. An iteration that
  removes nothing leaves the state unchanged and would be repeated forever (until the
  context is cancelled); the model stops there with \<open>Diverged\<close>, an outcome of its own.
\<close>

abbreviation Diverged :: go_error where
  "Diverged \<equiv> Errorf ''loop without progress''"

function evictCandidates ::
  "env \<Rightarrow> BudgetPipeline \<Rightarrow> Message list \<Rightarrow> int \<Rightarrow> bool \<Rightarrow> bool \<Rightarrow> int \<Rightarrow> bool \<Rightarrow> (Message \<times> bool) list \<Rightarrow>
   Message list comp" where
  "evictCandidates E p before limit tail dropAll minimum keepAtomic candidate =
     bind poll (\<lambda>_.
     case firstOptionalIndex (map snd candidate) tail of
       None \<Rightarrow> fail (requiredOverflowError p before)
     | Some index \<Rightarrow>
         let (start, end_idx) = budgetCandidateUnit (map fst candidate) index tail keepAtomic;
             next1 = removeBudgetCandidate candidate start end_idx dropAll;
             next2 = (if minimum > 0 \<and> int (optionalCount (map snd next1)) < minimum
                      then removeBudgetCandidate next1 0 (length next1 - 1) True else next1)
         in bind (estimateBudgetMessages E p (map fst next2)) (\<lambda>cost.
            if cost \<le> limit then bind poll (\<lambda>_. ret (map fst next2))
            else if length next2 < length candidate
              then evictCandidates E p before limit tail dropAll minimum keepAtomic next2
            else fail Diverged))"
  by pat_completeness auto
termination
  by (relation "measure (\<lambda>(_, _, _, _, _, _, _, _, candidate). length candidate)") auto

declare evictCandidates.simps [simp del]

definition evictCompleteCandidate ::
  "env \<Rightarrow> BudgetPipeline \<Rightarrow> Message list \<Rightarrow> bool list \<Rightarrow> int \<Rightarrow> Message list option comp" where
  "evictCompleteCandidate E p before required limit =
     (let strategy = (case CfgTruncateStrategy p of None \<Rightarrow> NewDropHeadStrategy (CfgDropHead p) | Some s \<Rightarrow> s);
          candidate = zip (cloneMessageSlice before) required;
          loop = (\<lambda>tail dropAll minimum keepAtomic.
            bind (evictCandidates E p before limit tail dropAll minimum keepAtomic candidate) (\<lambda>out. ret (Some out)))
      in case strategy of
           DropHeadStrategy cfg \<Rightarrow> loop False False (MinMessages cfg) (keepTurnAtomicity cfg)
         | DropTailStrategy \<Rightarrow> loop True False 0 True
         | DropStrategy \<Rightarrow> loop False True 0 True
         | StrictStrategy \<Rightarrow> fail ErrBudgetExceeded
         | HostStrategy _ \<Rightarrow> ret None)"

definition tryCompleteEviction ::
  "env \<Rightarrow> BudgetPipeline \<Rightarrow> Message list \<Rightarrow> bool list \<Rightarrow> Message list \<Rightarrow> BudgetDecision \<Rightarrow>
   (Message list \<times> BudgetDecision) option comp" where
  "tryCompleteEviction E p before selected required decision =
     (if CfgSummarizer p \<noteq> None \<or> required = [] \<or> intrinsicAdditiveEstimator (PipeEstimator p) then ret None
      else bind (evictCompleteCandidate E p before selected (HardLimit decision)) (\<lambda>handled.
      case handled of
        None \<Rightarrow> ret None
      | Some out \<Rightarrow>
          bind (lift_res (inspectBudgetRounds p out)) (\<lambda>_.
          bind (estimateBudgetMessages E p out) (\<lambda>after.
          if after > HardLimit decision then fail ErrBudgetExceeded
          else ret (Some (out, decision\<lparr>AfterTokens := after\<rparr>))))))"

subsection \<open>Summaries and eviction of the optional block\<close>

text \<open>\<^verbatim>\<open>ensureMessageIDFromContext\<close> of a summary.\<close>

definition identifySummary :: "env \<Rightarrow> BudgetPipeline \<Rightarrow> Message \<Rightarrow> Message result" where
  "identifySummary E p summary =
     bind_res (ownCompileMessage E summary) (\<lambda>owned.
     if MsgID summary \<noteq> [] then Inr owned
     else bind_res (NewMessageID p summary) (\<lambda>i. Inr (owned\<lparr>MsgID := i\<rparr>)))"

definition summarize ::
  "env \<Rightarrow> BudgetPipeline \<Rightarrow> (SummaryRequest \<Rightarrow> Message comp) \<Rightarrow> Message list \<Rightarrow> int \<Rightarrow> int \<Rightarrow>
   (Message list \<times> int) comp" where
  "summarize E p summarizer before tokenLimit targetTokens =
     bind poll (\<lambda>_.
     bind (settle (summarizer \<lparr>ReqMessages = cloneMessageSlice before, ReqMaxTokens = tokenLimit,
                     ReqTargetTokens = targetTokens, ReqPurpose = summaryPurpose p\<rparr>)) (\<lambda>summary.
     bind (lift_res (identifySummary E p summary)) (\<lambda>traced.
     bind (map_err (Wrap ErrTokenCountFailed) (estimateBudgetMessages E p [traced])) (\<lambda>tokens.
     if tokens > tokenLimit then fail ErrBudgetExceeded
     else bind poll (\<lambda>_. ret ([traced], tokens))))))"

definition summarizeOptional ::
  "env \<Rightarrow> BudgetPipeline \<Rightarrow> (SummaryRequest \<Rightarrow> Message comp) \<Rightarrow> Message list \<Rightarrow> Message list \<Rightarrow> int \<Rightarrow> int \<Rightarrow>
   BudgetDecision \<Rightarrow> (Message list \<times> BudgetDecision) comp" where
  "summarizeOptional E p summarizer before evictable maxTokens targetTokens decision =
     bind (estimateBudgetMessages E p evictable) (\<lambda>_.
     let decision' = decision\<lparr>Summary := Some \<lparr>SumMaxTokens = maxTokens, SumTargetTokens = targetTokens,
                                SumPurpose = summaryPurpose p\<rparr>, Compacted := True\<rparr> in
     bind (summarize E p summarizer evictable maxTokens targetTokens) (\<lambda>(output, _).
     bind (lift_res (validateEvictableRounds output)) (\<lambda>_.
     bind (lift_res (if PipeRolling p \<noteq> None then validateRollingSummaryIdentity (output ! 0) before else Inr ())) (\<lambda>_.
     ret (output, decision')))))"

definition evictionCallbackInput :: "EvictionStrategy \<Rightarrow> Message list \<Rightarrow> Message list" where
  "evictionCallbackInput strategy messages =
     (case strategy of HostStrategy _ \<Rightarrow> cloneMessageSlice messages | _ \<Rightarrow> messages)"

text \<open>The flag tells whether the output is the input block itself, not an owned copy of a part of it.\<close>

definition evictOptional ::
  "env \<Rightarrow> BudgetPipeline \<Rightarrow> Message list \<Rightarrow> int \<Rightarrow> (Message list \<times> bool) comp" where
  "evictOptional E p messages limit =
     bind (estimateBudgetMessages E p messages) (\<lambda>cost.
     if cost \<le> limit then ret (messages, True)
     else
       let strategy = (case CfgTruncateStrategy p of None \<Rightarrow> NewDropHeadStrategy (CfgDropHead p) | Some s \<Rightarrow> s) in
       bind (settle (EvictionStrategy_Apply E strategy (evictionCallbackInput strategy messages) cost limit
                       (PipeEstimator p))) (\<lambda>output.
       bind (lift_res (validateEvictableRounds output)) (\<lambda>_.
       bind (lift_res (ownCompileMessages E output)) (\<lambda>owned.
       ret (owned, False)))))"

subsection \<open>Execution\<close>

definition reduceOptional ::
  "env \<Rightarrow> BudgetPipeline \<Rightarrow> Message list \<Rightarrow> Message list \<Rightarrow> int \<Rightarrow> int \<Rightarrow> BudgetDecision \<Rightarrow>
   (Message list \<times> bool \<times> BudgetDecision) comp" where
  "reduceOptional E p before evictable maxTokens targetTokens decision =
     (case CfgSummarizer p of
        Some f \<Rightarrow> bind (summarizeOptional E p f before evictable maxTokens targetTokens decision)
                    (\<lambda>(output, d). ret (output, False, d))
      | None \<Rightarrow> bind (evictOptional E p evictable maxTokens)
                    (\<lambda>(output, shared). ret (output, shared, decision)))"

definition admitMerged ::
  "env \<Rightarrow> BudgetPipeline \<Rightarrow> Message list \<Rightarrow> bool list \<Rightarrow> Message list \<times> bool \<times> BudgetDecision \<Rightarrow>
   (Message list \<times> BudgetDecision) comp" where
  "admitMerged E p before selected = (\<lambda>(output, shared, d).
     bind (lift_res (mergeRequired shared before selected output (Compacted d))) (\<lambda>out.
     bind (lift_res (inspectBudgetRounds p out)) (\<lambda>_.
     bind (estimateBudgetMessages E p out) (\<lambda>after.
     if after > HardLimit d then fail ErrBudgetExceeded
     else ret (out, d\<lparr>AfterTokens := after\<rparr>)))))"

definition executeOverflow ::
  "env \<Rightarrow> BudgetPipeline \<Rightarrow> Message list \<Rightarrow> bool list \<Rightarrow> BudgetDecision \<Rightarrow> (Message list \<times> BudgetDecision) comp" where
  "executeOverflow E p before selected decision =
     (let (required, evictable) = splitRequired before selected in
      bind (tryCompleteEviction E p before selected required decision) (\<lambda>handled.
      case handled of Some r \<Rightarrow> ret r | None \<Rightarrow>
      bind (if required \<noteq> [] then estimateBudgetMessages E p required else ret 0) (\<lambda>reserved.
      if reserved > HardLimit decision then fail (requiredOverflowError p before)
      else if evictable = [] then
        if BeforeTokens decision > HardLimit decision then fail (requiredOverflowError p before)
        else ret (cloneMessageSlice before, decision\<lparr>AfterTokens := BeforeTokens decision\<rparr>)
      else
        let maxTokens = go_sub (HardLimit decision) reserved;
            targetTokens = max 0 (go_sub (TargetTokens decision) reserved)
        in bind (reduceOptional E p before evictable maxTokens targetTokens decision)
             (admitMerged E p before selected))))"

definition initialDecision :: "BudgetPipeline \<Rightarrow> int \<Rightarrow> BudgetDecision" where
  "initialDecision p limit =
     \<lparr>HardLimit = limit,
      TriggerTokens = (case CfgCompaction p of None \<Rightarrow> limit | Some c \<Rightarrow> budgetPercent limit (TriggerPercent c)),
      TargetTokens = (case CfgCompaction p of None \<Rightarrow> limit | Some c \<Rightarrow> budgetPercent limit (TargetPercent c)),
      BeforeTokens = 0, AfterTokens = 0, Required = [], Summary = None, Compacted = False, TargetReached = False\<rparr>"

definition ApplyWithLimit ::
  "env \<Rightarrow> BudgetPipeline \<Rightarrow> Message list \<Rightarrow> int \<Rightarrow> (Message list \<times> BudgetDecision) comp" where
  "ApplyWithLimit E p messages limit =
     bind (lift_res (validateBudgetInvocation p limit)) (\<lambda>_.
     bind poll (\<lambda>_.
     bind (lift_res (ownCompileMessages E messages)) (\<lambda>cur.
     bind (lift_res (inspectBudgetRounds p cur)) (\<lambda>rounds.
     bind (selectRequired E p cur rounds) (\<lambda>selected.
     bind (estimateBudgetMessages E p cur) (\<lambda>before.
     bind poll (\<lambda>_.
     let selected' = protectCompileBudgetSuffix p cur selected rounds in
     bind (lift_res (validateUniqueMessageIDs cur)) (\<lambda>_.
     bind (lift_res (explicitRequiredMessages E p (fst (splitRequired cur selected')))) (\<lambda>explicit.
     bind (lift_res (requiredRefs E explicit)) (\<lambda>refs.
     let decision = (initialDecision p limit)\<lparr>BeforeTokens := before, Required := refs\<rparr> in
     bind (if before > TriggerTokens decision then executeOverflow E p cur selected' decision
           else ret (cur, decision\<lparr>AfterTokens := before\<rparr>)) (\<lambda>(out, d).
     bind (lift_res (validateRequiredOutput E out (Required d))) (\<lambda>_.
     bind poll (\<lambda>_.
     ret (out, d\<lparr>TargetReached := AfterTokens d \<le> TargetTokens d\<rparr>))))))))))))))"

definition Apply :: "env \<Rightarrow> BudgetPipeline \<Rightarrow> Message list \<Rightarrow> (Message list \<times> BudgetDecision) comp" where
  "Apply E p messages =
     bind (lift_res (Resolve (CfgBudget p))) (\<lambda>limit. ApplyWithLimit E p messages limit)"

definition validateOutput :: "env \<Rightarrow> BudgetPipeline \<Rightarrow> Message list \<Rightarrow> unit comp" where
  "validateOutput E p msgs =
     bind poll (\<lambda>_.
     bind (lift_res (Resolve (CfgBudget p))) (\<lambda>limit.
     bind (settle (map_err (Wrap ErrTokenCountFailed) (estimateOwned E (PipeEstimator p) msgs))) (\<lambda>n.
     if n < 0 \<or> n > limit then fail ErrBudgetExceeded else ret ())))"

subsection \<open>Arithmetic of budgets\<close>

lemma budgetPercent_floor:
  assumes "0 \<le> limit" "limit \<le> MaxInt" "0 \<le> percent" "percent \<le> 100"
  shows "budgetPercent limit percent = limit * percent div 100"
proof -
  let ?q = "limit div 100" and ?r = "limit mod 100"
  have q: "0 \<le> ?q" "?q * 100 \<le> limit" "0 \<le> ?r" "?r < 100" "limit = ?q * 100 + ?r"
    using assms(1) by (simp_all add: pos_imp_zdiv_nonneg_iff)
  have qp: "0 \<le> ?q * percent" "?q * percent \<le> ?q * 100"
    using q assms by (simp_all add: mult_left_mono)
  have rp: "0 \<le> ?r * percent" "?r * percent \<le> 99 * 100"
    using q assms mult_mono [of ?r 99 percent 100] by simp_all
  have e1: "go_div limit 100 = ?q" "go_mod limit 100 = ?r"
    using assms by (simp_all add: go_div_nonneg go_mod_nonneg)
  have e2: "go_mul ?q percent = ?q * percent"
    by (rule go_mul_exact) (use qp q assms(2) in \<open>simp add: go_int_def MaxInt_def\<close>)
  have e3: "go_mul ?r percent = ?r * percent"
    by (rule go_mul_exact) (use rp in \<open>simp add: go_int_def MaxInt_def\<close>)
  have e4: "go_div (?r * percent) 100 = ?r * percent div 100"
    by (rule go_div_nonneg) (use rp in \<open>simp_all add: MaxInt_def\<close>)
  have split: "limit * percent = (?q * percent) * 100 + ?r * percent"
    using q(5) by (metis distrib_right mult.assoc mult.commute)
  then have sum: "limit * percent div 100 = ?q * percent + ?r * percent div 100"
    by simp
  have "limit * percent \<le> limit * 100" using assms by (simp add: mult_left_mono)
  then have "limit * percent div 100 \<le> limit" by linarith
  moreover have "0 \<le> limit * percent div 100" using assms by (simp add: pos_imp_zdiv_nonneg_iff)
  ultimately have "go_add (?q * percent) (?r * percent div 100) = limit * percent div 100"
    using sum assms(2) by (subst go_add_exact) (simp_all add: go_int_def MaxInt_def)
  then show ?thesis by (simp add: budgetPercent_def e1 e2 e3 e4)
qed

lemma budgetPercent_mono:
  assumes "0 \<le> limit" "limit \<le> MaxInt" "1 \<le> a" "a \<le> b" "b \<le> 100"
  shows "0 \<le> budgetPercent limit a" "budgetPercent limit a \<le> budgetPercent limit b" "budgetPercent limit b \<le> limit"
proof -
  have "limit * a \<le> limit * b" "limit * b \<le> limit * 100" using assms by (simp_all add: mult_left_mono)
  then have "limit * a div 100 \<le> limit * b div 100" by (simp add: zdiv_mono1)
  moreover have "limit * b div 100 \<le> limit" using \<open>limit * b \<le> limit * 100\<close> by linarith
  moreover have "0 \<le> limit * a div 100" using assms by (simp add: pos_imp_zdiv_nonneg_iff)
  ultimately show "0 \<le> budgetPercent limit a" "budgetPercent limit a \<le> budgetPercent limit b"
    "budgetPercent limit b \<le> limit"
    using assms by (simp_all add: budgetPercent_floor)
qed

definition go_ints :: "BudgetRequest \<Rightarrow> bool" where
  "go_ints b \<longleftrightarrow> BudWindow b \<le> MaxInt \<and> OutputReservation b \<le> MaxInt \<and> WireReservation b \<le> MaxInt \<and>
     EffectiveLimit b \<le> MaxInt"

lemma Resolve_bounds:
  assumes "go_ints b" "Resolve b = Inr limit"
  shows "0 \<le> limit" "limit \<le> MaxInt"
    "BudMode b = BudgetEffective \<and> limit = EffectiveLimit b \<or>
     BudMode b = BudgetWindow \<and> limit = BudWindow b - OutputReservation b - WireReservation b"
proof -
  have "go_sub (BudWindow b) (OutputReservation b) = BudWindow b - OutputReservation b"
    if "0 \<le> OutputReservation b" "OutputReservation b \<le> BudWindow b"
    by (rule go_sub_exact) (use that assms(1) in \<open>simp add: go_ints_def go_int_def MaxInt_def\<close>)
  moreover have "go_sub (BudWindow b - OutputReservation b) (WireReservation b) =
      BudWindow b - OutputReservation b - WireReservation b"
    if "0 \<le> OutputReservation b" "0 \<le> WireReservation b" "WireReservation b \<le> BudWindow b - OutputReservation b"
    by (rule go_sub_exact) (use that assms(1) in \<open>simp add: go_ints_def go_int_def MaxInt_def\<close>)
  ultimately show "0 \<le> limit" "limit \<le> MaxInt"
    "BudMode b = BudgetEffective \<and> limit = EffectiveLimit b \<or>
     BudMode b = BudgetWindow \<and> limit = BudWindow b - OutputReservation b - WireReservation b"
    using assms by (auto simp: Resolve_def go_ints_def split: if_splits BudgetMode.splits)
qed

subsection \<open>Required rounds are selected as a whole\<close>

definition uniform :: "bool list \<Rightarrow> ToolRoundObservation \<Rightarrow> bool" where
  "uniform sel r \<longleftrightarrow> (\<forall>i j. ObsStart r \<le> i \<and> i \<le> ObsEnd r \<and> ObsStart r \<le> j \<and> j \<le> ObsEnd r \<longrightarrow> sel ! i = sel ! j)"

lemma setRange_simps [simp]:
  "length (setRange a b sel) = length sel"
  "i < length sel \<Longrightarrow> setRange a b sel ! i = (sel ! i \<or> (a \<le> i \<and> i \<le> b))"
  by (simp_all add: setRange_def nth_enumerate_eq)

lemma expandRound_length [simp]: "length (expandRound r sel) = length sel"
  by (simp add: expandRound_def)

lemma expandRound_nth:
  "i < length sel \<Longrightarrow> ObsEnd r < length sel \<Longrightarrow> expandRound r sel ! i =
     (sel ! i \<or> (ObsStart r \<le> i \<and> i \<le> ObsEnd r \<and> (\<exists>j. ObsStart r \<le> j \<and> j \<le> ObsEnd r \<and> sel ! j)))"
  by (auto simp: expandRound_def less_Suc_eq_le simp del: upt_Suc)

lemma expandRound_uniform: "ObsEnd r < length sel \<Longrightarrow> uniform (expandRound r sel) r"
  by (auto simp: uniform_def expandRound_nth)

lemma expandRound_keeps_uniform:
  assumes "uniform sel q" "ObsEnd r < length sel" "ObsEnd q < length sel"
    and "before_round q r \<or> before_round r q"
  shows "uniform (expandRound r sel) q"
  unfolding uniform_def
proof (intro allI impI)
  fix i j assume ij: "ObsStart q \<le> i \<and> i \<le> ObsEnd q \<and> ObsStart q \<le> j \<and> j \<le> ObsEnd q"
  then have "sel ! i = sel ! j" using assms(1) by (simp add: uniform_def)
  moreover have "\<not> (ObsStart r \<le> i \<and> i \<le> ObsEnd r)" "\<not> (ObsStart r \<le> j \<and> j \<le> ObsEnd r)"
    using ij assms(4) by (auto simp: before_round_def)
  moreover have "i < length sel" "j < length sel" using ij assms(3) by auto
  ultimately show "expandRound r sel ! i = expandRound r sel ! j"
    using assms(2) by (simp only: expandRound_nth) blast
qed

lemma expandRequiredRounds_length [simp]: "length (expandRequiredRounds sel rs) = length sel"
  unfolding expandRequiredRounds_def by (induction rs arbitrary: sel) auto

lemma fold_expandRound_keeps:
  assumes "uniform sel q" "\<forall>r \<in> set rs. ObsEnd r < length sel \<and> before_round q r" "ObsEnd q < length sel"
  shows "uniform (fold expandRound rs sel) q"
  using assms
proof (induction rs arbitrary: sel)
  case (Cons r rs)
  then have "uniform (expandRound r sel) q" by (intro expandRound_keeps_uniform) auto
  then show ?case using Cons by simp
qed simp

lemma expandRequiredRounds_uniform:
  assumes "sorted_wrt before_round rs" "\<forall>r \<in> set rs. ObsEnd r < length sel"
  shows "\<forall>r \<in> set rs. uniform (expandRequiredRounds sel rs) r"
  using assms unfolding expandRequiredRounds_def
proof (induction rs arbitrary: sel)
  case (Cons r rs)
  have "uniform (fold expandRound rs (expandRound r sel)) r"
    by (rule fold_expandRound_keeps) (use Cons.prems in \<open>auto intro: expandRound_uniform\<close>)
  moreover have "\<forall>q \<in> set rs. uniform (fold expandRound rs (expandRound r sel)) q"
    using Cons by simp
  ultimately show ?case by simp
qed simp

lemma expandRequiredRounds_mono:
  assumes "\<forall>r \<in> set rs. ObsEnd r < length sel" "i < length sel" "sel ! i"
  shows "expandRequiredRounds sel rs ! i"
  using assms unfolding expandRequiredRounds_def
  by (induction rs arbitrary: sel) (auto simp: expandRound_nth)


text \<open>A boundary that no round straddles.\<close>

definition aligned :: "nat \<Rightarrow> ToolRoundObservation list \<Rightarrow> bool" where
  "aligned k rs \<longleftrightarrow> (\<forall>r \<in> set rs. k \<le> ObsStart r \<or> ObsEnd r < k)"

definition proper_rounds :: "nat \<Rightarrow> ToolRoundObservation list \<Rightarrow> bool" where
  "proper_rounds n rs \<longleftrightarrow> sorted_wrt before_round rs \<and> (\<forall>r \<in> set rs. ObsStart r \<le> ObsEnd r \<and> ObsEnd r < n)"

lemma aligned_start:
  assumes "sorted_wrt before_round rs" "\<forall>r \<in> set rs. ObsStart r \<le> ObsEnd r" "q \<in> set rs"
  shows "aligned (ObsStart q) rs"
  using assms
proof (induction rs)
  case (Cons r rs)
  show ?case
  proof (cases "q = r")
    case True
    with Cons.prems show ?thesis by (force simp: aligned_def before_round_def)
  next
    case False
    with Cons show ?thesis by (auto simp: aligned_def before_round_def)
  qed
qed simp

lemma fold_start_cases:
  assumes "\<And>r s. g r s = s \<or> g r s = ObsStart r"
  shows "fold g rs s = s \<or> (\<exists>q \<in> set rs. fold g rs s = ObsStart q)"
proof (induction rs arbitrary: s)
  case (Cons r rs)
  show ?case using assms [of r s]
  proof
    assume "g r s = s"
    then show ?thesis using Cons [of s] by auto
  next
    assume "g r s = ObsStart r"
    then show ?thesis using Cons [of "ObsStart r"] by auto
  qed
qed simp

definition tailStep :: "ToolRoundObservation \<Rightarrow> nat \<Rightarrow> nat" where
  "tailStep round start =
     (if (ObsState round = ToolRoundPending \<and> ObsStart round < start) \<or>
         (ObsStart round < start \<and> start \<le> ObsEnd round) then ObsStart round else start)"

lemma fold_tailStep_aligned:
  assumes "sorted_wrt before_round rs" "\<forall>r \<in> set rs. ObsStart r \<le> ObsEnd r"
  shows "aligned (fold tailStep rs s) rs"
  using assms
proof (induction rs arbitrary: s)
  case (Cons r rs)
  have cases: "fold tailStep rs (tailStep r s) = tailStep r s \<or>
      (\<exists>q \<in> set rs. fold tailStep rs (tailStep r s) = ObsStart q)"
    by (rule fold_start_cases) (simp add: tailStep_def)
  have "aligned (fold tailStep rs (tailStep r s)) rs" using Cons by simp
  moreover have "fold tailStep rs (tailStep r s) \<le> ObsStart r \<or> ObsEnd r < fold tailStep rs (tailStep r s)"
    using cases Cons.prems by (auto simp: tailStep_def before_round_def split: if_splits)
  ultimately show ?case by (simp add: aligned_def)
qed (simp add: aligned_def)

lemma rollingTailStart_fold:
  "rollingTailStart n policy rounds =
     fold tailStep rounds (if RecentMessages policy < int n then nat (int n - RecentMessages policy) else 0)"
  by (simp add: rollingTailStart_def tailStep_def [abs_def])

definition pendingStep :: "ToolRoundObservation \<Rightarrow> nat \<Rightarrow> nat" where
  "pendingStep round start =
     (if ObsState round = ToolRoundPending \<and> ObsStart round < start then ObsStart round else start)"

lemma fold_pendingStep_le:
  "fold pendingStep rs s \<le> s \<and> (\<forall>r \<in> set rs. ObsState r = ToolRoundPending \<longrightarrow> fold pendingStep rs s \<le> ObsStart r)"
proof (induction rs arbitrary: s)
  case (Cons r rs)
  show ?case using Cons [of "pendingStep r s"] by (auto simp: pendingStep_def split: if_splits)
qed simp

lemma suffixStart_fold:
  "suffixStart n rounds rolling =
     fold pendingStep rounds (case rolling of None \<Rightarrow> n | Some r \<Rightarrow> rollingTailStart n r rounds)"
  by (simp add: suffixStart_def pendingStep_def [abs_def])

lemma suffixStart_aligned:
  assumes "proper_rounds n rs"
  shows "aligned (suffixStart n rs rolling) rs"
proof -
  have base: "aligned (case rolling of None \<Rightarrow> n | Some r \<Rightarrow> rollingTailStart n r rs) rs"
    using assms fold_tailStep_aligned by (auto simp: proper_rounds_def aligned_def rollingTailStart_fold split: option.split)
  have "suffixStart n rs rolling = (case rolling of None \<Rightarrow> n | Some r \<Rightarrow> rollingTailStart n r rs) \<or>
      (\<exists>q \<in> set rs. suffixStart n rs rolling = ObsStart q)"
    unfolding suffixStart_fold by (rule fold_start_cases) (simp add: pendingStep_def)
  then show ?thesis
    using base aligned_start assms by (auto simp: proper_rounds_def)
qed

lemma protectBudgetSuffix_nth:
  "i < length sel \<Longrightarrow> protectBudgetSuffix sel rs rolling ! i = (sel ! i \<or> suffixStart (length sel) rs rolling \<le> i)"
  by (simp add: protectBudgetSuffix_def nth_enumerate_eq)

lemma protectBudgetSuffix_uniform:
  assumes "proper_rounds (length sel) rs" "\<forall>r \<in> set rs. uniform sel r" "r \<in> set rs"
  shows "uniform (protectBudgetSuffix sel rs rolling) r"
proof -
  have "ObsEnd r < length sel" using assms(1,3) by (simp add: proper_rounds_def)
  moreover have "suffixStart (length sel) rs rolling \<le> ObsStart r \<or> ObsEnd r < suffixStart (length sel) rs rolling"
    using suffixStart_aligned [OF assms(1)] assms(3) by (simp add: aligned_def)
  moreover have "uniform sel r" using assms by simp
  ultimately show ?thesis
    unfolding uniform_def by (auto simp: protectBudgetSuffix_nth)
qed

lemma observed_range: "observed msgs x \<Longrightarrow> ObsStart x \<le> ObsEnd x \<and> ObsEnd x < length msgs"
proof -
  assume x: "observed msgs x"
  have "length (round_results msgs (ObsStart x)) \<le> length (drop (Suc (ObsStart x)) msgs)"
    unfolding round_results_def leading_tools_def by (rule length_takeWhile_le)
  then show ?thesis using x by (auto simp: observed_def)
qed

lemma inspect_proper: "InspectToolRoundStates msgs d = Inr rs \<Longrightarrow> proper_rounds (length msgs) rs"
  using InspectToolRoundStates_sound(1,2) [of msgs d rs] observed_range by (auto simp: proper_rounds_def)

lemma inspectBudget_proper: "inspectBudgetRounds p msgs = Inr rs \<Longrightarrow> proper_rounds (length msgs) rs"
  by (auto simp: inspectBudgetRounds_def split: if_splits dest!: inspect_proper)

lemma selectLoop_length: "selectLoop E p ms c = (Inr (ss, ids, rs), c') \<Longrightarrow> length ss = length ms"
proof (induction ms arbitrary: c ss ids rs)
  case (Cons m ms)
  then show ?case by (auto simp: bind_Inr_iff Let_def split: if_splits)
qed simp

lemma selectRequired_Inr:
  assumes "selectRequired E p ms rounds c = (Inr sel, c')"
  shows "\<exists>ss ids refs c1. selectLoop E p ms c = (Inr (ss, ids, refs), c1) \<and> sel = expandRequiredRounds ss rounds \<and>
     validateResolved (CfgRetention p) ids refs = Inr () \<and> length sel = length ms"
  using assms selectLoop_length by (fastforce simp: selectRequired_def bind_Inr_iff)


subsection \<open>The merge keeps required messages\<close>

lemma subseq_prepend: "subseq xs ys \<Longrightarrow> subseq xs (zs @ ys)"
  by (metis append_Nil list_emb_append_mono list_emb_Nil)

lemma mergeLoop_required:
  assumes "mergeLoop shared summarized ms outputs rank inserted consumed = Inr (out, con)"
  shows "subseq (map Message_Clone (map fst (filter snd ms))) out"
  using assms
proof (induction shared summarized ms outputs rank inserted consumed arbitrary: out con rule: mergeLoop.induct)
  case (2 shared summarized m sel rest outputs rank inserted consumed)
  show ?case
  proof (cases sel)
    case True
    then obtain o1 c1 where "\<not> requiredIDCollision (MsgID m) outputs"
      "mergeLoop shared summarized rest outputs rank inserted consumed = Inr (o1, c1)" "out = Message_Clone m # o1"
      using "2.prems" by (auto simp: bind_res_Inr_iff split: if_splits)
    then show ?thesis using "2.IH"(1) [OF True] True by simp
  next
    case False
    show ?thesis
    proof (cases summarized)
      case True
      then obtain o1 c1 where "mergeLoop shared summarized rest outputs (Suc rank) True consumed = Inr (o1, c1)"
        "out = (if inserted then o1 else cloneMessageSlice outputs @ o1)"
        using "2.prems" False by (auto simp: bind_res_Inr_iff)
      then show ?thesis using "2.IH"(2) [OF False True] False subseq_prepend by auto
    next
      case nosum: False
      show ?thesis
      proof (cases "takeMatchingOutput shared rank m outputs consumed")
        case None
        then show ?thesis using "2.prems" "2.IH"(3) [OF False nosum None] False nosum by simp
      next
        case (Some i)
        then obtain o1 c1 where
          "mergeLoop shared summarized rest outputs (Suc rank) inserted (consumed[i := True]) = Inr (o1, c1)"
          "out = Message_Clone m # o1"
          using "2.prems" False nosum by (auto simp: bind_res_Inr_iff)
        then show ?thesis
          using "2.IH"(4) [OF False nosum Some] False subseq_prepend [of _ o1 "[Message_Clone m]"] by simp
      qed
    qed
  qed
qed simp

lemma mergeRequired_subseq:
  assumes "mergeRequired shared before selected outputs summarized = Inr out" "True \<in> set selected"
  shows "subseq (map Message_Clone (fst (splitRequired before selected))) out"
  using assms by (auto simp: mergeRequired_def bind_res_Inr_iff splitRequired_def split: if_splits
      dest: mergeLoop_required)

text \<open>An owned copy with a timestamp matches nothing, so the loop never marks it as consumed.\<close>

lemma timestamp_never_matches:
  "MsgTimestamp (outputs ! i) \<noteq> None \<Longrightarrow> takeMatchingOutput False rank m outputs consumed \<noteq> Some i"
  unfolding takeMatchingOutput_def find_Some_iff
  by (auto simp: MessageEqual_def annotationsEqual_def split: option.splits)

lemma mergeLoop_timestamp:
  assumes "mergeLoop False False ms outputs rank inserted consumed = Inr (out, con)"
    and "i < length consumed" "\<not> consumed ! i" "MsgTimestamp (outputs ! i) \<noteq> None"
  shows "\<not> con ! i \<and> length con = length consumed"
  using assms
proof (induction False False ms outputs rank inserted consumed arbitrary: out con rule: mergeLoop.induct)
  case (2 m sel rest outputs rank inserted consumed)
  show ?case
  proof (cases sel)
    case True
    then show ?thesis using 2 by (auto simp: bind_res_Inr_iff split: if_splits)
  next
    case False
    show ?thesis
    proof (cases "takeMatchingOutput False rank m outputs consumed")
      case None
      then show ?thesis using 2 False by simp
    next
      case (Some j)
      then have "j \<noteq> i" using timestamp_never_matches "2.prems"(4) by metis
      with Some 2 False show ?thesis by (auto simp: bind_res_Inr_iff)
    qed
  qed
qed simp


subsection \<open>What an execution decides\<close>

lemma estimateBudgetMessages_nonneg: "estimateBudgetMessages E p ms c = (Inr n, c') \<Longrightarrow> 0 \<le> n"
  by (auto simp: estimateBudgetMessages_def bind_Inr_iff split: if_splits)

definition measured :: "env \<Rightarrow> BudgetPipeline \<Rightarrow> Message list \<Rightarrow> int \<Rightarrow> bool" where
  "measured E p ms n \<longleftrightarrow> (\<exists>c c'. estimateBudgetMessages E p ms c = (Inr n, c'))"

lemma measuredI: "estimateBudgetMessages E p ms c = (Inr n, c') \<Longrightarrow> measured E p ms n"
  by (auto simp: measured_def)

lemma measured_nonneg: "measured E p ms n \<Longrightarrow> 0 \<le> n"
  by (auto simp: measured_def dest: estimateBudgetMessages_nonneg)

text \<open>The fields of a decision that the execution of an overflow may change.\<close>

definition decided :: "BudgetPipeline \<Rightarrow> BudgetDecision \<Rightarrow> BudgetDecision \<Rightarrow> bool" where
  "decided p d d' \<longleftrightarrow>
     HardLimit d' = HardLimit d \<and> TriggerTokens d' = TriggerTokens d \<and> TargetTokens d' = TargetTokens d \<and>
     BeforeTokens d' = BeforeTokens d \<and> Required d' = Required d \<and>
     AfterTokens d' \<le> HardLimit d \<and>
     (Summary d' = Summary d \<and> Compacted d' = Compacted d \<or>
      CfgSummarizer p \<noteq> None \<and> Compacted d' \<and>
      (\<exists>reserved. 0 \<le> reserved \<and> reserved \<le> HardLimit d \<and>
         Summary d' = Some \<lparr>SumMaxTokens = go_sub (HardLimit d) reserved,
           SumTargetTokens = max 0 (go_sub (TargetTokens d) reserved), SumPurpose = summaryPurpose p\<rparr>))"

lemma tryCompleteEviction_Inr:
  assumes "tryCompleteEviction E p before selected required d c = (Inr (Some (out, d')), c')"
  shows "decided p d d' \<and> measured E p out (AfterTokens d')"
  using assms
  by (auto simp: tryCompleteEviction_def bind_Inr_iff decided_def intro: measuredI
      split: if_splits option.splits)

lemma summarizeOptional_Inr:
  assumes "summarizeOptional E p f before evictable mx tg d c = (Inr (output, d'), c')"
  shows "d' = d\<lparr>Summary := Some \<lparr>SumMaxTokens = mx, SumTargetTokens = tg, SumPurpose = summaryPurpose p\<rparr>, Compacted := True\<rparr>"
  using assms by (auto simp: summarizeOptional_def bind_Inr_iff Let_def split: if_splits)

lemma admitMerged_Inr:
  assumes "admitMerged E p before selected (output, shared, d) c = (Inr (out, d'), c')"
  shows "\<exists>n. measured E p out n \<and> n \<le> HardLimit d \<and> d' = d\<lparr>AfterTokens := n\<rparr>"
  using assms by (auto simp: admitMerged_def bind_Inr_iff intro: measuredI split: if_splits)

lemma reduceOptional_Inr:
  assumes "reduceOptional E p before evictable mx tg d c = (Inr (output, shared, d'), c')"
  shows "d' = d \<or> CfgSummarizer p \<noteq> None \<and>
     d' = d\<lparr>Summary := Some \<lparr>SumMaxTokens = mx, SumTargetTokens = tg, SumPurpose = summaryPurpose p\<rparr>, Compacted := True\<rparr>"
  using assms
  by (auto simp: reduceOptional_def bind_Inr_iff split: option.splits dest!: summarizeOptional_Inr)

lemma executeOverflow_Inr:
  assumes "executeOverflow E p before selected d c = (Inr (out, d'), c')"
  shows "decided p d d' \<and>
     (measured E p out (AfterTokens d') \<or>
      out = cloneMessageSlice before \<and> d' = d\<lparr>AfterTokens := BeforeTokens d\<rparr>)"
proof -
  obtain required evictable where split: "splitRequired before selected = (required, evictable)"
    by (cases "splitRequired before selected")
  let ?rest = "bind (if required \<noteq> [] then estimateBudgetMessages E p required else ret 0) (\<lambda>reserved.
      if reserved > HardLimit d then fail (requiredOverflowError p before)
      else if evictable = [] then
        if BeforeTokens d > HardLimit d then fail (requiredOverflowError p before)
        else ret (cloneMessageSlice before, d\<lparr>AfterTokens := BeforeTokens d\<rparr>)
      else bind (reduceOptional E p before evictable (go_sub (HardLimit d) reserved)
                   (max 0 (go_sub (TargetTokens d) reserved)) d) (admitMerged E p before selected))"
  from assms obtain handled c1 where
    h: "tryCompleteEviction E p before selected required d c = (Inr handled, c1)" and
    rest: "(case handled of Some r \<Rightarrow> ret r | None \<Rightarrow> ?rest) c1 = (Inr (out, d'), c')"
    unfolding executeOverflow_def split Let_def prod.case by (elim bind_InrE)
  show ?thesis
  proof (cases handled)
    case (Some r)
    then show ?thesis using h rest tryCompleteEviction_Inr by (cases r) auto
  next
    case None
    with rest have "?rest c1 = (Inr (out, d'), c')" by simp
    then obtain reserved c2 where
      r: "(if required \<noteq> [] then estimateBudgetMessages E p required else ret 0) c1 = (Inr reserved, c2)" and
      le: "reserved \<le> HardLimit d" and
      alt: "(BeforeTokens d \<le> HardLimit d \<and> out = cloneMessageSlice before \<and> d' = d\<lparr>AfterTokens := BeforeTokens d\<rparr>) \<or>
        bind (reduceOptional E p before evictable (go_sub (HardLimit d) reserved)
                   (max 0 (go_sub (TargetTokens d) reserved)) d) (admitMerged E p before selected) c2 = (Inr (out, d'), c')"
      by (elim bind_InrE) (auto split: if_splits)
    have r0: "0 \<le> reserved" using r by (auto split: if_splits dest: estimateBudgetMessages_nonneg)
    from alt show ?thesis
    proof
      assume "BeforeTokens d \<le> HardLimit d \<and> out = cloneMessageSlice before \<and> d' = d\<lparr>AfterTokens := BeforeTokens d\<rparr>"
      then show ?thesis by (simp add: decided_def)
    next
      assume "bind (reduceOptional E p before evictable (go_sub (HardLimit d) reserved)
                   (max 0 (go_sub (TargetTokens d) reserved)) d) (admitMerged E p before selected) c2 = (Inr (out, d'), c')"
      then obtain outp shared d1 c3 where
        red: "reduceOptional E p before evictable (go_sub (HardLimit d) reserved)
                   (max 0 (go_sub (TargetTokens d) reserved)) d c2 = (Inr (outp, shared, d1), c3)" and
        adm: "admitMerged E p before selected (outp, shared, d1) c3 = (Inr (out, d'), c')"
        by (elim bind_InrE) (metis prod_cases3)
      from reduceOptional_Inr [OF red] admitMerged_Inr [OF adm] r0 le show ?thesis
        by (auto simp: decided_def)
    qed
  qed
qed


text \<open>The stages of a successful execution.\<close>

lemma ApplyWithLimit_Inr:
  assumes "ApplyWithLimit E p messages limit c = (Inr (out, d), c')"
  obtains cur rounds sel sel' refs before d1 c1 c2 c3 c4 c5 explicit where
    "validateBudgetInvocation p limit = Inr ()" "ownCompileMessages E messages = Inr cur"
    "inspectBudgetRounds p cur = Inr rounds" "selectRequired E p cur rounds c1 = (Inr sel, c2)"
    "sel' = protectCompileBudgetSuffix p cur sel rounds" "estimateBudgetMessages E p cur c2 = (Inr before, c3)"
    "validateUniqueMessageIDs cur = Inr ()"
    "explicitRequiredMessages E p (fst (splitRequired cur sel')) = Inr explicit" "requiredRefs E explicit = Inr refs"
    "if before > TriggerTokens (initialDecision p limit)
     then executeOverflow E p cur sel' ((initialDecision p limit)\<lparr>BeforeTokens := before, Required := refs\<rparr>) c4 =
            (Inr (out, d1), c5)
     else out = cur \<and> d1 = (initialDecision p limit)\<lparr>BeforeTokens := before, Required := refs, AfterTokens := before\<rparr>"
    "validateRequiredOutput E out (Required d1) = Inr ()"
    "d = d1\<lparr>TargetReached := AfterTokens d1 \<le> TargetTokens d1\<rparr>"
proof -
  from assms obtain cur rounds sel refs before d1 c1 c2 c3 c4 c5 explicit where
    "validateBudgetInvocation p limit = Inr ()" "ownCompileMessages E messages = Inr cur"
    "inspectBudgetRounds p cur = Inr rounds" "selectRequired E p cur rounds c1 = (Inr sel, c2)"
    "estimateBudgetMessages E p cur c2 = (Inr before, c3)" "validateUniqueMessageIDs cur = Inr ()"
    "explicitRequiredMessages E p (fst (splitRequired cur (protectCompileBudgetSuffix p cur sel rounds))) = Inr explicit"
    "requiredRefs E explicit = Inr refs"
    and ex: "(if before > TriggerTokens ((initialDecision p limit)\<lparr>BeforeTokens := before, Required := refs\<rparr>)
       then executeOverflow E p cur (protectCompileBudgetSuffix p cur sel rounds)
              ((initialDecision p limit)\<lparr>BeforeTokens := before, Required := refs\<rparr>)
       else ret (cur, (initialDecision p limit)\<lparr>BeforeTokens := before, Required := refs, AfterTokens := before\<rparr>)) c4 =
      (Inr (out, d1), c5)"
    and "validateRequiredOutput E out (Required d1) = Inr ()"
    "d = d1\<lparr>TargetReached := AfterTokens d1 \<le> TargetTokens d1\<rparr>"
    unfolding ApplyWithLimit_def Let_def by (elim bind_InrE) (auto elim!: bind_InrE)
  moreover from ex have "if before > TriggerTokens (initialDecision p limit)
     then executeOverflow E p cur (protectCompileBudgetSuffix p cur sel rounds)
            ((initialDecision p limit)\<lparr>BeforeTokens := before, Required := refs\<rparr>) c4 = (Inr (out, d1), c5)
     else out = cur \<and> d1 = (initialDecision p limit)\<lparr>BeforeTokens := before, Required := refs, AfterTokens := before\<rparr>"
    by (auto split: if_splits)
  ultimately show thesis using that by blast
qed

lemma initialDecision_bounds:
  assumes "validateBudgetInvocation p limit = Inr ()" "go_ints (CfgBudget p)"
  shows "0 \<le> TargetTokens (initialDecision p limit)"
    "TargetTokens (initialDecision p limit) \<le> TriggerTokens (initialDecision p limit)"
    "TriggerTokens (initialDecision p limit) \<le> limit" "0 \<le> limit" "limit \<le> MaxInt"
proof -
  from assms(1) obtain hard where pol: "validateBudgetPolicy p = Inr ()" and
    hard: "Resolve (CfgBudget p) = Inr hard" "0 \<le> limit" "limit \<le> hard"
    by (auto simp: validateBudgetInvocation_def bind_res_Inr_iff split: if_splits)
  with Resolve_bounds [OF assms(2) hard(1)] show b: "0 \<le> limit" "limit \<le> MaxInt" by auto
  have "1 \<le> TargetPercent x" "TargetPercent x \<le> TriggerPercent x" "TriggerPercent x \<le> 100"
    if "CfgCompaction p = Some x" for x
    using pol that by (auto simp: validateBudgetPolicy_def bind_res_Inr_iff CompactionPolicy_Validate_def split: if_splits)
  note mono = budgetPercent_mono [OF b this]
  show "0 \<le> TargetTokens (initialDecision p limit)"
    "TargetTokens (initialDecision p limit) \<le> TriggerTokens (initialDecision p limit)"
    "TriggerTokens (initialDecision p limit) \<le> limit"
    using b mono by (auto simp: initialDecision_def split: option.splits)
qed

lemma initialDecision_simps [simp]:
  "HardLimit (initialDecision p limit) = limit" "Summary (initialDecision p limit) = None"
  "\<not> Compacted (initialDecision p limit)"
  by (simp_all add: initialDecision_def)

lemma Descriptor_Validate_unit: "Descriptor_Validate d = Inr () \<longleftrightarrow> DescID d \<noteq> [] \<and> DescRevision d \<noteq> []"
  by (simp add: Descriptor_Validate_def)

lemma summaryPurpose_valid:
  assumes "validateBudgetInvocation p limit = Inr ()"
  shows "Descriptor_Validate (summaryPurpose p) = Inr ()"
  using assms
  by (auto simp: validateBudgetInvocation_def bind_res_Inr_iff validateCompactionContext_def validateBudgetPolicy_def
      validateRollingSummary_def RollingSummaryPolicy_Validate_def CompactionPolicy_Validate_def summaryPurpose_def
      Descriptor_Validate_unit split: option.splits if_splits)


text \<open>SHA-256 digests have 32 bytes and are written in hexadecimal.\<close>

definition digest_wf :: "env \<Rightarrow> bool" where
  "digest_wf E \<longleftrightarrow> (\<forall>m d. MarshalDigest E m = Inr d \<longrightarrow> (\<exists>b. length b = 32 \<and> d = bytesToHex b))"

lemma MessageContentRef_valid:
  "digest_wf E \<Longrightarrow> MessageContentRef E m = Inr r \<Longrightarrow> ContentRef_Validate r = Inr ()"
proof -
  assume wf: "digest_wf E" and r: "MessageContentRef E m = Inr r"
  from r obtain d where d: "MarshalDigest E m = Inr d" "MsgID m \<noteq> []" "RefID r = MsgID m" "RefDigest r = d"
    by (auto simp: MessageContentRef_def bind_res_Inr_iff split: if_splits)
  with wf obtain b where "length b = 32" "d = bytesToHex b" by (auto simp: digest_wf_def)
  with d show ?thesis by (simp add: ContentRef_Validate_def)
qed

lemma requiredRefs_map: "requiredRefs E ms = Inr refs \<Longrightarrow> map_res (MessageContentRef E) ms = Inr refs"
  by (induction ms arbitrary: refs) (auto simp: bind_res_Inr_iff split: if_splits)

lemma requiredRefs_valid:
  assumes "digest_wf E" "requiredRefs E ms = Inr refs"
  shows "\<forall>r \<in> set refs. ContentRef_Validate r = Inr ()"
  using assms(2) by (induction ms arbitrary: refs)
    (auto simp: bind_res_Inr_iff split: if_splits dest: MessageContentRef_valid [OF assms(1)])

lemma map_res_units: "\<forall>x \<in> set xs. f x = Inr () \<Longrightarrow> \<exists>us. map_res f xs = Inr us"
  by (induction xs) auto

lemma decision_valid:
  assumes d: "decided p d d'" and fit: "0 \<le> AfterTokens d'"
    and b: "0 \<le> TargetTokens d" "TargetTokens d \<le> TriggerTokens d" "TriggerTokens d \<le> HardLimit d"
      "HardLimit d \<le> MaxInt" "0 \<le> BeforeTokens d" "Summary d = None" "\<not> Compacted d"
    and refs: "\<forall>r \<in> set (Required d). ContentRef_Validate r = Inr ()"
    and purpose: "Descriptor_Validate (summaryPurpose p) = Inr ()"
  shows "BudgetDecision_validate (d'\<lparr>TargetReached := AfterTokens d' \<le> TargetTokens d'\<rparr>) = Inr ()"
proof -
  obtain us where us: "map_res ContentRef_Validate (Required d) = Inr us" using map_res_units [OF refs] by blast
  have sub: "go_sub (HardLimit d) r = HardLimit d - r" "go_sub (TargetTokens d) r = TargetTokens d - r"
    if "0 \<le> r" "r \<le> HardLimit d" for r
    using that b by (auto intro!: go_sub_exact simp: go_int_def MaxInt_def)
  show ?thesis
    using d fit b us purpose by (auto simp: decided_def BudgetDecision_validate_def SummaryBudget_validate_def sub)
qed

subsection \<open>Required content survives\<close>

lemma requiredPosition_from_Inr:
  "requiredPosition_from E i ms req = Inr (Some k) \<Longrightarrow>
   i \<le> k \<and> k < i + length ms \<and> MessageContentRef E (ms ! (k - i)) = Inr req"
proof (induction E i ms req arbitrary: k rule: requiredPosition_from.induct)
  case (2 E i m ms req)
  show ?case
  proof (cases "MsgID m = RefID req")
    case True
    with "2.prems" show ?thesis by (auto simp: bind_res_Inr_iff split: if_splits)
  next
    case False
    with 2 have "Suc i \<le> k \<and> k < Suc i + length ms \<and> MessageContentRef E (ms ! (k - Suc i)) = Inr req" by simp
    moreover from this have "k - i = Suc (k - Suc i)" using Suc_diff_le [of "Suc i" k] by simp
    ultimately show ?thesis by simp
  qed
qed simp

lemma validateRequiredOutput_from_Inr:
  assumes "validateRequiredOutput_from E prev ms refs = Inr ()" "-1 \<le> prev"
  shows "\<exists>ks. length ks = length refs \<and> sorted_wrt (<) ks \<and> (\<forall>k \<in> set ks. prev < int k) \<and>
     (\<forall>j < length refs. ks ! j < length ms \<and> MessageContentRef E (ms ! (ks ! j)) = Inr (refs ! j))"
  using assms
proof (induction E prev ms refs rule: validateRequiredOutput_from.induct)
  case (2 E prev ms req refs)
  from "2.prems" obtain first where pos: "requiredPosition E ms req = Inr first" "prev < first"
    and rest: "validateRequiredOutput_from E first ms refs = Inr ()"
    by (auto simp: bind_res_Inr_iff split: if_splits)
  from pos "2.prems"(2) obtain k where k: "requiredPosition_from E 0 ms req = Inr (Some k)" "first = int k"
    by (auto simp: requiredPosition_def bind_res_Inr_iff split: option.splits)
  from "2.IH" [OF _ rest] pos(2) "2.prems"(2) obtain ks where
    ks: "length ks = length refs" "sorted_wrt (<) ks" "\<forall>k' \<in> set ks. first < int k'"
      "\<forall>j < length refs. ks ! j < length ms \<and> MessageContentRef E (ms ! (ks ! j)) = Inr (refs ! j)" by auto
  show ?case
  proof (intro exI [of _ "k # ks"] conjI)
    show "\<forall>j < length (req # refs). (k # ks) ! j < length ms \<and>
        MessageContentRef E (ms ! ((k # ks) ! j)) = Inr ((req # refs) ! j)"
      using ks(4) requiredPosition_from_Inr [OF k(1)] by (auto simp: less_Suc_eq_0_disj)
  qed (use ks pos(2) k(2) in auto)
qed auto

lemma explicitRequired_mem:
  assumes "explicitRequiredMessages E p ms = Inr out" "m \<in> set ms"
    and "MsgID m \<in> set (RetMessageIDs (CfgRetention p)) \<or> MsgRole m \<in> set (RetRoles (CfgRetention p)) \<or>
         MsgID m \<notin> set (FixedIDs p)"
  shows "m \<in> set out"
  using assms by (induction ms arbitrary: out) (auto simp: Let_def bind_res_Inr_iff split: if_splits)

lemma requiredRefs_mem:
  "requiredRefs E ms = Inr refs \<Longrightarrow> m \<in> set ms \<Longrightarrow> \<exists>r \<in> set refs. MessageContentRef E m = Inr r"
  by (induction ms arbitrary: refs) (auto simp: bind_res_Inr_iff split: if_splits)

lemma selectLoop_selects:
  assumes "selectLoop E p ms c = (Inr (ss, ids, rs), c')" "i < length ms"
    and "MsgID (ms ! i) \<in> set (RetMessageIDs (CfgRetention p)) \<or> MsgRole (ms ! i) \<in> set (RetRoles (CfgRetention p)) \<or>
         MsgID (ms ! i) \<in> set (FixedIDs p)"
  shows "ss ! i"
  using assms
proof (induction ms arbitrary: c ss ids rs i)
  case (Cons m ms)
  from Cons.prems(1) obtain ss' ids' rs' c1 where ss: "ss = hd ss # ss'"
    and rest: "selectLoop E p ms c1 = (Inr (ss', ids', rs'), c')"
    and s: "MsgID m \<in> set (RetMessageIDs (CfgRetention p)) \<or> MsgRole m \<in> set (RetRoles (CfgRetention p)) \<or>
         MsgID m \<in> set (FixedIDs p) \<longrightarrow> hd ss"
    by (fastforce simp: bind_Inr_iff Let_def split: if_splits)
  show ?case
  proof (cases i)
    case 0
    then show ?thesis using Cons.prems(3) s ss by (metis nth_Cons_0)
  next
    case (Suc j)
    then have "ss' ! j" using Cons.IH [OF rest, of j] Cons.prems by simp
    then show ?thesis using Suc ss by (metis nth_Cons_Suc)
  qed
qed simp

lemma fold_protect_mono:
  "i < length sel \<Longrightarrow> sel ! i \<Longrightarrow> fold (\<lambda>(i, protect) sel. if protect then sel[i := True] else sel) xs sel ! i"
proof (induction xs arbitrary: sel)
  case (Cons x xs)
  obtain j b where x: "x = (j, b)" by (cases x)
  have "(if b then sel[j := True] else sel) ! i" using Cons.prems by (cases "j = i") simp_all
  then show ?case using Cons by (simp add: x)
qed simp

lemma protectCompile_mono:
  "i < length sel \<Longrightarrow> sel ! i \<Longrightarrow> protectCompileBudgetSuffix p ms sel rounds ! i"
  by (simp add: protectCompileBudgetSuffix_def Let_def protectBudgetSuffix_nth fold_protect_mono)

lemma protectCompile_length [simp]: "length (protectCompileBudgetSuffix p ms sel rounds) = length sel"
proof -
  have "length (fold (\<lambda>(i, protect) sel. if protect then sel[i := True] else sel) xs sel) = length sel"
    for xs :: "(nat \<times> bool) list"
    by (induction xs arbitrary: sel) auto
  then show ?thesis by (simp add: protectCompileBudgetSuffix_def Let_def protectBudgetSuffix_def)
qed

lemma splitRequired_mem:
  "length sel = length ms \<Longrightarrow> i < length ms \<Longrightarrow> sel ! i \<Longrightarrow> ms ! i \<in> set (fst (splitRequired ms sel))"
proof -
  assume *: "length sel = length ms" "i < length ms" "sel ! i"
  then have "(ms ! i, True) \<in> set (zip ms sel)" by (auto simp: in_set_zip)
  then have "(ms ! i, True) \<in> set (filter snd (zip ms sel))" by simp
  then show ?thesis unfolding splitRequired_def fst_conv by (metis fst_conv image_eqI list.set_map)
qed


lemma required_in_refs:
  assumes sel: "selectRequired E p cur rounds c1 = (Inr sel, c2)" and rounds: "inspectBudgetRounds p cur = Inr rounds"
    and explicit: "explicitRequiredMessages E p (fst (splitRequired cur (protectCompileBudgetSuffix p cur sel rounds))) = Inr explicit"
    and refs: "requiredRefs E explicit = Inr refs"
    and m: "m \<in> set cur" "MsgID m \<in> set (RetMessageIDs (CfgRetention p)) \<or> MsgRole m \<in> set (RetRoles (CfgRetention p))"
  shows "\<exists>r \<in> set refs. MessageContentRef E m = Inr r"
proof -
  obtain i where i: "i < length cur" "m = cur ! i" using m(1) by (metis in_set_conv_nth)
  obtain ss ids rs c3 where ss: "selectLoop E p cur c1 = (Inr (ss, ids, rs), c3)" "sel = expandRequiredRounds ss rounds"
    using selectRequired_Inr [OF sel] by blast
  have len: "length ss = length cur" by (rule selectLoop_length [OF ss(1)])
  have "ss ! i" by (rule selectLoop_selects [OF ss(1) i(1)]) (use m(2) i in auto)
  then have "sel ! i"
    unfolding ss(2) using inspectBudget_proper [OF rounds] len i
    by (intro expandRequiredRounds_mono) (auto simp: proper_rounds_def)
  then have "protectCompileBudgetSuffix p cur sel rounds ! i"
    using len i ss(2) by (intro protectCompile_mono) auto
  then have "m \<in> set (fst (splitRequired cur (protectCompileBudgetSuffix p cur sel rounds)))"
    using splitRequired_mem i len ss(2) by simp
  from explicitRequired_mem [OF explicit this] m(2) have "m \<in> set explicit" by blast
  with refs show ?thesis by (rule requiredRefs_mem)
qed

subsection \<open>Properties\<close>

text \<open>
  C3. A successful execution of the budget pipeline stays within the hard limit that the
  request resolves to, and its decision record is consistent: it passes its own
  validation (ordered target, trigger and hard limits, an accurate soft-target flag, a
  summary budget exactly when a summary was made, and within the limits), and
  \<^verbatim>\<open>AfterTokens\<close> is the estimator's answer for the returned messages, or for the
  messages of which the returned ones are copies.
\<close>

theorem Apply_within_limit:
  assumes "Apply E p messages c = (Inr (out, d), c')" "go_ints (CfgBudget p)" "digest_wf E"
  shows "Resolve (CfgBudget p) = Inr (HardLimit d) \<and> AfterTokens d \<le> HardLimit d \<and>
     BudgetDecision_validate d = Inr () \<and>
     (\<exists>ms. measured E p ms (AfterTokens d) \<and> (out = ms \<or> out = cloneMessageSlice ms))"
proof -
  from assms(1) obtain limit where limit: "Resolve (CfgBudget p) = Inr limit"
    and app: "ApplyWithLimit E p messages limit c = (Inr (out, d), c')"
    by (auto simp: Apply_def bind_Inr_iff)
  from app show ?thesis
  proof (rule ApplyWithLimit_Inr)
    fix cur rounds sel sel' refs before d1 c1 c2 c3 c4 c5 explicit
    let ?d0 = "(initialDecision p limit)\<lparr>BeforeTokens := before, Required := refs\<rparr>"
    assume inv: "validateBudgetInvocation p limit = Inr ()"
      and est: "estimateBudgetMessages E p cur c2 = (Inr before, c3)"
      and refs: "requiredRefs E explicit = Inr refs"
      and ex: "if before > TriggerTokens (initialDecision p limit)
         then executeOverflow E p cur sel' ?d0 c4 = (Inr (out, d1), c5)
         else out = cur \<and> d1 = (initialDecision p limit)\<lparr>BeforeTokens := before, Required := refs, AfterTokens := before\<rparr>"
      and d: "d = d1\<lparr>TargetReached := AfterTokens d1 \<le> TargetTokens d1\<rparr>"
    note bounds = initialDecision_bounds [OF inv assms(2)]
    have before: "measured E p cur before" "0 \<le> before"
      using est measuredI estimateBudgetMessages_nonneg by blast+
    have dm: "decided p ?d0 d1 \<and> (\<exists>ms. measured E p ms (AfterTokens d1) \<and> (out = ms \<or> out = cloneMessageSlice ms))"
    proof (cases "before > TriggerTokens (initialDecision p limit)")
      case True
      with ex have "executeOverflow E p cur sel' ?d0 c4 = (Inr (out, d1), c5)" by simp
      from executeOverflow_Inr [OF this] have dec: "decided p ?d0 d1" and
        alt: "measured E p out (AfterTokens d1) \<or> out = cloneMessageSlice cur \<and> d1 = ?d0\<lparr>AfterTokens := BeforeTokens ?d0\<rparr>"
        by simp_all
      from alt have "measured E p out (AfterTokens d1) \<or> out = cloneMessageSlice cur \<and> AfterTokens d1 = before"
        by auto
      with dec before(1) show ?thesis by blast
    next
      case False
      with ex bounds before(1) show ?thesis by (auto simp: decided_def)
    qed
    then have dec: "decided p ?d0 d1" and
      ms: "\<exists>ms. measured E p ms (AfterTokens d1) \<and> (out = ms \<or> out = cloneMessageSlice ms)" by blast+
    have "0 \<le> AfterTokens d1" using ms measured_nonneg by blast
    then have "BudgetDecision_validate d = Inr ()"
      unfolding d by (rule decision_valid [OF dec])
        (use bounds before requiredRefs_valid [OF assms(3) refs] summaryPurpose_valid [OF inv] in auto)
    with dec ms show ?thesis by (auto simp: decided_def d limit)
  qed
qed


definition samplePipeline :: "int \<Rightarrow> string list \<Rightarrow> BudgetPipeline" where
  "samplePipeline limit keep = \<lparr>FixedIDs = [], CfgRetention = \<lparr>RetMessageIDs = keep, RetContentRefs = [], RetRoles = []\<rparr>,
     CfgCompaction = None, CfgBudget = EffectiveInputBudget limit, CfgSummarizer = None, CfgTruncateStrategy = None,
     CfgDropHead = \<lparr>KeepTurnAtomicity = None, MinMessages = 0\<rparr>, PipeEstimator = CharTokenEstimator,
     PipeCompaction = None, PipeRolling = None, NewMessageID = (\<lambda>_. Inr ''fresh'')\<rparr>"

definition sampleTexts :: "Message list" where
  "sampleTexts = [userText ''u1'' ''hello'', userText ''u2'' ''bye'', userText ''u3'' ''okay'']"

definition sampleDecision :: BudgetDecision where
  "sampleDecision = \<lparr>HardLimit = 9, TriggerTokens = 9, TargetTokens = 9, BeforeTokens = 12, AfterTokens = 7,
     Required = [\<lparr>RefID = ''u3'', RefDigest = bytesToHex (take 32 (''u3'' @ replicate 32 CHR ''0'')), RefOccurrence = []\<rparr>],
     Summary = None, Compacted = False, TargetReached = True\<rparr>"

lemma sampleEnv_digest: "digest_wf sampleEnv"
proof -
  have "length (take 32 (i @ replicate 32 CHR ''0'')) = 32" for i :: string by simp
  then show ?thesis unfolding digest_wf_def sampleEnv_def by (metis Inr_inject env.select_convs(2))
qed

lemma sample_Apply:
  "Apply sampleEnv (samplePipeline 9 [''u3'']) sampleTexts None =
     (Inr ([userText ''u2'' ''bye'', userText ''u3'' ''okay''], sampleDecision), None)"
  by code_simp

theorem Apply_within_limit_witness:
  "AfterTokens sampleDecision \<le> HardLimit sampleDecision \<and> BudgetDecision_validate sampleDecision = Inr ()"
proof -
  have "go_ints (CfgBudget (samplePipeline 9 [''u3'']))" by code_simp
  from Apply_within_limit [OF sample_Apply this sampleEnv_digest] show ?thesis by blast
qed

text \<open>
  C4. Required content survives the budget: the recorded references of required messages are
  found in the output with the same content, at strictly increasing positions (so their
  order is kept), and they include every input message that the retention policy selects
  by identity or by role.
\<close>

theorem Apply_preserves_required:
  assumes "Apply E p messages c = (Inr (out, d), c')" "ownCompileMessages E messages = Inr cur"
  shows "(\<exists>ks. length ks = length (Required d) \<and> sorted_wrt (<) ks \<and>
       (\<forall>j < length (Required d). ks ! j < length out \<and> MessageContentRef E (out ! (ks ! j)) = Inr (Required d ! j))) \<and>
     (\<forall>m \<in> set cur. MsgID m \<in> set (RetMessageIDs (CfgRetention p)) \<or> MsgRole m \<in> set (RetRoles (CfgRetention p)) \<longrightarrow>
       (\<exists>r \<in> set (Required d). MessageContentRef E m = Inr r))"
proof -
  from assms(1) obtain limit where app: "ApplyWithLimit E p messages limit c = (Inr (out, d), c')"
    by (auto simp: Apply_def bind_Inr_iff)
  from app show ?thesis
  proof (rule ApplyWithLimit_Inr)
    fix cur' rounds sel sel' refs before d1 c1 c2 c3 c4 c5 explicit
    let ?d0 = "(initialDecision p limit)\<lparr>BeforeTokens := before, Required := refs\<rparr>"
    assume own: "ownCompileMessages E messages = Inr cur'"
      and rounds: "inspectBudgetRounds p cur' = Inr rounds" and sel: "selectRequired E p cur' rounds c1 = (Inr sel, c2)"
      and sel': "sel' = protectCompileBudgetSuffix p cur' sel rounds"
      and explicit: "explicitRequiredMessages E p (fst (splitRequired cur' sel')) = Inr explicit"
      and refs: "requiredRefs E explicit = Inr refs"
      and ex: "if before > TriggerTokens (initialDecision p limit)
         then executeOverflow E p cur' sel' ?d0 c4 = (Inr (out, d1), c5)
         else out = cur' \<and> d1 = (initialDecision p limit)\<lparr>BeforeTokens := before, Required := refs, AfterTokens := before\<rparr>"
      and val: "validateRequiredOutput E out (Required d1) = Inr ()"
      and d: "d = d1\<lparr>TargetReached := AfterTokens d1 \<le> TargetTokens d1\<rparr>"
    have "Required d1 = refs"
    proof (cases "before > TriggerTokens (initialDecision p limit)")
      case True
      with ex executeOverflow_Inr [of E p cur' sel' ?d0 c4 out d1 c5] show ?thesis by (simp add: decided_def)
    qed (use ex in simp)
    then have req: "Required d = refs" by (simp add: d)
    have "\<forall>m \<in> set cur'. MsgID m \<in> set (RetMessageIDs (CfgRetention p)) \<or> MsgRole m \<in> set (RetRoles (CfgRetention p)) \<longrightarrow>
       (\<exists>r \<in> set refs. MessageContentRef E m = Inr r)"
      using required_in_refs [OF sel rounds explicit [unfolded sel'] refs] by blast
    moreover have "cur' = cur" using own assms(2) by simp
    ultimately show ?thesis
      using validateRequiredOutput_from_Inr [of E "-1" out refs] val \<open>Required d1 = refs\<close>
      by (auto simp: req validateRequiredOutput_def)
  qed
qed

theorem Apply_preserves_required_witness:
  "\<exists>r \<in> set (Required sampleDecision). MessageContentRef sampleEnv (userText ''u3'' ''okay'') = Inr r"
proof -
  have "ownCompileMessages sampleEnv sampleTexts = Inr sampleTexts" by code_simp
  from Apply_preserves_required [OF sample_Apply this] show ?thesis
    by (simp add: sampleTexts_def samplePipeline_def userText_def sampleMessage_def)
qed

text \<open>
  C19. A message that a strategy kept is lost to the merge when it has a timestamp: the
  strategy's output is an owned copy, \<^verbatim>\<open>MessageEqual\<close> compares the timestamp pointers, and
  so the merge with required content is refused although the output is an unchanged part
  of the input.
\<close>

theorem mergeRequired_rejects_timestamps:
  assumes "True \<in> set selected" "kept \<in> set outputs" "MsgTimestamp kept \<noteq> None"
  shows "mergeRequired False before selected outputs False \<in> {Inl ErrInvalidRetention, Inl ErrDuplicateMessageID}"
proof -
  obtain i where i: "i < length outputs" "outputs ! i = kept" using assms(2) by (auto simp: in_set_conv_nth)
  have dup: "validateUniqueMessageIDs ms \<in> {Inr (), Inl ErrDuplicateMessageID}" for ms
  proof -
    have "validateUniqueMessageIDs_from seen ms \<in> {Inr (), Inl ErrDuplicateMessageID}" for seen
      by (induction seen ms rule: validateUniqueMessageIDs_from.induct) auto
    then show ?thesis by (simp add: validateUniqueMessageIDs_def)
  qed
  have loop_err: "e = ErrInvalidRetention" if "mergeLoop sh su ms outputs k ins con = Inl e" for sh su ms k ins con e
    using that
    by (induction sh su ms outputs k ins con arbitrary: e rule: mergeLoop.induct)
      (auto simp: bind_res_def split: if_splits sum.splits option.splits)
  have "False \<in> set con"
    if "mergeLoop False False (zip before selected) outputs 0 False (replicate (length outputs) False) = Inr (out, con)"
    for out con
    using mergeLoop_timestamp [OF that, of i] i assms(3) by (metis length_replicate nth_mem nth_replicate)
  then show ?thesis
    using assms(1) dup [of before] dup [of outputs] loop_err
    by (cases "mergeLoop False False (zip before selected) outputs 0 False (replicate (length outputs) False)")
      (auto simp: mergeRequired_def)
qed

definition stamped :: "Message list" where
  "stamped = map (\<lambda>m. m\<lparr>MsgTimestamp := Some 1700000000\<rparr>) sampleTexts"

theorem mergeRequired_rejects_timestamps_witness:
  "mergeRequired False stamped [False, False, True] [stamped ! 1] False \<in> {Inl ErrInvalidRetention, Inl ErrDuplicateMessageID} \<and>
   run (Apply sampleEnv (samplePipeline 9 [''u3'']) stamped) = Inl ErrInvalidRetention"
proof
  show "mergeRequired False stamped [False, False, True] [stamped ! 1] False \<in>
      {Inl ErrInvalidRetention, Inl ErrDuplicateMessageID}"
    by (rule mergeRequired_rejects_timestamps [where kept = "stamped ! 1"]) (simp_all add: stamped_def sampleTexts_def)
  show "run (Apply sampleEnv (samplePipeline 9 [''u3'']) stamped) = Inl ErrInvalidRetention"
    by code_simp
qed

text \<open>
  The percentage of a budget is the exact floor of \<open>limit * percent / 100\<close> although that product
  may exceed 64 bits: the intermediate results never wrap. It grows with the percentage
  and never exceeds the limit.
\<close>

theorem budgetPercent_exact:
  assumes "0 \<le> limit" "limit \<le> MaxInt" "0 \<le> percent" "percent \<le> 100"
  shows "budgetPercent limit percent = limit * percent div 100 \<and> budgetPercent limit percent \<le> limit"
proof -
  have "limit * percent \<le> limit * 100" using assms by (simp add: mult_left_mono)
  then show ?thesis using budgetPercent_floor [OF assms] by linarith
qed

theorem budgetPercent_exact_witness:
  "budgetPercent MaxInt 99 = MaxInt * 99 div 100 \<and> budgetPercent MaxInt 99 \<le> MaxInt"
  by (rule budgetPercent_exact) (simp_all add: MaxInt_def)

text \<open>
  A budget request resolves exactly when it is well formed, and then without overflow: the
  effective limit itself, or the window less both reservations, never negative.
\<close>

theorem Resolve_exact:
  assumes "go_ints b"
  shows "Resolve b =
     (if BudMode b = BudgetEffective \<and> BudWindow b = 0 \<and> OutputReservation b = 0 \<and> WireReservation b = 0 \<and> 0 \<le> EffectiveLimit b
      then Inr (EffectiveLimit b)
      else if BudMode b = BudgetWindow \<and> EffectiveLimit b = 0 \<and> 0 \<le> OutputReservation b \<and> 0 \<le> WireReservation b \<and>
        OutputReservation b + WireReservation b \<le> BudWindow b
      then Inr (BudWindow b - OutputReservation b - WireReservation b)
      else Inl ErrInvalidBudgetRequest)"
proof -
  have sub: "go_sub (BudWindow b) (OutputReservation b) = BudWindow b - OutputReservation b"
    if "0 \<le> BudWindow b" "0 \<le> OutputReservation b"
    by (rule go_sub_exact) (use that assms in \<open>simp add: go_ints_def go_int_def MaxInt_def\<close>)
  have sub2: "go_sub (BudWindow b - OutputReservation b) (WireReservation b) =
      BudWindow b - OutputReservation b - WireReservation b"
    if "0 \<le> OutputReservation b" "0 \<le> WireReservation b" "WireReservation b \<le> BudWindow b - OutputReservation b"
    by (rule go_sub_exact) (use that assms in \<open>simp add: go_ints_def go_int_def MaxInt_def\<close>)
  show ?thesis
    by (cases "BudMode b") (auto simp: Resolve_def sub sub2)
qed

theorem Resolve_exact_witness: "Resolve (WindowInputBudget 1000 200 50) = Inr 750"
  using Resolve_exact [of "WindowInputBudget 1000 200 50"] by (simp add: WindowInputBudget_def go_ints_def MaxInt_def)

end
