(* ===== verification/Budget_Scope.thy ===== *)
theory Budget_Scope
  imports Budget
begin

text \<open>
  Required content in the scope of a compile (budget_compile_scope.go): the sections that a compile fixes are taken out of the history before
  the recent suffix is protected. The rounds seen there are those of the whole input, at shifted positions.
\<close>

subsection \<open>Positions in a filtered list\<close>

definition rank :: "('a \<Rightarrow> bool) \<Rightarrow> 'a list \<Rightarrow> nat \<Rightarrow> nat" where
  "rank P xs i = length (filter P (take i xs))"

lemma rank_Suc: "i < length xs \<Longrightarrow> rank P xs (Suc i) = rank P xs i + (if P (xs ! i) then 1 else 0)"
  by (simp add: rank_def take_Suc_conv_app_nth)

lemma rank_mono: "i \<le> j \<Longrightarrow> rank P xs i \<le> rank P xs j"
  unfolding rank_def by (metis le_iff_add length_append filter_append take_add nat_le_iff_add)

lemma rank_length: "length xs \<le> i \<Longrightarrow> rank P xs i = length (filter P xs)"
  by (simp add: rank_def)

lemma drop_rank: "drop (rank P xs i) (filter P xs) = filter P (drop i xs)"
  unfolding rank_def by (metis append_eq_conv_conj append_take_drop_id filter_append)

lemma rank_less: "i < length xs \<Longrightarrow> P (xs ! i) \<Longrightarrow> rank P xs i < length (filter P xs) \<and> filter P xs ! rank P xs i = xs ! i"
proof -
  assume i: "i < length xs" "P (xs ! i)"
  then have "drop (rank P xs i) (filter P xs) = xs ! i # filter P (drop (Suc i) xs)"
    by (simp add: drop_rank flip: Cons_nth_drop_Suc)
  then show ?thesis by (metis drop_eq_Nil2 hd_drop_conv_nth list.discI list.sel(1) not_less)
qed

lemma rank_block: "i + k \<le> length xs \<Longrightarrow> \<forall>j. i \<le> j \<and> j < i + k \<longrightarrow> P (xs ! j) \<Longrightarrow> rank P xs (i + k) = rank P xs i + k"
  by (induction k) (auto simp: rank_Suc)

text \<open>The positions that pass, in order: the one of \<open>i\<close> is its rank.\<close>

lemma filter_upt_rank:
  assumes "i < n" "P i"
  shows "rank P [0 ..< n] i < length (filter P [0 ..< n]) \<and> filter P [0 ..< n] ! rank P [0 ..< n] i = i"
  using rank_less [of i "[0 ..< n]" P] assms by simp

lemma rank_upt: "rank (\<lambda>i. P (xs ! i)) [0 ..< length xs] i = rank P xs i"
proof -
  have "map (\<lambda>i. xs ! i) (take i [0 ..< length xs]) = take i xs" by (simp add: take_map map_nth flip: take_map)
  then have "filter P (take i xs) = map (\<lambda>i. xs ! i) (filter (\<lambda>i. P (xs ! i)) (take i [0 ..< length xs]))"
    by (metis (no_types, lifting) comp_apply filter_cong filter_map)
  then show ?thesis by (simp add: rank_def)
qed

lemma fold_update_True:
  "j < length sel \<Longrightarrow> fold (\<lambda>(i, protect) sel. if protect then sel[i := True] else sel) ps sel ! j = (sel ! j \<or> (j, True) \<in> set ps)"
proof (induction ps arbitrary: sel)
  case (Cons p ps)
  obtain i b where "p = (i, b)" by (cases p)
  with Cons show ?case by (cases "i = j"; cases b) auto
qed simp

lemma fold_update_length [simp]:
  "length (fold (\<lambda>(i, protect) sel. if protect then sel[i := True] else sel) ps sel) = length sel"
  by (induction ps arbitrary: sel) (auto split: prod.splits)

subsection \<open>Rounds of the history\<close>

lemma inspectToolRound_move:
  "inspectToolRound m rs s e [] = Inr x \<Longrightarrow> inspectToolRound m rs s' e' [] = Inr (x\<lparr>ObsStart := s', ObsEnd := e'\<rparr>)"
  by (auto simp: inspectToolRound_def declareRound_def Let_def split: sum.splits if_splits)

lemma inspectToolRound_bounds: "inspectToolRound m rs s e [] = Inr x \<Longrightarrow> ObsStart x = s \<and> ObsEnd x = e"
  by (auto simp: inspectToolRound_def declareRound_def Let_def split: sum.splits if_splits)

definition blank :: "Message \<Rightarrow> Message" where
  "blank m = m\<lparr>MsgRole := RoleSystem, MsgParts := []\<rparr>"

lemma blank_plain [simp]: "MsgRole (blank m) = RoleSystem" "ToolResultParts (blank m) = []" "\<not> HasToolCalls (blank m)"
  by (simp_all add: blank_def ToolResultParts_def HasToolCalls_def ToolCallParts_def)

definition shiftRound :: "(Message \<Rightarrow> bool) \<Rightarrow> Message list \<Rightarrow> ToolRoundObservation \<Rightarrow> ToolRoundObservation" where
  "shiftRound P ms x = x\<lparr>ObsStart := rank P ms (ObsStart x), ObsEnd := rank P ms (ObsEnd x)\<rparr>"

lemma inspectRounds_no_tool:
  assumes "inspectRounds msgs d i seen = Inr x"
  shows "leading_tools (drop i msgs) = []"
proof (cases "i < length msgs")
  case True
  with assms have "MsgRole (msgs ! i) \<noteq> RoleTool" by (auto simp: inspectRounds.simps [of msgs d i] Let_def split: if_splits)
  with True show ?thesis by (simp add: leading_tools_def flip: Cons_nth_drop_Suc)
qed (simp add: leading_tools_def)

lemma inspectRounds_filter:
  assumes "inspectRounds (map (\<lambda>m. if P m then m else blank m) ms) [] i seen = Inr (obs, seen')"
  shows "inspectRounds (filter P ms) [] (rank P ms i) seen = Inr (map (shiftRound P ms) obs, seen') \<and>
     (\<forall>x \<in> set obs. \<forall>j. ObsStart x \<le> j \<and> j \<le> ObsEnd x \<longrightarrow> j < length ms \<and> P (ms ! j))"
  using assms
proof (induction "length ms - i" arbitrary: i seen obs rule: less_induct)
  case less
  let ?W = "map (\<lambda>m. if P m then m else blank m) ms" and ?H = "filter P ms"
  show ?case
  proof (cases "i < length ms")
    case False
    with less.prems show ?thesis by (simp add: inspectRounds.simps [of ?W "[]" i] inspectRounds.simps [of ?H "[]" "length ?H"] rank_length)
  next
    case len: True
    let ?m = "?W ! i"
    have guard: "MsgRole ?m \<noteq> RoleTool" "ToolResultParts ?m = []"
      using less.prems len by (auto simp: inspectRounds.simps [of ?W "[]" i] Let_def split: if_splits)
    show ?thesis
    proof (cases "HasToolCalls ?m")
      case calls: False
      with less.prems len guard have rest: "inspectRounds ?W [] (Suc i) seen = Inr (obs, seen')"
        by (simp add: inspectRounds.simps [of ?W "[]" i] Let_def del: nth_map)
      note IH = less.hyps [OF _ rest]
      show ?thesis
      proof (cases "P (ms ! i)")
        case True
        with rank_less [of i ms P] len IH guard calls show ?thesis
          by (simp add: rank_Suc inspectRounds.simps [of ?H "[]" "rank P ms i"] Let_def)
      qed (use IH len in \<open>simp add: rank_Suc\<close>)
    next
      case calls: True
      then have P: "P (ms ! i)" using len by (cases "P (ms ! i)") auto
      then have m: "?m = ms ! i" "rank P ms i < length ?H" "?H ! rank P ms i = ms ! i" using len rank_less [of i ms P] by auto
      define e where "e = contiguousToolBlockEnd ?W i"
      from less.prems len guard calls obtain x rest where
        role: "MsgRole (ms ! i) = RoleAssistant" "\<not> (MsgID (ms ! i) \<noteq> [] \<and> MsgID (ms ! i) \<in> set seen)" and
        x: "inspectToolRound (ms ! i) (round_results ?W i) i e [] = Inr x" and
        r: "inspectRounds ?W [] (Suc e) (MsgID (ms ! i) # seen) = Inr (rest, seen')" and obs: "obs = x # rest"
        by (auto simp: inspectRounds.simps [of ?W "[]" i] Let_def bind_res_Inr_iff round_results_take m(1) e_def simp del: nth_map split: if_splits)
      have e: "e = i + length (round_results ?W i)" by (simp add: e_def contiguousToolBlockEnd_eq round_results_def)
      have "length (round_results ?W i) \<le> length (drop (Suc i) ?W)"
        unfolding round_results_def leading_tools_def by (rule length_takeWhile_le)
      then have e_len: "e < length ms" using e len by simp
      have "length ms - Suc e < length ms - i" using e len by simp
      note IH = less.hyps [OF this r]
      have tools: "MsgRole (?W ! j) = RoleTool" if "i < j" "j \<le> e" for j
      proof -
        have "j - Suc i < length (round_results ?W i)" using that e by simp
        then have "round_results ?W i ! (j - Suc i) = drop (Suc i) ?W ! (j - Suc i)" "MsgRole (round_results ?W i ! (j - Suc i)) = RoleTool"
          using leading_tools_role [OF nth_mem, of "j - Suc i" "drop (Suc i) ?W"]
          by (simp_all add: round_results_def) (simp add: leading_tools_def takeWhile_nth)
        then show ?thesis using that e_len by simp
      qed
      have nonfixed: "P (ms ! j)" if "i \<le> j" "j \<le> e" for j
        using that P tools [of j] e_len by (cases "j = i"; cases "P (ms ! j)") auto
      have pre: "take (e - i) (drop (Suc i) ?W) = take (e - i) (drop (Suc i) ms)"
        using nonfixed e_len by (intro nth_equalityI) auto
      have res: "round_results ?W i = take (e - i) (drop (Suc i) ms)"
        using round_results_take [of ?W i] pre by (simp add: e_def)
      have "drop (rank P ms (Suc i)) ?H = filter P (take (e - i) (drop (Suc i) ms)) @ drop (rank P ms (Suc e)) ?H"
        unfolding drop_rank using append_take_drop_id [of "e - i" "drop (Suc i) ms"] e by (simp flip: filter_append add: add.commute)
      moreover have "filter P (take (e - i) (drop (Suc i) ms)) = take (e - i) (drop (Suc i) ms)"
        using nonfixed e_len by (auto simp: filter_id_conv in_set_conv_nth)
      moreover have "\<forall>m \<in> set (take (e - i) (drop (Suc i) ms)). MsgRole m = RoleTool"
        using leading_tools_role by (simp add: round_results_def flip: res)
      ultimately have "leading_tools (drop (rank P ms (Suc i)) ?H) = take (e - i) (drop (Suc i) ms)"
        using inspectRounds_no_tool [OF conjunct1 [OF IH]] e_len e by (simp add: leading_tools_def takeWhile_append)
      then have results: "round_results ?H (rank P ms i) = round_results ?W i"
        using P len by (simp add: round_results_def [of ?H] rank_Suc res)
      have ranks: "rank P ms e = rank P ms i + length (round_results ?W i)" "rank P ms (Suc e) = Suc (rank P ms e)"
        using rank_block [of i "e - i" ms P] nonfixed e_len e by (auto simp: rank_Suc)
      then have end_eq: "contiguousToolBlockEnd ?H (rank P ms i) = rank P ms e"
        using results by (simp add: contiguousToolBlockEnd_eq round_results_def)
      have bounds: "ObsStart x = i" "ObsEnd x = e" using inspectToolRound_move [OF x, of i e] x by (auto dest: inspectToolRound_bounds)
      have "inspectToolRound (ms ! i) (round_results ?W i) (rank P ms i) (rank P ms e) [] = Inr (shiftRound P ms x)"
        using inspectToolRound_move [OF x] by (simp add: shiftRound_def bounds)
      then have "inspectRounds ?H [] (rank P ms i) seen = Inr (map (shiftRound P ms) obs, seen')"
        using m role guard calls conjunct1 [OF IH] results end_eq ranks(2) round_results_take [of ?H "rank P ms i"]
        by (simp add: inspectRounds.simps [of ?H "[]" "rank P ms i"] Let_def obs)
      with nonfixed bounds e_len conjunct2 [OF IH] show ?thesis by (auto simp: obs)
    qed
  qed
qed

subsection \<open>The protected suffix\<close>

lemma selectLoop_fixed:
  "selectLoop E p ms c = (Inr (ss, ids, rs), c') \<Longrightarrow> i < length ms \<Longrightarrow> MsgID (ms ! i) \<in> set (FixedIDs p) \<Longrightarrow> ss ! i"
proof (induction ms arbitrary: c ss ids rs i)
  case (Cons m ms)
  then show ?case by (cases i) (auto simp: bind_Inr_iff Let_def split: if_splits)
qed simp

lemma inspectBudgetRounds_history:
  assumes "inspectBudgetRounds p cur = Inr rounds"
  defines "P \<equiv> \<lambda>m. MsgID m \<notin> set (FixedIDs p)"
  shows "InspectToolRoundStates (filter P cur) [] = Inr (map (shiftRound P cur) rounds) \<and>
     (\<forall>r \<in> set rounds. \<forall>j. ObsStart r \<le> j \<and> j \<le> ObsEnd r \<longrightarrow> j < length cur \<and> P (cur ! j))"
proof -
  have W: "map (\<lambda>m. if P m then m else blank m) cur =
      (if FixedIDs p = [] then cur else map (\<lambda>m. if MsgID m \<in> set (FixedIDs p) then m\<lparr>MsgRole := RoleSystem, MsgParts := []\<rparr> else m) cur)"
    by (auto simp: P_def blank_def intro: map_idI)
  with assms(1) obtain seen where "inspectRounds (map (\<lambda>m. if P m then m else blank m) cur) [] 0 [] = Inr (rounds, seen)"
    by (auto simp: inspectBudgetRounds_def InspectToolRoundStates_def bind_res_Inr_iff split: if_splits)
  from inspectRounds_filter [OF this] show ?thesis by (simp add: InspectToolRoundStates_def rank_def)
qed

lemma protectCompileBudgetSuffix_nth:
  assumes "inspectBudgetRounds p cur = Inr rounds" "i < length cur" "length sel = length cur"
    and "FixedIDs p \<noteq> []" "PipeRolling p \<noteq> None"
  defines "P \<equiv> \<lambda>m. MsgID m \<notin> set (FixedIDs p)"
  shows "protectCompileBudgetSuffix p cur sel rounds ! i \<longleftrightarrow> sel ! i \<or>
     P (cur ! i) \<and> suffixStart (length (filter P cur)) (map (shiftRound P cur) rounds) (PipeRolling p) \<le> rank P cur i"
proof -
  let ?is = "filter (\<lambda>i. P (cur ! i)) [0 ..< length cur]" and ?hr = "map (shiftRound P cur) rounds"
  have hist: "map (\<lambda>i. cur ! i) ?is = filter P cur" by (metis (no_types, lifting) comp_apply filter_cong filter_map map_nth)
  have n: "length ?is = length (filter P cur)" by (metis hist length_map)
  let ?hs = "protectBudgetSuffix (replicate (length (filter P cur)) False) ?hr (PipeRolling p)"
  have prot: "protectCompileBudgetSuffix p cur sel rounds = fold (\<lambda>(i, protect) sel. if protect then sel[i := True] else sel) (zip ?is ?hs) sel"
  proof -
    have "InspectToolRoundStates (map (\<lambda>i. cur ! i) ?is) [] = Inr ?hr"
      unfolding hist using conjunct1 [OF inspectBudgetRounds_history [OF assms(1)]] by (simp add: P_def)
    with assms(4,5) n show ?thesis by (auto simp: protectCompileBudgetSuffix_def Let_def P_def)
  qed
  have len: "length ?hs = length ?is" by (simp add: protectBudgetSuffix_def n)
  have "(i, True) \<in> set (zip ?is ?hs) \<longleftrightarrow> (\<exists>k < length ?is. ?is ! k = i \<and> ?hs ! k)"
    unfolding set_zip using len by auto
  also have "\<dots> \<longleftrightarrow> P (cur ! i) \<and> ?hs ! rank P cur i"
  proof
    assume "\<exists>k < length ?is. ?is ! k = i \<and> ?hs ! k"
    then obtain k where k: "k < length ?is" "?is ! k = i" "?hs ! k" by blast
    then have P: "P (cur ! i)" using nth_mem [of k ?is] by auto
    then have "rank P cur i < length ?is" "?is ! rank P cur i = i" using filter_upt_rank [OF assms(2), of "\<lambda>i. P (cur ! i)"] by (simp_all add: rank_upt)
    then have "k = rank P cur i" using k nth_eq_iff_index_eq [of ?is k "rank P cur i"] by simp
    with k P show "P (cur ! i) \<and> ?hs ! rank P cur i" by simp
  next
    assume "P (cur ! i) \<and> ?hs ! rank P cur i"
    with filter_upt_rank [OF assms(2), of "\<lambda>i. P (cur ! i)"] show "\<exists>k < length ?is. ?is ! k = i \<and> ?hs ! k" by (auto simp: rank_upt)
  qed
  finally have "protectCompileBudgetSuffix p cur sel rounds ! i \<longleftrightarrow> sel ! i \<or> P (cur ! i) \<and> ?hs ! rank P cur i"
    unfolding prot using assms(2,3) by (simp add: fold_update_True)
  then show ?thesis using rank_less [of i cur P] assms(2) by (auto simp: protectBudgetSuffix_nth)
qed

text \<open>
  C18. The selection of required messages is atomic on tool rounds, in a direct invocation and in the scope of a compile with fixed
  sections: after the expansion and the protection of the suffix, every observed round is required as a whole or not at all, and
  a pending round is required with everything that follows it.
\<close>

theorem required_selection_keeps_rounds:
  assumes "inspectBudgetRounds p cur = Inr rounds" "selectRequired E p cur rounds c = (Inr sel, c')" "r \<in> set rounds"
  shows "uniform (protectCompileBudgetSuffix p cur sel rounds) r \<and>
     (ObsState r = ToolRoundPending \<longrightarrow>
       (\<forall>i. ObsStart r \<le> i \<and> i < length cur \<longrightarrow> protectCompileBudgetSuffix p cur sel rounds ! i))"
proof -
  obtain ss ids refs c1 where loop: "selectLoop E p cur c = (Inr (ss, ids, refs), c1)" and sel: "sel = expandRequiredRounds ss rounds"
    using selectRequired_Inr [OF assms(2)] by blast
  then have len: "length sel = length cur" "length ss = length cur" using selectLoop_length by fastforce+
  have proper: "proper_rounds (length cur) rounds" by (rule inspectBudget_proper [OF assms(1)])
  then have range: "ObsStart r \<le> ObsEnd r" "ObsEnd r < length cur" using assms(3) by (auto simp: proper_rounds_def)
  have uni: "\<forall>q \<in> set rounds. uniform sel q"
    unfolding sel by (rule expandRequiredRounds_uniform) (use proper len(2) in \<open>auto simp: proper_rounds_def\<close>)
  show ?thesis
  proof (cases "FixedIDs p = [] \<or> PipeRolling p = None")
    case True
    then have eq: "protectCompileBudgetSuffix p cur sel rounds = protectBudgetSuffix sel rounds (PipeRolling p)"
      by (auto simp: protectCompileBudgetSuffix_def)
    have "uniform (protectBudgetSuffix sel rounds (PipeRolling p)) r"
      using protectBudgetSuffix_uniform [of sel rounds r] proper uni assms(3) len(1) by simp
    moreover have "protectBudgetSuffix sel rounds (PipeRolling p) ! i"
      if "ObsState r = ToolRoundPending" "ObsStart r \<le> i" "i < length cur" for i
      using fold_pendingStep_le [of rounds] assms(3) that len(1)
      by (auto simp: protectBudgetSuffix_nth suffixStart_fold dest: order_trans)
    ultimately show ?thesis unfolding eq by blast
  next
    case False
    define P where "P = (\<lambda>m :: Message. MsgID m \<notin> set (FixedIDs p))"
    let ?hr = "map (shiftRound P cur) rounds"
    let ?start = "suffixStart (length (filter P cur)) ?hr (PipeRolling p)"
    have hist: "InspectToolRoundStates (filter P cur) [] = Inr ?hr"
      and free: "\<And>j. ObsStart r \<le> j \<Longrightarrow> j \<le> ObsEnd r \<Longrightarrow> P (cur ! j)"
      using inspectBudgetRounds_history [OF assms(1)] assms(3) unfolding P_def by blast+
    have nth: "protectCompileBudgetSuffix p cur sel rounds ! i \<longleftrightarrow> sel ! i \<or> P (cur ! i) \<and> ?start \<le> rank P cur i" if "i < length cur" for i
      using protectCompileBudgetSuffix_nth [OF assms(1) that len(1)] False by (simp add: P_def)
    have shifted: "shiftRound P cur r \<in> set ?hr" using assms(3) by simp
    have "?start \<le> rank P cur (ObsStart r) \<or> rank P cur (ObsEnd r) < ?start"
      using bspec [OF suffixStart_aligned [OF inspect_proper [OF hist], unfolded aligned_def] shifted] by (simp add: shiftRound_def)
    then have same: "(?start \<le> rank P cur i) = (?start \<le> rank P cur j)"
      if "ObsStart r \<le> i" "i \<le> ObsEnd r" "ObsStart r \<le> j" "j \<le> ObsEnd r" for i j
      using that rank_mono [of "ObsStart r" i P cur] rank_mono [of i "ObsEnd r" P cur] rank_mono [of "ObsStart r" j P cur]
        rank_mono [of j "ObsEnd r" P cur] by linarith
    have "protectCompileBudgetSuffix p cur sel rounds ! i = protectCompileBudgetSuffix p cur sel rounds ! j"
      if b: "ObsStart r \<le> i" "i \<le> ObsEnd r" "ObsStart r \<le> j" "j \<le> ObsEnd r" for i j
    proof -
      have "uniform sel r" using uni assms(3) by blast
      then have "sel ! i = sel ! j" using b unfolding uniform_def by blast
      moreover have "i < length cur" "j < length cur" using b range by linarith+
      ultimately show ?thesis using nth same [OF b] free b by simp
    qed
    moreover have "protectCompileBudgetSuffix p cur sel rounds ! i"
      if pend: "ObsState r = ToolRoundPending" "ObsStart r \<le> i" "i < length cur" for i
    proof (cases "P (cur ! i)")
      case True
      have "?start \<le> rank P cur (ObsStart r)"
        using fold_pendingStep_le [of ?hr] shifted pend(1) unfolding suffixStart_fold by (fastforce simp: shiftRound_def)
      then show ?thesis using nth [OF pend(3)] True rank_mono [OF pend(2), of P cur] by simp
    next
      case False
      then have "ss ! i" using selectLoop_fixed [OF loop pend(3)] by (simp add: P_def)
      then have "sel ! i" unfolding sel
        by (intro expandRequiredRounds_mono) (use proper len(2) pend(3) in \<open>auto simp: proper_rounds_def\<close>)
      then show ?thesis using nth [OF pend(3)] by simp
    qed
    ultimately show ?thesis unfolding uniform_def by blast
  qed
qed

text \<open>A compile with a fixed section and a rolling summary: the recent suffix starts inside a round and takes the whole round.\<close>

definition scopePipeline :: BudgetPipeline where
  "scopePipeline = (samplePipeline 9 [''u1''])\<lparr>FixedIDs := [''u1''], PipeRolling := Some \<lparr>RollDescriptor = \<lparr>DescID = ''r'', DescRevision = ''1''\<rparr>, RecentMessages = 2\<rparr>\<rparr>"

definition scopeRounds :: "ToolRoundObservation list" where
  "scopeRounds = [\<lparr>ObsAssistantID = ''a1'', ObsStart = 1, ObsEnd = 2, ObsState = ToolRoundComplete, ObsMissing = []\<rparr>,
     \<lparr>ObsAssistantID = ''a2'', ObsStart = 3, ObsEnd = 3, ObsState = ToolRoundPending, ObsMissing = [''c2'']\<rparr>]"

theorem required_selection_keeps_rounds_witness:
  "\<exists>sel. selectRequired sampleEnv scopePipeline sampleRoundHistory scopeRounds None = (Inr sel, None) \<and> sel = [True, False, False, False] \<and>
     protectCompileBudgetSuffix scopePipeline sampleRoundHistory sel scopeRounds ! 3 \<and>
     protectCompileBudgetSuffix scopePipeline sampleRoundHistory sel scopeRounds ! 1"
proof -
  have i: "inspectBudgetRounds scopePipeline sampleRoundHistory = Inr scopeRounds" by code_simp
  have s: "selectRequired sampleEnv scopePipeline sampleRoundHistory scopeRounds None = (Inr [True, False, False, False], None)" by code_simp
  have "protectCompileBudgetSuffix scopePipeline sampleRoundHistory [True, False, False, False] scopeRounds ! 3"
    using required_selection_keeps_rounds [OF i s, of "scopeRounds ! 1"] by (simp add: scopeRounds_def sampleRoundHistory_def)
  moreover have "protectCompileBudgetSuffix scopePipeline sampleRoundHistory [True, False, False, False] scopeRounds ! 1" by code_simp
  ultimately show ?thesis using s by blast
qed

end
