(* ===== verification/Lineage.thy ===== *)
theory Lineage
  imports Message_Model "HOL-Library.AList"
begin

text \<open>
  The lineage graph of content revisions (\<^verbatim>\<open>lineage.go\<close>): records of transform invocations, and the
  validation of a graph with its depth-first search for cycles.
\<close>

record LineageRecord =
  LrID :: string
  LrTransform :: Descriptor
  LrInputs :: "ContentRef list"
  LrOutputs :: "ContentRef list"
  LrDecisionRef :: string
  LrStage :: string

record Lineage =
  Records :: "LineageRecord list"
  Unresolved :: "ContentRef list"

type_synonym lineage_edges = "(ContentRef \<times> ContentRef list) list"

definition edges_of :: "lineage_edges \<Rightarrow> ContentRef \<Rightarrow> ContentRef list" where
  "edges_of edges ref = (case map_of edges ref of None \<Rightarrow> [] | Some refs \<Rightarrow> refs)"

fun validateRefs :: "ContentRef list \<Rightarrow> ContentRef list \<Rightarrow> unit result" where
  "validateRefs seen [] = Inr ()"
| "validateRefs seen (ref # refs) =
     bind_res (ContentRef_Validate ref) (\<lambda>_. if ref \<in> set seen then Inl ErrInvalidLineage else validateRefs (ref # seen) refs)"

definition validateLineageRecord :: "LineageRecord \<Rightarrow> unit result" where
  "validateLineageRecord r =
     (if LrID r = [] \<or> LrInputs r = [] \<and> LrOutputs r = [] then Inl ErrInvalidLineage
      else bind_res (Descriptor_Validate (LrTransform r)) (\<lambda>_.
        bind_res (validateRefs [] (LrInputs r)) (\<lambda>_. validateRefs [] (LrOutputs r))))"

text \<open>The state of \<^verbatim>\<open>addLineageOutput\<close>: the edges, and the references that have a producer.\<close>

definition addLineageOutput ::
  "LineageRecord \<Rightarrow> lineage_edges \<times> ContentRef list \<Rightarrow> ContentRef \<Rightarrow> (lineage_edges \<times> ContentRef list) result" where
  "addLineageOutput r st out =
     (case st of (edges, producers) \<Rightarrow>
        let ins = filter (\<lambda>i. i \<noteq> out) (LrInputs r);
            edges' = fold (\<lambda>i e. AList.update out (edges_of e out @ [i]) e) ins edges;
            changed = (LrInputs r = [] \<or> ins \<noteq> [])
        in if changed then
             (if out \<in> set producers then Inl ErrInvalidLineage else Inr (edges', out # producers))
           else Inr (edges', producers))"

fun addLineageOutputs ::
  "LineageRecord \<Rightarrow> lineage_edges \<times> ContentRef list \<Rightarrow> ContentRef list \<Rightarrow> (lineage_edges \<times> ContentRef list) result" where
  "addLineageOutputs r st [] = Inr st"
| "addLineageOutputs r st (out # outs) = bind_res (addLineageOutput r st out) (\<lambda>st'. addLineageOutputs r st' outs)"

fun collectLineage ::
  "string list \<Rightarrow> lineage_edges \<times> ContentRef list \<Rightarrow> LineageRecord list \<Rightarrow> (lineage_edges \<times> ContentRef list) result" where
  "collectLineage ids st [] = Inr st"
| "collectLineage ids st (r # rs) =
     bind_res (validateLineageRecord r) (\<lambda>_.
     if LrID r \<in> set ids then Inl ErrDuplicateTransform
     else bind_res (addLineageOutputs r st (LrOutputs r)) (\<lambda>st'. collectLineage (LrID r # ids) st' rs))"

text \<open>
  \<^verbatim>\<open>visit\<close>: the references being visited are the stack of the recursion, the finished ones are
  returned. The recursion is bounded by fuel; \<open>None\<close> is running out of it.
\<close>

function visit :: "nat \<Rightarrow> lineage_edges \<Rightarrow> ContentRef list \<Rightarrow> ContentRef list \<Rightarrow> ContentRef \<Rightarrow> ContentRef list result option"
  and visits :: "nat \<Rightarrow> lineage_edges \<Rightarrow> ContentRef list \<Rightarrow> ContentRef list \<Rightarrow> ContentRef list \<Rightarrow> ContentRef list result option" where
  "visit 0 edges visiting visited ref = None"
| "visit (Suc n) edges visiting visited ref =
     (if ref \<in> set visiting then Some (Inl ErrInvalidLineage)
      else if ref \<in> set visited then Some (Inr visited)
      else case visits n edges (ref # visiting) visited (edges_of edges ref) of
        None \<Rightarrow> None
      | Some (Inl e) \<Rightarrow> Some (Inl e)
      | Some (Inr visited') \<Rightarrow> Some (Inr (ref # visited')))"
| "visits n edges visiting visited [] = Some (Inr visited)"
| "visits n edges visiting visited (ref # refs) =
     (case visit n edges visiting visited ref of
        None \<Rightarrow> None
      | Some (Inl e) \<Rightarrow> Some (Inl e)
      | Some (Inr visited') \<Rightarrow> visits n edges visiting visited' refs)"
  by pat_completeness auto
termination
  by (relation "inv_image (less_than <*lex*> less_than)
       (case_sum (\<lambda>(n, _). (n, 0)) (\<lambda>(n, _, _, _, refs). (n, Suc (length refs))))") auto

text \<open>Enough for any path without repetition.\<close>

definition lineageFuel :: "lineage_edges \<Rightarrow> nat" where
  "lineageFuel edges = Suc (length edges + length (concat (map snd edges)))"

definition validateLineageCycles :: "lineage_edges \<Rightarrow> unit result option" where
  "validateLineageCycles edges =
     map_option (\<lambda>r. bind_res r (\<lambda>_. Inr ())) (visits (lineageFuel edges) edges [] [] (map fst edges))"

definition Lineage_Validate :: "Lineage \<Rightarrow> unit result option" where
  "Lineage_Validate l =
     (case collectLineage [] ([], []) (Records l) of
        Inl e \<Rightarrow> Some (Inl e)
      | Inr (edges, producers) \<Rightarrow>
          (case map_res ContentRef_Validate (Unresolved l) of
             Inl e \<Rightarrow> Some (Inl e)
           | Inr _ \<Rightarrow> validateLineageCycles edges))"

definition WithRecord :: "Lineage \<Rightarrow> LineageRecord \<Rightarrow> Lineage result option" where
  "WithRecord l r =
     (let l' = l\<lparr>Records := Records l @ [r]\<rparr> in map_option (\<lambda>v. bind_res v (\<lambda>_. Inr l')) (Lineage_Validate l'))"

subsection \<open>The search terminates\<close>

definition lineage_nodes :: "lineage_edges \<Rightarrow> ContentRef set" where
  "lineage_nodes edges = fst ` set edges \<union> set (concat (map snd edges))"

lemma edges_of_nodes: "set (edges_of edges ref) \<subseteq> lineage_nodes edges"
  by (cases "map_of edges ref") (force simp: edges_of_def lineage_nodes_def dest: map_of_SomeD)+

lemma card_lineage_nodes: "card (lineage_nodes edges) < lineageFuel edges"
proof -
  have "card (lineage_nodes edges) \<le> card (fst ` set edges) + card (set (concat (map snd edges)))"
    unfolding lineage_nodes_def by (rule card_Un_le)
  also have "\<dots> \<le> length edges + length (concat (map snd edges))"
    by (intro add_mono card_length order_trans [OF card_image_le]) (simp_all add: card_length)
  finally show ?thesis by (simp add: lineageFuel_def)
qed

lemma distinct_subset_card: "distinct xs \<Longrightarrow> set xs \<subseteq> A \<Longrightarrow> finite A \<Longrightarrow> length xs \<le> card A"
  by (metis card_mono distinct_card)

lemma visit_terminates:
  "distinct visiting \<Longrightarrow> set visiting \<subseteq> lineage_nodes edges \<Longrightarrow> ref \<in> lineage_nodes edges \<Longrightarrow>
     card (lineage_nodes edges) < n + length visiting \<Longrightarrow> visit n edges visiting visited ref \<noteq> None"
  and visits_terminates:
  "distinct visiting \<Longrightarrow> set visiting \<subseteq> lineage_nodes edges \<Longrightarrow> set refs \<subseteq> lineage_nodes edges \<Longrightarrow>
     card (lineage_nodes edges) < n + length visiting \<Longrightarrow> visits n edges visiting visited refs \<noteq> None"
proof (induction n edges visiting visited ref and n edges visiting visited refs rule: visit_visits.induct)
  case (1 edges visiting visited ref)
  then show ?case using distinct_subset_card [of visiting "lineage_nodes edges"] by (simp add: lineage_nodes_def)
next
  case (2 n edges visiting visited ref)
  then show ?case
    using edges_of_nodes [of edges ref] by (cases "ref \<in> set visiting \<or> ref \<in> set visited") (auto split: option.splits sum.splits)
next
  case (4 n edges visiting visited ref refs)
  then show ?case by (auto split: option.splits sum.splits)
qed auto

subsection \<open>The search finds exactly the cycles\<close>

definition edge_rel :: "lineage_edges \<Rightarrow> ContentRef rel" where
  "edge_rel edges = {(r, x). x \<in> set (edges_of edges r)}"

text \<open>Finished references: closed under edges, none of them on a cycle.\<close>

definition finished :: "lineage_edges \<Rightarrow> ContentRef list \<Rightarrow> bool" where
  "finished edges visited \<longleftrightarrow>
     (\<forall>v \<in> set visited. set (edges_of edges v) \<subseteq> set visited) \<and> (\<forall>v \<in> set visited. (v, v) \<notin> (edge_rel edges)\<^sup>+)"

lemma finished_reach:
  assumes "finished edges visited" "v \<in> set visited" "(v, w) \<in> (edge_rel edges)\<^sup>+"
  shows "w \<in> set visited"
  using assms(3,2)
proof (induction rule: trancl_induct)
  case (base y)
  then show ?case using assms(1) by (auto simp: finished_def edge_rel_def)
next
  case (step y z)
  then show ?case using assms(1) by (auto simp: finished_def edge_rel_def)
qed

lemma finished_Cons:
  assumes "finished edges visited" "set (edges_of edges ref) \<subseteq> set visited" "ref \<notin> set visited"
  shows "finished edges (ref # visited)"
proof -
  have "(ref, ref) \<notin> (edge_rel edges)\<^sup>+"
  proof
    assume "(ref, ref) \<in> (edge_rel edges)\<^sup>+"
    then obtain x where "(ref, x) \<in> edge_rel edges" "x = ref \<or> (x, ref) \<in> (edge_rel edges)\<^sup>+"
      by (meson tranclD rtranclD)
    then show False using assms finished_reach [OF assms(1)] by (auto simp: edge_rel_def)
  qed
  then show ?thesis using assms by (auto simp: finished_def)
qed

lemma visit_correct:
  "visit n edges visiting visited ref = Some res \<Longrightarrow> finished edges visited \<Longrightarrow> set visited \<inter> set visiting = {} \<Longrightarrow>
     (\<And>s. s \<in> set visiting \<Longrightarrow> (s, ref) \<in> (edge_rel edges)\<^sup>+) \<Longrightarrow>
     (case res of Inl _ \<Rightarrow> \<not> acyclic (edge_rel edges)
      | Inr visited' \<Rightarrow> finished edges visited' \<and> insert ref (set visited) \<subseteq> set visited' \<and> set visited' \<inter> set visiting = {})"
  and visits_correct:
  "visits n edges visiting visited refs = Some res \<Longrightarrow> finished edges visited \<Longrightarrow> set visited \<inter> set visiting = {} \<Longrightarrow>
     (\<And>s ref. s \<in> set visiting \<Longrightarrow> ref \<in> set refs \<Longrightarrow> (s, ref) \<in> (edge_rel edges)\<^sup>+) \<Longrightarrow>
     (case res of Inl _ \<Rightarrow> \<not> acyclic (edge_rel edges)
      | Inr visited' \<Rightarrow> finished edges visited' \<and> set refs \<union> set visited \<subseteq> set visited' \<and> set visited' \<inter> set visiting = {})"
proof (induction n edges visiting visited ref and n edges visiting visited refs arbitrary: res and res rule: visit_visits.induct)
  case (2 n edges visiting visited ref)
  show ?case
  proof (cases "ref \<in> set visiting \<or> ref \<in> set visited")
    case True
    show ?thesis
    proof (cases "ref \<in> set visiting")
      case True
      from 2(5) [OF this] have "\<not> acyclic (edge_rel edges)" unfolding acyclic_def by blast
      then show ?thesis using 2(2) True by auto
    qed (use True 2(2-4) in auto)
  next
    case False
    then obtain r where r: "visits n edges (ref # visiting) visited (edges_of edges ref) = Some r"
      using 2(2) by (auto split: option.splits)
    have path: "(s, x) \<in> (edge_rel edges)\<^sup>+" if "s \<in> set (ref # visiting)" "x \<in> set (edges_of edges ref)" for s x
    proof -
      have "(ref, x) \<in> edge_rel edges" using that(2) by (simp add: edge_rel_def)
      then show ?thesis using that(1) 2(5) by (cases "s = ref") (auto intro: trancl_into_trancl)
    qed
    have "case r of Inl _ \<Rightarrow> \<not> acyclic (edge_rel edges) | Inr visited' \<Rightarrow> finished edges visited' \<and>
      set (edges_of edges ref) \<union> set visited \<subseteq> set visited' \<and> set visited' \<inter> set (ref # visiting) = {}"
      using 2(1) [OF _ _ r] False 2(3,4) path by auto
    then show ?thesis using 2(2) False r finished_Cons [of edges] by (cases r) auto
  qed
next
  case (4 n edges visiting visited ref refs)
  then obtain r where r: "visit n edges visiting visited ref = Some r" by (auto split: option.splits)
  have v: "case r of Inl _ \<Rightarrow> \<not> acyclic (edge_rel edges) | Inr visited' \<Rightarrow> finished edges visited' \<and>
      insert ref (set visited) \<subseteq> set visited' \<and> set visited' \<inter> set visiting = {}"
    using 4(1) [OF r 4(4,5)] 4(6) by simp
  show ?case
  proof (cases r)
    case (Inl e)
    then show ?thesis using v r 4(3) by auto
  next
    case (Inr visited')
    then have "visits n edges visiting visited' refs = Some res" using 4(3) r by simp
    from 4(2) [OF r Inr this] v Inr 4(6) show ?thesis by (cases res) auto
  qed
qed auto

lemma validateLineageCycles_iff:
  "validateLineageCycles edges = Some (if acyclic (edge_rel edges) then Inr () else Inl ErrInvalidLineage)"
proof -
  have "visits (lineageFuel edges) edges [] [] (map fst edges) \<noteq> None"
    using card_lineage_nodes [of edges] by (intro visits_terminates) (auto simp: lineage_nodes_def)
  then obtain res where res: "visits (lineageFuel edges) edges [] [] (map fst edges) = Some res" by blast
  have err: "visit n e vg vd r = Some (Inl x) \<Longrightarrow> x = ErrInvalidLineage" "visits n e vg vd rs = Some (Inl x) \<Longrightarrow> x = ErrInvalidLineage"
    for n e vg vd r rs x
    by (induction n e vg vd r and n e vg vd rs rule: visit_visits.induct) (auto split: if_splits option.splits sum.splits)
  from visits_correct [OF res] have correct: "case res of Inl _ \<Rightarrow> \<not> acyclic (edge_rel edges)
      | Inr visited \<Rightarrow> finished edges visited \<and> set (map fst edges) \<subseteq> set visited"
    by (auto simp: finished_def split: sum.splits)
  show ?thesis
  proof (cases res)
    case (Inl e)
    then show ?thesis using correct res err(2) [of _ _ _ _ _ e] by (auto simp: validateLineageCycles_def)
  next
    case (Inr visited)
    have "(v, v) \<notin> (edge_rel edges)\<^sup>+" for v
    proof
      assume cyc: "(v, v) \<in> (edge_rel edges)\<^sup>+"
      then obtain x where "x \<in> set (edges_of edges v)" by (auto simp: edge_rel_def dest!: tranclD)
      then have "map_of edges v \<noteq> None" by (cases "map_of edges v") (auto simp: edges_of_def)
      then have "v \<in> set (map fst edges)" by (simp add: map_of_eq_None_iff)
      then show False using correct Inr cyc by (auto simp: finished_def)
    qed
    then show ?thesis using res Inr by (simp add: validateLineageCycles_def acyclic_def)
  qed
qed

subsection \<open>The graph of the records\<close>

text \<open>An output depends on every other input of its record.\<close>

definition lineage_rel :: "LineageRecord list \<Rightarrow> ContentRef rel" where
  "lineage_rel rs = {(out, i). \<exists>r \<in> set rs. out \<in> set (LrOutputs r) \<and> i \<in> set (LrInputs r) \<and> i \<noteq> out}"

text \<open>A record produces an output that it does not merely pass through.\<close>

definition produces :: "LineageRecord \<Rightarrow> ContentRef \<Rightarrow> bool" where
  "produces r out \<longleftrightarrow> out \<in> set (LrOutputs r) \<and> (LrInputs r = [] \<or> (\<exists>i \<in> set (LrInputs r). i \<noteq> out))"

lemma validateRefs_Inr:
  "validateRefs seen refs = Inr () \<longleftrightarrow> (\<forall>ref \<in> set refs. ContentRef_Validate ref = Inr () \<and> ref \<notin> set seen) \<and> distinct refs"
  by (induction refs arbitrary: seen) (auto simp: bind_res_Inr_iff)

lemma edges_of_update [simp]: "edges_of (AList.update k v e) j = (if j = k then v else edges_of e j)"
  by (simp add: edges_of_def update_conv')

lemma edges_of_fold:
  "edges_of (fold (\<lambda>i e. AList.update out (edges_of e out @ [i]) e) ins edges) j =
     (if j = out then edges_of edges out @ ins else edges_of edges j)"
  by (induction ins arbitrary: edges) auto

lemma addLineageOutput_Inr:
  "addLineageOutput r (edges, producers) out = Inr (edges', producers') \<Longrightarrow> out \<in> set (LrOutputs r) \<Longrightarrow>
     edge_rel edges' = edge_rel edges \<union> {(out, i) | i. i \<in> set (LrInputs r) \<and> i \<noteq> out} \<and>
     (produces r out \<longrightarrow> out \<notin> set producers) \<and>
     set producers' = set producers \<union> (if produces r out then {out} else {})"
  by (auto simp: addLineageOutput_def Let_def edge_rel_def edges_of_fold produces_def filter_empty_conv split: if_splits)

lemma addLineageOutput_ok:
  "(produces r out \<longrightarrow> out \<notin> set producers) \<Longrightarrow> out \<in> set (LrOutputs r) \<Longrightarrow>
     \<exists>st. addLineageOutput r (edges, producers) out = Inr st"
  by (auto simp: addLineageOutput_def Let_def produces_def filter_empty_conv)

lemma addLineageOutputs_Inr:
  assumes "addLineageOutputs r (edges, producers) outs = Inr (edges', producers')" "set outs \<subseteq> set (LrOutputs r)" "distinct outs"
  shows "edge_rel edges' = edge_rel edges \<union> {(out, i) | out i. out \<in> set outs \<and> i \<in> set (LrInputs r) \<and> i \<noteq> out} \<and>
     (\<forall>out \<in> set outs. produces r out \<longrightarrow> out \<notin> set producers) \<and>
     set producers' = set producers \<union> {out \<in> set outs. produces r out}"
  using assms
proof (induction outs arbitrary: edges producers)
  case (Cons out outs)
  then obtain e1 p1 where 1: "addLineageOutput r (edges, producers) out = Inr (e1, p1)"
    and 2: "addLineageOutputs r (e1, p1) outs = Inr (edges', producers')"
    by (auto simp: bind_res_Inr_iff)
  from addLineageOutput_Inr [OF 1] Cons.prems(2) have f1: "edge_rel e1 = edge_rel edges \<union> {(out, i) | i. i \<in> set (LrInputs r) \<and> i \<noteq> out}"
    "produces r out \<longrightarrow> out \<notin> set producers" "set p1 = set producers \<union> (if produces r out then {out} else {})" by auto
  from Cons.IH [OF 2] Cons.prems(2,3) show ?case unfolding f1 using f1(2) by (auto split: if_splits)
qed auto

lemma addLineageOutputs_ok:
  assumes "\<forall>out \<in> set outs. produces r out \<longrightarrow> out \<notin> set producers" "set outs \<subseteq> set (LrOutputs r)" "distinct outs"
  shows "\<exists>st. addLineageOutputs r (edges, producers) outs = Inr st"
  using assms
proof (induction outs arbitrary: edges producers)
  case (Cons out outs)
  from addLineageOutput_ok [of r out producers edges] Cons.prems obtain e1 p1
    where 1: "addLineageOutput r (edges, producers) out = Inr (e1, p1)" by auto
  from addLineageOutput_Inr [OF 1] Cons.prems have "set p1 = set producers \<union> (if produces r out then {out} else {})" by simp
  then have "\<exists>st. addLineageOutputs r (e1, p1) outs = Inr st" using Cons.prems by (intro Cons.IH) auto
  with 1 show ?case by (auto simp: bind_res_def)
qed simp

lemma lineage_rel_Cons: "lineage_rel (r # rs) = {(out, i) | out i. out \<in> set (LrOutputs r) \<and> i \<in> set (LrInputs r) \<and> i \<noteq> out} \<union> lineage_rel rs"
  by (auto simp: lineage_rel_def)

lemma validateLineageRecord_outputs: "validateLineageRecord r = Inr () \<Longrightarrow> distinct (LrOutputs r)"
  by (auto simp: validateLineageRecord_def bind_res_Inr_iff validateRefs_Inr split: if_splits)

text \<open>Records are accepted one after the other; \<open>producers\<close> are the outputs already produced.\<close>

fun records_ok :: "string list \<Rightarrow> ContentRef set \<Rightarrow> LineageRecord list \<Rightarrow> bool" where
  "records_ok ids prods [] \<longleftrightarrow> True"
| "records_ok ids prods (r # rs) \<longleftrightarrow> validateLineageRecord r = Inr () \<and> LrID r \<notin> set ids \<and>
     (\<forall>out. produces r out \<longrightarrow> out \<notin> prods) \<and> records_ok (LrID r # ids) (prods \<union> Collect (produces r)) rs"

lemma produces_outputs: "{out \<in> set (LrOutputs r). produces r out} = Collect (produces r)"
  by (auto simp: produces_def)

lemma collectLineage_Inr:
  "collectLineage ids (edges, producers) rs = Inr (edges', producers') \<Longrightarrow>
     records_ok ids (set producers) rs \<and> edge_rel edges' = edge_rel edges \<union> lineage_rel rs"
proof (induction rs arbitrary: ids edges producers)
  case Nil
  then show ?case by (auto simp: lineage_rel_def)
next
  case (Cons r rs)
  then obtain e1 p1 where valid: "validateLineageRecord r = Inr ()" "LrID r \<notin> set ids"
    and 1: "addLineageOutputs r (edges, producers) (LrOutputs r) = Inr (e1, p1)"
    and 2: "collectLineage (LrID r # ids) (e1, p1) rs = Inr (edges', producers')"
    by (auto simp: bind_res_Inr_iff split: if_splits)
  from addLineageOutputs_Inr [OF 1 subset_refl validateLineageRecord_outputs [OF valid(1)]] Cons.IH [OF 2] valid
  show ?case by (auto simp: lineage_rel_Cons produces_outputs) (auto simp: produces_def)
qed

lemma collectLineage_ok: "records_ok ids (set producers) rs \<Longrightarrow> \<exists>st. collectLineage ids (edges, producers) rs = Inr st"
proof (induction rs arbitrary: ids edges producers)
  case (Cons r rs)
  then have valid: "validateLineageRecord r = Inr ()" "LrID r \<notin> set ids" by auto
  note dist = validateLineageRecord_outputs [OF valid(1)]
  from addLineageOutputs_ok [OF _ subset_refl dist, of producers edges] Cons.prems obtain e1 p1
    where 1: "addLineageOutputs r (edges, producers) (LrOutputs r) = Inr (e1, p1)" by auto
  from addLineageOutputs_Inr [OF 1 subset_refl dist] have "set p1 = set producers \<union> Collect (produces r)" by (simp add: produces_outputs)
  then have "\<exists>st. collectLineage (LrID r # ids) (e1, p1) rs = Inr st" using Cons.prems by (intro Cons.IH) simp
  then show ?case using valid 1 by simp
qed simp

lemma records_ok_iff:
  "records_ok ids prods rs \<longleftrightarrow> (\<forall>r \<in> set rs. validateLineageRecord r = Inr () \<and> LrID r \<notin> set ids) \<and> distinct (map LrID rs) \<and>
     (\<forall>r \<in> set rs. \<forall>out. produces r out \<longrightarrow> out \<notin> prods) \<and>
     sorted_wrt (\<lambda>r r'. \<forall>out. \<not> (produces r out \<and> produces r' out)) rs"
  by (induction rs arbitrary: ids prods) (auto simp: image_iff)

subsection \<open>Property\<close>

text \<open>
  C14. Validation of a lineage graph always returns and accepts exactly the graphs it promises: valid
  records with distinct identities, no reference produced by two records, valid unresolved
  references, and no content revision that depends on itself, directly or through others.
\<close>

theorem Lineage_Validate_exact:
  "\<exists>result. Lineage_Validate l = Some result \<and>
     (result = Inr () \<longleftrightarrow>
        (\<forall>r \<in> set (Records l). validateLineageRecord r = Inr ()) \<and> distinct (map LrID (Records l)) \<and>
        sorted_wrt (\<lambda>r r'. \<forall>out. \<not> (produces r out \<and> produces r' out)) (Records l) \<and>
        (\<forall>ref \<in> set (Unresolved l). ContentRef_Validate ref = Inr ()) \<and> acyclic (lineage_rel (Records l)))"
proof -
  have spec: "records_ok [] (set []) (Records l) \<longleftrightarrow> (\<forall>r \<in> set (Records l). validateLineageRecord r = Inr ()) \<and>
      distinct (map LrID (Records l)) \<and> sorted_wrt (\<lambda>r r'. \<forall>out. \<not> (produces r out \<and> produces r' out)) (Records l)"
    by (simp add: records_ok_iff)
  have unres: "(\<exists>us. map_res ContentRef_Validate (Unresolved l) = Inr us) \<longleftrightarrow> (\<forall>ref \<in> set (Unresolved l). ContentRef_Validate ref = Inr ())"
    by (rule map_res_unit)
  show ?thesis
  proof (cases "collectLineage [] ([], []) (Records l)")
    case (Inl e)
    then have "\<not> records_ok [] (set []) (Records l)" using collectLineage_ok [of "[]" "[]" "Records l" "[]"] Inl by auto
    then show ?thesis using Inl spec by (auto simp: Lineage_Validate_def)
  next
    case (Inr st)
    obtain edges producers where st: "st = (edges, producers)" by force
    from collectLineage_Inr [OF Inr [unfolded st]] have "records_ok [] (set []) (Records l)" "edge_rel edges = lineage_rel (Records l)"
      by (simp_all add: edge_rel_def edges_of_def)
    then show ?thesis
      using Inr st spec unres by (cases "map_res ContentRef_Validate (Unresolved l)") (auto simp: Lineage_Validate_def validateLineageCycles_iff)
  qed
qed

definition sampleRef :: "string \<Rightarrow> ContentRef" where
  "sampleRef i = \<lparr>RefID = i, RefDigest = bytesToHex (take 32 (i @ replicate 32 CHR ''0'')), RefOccurrence = []\<rparr>"

definition sampleTransform :: "string \<Rightarrow> string \<Rightarrow> string \<Rightarrow> LineageRecord" where
  "sampleTransform i source result = \<lparr>LrID = i, LrTransform = \<lparr>DescID = ''t'', DescRevision = ''1''\<rparr>,
     LrInputs = [sampleRef source], LrOutputs = [sampleRef result], LrDecisionRef = [], LrStage = []\<rparr>"

theorem Lineage_Validate_exact_witness:
  "Lineage_Validate \<lparr>Records = [sampleTransform ''r1'' ''a'' ''b''], Unresolved = [sampleRef ''a'']\<rparr> = Some (Inr ()) \<and>
   Lineage_Validate \<lparr>Records = [sampleTransform ''r1'' ''a'' ''b'', sampleTransform ''r2'' ''b'' ''a''], Unresolved = []\<rparr> \<noteq> Some (Inr ())"
proof -
  let ?l = "\<lparr>Records = [sampleTransform ''r1'' ''a'' ''b''], Unresolved = [sampleRef ''a'']\<rparr>"
  let ?c = "\<lparr>Records = [sampleTransform ''r1'' ''a'' ''b'', sampleTransform ''r2'' ''b'' ''a''], Unresolved = []\<rparr>"
  have ab: "sampleRef ''a'' \<noteq> sampleRef ''b''" by (simp add: sampleRef_def)
  have valid: "validateLineageRecord (sampleTransform ''r1'' ''a'' ''b'') = Inr ()" "ContentRef_Validate (sampleRef ''a'') = Inr ()"
    by code_simp+
  have "lineage_rel (Records ?l) = {(sampleRef ''b'', sampleRef ''a'')}" using ab by (auto simp: lineage_rel_def sampleTransform_def)
  then have "acyclic (lineage_rel (Records ?l))" using ab by (simp, simp add: acyclic_def)
  moreover have "(sampleRef ''a'', sampleRef ''b'') \<in> lineage_rel (Records ?c)" "(sampleRef ''b'', sampleRef ''a'') \<in> lineage_rel (Records ?c)"
    using ab by (auto simp: lineage_rel_def sampleTransform_def)
  then have "\<not> acyclic (lineage_rel (Records ?c))" unfolding acyclic_def by (meson trancl.r_into_trancl trancl_into_trancl)
  ultimately show ?thesis
    using Lineage_Validate_exact [of ?l] Lineage_Validate_exact [of ?c] valid by auto
qed

end
