(* ===== verification/Blobs.thy ===== *)
theory Blobs
  imports Samples
begin

text \<open>
  Immutable blob references (\<^verbatim>\<open>blob.go\<close>): descriptors and their validation, the checked
  write \<^verbatim>\<open>PutBlob\<close> and the checked read \<^verbatim>\<open>ResolveBlob\<close> over a host-owned store, which is
  given by its two operations. \<open>sha\<close> stands for \<^verbatim>\<open>blobDigest\<close>, the hexadecimal SHA-256.
\<close>

record BlobContent =
  BlobMIME :: string
  BlobBytes :: string

definition validBlobMIME :: "env \<Rightarrow> string \<Rightarrow> bool" where
  "validBlobMIME E value =
     (case ParseMediaType E value of
        None \<Rightarrow> False
      | Some mt \<Rightarrow> (case cut_slash mt of (major, minor, complete) \<Rightarrow>
          complete \<and> major \<noteq> [] \<and> minor \<noteq> [] \<and> major \<noteq> ''*'' \<and> minor \<noteq> ''*''))"

definition BlobDescriptor_Validate :: "env \<Rightarrow> BlobDescriptor \<Rightarrow> unit result" where
  "BlobDescriptor_Validate E d =
     (if Descriptor_Validate (BlobObject d) \<noteq> Inr () \<or> BlobLength d < 0 \<or> BlobScopeRef d = [] \<or>
         BlobRetentionRef d = [] \<or> \<not> validBlobMIME E (BlobMIMEType d) then Inl ErrInvalidBlob
      else if ContentRef_Validate \<lparr>RefID = DescID (BlobObject d), RefDigest = BlobDigest d, RefOccurrence = []\<rparr> \<noteq> Inr ()
        then Inl ErrInvalidBlob
      else if \<exists>s \<in> set (elems (BlobSources d)). ContentRef_Validate s \<noteq> Inr () then Inl ErrInvalidBlob
      else Inr ())"

record BlobPutRequest =
  PutScopeRef :: string
  PutRetentionRef :: string
  PutContent :: BlobContent
  PutSources :: "ContentRef slice"

record BlobGetRequest =
  GetScopeRef :: string
  GetObject :: Descriptor
  GetMaxBytes :: int

record BlobCleanupIntent =
  CleanObject :: Descriptor
  CleanScopeRef :: string
  CleanRetentionRef :: string

datatype BlobPutOutcome = NoBlob | Published BlobDescriptor | Cleanup BlobCleanupIntent

text \<open>
  A store operation works on the store state and may leave a descriptor behind even when it
  reports an error, which the caller turns into a cleanup intent.
\<close>

type_synonym 's put_op = "BlobPutRequest \<Rightarrow> 's \<Rightarrow> BlobDescriptor option \<times> go_error option \<times> 's"
type_synonym 's get_op = "BlobGetRequest \<Rightarrow> 's \<Rightarrow> BlobContent result"

definition blobCleanupOutcome :: "BlobDescriptor option \<Rightarrow> BlobPutRequest \<Rightarrow> BlobPutOutcome" where
  "blobCleanupOutcome receipt request =
     (case receipt of
        None \<Rightarrow> NoBlob
      | Some r \<Rightarrow> if Descriptor_Validate (BlobObject r) \<noteq> Inr () then NoBlob
                  else Cleanup \<lparr>CleanObject = BlobObject r, CleanScopeRef = PutScopeRef request,
                                CleanRetentionRef = PutRetentionRef request\<rparr>)"

definition equalBlobReceipt :: "BlobDescriptor \<Rightarrow> BlobDescriptor \<Rightarrow> bool" where
  "equalBlobReceipt actual expected \<longleftrightarrow>
     BlobObject actual = BlobObject expected \<and> BlobDigest actual = BlobDigest expected \<and>
     BlobLength actual = BlobLength expected \<and> BlobMIMEType actual = BlobMIMEType expected \<and>
     BlobScopeRef actual = BlobScopeRef expected \<and> BlobRetentionRef actual = BlobRetentionRef expected \<and>
     elems (BlobSources actual) = elems (BlobSources expected)"

definition expectedBlob :: "(string \<Rightarrow> string) \<Rightarrow> BlobPutRequest \<Rightarrow> Descriptor \<Rightarrow> BlobDescriptor" where
  "expectedBlob sha request obj =
     \<lparr>BlobObject = obj, BlobDigest = sha (BlobBytes (PutContent request)),
      BlobLength = int (length (BlobBytes (PutContent request))), BlobMIMEType = BlobMIME (PutContent request),
      BlobScopeRef = PutScopeRef request, BlobRetentionRef = PutRetentionRef request, BlobSources = PutSources request\<rparr>"

text \<open>
  The context is polled before and after the call of the store. A cancelled context wins over
  the answer of the store, and a valid receipt is then reported for cleanup.
\<close>

definition PutBlob ::
  "env \<Rightarrow> (string \<Rightarrow> string) \<Rightarrow> 's put_op \<Rightarrow> BlobPutRequest \<Rightarrow> ctx \<Rightarrow> 's \<Rightarrow>
   BlobPutOutcome \<times> go_error option \<times> 's" where
  "PutBlob E sha put request c s =
     (case poll c of (Inl e, _) \<Rightarrow> (NoBlob, Some e, s) | (Inr _, c1) \<Rightarrow>
      if PutScopeRef request = [] \<or> PutRetentionRef request = [] \<or> \<not> validBlobMIME E (BlobMIME (PutContent request))
        then (NoBlob, Some ErrInvalidBlob, s)
      else case BlobDescriptor_Validate E (expectedBlob sha request \<lparr>DescID = ''pending'', DescRevision = ''pending''\<rparr>) of
        Inl e \<Rightarrow> (NoBlob, Some e, s)
      | Inr _ \<Rightarrow>
          (case put request s of (receipt, err, s') \<Rightarrow>
           let outcome = blobCleanupOutcome receipt request in
           case poll c1 of (Inl e, _) \<Rightarrow> (outcome, Some e, s') | (Inr _, _) \<Rightarrow>
           case err of Some e \<Rightarrow> (outcome, Some e, s') | None \<Rightarrow>
           case receipt of
             None \<Rightarrow> (outcome, Some ErrInvalidBlob, s')
           | Some r \<Rightarrow>
               if BlobDescriptor_Validate E r \<noteq> Inr () \<or> \<not> equalBlobReceipt r (expectedBlob sha request (BlobObject r))
               then (outcome, Some ErrInvalidBlob, s') else (Published r, None, s')))"

record BlobLimits =
  LimMaxBytes :: int
  LimAllowedMediaTypes :: "string list"

definition ResolveBlob ::
  "env \<Rightarrow> (string \<Rightarrow> string) \<Rightarrow> 's get_op \<Rightarrow> string \<Rightarrow> BlobDescriptor \<Rightarrow> BlobLimits \<Rightarrow> 's \<Rightarrow> BlobContent comp" where
  "ResolveBlob E sha get scopeRef descriptor limits s =
     bind poll (\<lambda>_.
     if scopeRef = [] \<or> LimMaxBytes limits < 0 \<or> BlobDescriptor_Validate E descriptor \<noteq> Inr () then fail ErrInvalidBlob
     else if BlobLength descriptor > LimMaxBytes limits then fail ErrBlobSizeLimit
     else if BlobMIMEType descriptor \<notin> set (LimAllowedMediaTypes limits) then fail ErrBlobMediaLimit
     else bind (settle (lift_res (get \<lparr>GetScopeRef = scopeRef, GetObject = BlobObject descriptor,
                                        GetMaxBytes = LimMaxBytes limits\<rparr> s))) (\<lambda>content.
     if int (length (BlobBytes content)) > LimMaxBytes limits \<or> int (length (BlobBytes content)) \<noteq> BlobLength descriptor
       then fail ErrBlobSizeLimit
     else if BlobMIME content \<noteq> BlobMIMEType descriptor then fail ErrBlobMediaLimit
     else if sha (BlobBytes content) \<noteq> BlobDigest descriptor then fail ErrBlobDigestMismatch
     else ret content))"

subsection \<open>Checked reads and writes\<close>

lemma BlobDescriptor_Validate_fields:
  "BlobDescriptor_Validate E d = Inr () \<Longrightarrow>
   Descriptor_Validate (BlobObject d) = Inr () \<and> 0 \<le> BlobLength d \<and> BlobScopeRef d \<noteq> [] \<and> BlobRetentionRef d \<noteq> [] \<and>
   validBlobMIME E (BlobMIMEType d)"
  by (auto simp: BlobDescriptor_Validate_def split: if_splits)

lemma PutBlob_published:
  assumes "PutBlob E sha put request c s = (Published d, err, s')"
  shows "err = None \<and> put request s = (Some d, None, s') \<and> BlobDescriptor_Validate E d = Inr () \<and>
     equalBlobReceipt d (expectedBlob sha request (BlobObject d))"
  using assms
  by (auto simp: PutBlob_def Let_def blobCleanupOutcome_def split: prod.splits sum.splits if_splits option.splits)

text \<open>
  C25. A checked read never returns wrong bytes: whatever the store answers, a result of
  \<^verbatim>\<open>ResolveBlob\<close> has the digest, the length and the media type of the descriptor, within the
  limits of the caller, and the store was asked with the scope of the caller.
\<close>

theorem ResolveBlob_verified:
  assumes "ResolveBlob E sha get scopeRef d limits s c = (Inr content, c')"
  shows "sha (BlobBytes content) = BlobDigest d \<and> int (length (BlobBytes content)) = BlobLength d \<and>
     BlobMIME content = BlobMIMEType d \<and> BlobLength d \<le> LimMaxBytes limits \<and>
     BlobMIMEType d \<in> set (LimAllowedMediaTypes limits) \<and> scopeRef \<noteq> [] \<and>
     get \<lparr>GetScopeRef = scopeRef, GetObject = BlobObject d, GetMaxBytes = LimMaxBytes limits\<rparr> s = Inr content"
  using assms by (auto simp: ResolveBlob_def bind_Inr_iff split: if_splits elim!: settle_InrE)

definition sampleSha :: "string \<Rightarrow> string" where
  "sampleSha b = bytesToHex (take 32 (b @ replicate 32 CHR ''0''))"

definition sampleBlob :: BlobDescriptor where
  "sampleBlob = \<lparr>BlobObject = \<lparr>DescID = ''obj'', DescRevision = ''1''\<rparr>, BlobDigest = sampleSha ''data'', BlobLength = 4,
     BlobMIMEType = ''text/plain'', BlobScopeRef = ''scope'', BlobRetentionRef = ''keep'', BlobSources = None\<rparr>"

theorem ResolveBlob_verified_witness:
  "sampleSha ''data'' = BlobDigest sampleBlob \<and> int (length ''data'') = BlobLength sampleBlob"
proof -
  have "ResolveBlob sampleEnv sampleSha (\<lambda>_ _. Inr \<lparr>BlobMIME = ''text/plain'', BlobBytes = ''data''\<rparr>) ''scope'' sampleBlob
      \<lparr>LimMaxBytes = 10, LimAllowedMediaTypes = [''text/plain'']\<rparr> () None =
      (Inr \<lparr>BlobMIME = ''text/plain'', BlobBytes = ''data''\<rparr>, None)"
    by code_simp
  from ResolveBlob_verified [OF this] show ?thesis by simp
qed

end
