(* ===== verification/Conversation.thy ===== *)
theory Conversation
  imports Tool_Rounds Blobs "HOL-Library.Multiset" "HOL-Library.AList" "HOL-Library.List_Lexorder" "HOL-Library.Char_ord"
begin

text \<open>
  Conversation state: named segments and artifacts with an optimistic-concurrency version
  (\<^verbatim>\<open>conversation.go\<close>), artifacts and their merge policies (\<^verbatim>\<open>artifact.go\<close>,
  \<^verbatim>\<open>merge_policy.go\<close>, \<^verbatim>\<open>blob_artifact.go\<close>), the deltas over the state
  (\<^verbatim>\<open>conversation_delta.go\<close>) and the checkpoint projection (\<^verbatim>\<open>checkpoint.go\<close>). Go maps are
  association lists with distinct keys; strings are ordered by their bytes.
\<close>

subsection \<open>Artifacts\<close>

datatype MergePolicy = PolicyNone | PolicyAppend | PolicyReplaceByOrigin | PolicyDeduplicateByLayer | PolicyOther string

datatype ArtifactLifecycle = LifecycleUnset | TurnBound | Persistent | Ephemeral | LifecycleOther string

datatype ArtifactPersistencePolicy = PersistenceDefault | PersistenceStore | PersistenceSkip | PersistenceOther string

record BlobThresholdLimits =
  MaxInlineBytes :: int
  MaxBlobBytes :: int

record ArtifactBlob =
  AbObject :: BlobDescriptor
  AbOriginal :: ContentRef
  AbPreviewDigest :: string
  AbPolicy :: Descriptor
  AbThreshold :: "BlobThresholdLimits option"

record ContextArtifact =
  ArtID :: string
  ArtKind :: string
  ArtType :: string
  ArtPayload :: ToolPayload
  ArtBlob :: "ArtifactBlob option"
  ArtExtensions :: "Extension list"
  ArtLifecycle :: ArtifactLifecycle
  ArtBoundTurnID :: string
  ArtOwnerRef :: "SourceRef option"
  ArtSourceRefs :: "SourceRef slice"
  ArtMergePolicy :: MergePolicy
  ArtBudget :: "int option"
  ArtPersistence :: ArtifactPersistencePolicy

definition NewArtifact :: "string \<Rightarrow> string \<Rightarrow> ArtifactLifecycle \<Rightarrow> ToolPayload \<Rightarrow> ContextArtifact" where
  "NewArtifact i kind lifecycle payload = \<lparr>ArtID = i, ArtKind = kind, ArtType = [], ArtPayload = ToolPayload_Clone payload,
     ArtBlob = None, ArtExtensions = [], ArtLifecycle = lifecycle, ArtBoundTurnID = [], ArtOwnerRef = None,
     ArtSourceRefs = None, ArtMergePolicy = PolicyNone, ArtBudget = None, ArtPersistence = PersistenceDefault\<rparr>"

definition NewRetrievalDocument :: "string \<Rightarrow> ToolPayload \<Rightarrow> ContextArtifact" where
  "NewRetrievalDocument i payload = NewArtifact i ''retrieval_document'' TurnBound payload"

definition NewMemoryBlock :: "string \<Rightarrow> ToolPayload \<Rightarrow> ContextArtifact" where
  "NewMemoryBlock i payload = NewArtifact i ''memory_block'' Persistent payload"

text \<open>Copies of blob descriptors and budgets are the values themselves.\<close>

definition ContextArtifact_Clone :: "ContextArtifact \<Rightarrow> ContextArtifact" where
  "ContextArtifact_Clone a = a\<lparr>ArtPayload := ToolPayload_Clone (ArtPayload a),
     ArtExtensions := cloneExtensions (ArtExtensions a), ArtSourceRefs := clone_nonempty (ArtSourceRefs a)\<rparr>"

definition WithTurn :: "ContextArtifact \<Rightarrow> string \<Rightarrow> ContextArtifact" where
  "WithTurn a turnID = (ContextArtifact_Clone a)\<lparr>ArtLifecycle := TurnBound, ArtBoundTurnID := turnID\<rparr>"

definition WithPersistence :: "ContextArtifact \<Rightarrow> ArtifactPersistencePolicy \<Rightarrow> ContextArtifact" where
  "WithPersistence a policy = (ContextArtifact_Clone a)\<lparr>ArtPersistence := policy\<rparr>"

definition artifactVisibleInTurn :: "string \<Rightarrow> ContextArtifact \<Rightarrow> bool" where
  "artifactVisibleInTurn turnID a =
     (case ArtLifecycle a of
        TurnBound \<Rightarrow> turnID \<noteq> [] \<and> ArtBoundTurnID a = turnID
      | LifecycleOther _ \<Rightarrow> False
      | _ \<Rightarrow> True)"

definition nul :: string where
  "nul = [CHR 0x00]"

definition sourceRefKey :: "SourceRef \<Rightarrow> string" where
  "sourceRefKey r = SrcNamespace r @ nul @ SrcKind r @ nul @ SrcID r @ nul @ SrcCheckpointID r @ nul @ SrcURI r"

definition emptyRefKey :: string where
  "emptyRefKey = nul @ nul @ nul @ nul"

fun join_unit :: "string list \<Rightarrow> string" where
  "join_unit [] = []"
| "join_unit [k] = k"
| "join_unit (k # ks) = k @ CHR 0x1F # join_unit ks"

definition sourceRefSet :: "SourceRef list \<Rightarrow> string set" where
  "sourceRefSet refs = set (filter (\<lambda>k. k \<noteq> emptyRefKey) (map sourceRefKey refs))"

definition artifactOriginKey :: "ContextArtifact \<Rightarrow> string" where
  "artifactOriginKey a =
     (let ownerKey = (case ArtOwnerRef a of None \<Rightarrow> [] | Some r \<Rightarrow> sourceRefKey r);
          sourceKeys = filter (\<lambda>k. k \<noteq> emptyRefKey) (map sourceRefKey (elems (ArtSourceRefs a)))
      in if ownerKey = [] \<and> sourceKeys = [] then []
         else ArtKind a @ nul @ ArtType a @ nul @ ownerKey @ nul @ join_unit (sort sourceKeys))"

definition artifactsShareSourceLayer :: "ContextArtifact \<Rightarrow> ContextArtifact \<Rightarrow> bool" where
  "artifactsShareSourceLayer existing incoming \<longleftrightarrow>
     sourceRefSet (elems (ArtSourceRefs existing)) \<inter> sourceRefSet (elems (ArtSourceRefs incoming)) \<noteq> {}"

definition deduplicateArtifactBySourceLayer :: "ContextArtifact \<Rightarrow> ContextArtifact \<Rightarrow> ContextArtifact" where
  "deduplicateArtifactBySourceLayer existing incoming =
     (if artifactsShareSourceLayer existing incoming then ContextArtifact_Clone existing else ContextArtifact_Clone incoming)"

definition append_missing :: "'a list \<Rightarrow> 'a list \<Rightarrow> 'a list" where
  "append_missing xs ys = fold (\<lambda>y acc. if y \<in> set acc then acc else acc @ [y]) ys xs"

definition appendArtifactPayload :: "ContextArtifact \<Rightarrow> ContextArtifact \<Rightarrow> ContextArtifact" where
  "appendArtifactPayload existing incoming =
     (let refs = append_missing (elems (ArtSourceRefs existing)) (elems (ArtSourceRefs incoming));
          merged = (ContextArtifact_Clone incoming)\<lparr>
            ArtExtensions := cloneExtensions (ArtExtensions existing) @ cloneExtensions (ArtExtensions incoming),
            ArtSourceRefs := (if refs = [] then None else Some refs)\<rparr>;
          left = PlainText (ArtPayload existing);
          right = PlainText (ArtPayload incoming)
      in if left = [] then merged
         else if right = [] then merged\<lparr>ArtPayload := ToolPayload_Clone (ArtPayload existing)\<rparr>
         else merged\<lparr>ArtPayload := TextPayload (left @ CHR 0x0A # right)\<rparr>)"

definition mergeArtifact :: "ContextArtifact \<Rightarrow> ContextArtifact \<Rightarrow> ContextArtifact" where
  "mergeArtifact existing incoming =
     (case ArtMergePolicy incoming of
        PolicyAppend \<Rightarrow> appendArtifactPayload existing incoming
      | PolicyDeduplicateByLayer \<Rightarrow> deduplicateArtifactBySourceLayer existing incoming
      | _ \<Rightarrow> ContextArtifact_Clone incoming)"

text \<open>The list form of an upsert, which selects the artifacts of a compile.\<close>

fun replaceFirst :: "ContextArtifact list \<Rightarrow> ContextArtifact \<Rightarrow> ContextArtifact list" where
  "replaceFirst [] incoming = [ContextArtifact_Clone incoming]"
| "replaceFirst (a # as) incoming =
     (if ArtID a \<noteq> ArtID incoming then a # replaceFirst as incoming
      else if ArtLifecycle incoming = Ephemeral then ContextArtifact_Clone incoming # as
      else mergeArtifact a incoming # as)"

definition upsertArtifact :: "ContextArtifact list \<Rightarrow> ContextArtifact \<Rightarrow> ContextArtifact list" where
  "upsertArtifact artifacts incoming =
     (let key = artifactOriginKey incoming;
          kept = (if ArtMergePolicy incoming = PolicyReplaceByOrigin \<and> key \<noteq> []
                  then filter (\<lambda>a. ArtID a = ArtID incoming \<or> artifactOriginKey a \<noteq> key) artifacts else artifacts)
      in if ArtID incoming = [] then kept @ [ContextArtifact_Clone incoming] else replaceFirst kept incoming)"

definition mergeArtifacts :: "ContextArtifact list \<Rightarrow> ContextArtifact list" where
  "mergeArtifacts artifacts = fold (\<lambda>a out. upsertArtifact out a) artifacts []"

definition artifactShouldPersist :: "ContextArtifact \<Rightarrow> bool" where
  "artifactShouldPersist a =
     (case ArtPersistence a of
        PersistenceStore \<Rightarrow> True
      | PersistenceSkip \<Rightarrow> False
      | PersistenceDefault \<Rightarrow> ArtLifecycle a = LifecycleUnset \<or> ArtLifecycle a = Persistent
      | PersistenceOther _ \<Rightarrow> False)"

definition persistentArtifacts :: "ContextArtifact list \<Rightarrow> ContextArtifact list" where
  "persistentArtifacts artifacts = map ContextArtifact_Clone (filter artifactShouldPersist artifacts)"

text \<open>\<open>payloadDigest\<close> is \<^verbatim>\<open>artifactPayloadDigest\<close>: JSON encoding and digest of a payload.\<close>

definition validateArtifactBlob :: "env \<Rightarrow> (ToolPayload \<Rightarrow> string result) \<Rightarrow> ContextArtifact \<Rightarrow> unit result" where
  "validateArtifactBlob E payloadDigest a =
     (if \<exists>e \<in> set (ArtExtensions a). \<not> nilExtension e \<and> ext_type e = ''contexty.opaque_state''
        then Inl (Sentinel ''ErrInvalidOpaqueState'')
      else case ArtBlob a of
        None \<Rightarrow> Inr ()
      | Some b \<Rightarrow>
          if BlobDescriptor_Validate E (AbObject b) \<noteq> Inr () \<or> ContentRef_Validate (AbOriginal b) \<noteq> Inr () \<or>
             RefID (AbOriginal b) \<noteq> ArtID a \<or> Descriptor_Validate (AbPolicy b) \<noteq> Inr () \<or>
             BlobMIMEType (AbObject b) \<noteq> ''application/json'' \<or> AbOriginal b \<notin> set (elems (BlobSources (AbObject b)))
            then Inl ErrInvalidBlob
          else if (case AbThreshold b of None \<Rightarrow> False
                   | Some t \<Rightarrow> MaxInlineBytes t < 0 \<or> MaxBlobBytes t < MaxInlineBytes t)
            then Inl (Sentinel ''ErrInvalidBlobPolicy'')
          else if payloadDigest (ArtPayload a) \<noteq> Inr (AbPreviewDigest b) then Inl ErrBlobDigestMismatch
          else Inr ())"

subsection \<open>Merging deferred messages into a segment\<close>

definition incomingTemplateIDs :: "Message list \<Rightarrow> string list" where
  "incomingTemplateIDs incoming =
     filter (\<lambda>t. t \<noteq> []) (map (\<lambda>m. case MsgOrigin m of None \<Rightarrow> [] | Some g \<Rightarrow> OriginTemplateID g) incoming)"

definition mergeReplaceByOrigin :: "Message list \<Rightarrow> Message list \<Rightarrow> Message list" where
  "mergeReplaceByOrigin existing incoming =
     (let ids = incomingTemplateIDs incoming in
      if ids = [] then existing @ incoming
      else filter (\<lambda>m. case MsgOrigin m of None \<Rightarrow> True
                       | Some g \<Rightarrow> OriginTemplateID g = [] \<or> OriginTemplateID g \<notin> set ids) existing @ incoming)"

definition layerKeySet :: "Message list \<Rightarrow> (string \<times> string) list" where
  "layerKeySet messages =
     concat (map (\<lambda>m. case MsgOrigin m of None \<Rightarrow> []
       | Some g \<Rightarrow> if OriginLayerID g \<noteq> [] then [(OriginTemplateID g, OriginLayerID g)] else []) messages)"

definition mergeDeduplicateByLayer :: "Message list \<Rightarrow> Message list \<Rightarrow> Message list" where
  "mergeDeduplicateByLayer existing incoming =
     filter (\<lambda>m. case MsgOrigin m of None \<Rightarrow> True
       | Some g \<Rightarrow> OriginLayerID g = [] \<or> (OriginTemplateID g, OriginLayerID g) \<notin> set (layerKeySet incoming)) existing @ incoming"

definition applyMergePolicy :: "Message list \<Rightarrow> Message list \<Rightarrow> MergePolicy \<Rightarrow> Message list result" where
  "applyMergePolicy existing incoming policy =
     (case policy of
        PolicyAppend \<Rightarrow> Inr (existing @ incoming)
      | PolicyNone \<Rightarrow> Inr (existing @ incoming)
      | PolicyReplaceByOrigin \<Rightarrow> Inr (mergeReplaceByOrigin existing incoming)
      | PolicyDeduplicateByLayer \<Rightarrow> Inr (mergeDeduplicateByLayer existing incoming)
      | PolicyOther _ \<Rightarrow> Inl ErrInvalidCompileConfiguration)"

subsection \<open>State\<close>

type_synonym segments = "(string \<times> Message list) list"
type_synonym artifacts = "(string \<times> ContextArtifact) list"

record ConversationState =
  Segments :: segments
  ArtifactMap :: artifacts
  Version :: int

definition EmptyState :: ConversationState where
  "EmptyState = \<lparr>Segments = [], ArtifactMap = [], Version = 0\<rparr>"

definition segment :: "ConversationState \<Rightarrow> string \<Rightarrow> Message list" where
  "segment s name = (case map_of (Segments s) name of None \<Rightarrow> [] | Some ms \<Rightarrow> ms)"

definition Segment :: "ConversationState \<Rightarrow> string \<Rightarrow> Message list" where
  "Segment s name = cloneMessageSlice (segment s name)"

definition cloneArtifactMap :: "artifacts \<Rightarrow> artifacts" where
  "cloneArtifactMap arts = map (\<lambda>(k, a). (k, ContextArtifact_Clone a)) arts"

definition AllSegmentsSnapshot :: "ConversationState \<Rightarrow> ConversationState" where
  "AllSegmentsSnapshot s = \<lparr>Segments = map (\<lambda>(k, ms). (k, cloneMessageSlice ms)) (Segments s),
     ArtifactMap = cloneArtifactMap (ArtifactMap s), Version = Version s\<rparr>"

definition withOwnedSegment :: "ConversationState \<Rightarrow> string \<Rightarrow> Message list \<Rightarrow> ConversationState" where
  "withOwnedSegment s name msgs = s\<lparr>Segments := AList.update name msgs (Segments s)\<rparr>"

definition WithSegment :: "ConversationState \<Rightarrow> string \<Rightarrow> Message list \<Rightarrow> ConversationState" where
  "WithSegment s name msgs = withOwnedSegment s name (cloneMessageSlice msgs)"

definition WithVersion :: "ConversationState \<Rightarrow> int \<Rightarrow> ConversationState" where
  "WithVersion s v = s\<lparr>Version := v\<rparr>"

definition dropArtifactsReplacedByOrigin :: "artifacts \<Rightarrow> ContextArtifact \<Rightarrow> artifacts" where
  "dropArtifactsReplacedByOrigin arts incoming =
     (if ArtMergePolicy incoming \<noteq> PolicyReplaceByOrigin \<or> artifactOriginKey incoming = [] then arts
      else filter (\<lambda>(k, a). k = ArtID incoming \<or> artifactOriginKey a \<noteq> artifactOriginKey incoming) arts)"

definition mergeArtifactInto :: "artifacts \<Rightarrow> ContextArtifact \<Rightarrow> artifacts" where
  "mergeArtifactInto arts incoming =
     (let arts' = dropArtifactsReplacedByOrigin arts incoming in
      AList.update (ArtID incoming)
        (case map_of arts' (ArtID incoming) of
           Some existing \<Rightarrow> mergeArtifact existing incoming
         | None \<Rightarrow> ContextArtifact_Clone incoming) arts')"

definition mergeArtifactMaps :: "artifacts \<Rightarrow> ContextArtifact list \<Rightarrow> artifacts" where
  "mergeArtifactMaps base incoming = fold (\<lambda>a arts. mergeArtifactInto arts a) incoming (cloneArtifactMap base)"

definition artifactMapValues :: "artifacts \<Rightarrow> ContextArtifact list" where
  "artifactMapValues arts = sort_key ArtID (map (\<lambda>(k, a). ContextArtifact_Clone a) arts)"

definition Artifacts :: "ConversationState \<Rightarrow> ContextArtifact list" where
  "Artifacts s = artifactMapValues (ArtifactMap s)"

definition ToolRounds :: "ConversationState \<Rightarrow> ToolRound list" where
  "ToolRounds s = toolRoundsFromMessages (segment s ''history'')"

definition WithArtifact :: "ConversationState \<Rightarrow> ContextArtifact \<Rightarrow> ConversationState" where
  "WithArtifact s a = s\<lparr>ArtifactMap := mergeArtifactMaps (ArtifactMap s) [a]\<rparr>"

definition WithoutArtifact :: "ConversationState \<Rightarrow> string \<Rightarrow> ConversationState" where
  "WithoutArtifact s i = s\<lparr>ArtifactMap := AList.delete i (cloneArtifactMap (ArtifactMap s))\<rparr>"

definition WithArtifacts :: "ConversationState \<Rightarrow> ContextArtifact list \<Rightarrow> ConversationState" where
  "WithArtifacts s as = s\<lparr>ArtifactMap := fold (\<lambda>a arts. AList.update (ArtID a) (ContextArtifact_Clone a) arts) as []\<rparr>"

definition validateSnapshotRoles :: "ConversationState \<Rightarrow> unit result" where
  "validateSnapshotRoles s = bind_res (map_res (\<lambda>(k, ms). validateMessageRoles ms) (Segments s)) (\<lambda>_. Inr ())"

subsection \<open>Deltas\<close>

datatype DeltaOperation =
    DeltaAppendMessages | DeltaReplaceSegment | DeltaRemoveMessages | DeltaClearSegment | DeltaClearState
  | DeltaUpsertArtifact | DeltaRemoveArtifact | DeltaAppendToolRound | DeltaNone | DeltaUnknown string

record ConversationDelta =
  Operation :: DeltaOperation
  DeltaSegment :: string
  DeltaMessages :: "Message list"
  DeltaArtifactIDs :: "string slice"
  DeltaMessageIDs :: "string slice"
  DeltaArtifact :: "ContextArtifact option"
  DeltaToolRound :: "ToolRound option"

definition validateArtifactRemovalIDs :: "DeltaOperation \<Rightarrow> string slice \<Rightarrow> string slice \<Rightarrow> unit result" where
  "validateArtifactRemovalIDs op messageIDs artifactIDs =
     (if op = DeltaRemoveArtifact \<and> messageIDs \<noteq> None then Inl ErrInvalidDeltaIDs
      else if op \<noteq> DeltaRemoveArtifact \<and> artifactIDs \<noteq> None then Inl ErrInvalidDeltaIDs else Inr ())"

function validateToolRoundRemoval_from :: "Message list \<Rightarrow> string list \<Rightarrow> nat \<Rightarrow> unit result" where
  "validateToolRoundRemoval_from msgs remove i =
     (if length msgs \<le> i then Inr ()
      else if MsgRole (msgs ! i) \<noteq> RoleAssistant \<or> \<not> HasToolCalls (msgs ! i)
        then validateToolRoundRemoval_from msgs remove (Suc i)
      else case ToolRoundFromMessages msgs i of
             Inl _ \<Rightarrow> validateToolRoundRemoval_from msgs remove (Suc i)
           | Inr round \<Rightarrow>
               let removed = length (filter (\<lambda>m. MsgID m \<in> set remove) (ToolRound_Messages round)) in
               if removed > 0 \<and> removed \<noteq> length (ToolRound_Messages round)
               then Inl (Errorf ''contexty: delta remove messages splits tool round'')
               else validateToolRoundRemoval_from msgs remove (Suc (i + length (RoundResults round))))"
  by pat_completeness auto
termination
  by (relation "measure (\<lambda>(msgs, _, i). length msgs - i)") auto

declare validateToolRoundRemoval_from.simps [simp del]

definition validateToolRoundRemoval :: "Message list \<Rightarrow> string list \<Rightarrow> unit result" where
  "validateToolRoundRemoval msgs remove = validateToolRoundRemoval_from msgs remove 0"

definition applyAppendMessages :: "ConversationState \<Rightarrow> ConversationDelta \<Rightarrow> ConversationState" where
  "applyAppendMessages s d = withOwnedSegment s (DeltaSegment d)
     (cloneMessageSlice (segment s (DeltaSegment d)) @ cloneMessageSlice (DeltaMessages d))"

definition applyRemoveMessages :: "ConversationState \<Rightarrow> ConversationDelta \<Rightarrow> ConversationState result" where
  "applyRemoveMessages s d =
     (let remove = elems (DeltaMessageIDs d); existing = Segment s (DeltaSegment d) in
      bind_res (if DeltaSegment d = ''history'' then validateToolRoundRemoval existing remove else Inr ()) (\<lambda>_.
      Inr (WithSegment s (DeltaSegment d) (filter (\<lambda>m. MsgID m \<notin> set remove) existing))))"

definition applyRemoveArtifacts :: "ConversationState \<Rightarrow> string list \<Rightarrow> ConversationState" where
  "applyRemoveArtifacts s ids = fold (\<lambda>i st. WithoutArtifact st i) ids s"

definition applyAppendToolRound :: "ConversationState \<Rightarrow> ToolRound option \<Rightarrow> ConversationState result" where
  "applyAppendToolRound s round =
     (case round of
        None \<Rightarrow> Inl (Errorf ''contexty: apply delta: missing tool round'')
      | Some r \<Rightarrow> bind_res (ToolRound_Validate r) (\<lambda>_.
          Inr (WithSegment s ''history'' (Segment s ''history'' @ ToolRound_Messages r))))"

definition ApplyDelta :: "ConversationState \<Rightarrow> ConversationDelta \<Rightarrow> ConversationState result" where
  "ApplyDelta s d =
     bind_res (validateSnapshotRoles s) (\<lambda>_.
     bind_res (validateMessageRoles (DeltaMessages d)) (\<lambda>_.
     bind_res (validateArtifactRemovalIDs (Operation d) (DeltaMessageIDs d) (DeltaArtifactIDs d)) (\<lambda>_.
     case Operation d of
       DeltaAppendMessages \<Rightarrow> Inr (applyAppendMessages s d)
     | DeltaReplaceSegment \<Rightarrow> Inr (WithSegment s (DeltaSegment d) (DeltaMessages d))
     | DeltaRemoveMessages \<Rightarrow> applyRemoveMessages s d
     | DeltaClearSegment \<Rightarrow> Inr (WithSegment s (DeltaSegment d) [])
     | DeltaClearState \<Rightarrow> Inr (WithVersion EmptyState (Version s))
     | DeltaUpsertArtifact \<Rightarrow>
         (case DeltaArtifact d of
            None \<Rightarrow> Inl (Errorf ''contexty: apply delta: missing artifact'')
          | Some a \<Rightarrow> Inr (WithArtifact s a))
     | DeltaRemoveArtifact \<Rightarrow> Inr (applyRemoveArtifacts s (elems (DeltaArtifactIDs d)))
     | DeltaAppendToolRound \<Rightarrow> applyAppendToolRound s (DeltaToolRound d)
     | DeltaNone \<Rightarrow> Inr s
     | DeltaUnknown _ \<Rightarrow> Inl (Errorf ''contexty: apply delta: unknown operation''))))"

fun ApplyDeltas :: "ConversationState \<Rightarrow> ConversationDelta list \<Rightarrow> ConversationState result" where
  "ApplyDeltas s [] = Inr s"
| "ApplyDeltas s (d # ds) = bind_res (ApplyDelta s d) (\<lambda>s'. ApplyDeltas s' ds)"

subsection \<open>Checkpoints\<close>

definition viewSegmentOrder :: "string list" where
  "viewSegmentOrder = [''system'', ''history'', ''tools'', ''memory'']"

definition checkpointMessages :: "ConversationState \<Rightarrow> Message list" where
  "checkpointMessages s =
     (let names = sort (map fst (Segments s));
          order = viewSegmentOrder @ filter (\<lambda>n. n \<notin> set viewSegmentOrder) names
      in concat (map (Segment s) order))"

text \<open>
  \<open>opaque\<close> stands for \<^verbatim>\<open>ValidateOpaqueState\<close> with the codec and profile of the caller.
\<close>

definition ProjectCheckpoint ::
  "env \<Rightarrow> (ToolPayload \<Rightarrow> string result) \<Rightarrow> (Message list \<Rightarrow> unit result) \<Rightarrow> ConversationState \<Rightarrow>
   ConversationState result" where
  "ProjectCheckpoint E payloadDigest opaque s =
     bind_res (opaque (checkpointMessages s)) (\<lambda>_.
     let arts = Artifacts s in
     if \<exists>a \<in> set arts. ArtID a = [] \<or> (case ArtLifecycle a of LifecycleOther _ \<Rightarrow> True | _ \<Rightarrow> False) \<or>
          (case ArtPersistence a of PersistenceOther _ \<Rightarrow> True | _ \<Rightarrow> False)
       then Inl ErrInvalidCheckpoint
     else bind_res (map_res (validateArtifactBlob E payloadDigest) arts) (\<lambda>_.
     Inr (WithArtifacts (AllSegmentsSnapshot s) (persistentArtifacts arts))))"

subsection \<open>The invariant of a conversation\<close>

definition valid_roles :: "Message list \<Rightarrow> bool" where
  "valid_roles ms \<longleftrightarrow> (\<forall>m \<in> set ms. Role_Validate (MsgRole m) = Inr ())"

definition conversation_ok :: "ConversationState \<Rightarrow> bool" where
  "conversation_ok s \<longleftrightarrow>
     distinct (map fst (Segments s)) \<and> (\<forall>(k, ms) \<in> set (Segments s). valid_roles ms) \<and>
     distinct (map fst (ArtifactMap s)) \<and> (\<forall>(k, a) \<in> set (ArtifactMap s). ArtID a = k)"

lemma validateMessageRoles_valid: "validateMessageRoles ms = Inr () \<longleftrightarrow> valid_roles ms"
  by (simp add: validateMessageRoles_Inr valid_roles_def)

lemma valid_roles_clone [simp]: "valid_roles (cloneMessageSlice ms) = valid_roles ms"
  by (auto simp: valid_roles_def cloneMessageSlice_def)

lemma valid_roles_append [simp]: "valid_roles (xs @ ys) \<longleftrightarrow> valid_roles xs \<and> valid_roles ys"
  by (auto simp: valid_roles_def)

lemma valid_roles_filter: "valid_roles ms \<Longrightarrow> valid_roles (filter P ms)"
  by (auto simp: valid_roles_def)

lemma valid_roles_round: "ToolRound_Validate r = Inr () \<Longrightarrow> valid_roles (ToolRound_Messages r)"
  by (auto simp: ToolRound_Validate_iff canonical_round_def answers_def valid_roles_def ToolRound_Messages_def
      cloneMessageSlice_def)

lemma update_keys: "set (AList.update k v xs) \<subseteq> insert (k, v) (set xs)"
  by (induction xs) auto

lemma valid_roles_segment: "conversation_ok s \<Longrightarrow> valid_roles (segment s n)"
  by (auto simp: conversation_ok_def segment_def valid_roles_def split: option.splits dest!: map_of_SomeD)

lemma conversation_ok_withOwnedSegment:
  "conversation_ok s \<Longrightarrow> valid_roles ms \<Longrightarrow> conversation_ok (withOwnedSegment s n ms)"
  using update_keys [of n ms "Segments s"]
  by (auto simp: conversation_ok_def withOwnedSegment_def distinct_update)

lemma conversation_ok_WithSegment:
  "conversation_ok s \<Longrightarrow> valid_roles ms \<Longrightarrow> conversation_ok (WithSegment s n ms)"
  by (simp add: WithSegment_def conversation_ok_withOwnedSegment)

definition artifacts_ok :: "artifacts \<Rightarrow> bool" where
  "artifacts_ok arts \<longleftrightarrow> distinct (map fst arts) \<and> (\<forall>(k, a) \<in> set arts. ArtID a = k)"

lemma ContextArtifact_Clone_fields [simp]:
  "ArtID (ContextArtifact_Clone a) = ArtID a" "ArtLifecycle (ContextArtifact_Clone a) = ArtLifecycle a"
  "ArtPersistence (ContextArtifact_Clone a) = ArtPersistence a" "ArtKind (ContextArtifact_Clone a) = ArtKind a"
  "ArtType (ContextArtifact_Clone a) = ArtType a" "ArtOwnerRef (ContextArtifact_Clone a) = ArtOwnerRef a"
  "elems (ArtSourceRefs (ContextArtifact_Clone a)) = elems (ArtSourceRefs a)"
  by (simp_all add: ContextArtifact_Clone_def)

lemma artifactOriginKey_Clone [simp]: "artifactOriginKey (ContextArtifact_Clone a) = artifactOriginKey a"
  by (simp add: artifactOriginKey_def Let_def)

lemma artifactShouldPersist_Clone [simp]: "artifactShouldPersist (ContextArtifact_Clone a) = artifactShouldPersist a"
  by (cases "ArtPersistence a") (simp_all add: artifactShouldPersist_def)

lemma mergeArtifact_ID: "ArtID existing = ArtID incoming \<Longrightarrow> ArtID (mergeArtifact existing incoming) = ArtID incoming"
  by (auto simp: mergeArtifact_def appendArtifactPayload_def deduplicateArtifactBySourceLayer_def Let_def
      split: MergePolicy.splits)

lemma cloneArtifactMap_fst [simp]: "map fst (cloneArtifactMap arts) = map fst arts"
  by (simp add: cloneArtifactMap_def case_prod_unfold comp_def)

lemma artifacts_ok_clone [simp]: "artifacts_ok (cloneArtifactMap arts) = artifacts_ok arts"
proof -
  have "(\<forall>(k, a) \<in> set (cloneArtifactMap arts). ArtID a = k) = (\<forall>(k, a) \<in> set arts. ArtID a = k)"
    by (auto simp: cloneArtifactMap_def)
  then show ?thesis by (simp add: artifacts_ok_def)
qed

lemma map_of_cloneArtifactMap: "map_of (cloneArtifactMap arts) k = map_option ContextArtifact_Clone (map_of arts k)"
  by (induction arts) (auto simp: cloneArtifactMap_def)

lemma artifacts_ok_update: "artifacts_ok arts \<Longrightarrow> ArtID a = k \<Longrightarrow> artifacts_ok (AList.update k a arts)"
  using update_keys [of k a arts] by (auto simp: artifacts_ok_def distinct_update)

lemma distinct_map_fst_filter: "distinct (map fst xs) \<Longrightarrow> distinct (map fst (filter P xs))"
  by (rule distinct_map_filter)

lemma artifacts_ok_filter: "artifacts_ok arts \<Longrightarrow> artifacts_ok (filter P arts)"
  by (auto simp: artifacts_ok_def distinct_map_fst_filter)

lemma artifacts_ok_lookup: "artifacts_ok arts \<Longrightarrow> map_of arts k = Some a \<Longrightarrow> ArtID a = k"
  by (auto simp: artifacts_ok_def dest!: map_of_SomeD)

lemma artifacts_ok_mergeInto: "artifacts_ok arts \<Longrightarrow> artifacts_ok (mergeArtifactInto arts a)"
proof -
  assume ok: "artifacts_ok arts"
  then have ok': "artifacts_ok (dropArtifactsReplacedByOrigin arts a)"
    by (simp add: dropArtifactsReplacedByOrigin_def artifacts_ok_filter)
  show ?thesis
    unfolding mergeArtifactInto_def Let_def
    by (rule artifacts_ok_update [OF ok'])
      (auto split: option.split intro!: mergeArtifact_ID dest: artifacts_ok_lookup [OF ok'])
qed

lemma artifacts_ok_mergeMaps: "artifacts_ok arts \<Longrightarrow> artifacts_ok (mergeArtifactMaps arts as)"
proof -
  have "artifacts_ok xs \<Longrightarrow> artifacts_ok (fold (\<lambda>a arts. mergeArtifactInto arts a) as xs)" for xs
    by (induction as arbitrary: xs) (auto intro: artifacts_ok_mergeInto)
  then show "artifacts_ok arts \<Longrightarrow> ?thesis" by (simp add: mergeArtifactMaps_def)
qed

lemma artifacts_ok_delete: "artifacts_ok arts \<Longrightarrow> artifacts_ok (AList.delete k arts)"
  by (simp add: AList.delete_eq artifacts_ok_filter)

lemma conversation_ok_iff:
  "conversation_ok s \<longleftrightarrow> distinct (map fst (Segments s)) \<and> (\<forall>(k, ms) \<in> set (Segments s). valid_roles ms) \<and>
     artifacts_ok (ArtifactMap s)"
  by (simp add: conversation_ok_def artifacts_ok_def)

lemma conversation_ok_empty: "conversation_ok (WithVersion EmptyState v)"
  by (simp add: conversation_ok_def EmptyState_def WithVersion_def)

lemma conversation_ok_without: "conversation_ok s \<Longrightarrow> conversation_ok (WithoutArtifact s i)"
  by (simp add: conversation_ok_iff WithoutArtifact_def artifacts_ok_delete)

lemma conversation_ok_removeArtifacts: "conversation_ok s \<Longrightarrow> conversation_ok (applyRemoveArtifacts s ids)"
  unfolding applyRemoveArtifacts_def by (induction ids arbitrary: s) (auto intro: conversation_ok_without)

lemma applyRemoveArtifacts_frame [simp]:
  "Version (applyRemoveArtifacts s ids) = Version s" "Segments (applyRemoveArtifacts s ids) = Segments s"
  unfolding applyRemoveArtifacts_def by (induction ids arbitrary: s) (auto simp: WithoutArtifact_def)

lemma state_frames [simp]:
  "Version (WithSegment s n ms) = Version s" "Version (withOwnedSegment s n ms) = Version s"
  "ArtifactMap (WithSegment s n ms) = ArtifactMap s" "Version (WithArtifact s a) = Version s"
  "Segments (WithArtifact s a) = Segments s" "Version (WithVersion s v) = v"
  by (simp_all add: WithSegment_def withOwnedSegment_def WithArtifact_def WithVersion_def)

lemma ApplyDelta_ok:
  assumes "ApplyDelta s d = Inr s'" "conversation_ok s"
  shows "conversation_ok s' \<and> Version s' = Version s"
proof -
  have roles: "valid_roles (DeltaMessages d)"
    using assms(1) by (auto simp: ApplyDelta_def bind_res_Inr_iff validateMessageRoles_valid)
  have seg: "valid_roles (Segment s n)" for n
    using valid_roles_segment [OF assms(2)] by (simp add: Segment_def)
  show ?thesis
  proof (cases "Operation d")
    case DeltaRemoveMessages
    then show ?thesis
      using assms seg by (auto simp: ApplyDelta_def bind_res_Inr_iff applyRemoveMessages_def Let_def
          intro!: conversation_ok_WithSegment valid_roles_filter)
  next
    case DeltaAppendToolRound
    then show ?thesis
      using assms seg by (auto simp: ApplyDelta_def bind_res_Inr_iff applyAppendToolRound_def split: option.splits
          intro!: conversation_ok_WithSegment dest: valid_roles_round)
  next
    case DeltaUpsertArtifact
    then show ?thesis
      using assms by (auto simp: ApplyDelta_def bind_res_Inr_iff conversation_ok_iff WithArtifact_def
          artifacts_ok_mergeMaps split: option.splits)
  next
    case DeltaAppendMessages
    then show ?thesis
      using assms roles valid_roles_segment [OF assms(2)]
      by (auto simp: ApplyDelta_def bind_res_Inr_iff applyAppendMessages_def intro!: conversation_ok_withOwnedSegment)
  qed (use assms roles in \<open>auto simp: ApplyDelta_def bind_res_Inr_iff conversation_ok_empty valid_roles_def
         conversation_ok_removeArtifacts intro!: conversation_ok_WithSegment\<close>)
qed

lemma ApplyDeltas_ok:
  "ApplyDeltas s ds = Inr s' \<Longrightarrow> conversation_ok s \<Longrightarrow> conversation_ok s' \<and> Version s' = Version s"
  by (induction ds arbitrary: s) (auto simp: bind_res_Inr_iff dest!: ApplyDelta_ok)

subsection \<open>Removal and tool rounds\<close>

lemma validateToolRoundRemoval_from_round:
  assumes "validateToolRoundRemoval_from msgs remove k = Inr ()" "k \<le> i"
    and round: "ToolRoundFromMessages msgs i = Inr r"
  shows "filter (\<lambda>m. MsgID m \<in> set remove) (ToolRound_Messages r) \<in> {[], ToolRound_Messages r}"
  using assms(1,2)
proof (induction "length msgs - k" arbitrary: k rule: less_induct)
  case less
  have i: "i < length msgs" "MsgRole (msgs ! i) = RoleAssistant" using round_start_assistant [OF round] by auto
  have calls: "HasToolCalls (msgs ! i)"
    using round by (auto simp: ToolRoundFromMessages_Inr canonical_round_def HasToolCalls_iff call_ids_def)
  have whole: "filter P xs \<in> {[], xs}" if "length (filter P xs) = 0 \<or> length (filter P xs) = length xs"
    for P and xs :: "Message list"
    using that by (metis filter_True insertI1 insertI2 length_0_conv length_filter_less less_irrefl)
  show ?case
  proof (cases "k = i")
    case True
    then show ?thesis
      using less.prems(1) i calls round whole
      by (auto simp: validateToolRoundRemoval_from.simps [of msgs remove i] Let_def split: if_splits)
  next
    case False
    with less.prems(2) have ki: "k < i" "k < length msgs" using i by auto
    show ?thesis
    proof (cases "ToolRoundFromMessages msgs k")
      case (Inl e)
      with less.prems(1) ki have "validateToolRoundRemoval_from msgs remove (Suc k) = Inr ()"
        by (auto simp: validateToolRoundRemoval_from.simps [of msgs remove k] split: if_splits)
      then show ?thesis using less.hyps [of "Suc k"] ki by simp
    next
      case (Inr q)
      have "\<not> i \<le> k + length (RoundResults q)" using round_inside_tool [OF Inr ki(1)] i(2) by auto
      moreover have "validateToolRoundRemoval_from msgs remove (Suc (k + length (RoundResults q))) = Inr () \<or>
          validateToolRoundRemoval_from msgs remove (Suc k) = Inr ()"
        using less.prems(1) ki Inr
        by (auto simp: validateToolRoundRemoval_from.simps [of msgs remove k] Let_def split: if_splits)
      ultimately show ?thesis
        using less.hyps [of "Suc (k + length (RoundResults q))"] less.hyps [of "Suc k"] ki by auto
    qed
  qed
qed

subsection \<open>Properties\<close>

text \<open>
  C21. Deltas keep the invariant of a conversation: segment and artifact keys stay unique, every
  stored message keeps a valid role, every artifact is stored under its own identity, and
  no delta, in any batch, touches the version.
\<close>

theorem ApplyDeltas_invariant:
  assumes "ApplyDeltas s deltas = Inr s'" "conversation_ok s"
  shows "conversation_ok s' \<and> Version s' = Version s"
  by (rule ApplyDeltas_ok [OF assms])

definition emptyDelta :: ConversationDelta where
  "emptyDelta = \<lparr>Operation = DeltaNone, DeltaSegment = [], DeltaMessages = [], DeltaArtifactIDs = None,
     DeltaMessageIDs = None, DeltaArtifact = None, DeltaToolRound = None\<rparr>"

definition sampleDeltas :: "ConversationDelta list" where
  "sampleDeltas =
     [emptyDelta\<lparr>Operation := DeltaAppendMessages, DeltaSegment := ''history'', DeltaMessages := [userText ''u1'' ''hello'']\<rparr>,
      emptyDelta\<lparr>Operation := DeltaAppendToolRound, DeltaToolRound :=
        Some \<lparr>RoundAssistant = assistantCall ''a1'' ''c1'', RoundResults = [toolReply ''t1'' ''c1'']\<rparr>\<rparr>,
      emptyDelta\<lparr>Operation := DeltaUpsertArtifact, DeltaArtifact := Some (NewMemoryBlock ''m1'' (TextPayload ''note''))\<rparr>]"

definition sampleState :: ConversationState where
  "sampleState = \<lparr>Segments = [(''history'', [userText ''u1'' ''hello'', assistantCall ''a1'' ''c1'', toolReply ''t1'' ''c1''])],
     ArtifactMap = [(''m1'', NewMemoryBlock ''m1'' (TextPayload ''note''))], Version = 0\<rparr>"

lemma sample_ApplyDeltas: "ApplyDeltas EmptyState sampleDeltas = Inr sampleState"
  by code_simp

theorem ApplyDeltas_invariant_witness: "conversation_ok sampleState \<and> Version sampleState = Version EmptyState"
  by (rule ApplyDeltas_invariant [OF sample_ApplyDeltas]) (simp add: conversation_ok_def EmptyState_def)

text \<open>
  C22. Removing messages from the history never splits a canonical tool round: when the removal
  is accepted, the messages of every round are either all removed or all kept.
\<close>

theorem remove_messages_keeps_rounds:
  assumes "ApplyDelta s d = Inr s'" "Operation d = DeltaRemoveMessages" "DeltaSegment d = ''history''"
    and "ToolRoundFromMessages (Segment s ''history'') i = Inr r"
  shows "filter (\<lambda>m. MsgID m \<in> set (elems (DeltaMessageIDs d))) (ToolRound_Messages r) \<in> {[], ToolRound_Messages r} \<and>
     segment s' ''history'' = cloneMessageSlice (filter (\<lambda>m. MsgID m \<notin> set (elems (DeltaMessageIDs d))) (Segment s ''history''))"
proof -
  from assms(1-3) have "validateToolRoundRemoval (Segment s ''history'') (elems (DeltaMessageIDs d)) = Inr ()"
    and s': "s' = WithSegment s ''history'' (filter (\<lambda>m. MsgID m \<notin> set (elems (DeltaMessageIDs d))) (Segment s ''history''))"
    by (auto simp: ApplyDelta_def bind_res_Inr_iff applyRemoveMessages_def Let_def)
  from validateToolRoundRemoval_from_round [OF this(1) [unfolded validateToolRoundRemoval_def] _ assms(4)]
  show ?thesis by (simp add: s' segment_def WithSegment_def withOwnedSegment_def update_conv)
qed

theorem remove_messages_keeps_rounds_witness:
  "segment (WithSegment sampleState ''history'' [userText ''u1'' ''hello'']) ''history'' =
     cloneMessageSlice (filter (\<lambda>m. MsgID m \<notin> {''a1'', ''t1''}) (Segment sampleState ''history''))"
proof -
  let ?d = "emptyDelta\<lparr>Operation := DeltaRemoveMessages, DeltaSegment := ''history'', DeltaMessageIDs := Some [''a1'', ''t1'']\<rparr>"
  have "ApplyDelta sampleState ?d = Inr (WithSegment sampleState ''history'' [userText ''u1'' ''hello''])"
    "ToolRoundFromMessages (Segment sampleState ''history'') 1 =
       Inr \<lparr>RoundAssistant = assistantCall ''a1'' ''c1'', RoundResults = [toolReply ''t1'' ''c1'']\<rparr>"
    by code_simp+
  from remove_messages_keeps_rounds [OF this(1) _ _ this(2)] show ?thesis by (simp add: emptyDelta_def)
qed

text \<open>
  C23. Appending a tool round adds exactly its messages and they read back as that round: the history becomes the old messages
  followed by copies of the round's assistant message and results, once and in order; no other segment, no artifact and
  not the version change; and the canonical round found where the old history ended is the copy of the appended
  one, the round itself when copying keeps its messages (no host extension alters them).
\<close>

theorem append_tool_round_roundtrip:
  assumes "ApplyDelta s d = Inr s'" "Operation d = DeltaAppendToolRound" "DeltaToolRound d = Some r"
  shows "segment s' ''history'' = cloneMessageSlice (Segment s ''history'') @ cloneMessageSlice (ToolRound_Messages r) \<and>
     (\<forall>name. name \<noteq> ''history'' \<longrightarrow> segment s' name = segment s name) \<and> ArtifactMap s' = ArtifactMap s \<and> Version s' = Version s \<and>
     ToolRoundFromMessages (segment s' ''history'') (length (segment s ''history'')) =
       Inr \<lparr>RoundAssistant = (Message_Clone ^^ 3) (RoundAssistant r), RoundResults = map (Message_Clone ^^ 3) (RoundResults r)\<rparr> \<and>
     ((\<forall>m \<in> set (RoundAssistant r # RoundResults r). Message_Clone m = m) \<longrightarrow>
       ToolRoundFromMessages (segment s' ''history'') (length (segment s ''history'')) = Inr r)"
proof -
  from assms have can: "canonical_round r"
    and s': "s' = WithSegment s ''history'' (Segment s ''history'' @ ToolRound_Messages r)"
    by (auto simp: ApplyDelta_def bind_res_Inr_iff applyAppendToolRound_def ToolRound_Validate_iff)
  let ?pre = "cloneMessageSlice (Segment s ''history'')" and ?n = "length (segment s ''history'')"
  let ?rs = "cloneMessageSlice (cloneMessageSlice (RoundResults r))"
  have h: "segment s' ''history'' = ?pre @ Message_Clone (Message_Clone (RoundAssistant r)) # ?rs"
    by (simp add: s' segment_def WithSegment_def withOwnedSegment_def update_conv ToolRound_Messages_def)
  have other: "(\<forall>name. name \<noteq> ''history'' \<longrightarrow> segment s' name = segment s name) \<and> ArtifactMap s' = ArtifactMap s \<and> Version s' = Version s"
    by (simp add: s' segment_def WithSegment_def withOwnedSegment_def update_conv)
  have len: "length ?pre = ?n" by (simp add: Segment_def cloneMessageSlice_def)
  have "\<forall>m \<in> set ?rs. MsgRole m = RoleTool"
    using can by (auto simp: canonical_round_def answers_def cloneMessageSlice_def)
  then have tools: "leading_tools ?rs = ?rs" by simp
  have found: "ToolRoundFromMessages (segment s' ''history'') ?n =
      Inr \<lparr>RoundAssistant = Message_Clone (Message_Clone (Message_Clone (RoundAssistant r))), RoundResults = cloneMessageSlice ?rs\<rparr>"
    unfolding ToolRoundFromMessages_Inr h using len tools can
    by (auto simp: nth_append canonical_round_clone) (simp add: canonical_round_def)
  have eq: "\<lparr>RoundAssistant = Message_Clone (Message_Clone (Message_Clone (RoundAssistant r))), RoundResults = cloneMessageSlice ?rs\<rparr> = r"
    if "\<forall>m \<in> set (RoundAssistant r # RoundResults r). Message_Clone m = m"
    using that by (cases r) (simp add: cloneMessageSlice_def map_idI)
  have "segment s' ''history'' = ?pre @ cloneMessageSlice (ToolRound_Messages r)" by (simp add: h ToolRound_Messages_def)
  moreover have "ToolRoundFromMessages (segment s' ''history'') ?n =
      Inr \<lparr>RoundAssistant = (Message_Clone ^^ 3) (RoundAssistant r), RoundResults = map (Message_Clone ^^ 3) (RoundResults r)\<rparr>"
    using found by (simp add: cloneMessageSlice_def numeral_3_eq_3 comp_def)
  moreover from found eq have "(\<forall>m \<in> set (RoundAssistant r # RoundResults r). Message_Clone m = m) \<longrightarrow>
      ToolRoundFromMessages (segment s' ''history'') ?n = Inr r" by metis
  ultimately show ?thesis using other by blast
qed

theorem append_tool_round_roundtrip_witness:
  "ToolRoundFromMessages (segment sampleState ''history'') 1 =
     Inr \<lparr>RoundAssistant = assistantCall ''a1'' ''c1'', RoundResults = [toolReply ''t1'' ''c1'']\<rparr>"
proof -
  let ?s = "\<lparr>Segments = [(''history'', [userText ''u1'' ''hello''])],
     ArtifactMap = [(''m1'', NewMemoryBlock ''m1'' (TextPayload ''note''))], Version = 0\<rparr>"
  have "ApplyDelta ?s (sampleDeltas ! 1) = Inr sampleState" "length (segment ?s ''history'') = 1"
    "Message_Clone (assistantCall ''a1'' ''c1'') = assistantCall ''a1'' ''c1''" "Message_Clone (toolReply ''t1'' ''c1'') = toolReply ''t1'' ''c1''"
    by code_simp+
  with append_tool_round_roundtrip [OF this(1)] show ?thesis by (auto simp: sampleDeltas_def emptyDelta_def)
qed

lemma mergeArtifact_replace:
  "ArtMergePolicy a = PolicyReplaceByOrigin \<Longrightarrow> mergeArtifact e a = ContextArtifact_Clone a"
  by (simp add: mergeArtifact_def)

text \<open>
  An artifact that replaces by origin is the only one of its origin afterwards: it is stored
  under its identity, no artifact with the same nonempty origin key remains under another
  identity, and the artifacts of other origins are kept.
\<close>

theorem replace_by_origin_unique:
  assumes "artifacts_ok (ArtifactMap s)" "ArtMergePolicy a = PolicyReplaceByOrigin" "artifactOriginKey a \<noteq> []"
  shows "map_of (ArtifactMap (WithArtifact s a)) (ArtID a) = Some (ContextArtifact_Clone a) \<and>
     (\<forall>k b. map_of (ArtifactMap (WithArtifact s a)) k = Some b \<and> artifactOriginKey b = artifactOriginKey a \<longrightarrow> k = ArtID a) \<and>
     (\<forall>k b. map_of (ArtifactMap s) k = Some b \<and> k \<noteq> ArtID a \<and> artifactOriginKey b \<noteq> artifactOriginKey a \<longrightarrow>
        map_of (ArtifactMap (WithArtifact s a)) k = Some (ContextArtifact_Clone b))"
proof -
  let ?base = "cloneArtifactMap (ArtifactMap s)"
  let ?P = "\<lambda>(k, b). k = ArtID a \<or> artifactOriginKey b \<noteq> artifactOriginKey a"
  have ok: "artifacts_ok ?base" using assms(1) by simp
  have drop: "dropArtifactsReplacedByOrigin ?base a = filter ?P ?base"
    using assms(2,3) by (simp add: dropArtifactsReplacedByOrigin_def)
  have dist: "distinct (map fst (filter ?P ?base))"
    using ok by (simp add: artifacts_ok_def distinct_map_fst_filter del: cloneArtifactMap_fst)
  have result: "map_of (ArtifactMap (WithArtifact s a)) =
      (map_of (filter ?P ?base))(ArtID a \<mapsto> ContextArtifact_Clone a)"
    by (simp add: WithArtifact_def mergeArtifactMaps_def mergeArtifactInto_def Let_def drop update_conv'
        mergeArtifact_replace [OF assms(2)] split: option.split)
  have sub: "artifactOriginKey b \<noteq> artifactOriginKey a \<or> k = ArtID a" if "map_of (filter ?P ?base) k = Some b" for k b
    using map_of_SomeD [OF that] by auto
  have keep: "map_of (filter ?P ?base) k = Some (ContextArtifact_Clone b)"
    if "map_of (ArtifactMap s) k = Some b" "artifactOriginKey b \<noteq> artifactOriginKey a" for k b
  proof (rule map_of_is_SomeI [OF dist])
    have "map_of ?base k = Some (ContextArtifact_Clone b)" using that by (simp add: map_of_cloneArtifactMap)
    then show "(k, ContextArtifact_Clone b) \<in> set (filter ?P ?base)"
      using that by (auto dest: map_of_SomeD)
  qed
  let ?R = "map_of (ArtifactMap (WithArtifact s a))"
  have "?R (ArtID a) = Some (ContextArtifact_Clone a)" by (simp add: result)
  moreover have "k = ArtID a" if "?R k = Some b" "artifactOriginKey b = artifactOriginKey a" for k b
  proof (rule ccontr)
    assume k: "k \<noteq> ArtID a"
    with that(1) have "map_of (filter ?P ?base) k = Some b" unfolding result by simp
    from sub [OF this] that(2) k show False by simp
  qed
  moreover have "?R k = Some (ContextArtifact_Clone b)"
    if "map_of (ArtifactMap s) k = Some b" "k \<noteq> ArtID a" "artifactOriginKey b \<noteq> artifactOriginKey a" for k b
    using keep [OF that(1,3)] that(2) unfolding result by simp
  ultimately show ?thesis by blast
qed

definition sampleSource :: SourceRef where
  "sampleSource = \<lparr>SrcNamespace = ''docs'', SrcKind = ''page'', SrcID = ''7'', SrcCheckpointID = [], SrcURI = []\<rparr>"

definition originArtifact :: "string \<Rightarrow> ContextArtifact" where
  "originArtifact i = (NewMemoryBlock i (TextPayload ''x''))\<lparr>ArtSourceRefs := Some [sampleSource], ArtMergePolicy := PolicyReplaceByOrigin\<rparr>"

theorem replace_by_origin_unique_witness:
  "map_of (ArtifactMap (WithArtifact (WithArtifact EmptyState (originArtifact ''m1'')) (originArtifact ''m2''))) ''m2'' =
     Some (ContextArtifact_Clone (originArtifact ''m2''))"
proof -
  let ?s = "WithArtifact EmptyState (originArtifact ''m1'')"
  have "artifacts_ok (ArtifactMap ?s)"
    unfolding WithArtifact_def by (simp add: artifacts_ok_mergeMaps EmptyState_def artifacts_ok_def [of "[]"])
  moreover have "artifactOriginKey (originArtifact ''m2'') \<noteq> []" "ArtMergePolicy (originArtifact ''m2'') = PolicyReplaceByOrigin"
    "ArtID (originArtifact ''m2'') = ''m2''"
    by code_simp+
  ultimately show ?thesis using replace_by_origin_unique [of ?s "originArtifact ''m2''"] by metis
qed

text \<open>
  The order in which Go iterates over the artifact map does not matter: two representations
  of the same map yield the same list of artifacts, in ascending order of their identities.
\<close>

theorem artifactMapValues_deterministic:
  assumes "artifacts_ok arts" "artifacts_ok arts'" "map_of arts = map_of arts'"
  shows "artifactMapValues arts = artifactMapValues arts' \<and> sorted (map ArtID (artifactMapValues arts))"
proof -
  have "set arts = set arts'"
    using assms map_of_inject_set [of arts arts'] by (simp add: artifacts_ok_def)
  moreover have "distinct arts" "distinct arts'" using assms(1,2) by (auto simp: artifacts_ok_def distinct_map)
  ultimately have m: "mset arts = mset arts'" by (simp add: set_eq_iff_mset_eq_distinct)
  let ?vals = "map (\<lambda>(k, a). ContextArtifact_Clone a)"
  have "map ArtID (?vals arts) = map fst arts"
    using assms(1) by (auto simp: artifacts_ok_def)
  then have inj: "inj_on ArtID (set (?vals arts))"
    using assms(1) by (metis artifacts_ok_def distinct_map)
  have "sort_key ArtID (?vals arts) = sort_key ArtID (?vals arts')"
    by (rule sort_key_inj_key_eq [OF _ inj]) (use m in simp_all)
  then show ?thesis by (simp add: artifactMapValues_def)
qed

theorem artifactMapValues_deterministic_witness:
  "artifactMapValues [(''b'', NewMemoryBlock ''b'' (TextPayload [])), (''a'', NewMemoryBlock ''a'' (TextPayload []))] =
   artifactMapValues [(''a'', NewMemoryBlock ''a'' (TextPayload [])), (''b'', NewMemoryBlock ''b'' (TextPayload []))]"
  by (rule conjunct1 [OF artifactMapValues_deterministic])
    (auto simp: artifacts_ok_def NewMemoryBlock_def NewArtifact_def)

lemma fold_update_map_of:
  "distinct (map ArtID as) \<Longrightarrow>
   map_of (fold (\<lambda>a arts. AList.update (ArtID a) (ContextArtifact_Clone a) arts) as init) k =
     (case find (\<lambda>a. ArtID a = k) as of Some a \<Rightarrow> Some (ContextArtifact_Clone a) | None \<Rightarrow> map_of init k)"
proof (induction as arbitrary: init)
  case (Cons a as)
  have "find (\<lambda>b. ArtID b = ArtID a) as = None" using Cons.prems unfolding find_None_iff by (auto simp: image_iff)
  with Cons show ?case by (auto simp: update_conv split: option.split)
qed simp

lemma map_option_find_Some: "(\<exists>b. map_option f (find P xs) = Some b) \<longleftrightarrow> (\<exists>x \<in> set xs. P x)"
  by (induction xs) auto

lemma bex_image_filter: "(\<exists>x \<in> {x \<in> g ` A. P x}. Q x) \<longleftrightarrow> (\<exists>y \<in> A. P (g y) \<and> Q (g y))"
  by blast



end
