(* ===== verification/Estimate_Report.thy ===== *)
theory Estimate_Report
  imports Budget "HOL-Library.Multiset"
begin

text \<open>
  Estimate reports (estimate_report.go, estimate_extensions.go, estimate_codec.go and the two
  estimator methods of a reporter in compile_estimate.go): a reporter measures the parts of a request
  that its profile can count, charges a fallback for the others, and returns a report that carries
  its own evidence. Maps are association lists with distinct keys. \<^verbatim>\<open>estimateDigest\<close> (the SHA-256 of
  canonical JSON) is a parameter for each type of value it is applied to.
\<close>

subsection \<open>Extension codecs\<close>

text \<open>
  \<^verbatim>\<open>ExtensionRegistry\<close>: the host's decoders by type identity, the decoder of the reserved opaque
  envelope, and the JSON form of the envelope \<^verbatim>\<open>extensionWire\<close>. \<open>IsOpaqueState\<close> is the dynamic type test
  of \<^verbatim>\<open>opaqueStateFromExtension\<close>.
\<close>

record ExtensionRegistry =
  RegDecoders :: "(string \<times> (string \<Rightarrow> Extension result)) list"
  RegOpaqueDecoder :: "string \<Rightarrow> Extension result"

record ExtensionWire =
  EncodeWire :: "string \<Rightarrow> string \<Rightarrow> string result"
  DecodeWire :: "string \<Rightarrow> (string \<times> string) result"
  IsOpaqueState :: "Extension \<Rightarrow> bool"

definition EncodeExtension :: "ExtensionWire \<Rightarrow> Extension \<Rightarrow> string result" where
  "EncodeExtension W e =
     (if nilExtension e then Inr ''null''
      else if ext_type e = OpaqueStateExtensionType \<and> \<not> IsOpaqueState W e then Inl (Sentinel ''ErrInvalidOpaqueState'')
      else case ext_json e of
             None \<Rightarrow> Inl (Errorf ''contexty: extension encode'')
           | Some payload \<Rightarrow> EncodeWire W (ext_type e) payload)"

definition DecodeExtension :: "ExtensionWire \<Rightarrow> ExtensionRegistry \<Rightarrow> string \<Rightarrow> Extension result" where
  "DecodeExtension W reg data =
     (if data = [] \<or> data = ''null'' then Inl (Errorf ''contexty: extension nil'')
      else bind_res (DecodeWire W data) (\<lambda>(typeID, payload).
      if typeID = [] then Inl (Errorf ''contexty: extension decode: missing type_id'')
      else if typeID = OpaqueStateExtensionType then RegOpaqueDecoder reg payload
      else case map_of (RegDecoders reg) typeID of
             None \<Rightarrow> Inl (Errorf ''contexty: extension decode: unregistered type_id'')
           | Some decode \<Rightarrow> bind_res (decode payload) (\<lambda>e.
               if nilExtension e \<or> ext_type e \<noteq> typeID
               then Inl (Errorf ''contexty: extension decode: invalid typed result'') else Inr e)))"

subsection \<open>Profiles, requests and reports\<close>

datatype EstimateQuality = EstimateCounted | EstimateEstimated | EstimateUnknown | QualityOther string

datatype EstimateKind =
    EstimateText | EstimateImage | EstimateToolCall | EstimateToolResult | EstimateMedia | EstimateExtension
  | KindOther string

record EstimateFallback =
  FbPolicy :: Descriptor
  FbTokens :: int

record EstimateExtensionPolicy =
  XpCodec :: Descriptor
  XpPolicy :: Descriptor
  MetadataOnly :: bool

record EstimateProfile =
  PfModel :: Descriptor
  PfEstimator :: Descriptor
  PfMethod :: Descriptor
  PfEncoding :: Descriptor
  Capabilities :: "(EstimateKind \<times> EstimateQuality) list"
  PfFallback :: "EstimateFallback option"
  PfExtensions :: "(string \<times> EstimateExtensionPolicy) list"

abbreviation ErrInvalidEstimateReport :: go_error where
  "ErrInvalidEstimateReport \<equiv> Sentinel ''ErrInvalidEstimateReport''"

abbreviation ErrStaleEstimate :: go_error where
  "ErrStaleEstimate \<equiv> Sentinel ''ErrStaleEstimate''"

abbreviation ErrMissingEstimateExtensionCodec :: go_error where
  "ErrMissingEstimateExtensionCodec \<equiv> Sentinel ''ErrMissingEstimateExtensionCodec''"

abbreviation ErrInvalidManifest :: go_error where
  "ErrInvalidManifest \<equiv> Sentinel ''ErrInvalidManifest''"

definition validEstimateQuality :: "EstimateQuality \<Rightarrow> bool" where
  "validEstimateQuality q = (q \<in> set [EstimateCounted, EstimateEstimated, EstimateUnknown])"

definition validEstimateKind :: "EstimateKind \<Rightarrow> bool" where
  "validEstimateKind k =
     (k \<in> set [EstimateText, EstimateImage, EstimateToolCall, EstimateToolResult, EstimateMedia, EstimateExtension])"

fun validateEstimateExtensionPolicies :: "(string \<times> EstimateExtensionPolicy) list \<Rightarrow> unit result" where
  "validateEstimateExtensionPolicies [] = Inr ()"
| "validateEstimateExtensionPolicies ((typeID, policy) # ps) =
     (if typeID = [] \<or> (typeID = OpaqueStateExtensionType \<and> MetadataOnly policy) then Inl ErrInvalidEstimateReport
      else bind_res (Descriptor_Validate (XpCodec policy)) (\<lambda>_.
           bind_res (Descriptor_Validate (XpPolicy policy)) (\<lambda>_. validateEstimateExtensionPolicies ps)))"

definition EstimateProfile_validate :: "EstimateProfile \<Rightarrow> unit result" where
  "EstimateProfile_validate p =
     bind_res (map_res Descriptor_Validate [PfModel p, PfEstimator p, PfMethod p, PfEncoding p]) (\<lambda>_.
     if \<exists>(kind, quality) \<in> set (Capabilities p). \<not> validEstimateKind kind \<or> \<not> validEstimateQuality quality
       then Inl ErrInvalidEstimateReport
     else bind_res (validateEstimateExtensionPolicies (PfExtensions p)) (\<lambda>_.
       case PfFallback p of
         None \<Rightarrow> Inr ()
       | Some fb \<Rightarrow> bind_res (Descriptor_Validate (FbPolicy fb)) (\<lambda>_.
           if FbTokens fb \<le> 0 then Inl ErrInvalidEstimateReport else Inr ())))"

record EstimateSegment =
  EsName :: string
  EsMessages :: "Message list"

record EstimateRequest =
  ErSegments :: "EstimateSegment list"
  ErBudget :: BudgetRequest
  ErManifestRef :: "ContentRef option"
  ErWireRef :: "ContentRef option"

record EstimateCoverage =
  CovKind :: EstimateKind
  CovQuality :: EstimateQuality
  CovParts :: int
  CovFallbackTokens :: int

record SegmentEstimate =
  SegName :: string
  SegMessages :: "ContentRef list"
  SegPerMessage :: "int list"
  SegTokens :: int
  SegCoverage :: "EstimateCoverage list"
  SegPartKinds :: "EstimateKind list list list"
  SegExtensionTypes :: "string list list"

record EstimateReport =
  RepDigest :: string
  RepRequestDigest :: string
  RepProfileDigest :: string
  RepProfile :: EstimateProfile
  RepBudget :: BudgetRequest
  RepEffectiveLimit :: int
  RepSegments :: "SegmentEstimate list"
  RepTotal :: int
  RepQuality :: EstimateQuality
  RepOverflowReason :: string
  RepManifestRef :: "ContentRef option"
  RepWireRef :: "ContentRef option"

text \<open>The value that \<^verbatim>\<open>estimateRequestDigest\<close> hashes.\<close>

record RequestEvidence =
  EvInputs :: "(string \<times> ContentRef list) list"
  EvKinds :: "EstimateKind list list list list"
  EvExtensions :: "string list list list"
  EvBudget :: BudgetRequest
  EvProfileDigest :: string
  EvManifestRef :: "ContentRef option"
  EvWireRef :: "ContentRef option"

record ReportDigests =
  ProfileDigest :: "EstimateProfile \<Rightarrow> string result"
  RequestDigest :: "RequestEvidence \<Rightarrow> string result"
  ReportDigest :: "EstimateReport \<Rightarrow> string result"

text \<open>
  A reporter: its estimator, profile and codec. \<open>RpHostAccuracy\<close> and \<open>RpHostCapabilities\<close> are the optional
  methods \<^verbatim>\<open>EstimateAccuracy\<close> and \<^verbatim>\<open>EstimateCapabilities\<close> of a host estimator.
\<close>

record EstimateReporter =
  RpEstimator :: TokenEstimator
  RpProfile :: EstimateProfile
  RpEnv :: env
  RpWire :: ExtensionWire
  RpExtensions :: "ExtensionRegistry option"
  RpHostAccuracy :: "EstimateQuality option"
  RpHostCapabilities :: "(EstimateKind \<times> EstimateQuality) list option"

definition legacyEstimateCapabilities :: "(EstimateKind \<times> EstimateQuality) list" where
  "legacyEstimateCapabilities =
     [(EstimateText, EstimateEstimated), (EstimateToolCall, EstimateEstimated), (EstimateToolResult, EstimateEstimated),
      (EstimateImage, EstimateUnknown), (EstimateMedia, EstimateUnknown), (EstimateExtension, EstimateUnknown)]"

definition EstimateAccuracy :: "EstimateReporter \<Rightarrow> EstimateQuality option" where
  "EstimateAccuracy r =
     (case RpEstimator r of
        HostEstimator _ _ \<Rightarrow> RpHostAccuracy r
      | NilEstimator \<Rightarrow> None
      | TokenEstimator.EstimateReporter _ _ _ \<Rightarrow> None
      | _ \<Rightarrow> Some EstimateEstimated)"

definition EstimateCapabilities :: "EstimateReporter \<Rightarrow> (EstimateKind \<times> EstimateQuality) list option" where
  "EstimateCapabilities r =
     (case RpEstimator r of
        HostEstimator _ _ \<Rightarrow> RpHostCapabilities r
      | NilEstimator \<Rightarrow> None
      | TokenEstimator.EstimateReporter _ _ _ \<Rightarrow> None
      | _ \<Rightarrow> Some legacyEstimateCapabilities)"

definition NewEstimateReporter :: "EstimateReporter \<Rightarrow> EstimateReporter result" where
  "NewEstimateReporter r =
     (if (case RpEstimator r of NilEstimator \<Rightarrow> True | _ \<Rightarrow> False) then Inl ErrInvalidEstimateReport
      else bind_res (EstimateProfile_validate (RpProfile r)) (\<lambda>_.
      if (case EstimateAccuracy r of None \<Rightarrow> False
          | Some q \<Rightarrow> q \<noteq> EstimateCounted \<and> EstimateCounted \<in> snd ` set (Capabilities (RpProfile r)))
        then Inl ErrInvalidEstimateReport
      else if (case EstimateCapabilities r of None \<Rightarrow> False
          | Some actual \<Rightarrow> \<exists>(kind, quality) \<in> set (Capabilities (RpProfile r)).
              quality \<noteq> EstimateUnknown \<and>
              (map_of actual kind = None \<or> map_of actual kind = Some (QualityOther []) \<or> map_of actual kind = Some EstimateUnknown))
        then Inl ErrInvalidEstimateReport
      else Inr r))"

subsection \<open>Coverage\<close>

definition worseEstimateQuality :: "EstimateQuality \<Rightarrow> EstimateQuality \<Rightarrow> EstimateQuality" where
  "worseEstimateQuality a b =
     (if a = EstimateUnknown \<or> b = EstimateUnknown then EstimateUnknown
      else if a = EstimateEstimated \<or> b = EstimateEstimated then EstimateEstimated else EstimateCounted)"

text \<open>
  \<^verbatim>\<open>Parts\<close> counts elements of slices and is not wrapped; \<^verbatim>\<open>FallbackTokens\<close> is added without an overflow
  check.
\<close>

fun mergeEntry :: "EstimateCoverage list \<Rightarrow> EstimateCoverage \<Rightarrow> EstimateCoverage list" where
  "mergeEntry [] incoming = [incoming]"
| "mergeEntry (d # ds) incoming =
     (if CovKind d = CovKind incoming
      then d\<lparr>CovParts := CovParts d + CovParts incoming,
             CovFallbackTokens := go_add (CovFallbackTokens d) (CovFallbackTokens incoming),
             CovQuality := worseEstimateQuality (CovQuality d) (CovQuality incoming)\<rparr> # ds
      else d # mergeEntry ds incoming)"

definition mergeEstimateCoverage :: "EstimateCoverage list \<Rightarrow> EstimateCoverage list \<Rightarrow> EstimateCoverage list" where
  "mergeEstimateCoverage dst src = foldl mergeEntry dst src"

fun recordEstimateFallback :: "EstimateCoverage list \<Rightarrow> EstimateKind list \<Rightarrow> int \<Rightarrow> EstimateCoverage list" where
  "recordEstimateFallback [] kinds tokens = []"
| "recordEstimateFallback (entry # coverage) kinds tokens =
     (if CovQuality entry = EstimateUnknown \<and> CovKind entry \<in> set kinds
      then entry\<lparr>CovFallbackTokens := go_add (CovFallbackTokens entry) tokens\<rparr> # coverage
      else entry # recordEstimateFallback coverage kinds tokens)"

definition estimatePayloadKinds :: "env \<Rightarrow> EstimateKind \<Rightarrow> ToolPayload \<Rightarrow> EstimateKind list" where
  "estimatePayloadKinds E kind payload =
     [kind] @ (if elems (PayBinary payload) \<noteq> [] \<or> (PayMIMEType payload \<noteq> [] \<and>
                 (case ParseMediaType E (PayMIMEType payload) of
                    None \<Rightarrow> True
                  | Some mediaType \<Rightarrow> mediaType \<noteq> ''application/json'' \<and> fst (cut_slash mediaType) \<noteq> ''text''))
               then [EstimateMedia] else [])"

definition estimatePartKinds :: "env \<Rightarrow> part \<Rightarrow> EstimateKind list result" where
  "estimatePartKinds E p =
     (case canonicalPartValue p of
        Some (TextPart _) \<Rightarrow> Inr [EstimateText]
      | Some (ImagePart _ _) \<Rightarrow> Inr [EstimateImage]
      | Some (MediaPart mime _) \<Rightarrow> bind_res (MediaPart_Validate E mime) (\<lambda>_. Inr [EstimateMedia])
      | Some (ToolCallPart tc) \<Rightarrow> Inr (estimatePayloadKinds E EstimateToolCall (CallArguments tc))
      | Some (ToolResultPart tr) \<Rightarrow> Inr (estimatePayloadKinds E EstimateToolResult (ResultPayload tr))
      | None \<Rightarrow> Inl ErrInvalidEstimateReport)"

definition capability :: "EstimateProfile \<Rightarrow> EstimateKind \<Rightarrow> EstimateQuality" where
  "capability p kind = (case map_of (Capabilities p) kind of None \<Rightarrow> EstimateUnknown | Some q \<Rightarrow> q)"

definition partCoverage :: "EstimateProfile \<Rightarrow> EstimateKind list \<Rightarrow> EstimateCoverage list \<times> EstimateQuality" where
  "partCoverage p kinds =
     (map (\<lambda>kind. \<lparr>CovKind = kind, CovQuality = capability p kind, CovParts = 1, CovFallbackTokens = 0\<rparr>) kinds,
      foldl worseEstimateQuality EstimateCounted (map (capability p) kinds))"

definition cloneKnownPart :: "part \<Rightarrow> part" where
  "cloneKnownPart p = (case canonicalPartValue p of None \<Rightarrow> PartNil | Some v \<Rightarrow> PartValue (clonePart v))"

fun estimateParts_from ::
  "EstimateReporter \<Rightarrow> part list \<times> EstimateCoverage list \<times> int \<Rightarrow> part list \<Rightarrow> (part list \<times> EstimateCoverage list \<times> int) result" where
  "estimateParts_from r acc [] = Inr acc"
| "estimateParts_from r (known, coverage, fallback) (p # parts) =
     bind_res (estimatePartKinds (RpEnv r) p) (\<lambda>kinds.
     let (partCov, quality) = partCoverage (RpProfile r) kinds in
     if quality \<noteq> EstimateUnknown
     then estimateParts_from r (known @ [cloneKnownPart p], mergeEstimateCoverage coverage partCov, fallback) parts
     else case PfFallback (RpProfile r) of
       None \<Rightarrow> Inl ErrUnknownEstimateCost
     | Some fb \<Rightarrow> bind_res (addEstimateTokens fallback (FbTokens fb)) (\<lambda>fallback'.
         let partCov' = map (\<lambda>e. e\<lparr>CovQuality := EstimateUnknown\<rparr>) (recordEstimateFallback partCov kinds (FbTokens fb)) in
         estimateParts_from r (known, mergeEstimateCoverage coverage partCov', fallback') parts))"

definition estimateParts :: "EstimateReporter \<Rightarrow> part list \<Rightarrow> (part list \<times> EstimateCoverage list \<times> int) result" where
  "estimateParts r parts = estimateParts_from r ([], [], 0) parts"

definition metadataOnly :: "EstimateProfile \<Rightarrow> string \<Rightarrow> bool" where
  "metadataOnly p typeID = (case map_of (PfExtensions p) typeID of None \<Rightarrow> False | Some x \<Rightarrow> MetadataOnly x)"

definition estimateExtensionQuality :: "EstimateProfile \<Rightarrow> string \<Rightarrow> EstimateQuality" where
  "estimateExtensionQuality p typeID =
     (if map_of (PfExtensions p) typeID = None then EstimateUnknown
      else case map_of (Capabilities p) EstimateExtension of
             None \<Rightarrow> EstimateUnknown
           | Some q \<Rightarrow> if q = QualityOther [] then EstimateUnknown else q)"

definition hasExtensionCodec :: "EstimateReporter \<Rightarrow> string \<Rightarrow> bool" where
  "hasExtensionCodec r typeID = (case RpExtensions r of None \<Rightarrow> False | Some reg \<Rightarrow> map_of (RegDecoders reg) typeID \<noteq> None)"

definition validateEstimateExtensionCodec :: "EstimateReporter \<Rightarrow> Extension \<Rightarrow> unit result" where
  "validateEstimateExtensionCodec r e =
     (if ext_type e \<noteq> OpaqueStateExtensionType then Inr ()
      else bind_res (EncodeExtension (RpWire r) e) (\<lambda>encoded.
      case RpExtensions r of
        None \<Rightarrow> Inl ErrMissingEstimateExtensionCodec
      | Some reg \<Rightarrow>
          (case DecodeExtension (RpWire r) reg encoded of
             Inl err \<Rightarrow> Inl (Wrap ErrMissingEstimateExtensionCodec err)
           | Inr restored \<Rightarrow> bind_res (EncodeExtension (RpWire r) restored) (\<lambda>again.
               if encoded \<noteq> again then Inl ErrMissingEstimateExtensionCodec else Inr ()))))"

fun estimateExtensions_from ::
  "EstimateReporter \<Rightarrow> Extension list \<times> string list \<times> EstimateCoverage list \<times> int \<Rightarrow> Extension list \<Rightarrow>
   (Extension list \<times> string list \<times> EstimateCoverage list \<times> int) result" where
  "estimateExtensions_from r acc [] = Inr acc"
| "estimateExtensions_from r (known, types, coverage, fallback) (e # exts) =
     (if e = ExtNil \<or> ext_type e = [] then Inl ErrInvalidEstimateReport
      else bind_res (validateEstimateExtensionCodec r e) (\<lambda>_.
      if \<not> hasExtensionCodec r (ext_type e) \<and> ext_type e \<noteq> OpaqueStateExtensionType
        then Inl ErrMissingEstimateExtensionCodec
      else if metadataOnly (RpProfile r) (ext_type e)
        then estimateExtensions_from r (known, types @ [ext_type e], coverage, fallback) exts
      else
        let quality = estimateExtensionQuality (RpProfile r) (ext_type e);
            partCov = [\<lparr>CovKind = EstimateExtension, CovQuality = quality, CovParts = 1, CovFallbackTokens = 0\<rparr>] in
        if quality \<noteq> EstimateUnknown
        then estimateExtensions_from r (known @ [CloneExtension e], types @ [ext_type e], mergeEstimateCoverage coverage partCov, fallback) exts
        else case PfFallback (RpProfile r) of
          None \<Rightarrow> Inl ErrUnknownEstimateCost
        | Some fb \<Rightarrow> bind_res (addEstimateTokens fallback (FbTokens fb)) (\<lambda>fallback'.
            estimateExtensions_from r (known, types @ [ext_type e],
              mergeEstimateCoverage coverage (recordEstimateFallback partCov [EstimateExtension] (FbTokens fb)), fallback') exts)))"

definition estimateExtensions ::
  "EstimateReporter \<Rightarrow> Extension list \<Rightarrow> (Extension list \<times> string list \<times> EstimateCoverage list \<times> int) result" where
  "estimateExtensions r exts = estimateExtensions_from r ([], [], [], 0) exts"

subsection \<open>Measuring a request\<close>

definition validateEstimateRefs :: "ContentRef option list \<Rightarrow> unit result" where
  "validateEstimateRefs refs =
     bind_res (map_res (\<lambda>ref. case ref of None \<Rightarrow> Inr () | Some x \<Rightarrow> ContentRef_Validate x) refs) (\<lambda>_. Inr ())"

definition prepareMessage :: "EstimateReporter \<Rightarrow> Message \<Rightarrow> unit result" where
  "prepareMessage r m =
     bind_res (MessageContentRef (RpEnv r) m) (\<lambda>_.
     bind_res (estimateParts r (MsgParts m)) (\<lambda>_.
     bind_res (estimateExtensions r (MsgExtensions m)) (\<lambda>_. Inr ())))"

fun prepareRequest_from :: "EstimateReporter \<Rightarrow> string list \<Rightarrow> EstimateSegment list \<Rightarrow> EstimateSegment list result" where
  "prepareRequest_from r seen [] = Inr []"
| "prepareRequest_from r seen (seg # segs) =
     (if EsName seg = [] \<or> EsName seg \<in> set seen then Inl ErrInvalidEstimateReport
      else let msgs = cloneMessageSlice (EsMessages seg) in
        bind_res (map_res (prepareMessage r) msgs) (\<lambda>_.
        bind_res (prepareRequest_from r (EsName seg # seen) segs) (\<lambda>rest. Inr (seg\<lparr>EsMessages := msgs\<rparr> # rest))))"

definition prepareRequest :: "EstimateReporter \<Rightarrow> EstimateRequest \<Rightarrow> EstimateRequest result" where
  "prepareRequest r req = bind_res (prepareRequest_from r [] (ErSegments req)) (\<lambda>segs. Inr (req\<lparr>ErSegments := segs\<rparr>))"

text \<open>
  One message of \<^verbatim>\<open>prepareSegment\<close>: its reference, the kinds of its units, its extension types, the message that
  the estimator may see, its fallback and its coverage.
\<close>

definition participating :: "EstimateProfile \<Rightarrow> string list \<Rightarrow> string list" where
  "participating p types = filter (\<lambda>t. \<not> metadataOnly p t) types"

definition measureMessage ::
  "EstimateReporter \<Rightarrow> Message \<Rightarrow> (ContentRef \<times> EstimateKind list list \<times> string list \<times> Message \<times> int \<times> EstimateCoverage list) result" where
  "measureMessage r m =
     bind_res (MessageContentRef (RpEnv r) m) (\<lambda>ref.
     bind_res (map_res (estimatePartKinds (RpEnv r)) (MsgParts m)) (\<lambda>kinds.
     bind_res (estimateParts r (MsgParts m)) (\<lambda>(parts, coverage, fallback).
     bind_res (estimateExtensions r (MsgExtensions m)) (\<lambda>(exts, types, extCoverage, extFallback).
     bind_res (addEstimateTokens fallback extFallback) (\<lambda>fallback'.
     Inr (ref, kinds @ map (\<lambda>_. [EstimateExtension]) (participating (RpProfile r) types), types,
          (Message_Clone m)\<lparr>MsgParts := parts, MsgExtensions := exts\<rparr>, fallback',
          mergeEstimateCoverage coverage extCoverage))))))"

fun prepareSegment_from ::
  "EstimateReporter \<Rightarrow> SegmentEstimate \<times> Message list \<times> int list \<Rightarrow> Message list \<Rightarrow> (SegmentEstimate \<times> Message list \<times> int list) result" where
  "prepareSegment_from r acc [] = Inr acc"
| "prepareSegment_from r (result, known, fallbacks) (m # msgs) =
     bind_res (measureMessage r m) (\<lambda>(ref, kinds, types, shown, fallback, coverage).
     prepareSegment_from r
       (result\<lparr>SegMessages := SegMessages result @ [ref], SegPartKinds := SegPartKinds result @ [kinds],
               SegExtensionTypes := SegExtensionTypes result @ [types],
               SegCoverage := mergeEstimateCoverage (SegCoverage result) coverage\<rparr>,
        known @ [shown], fallbacks @ [fallback]) msgs)"

definition prepareSegment :: "EstimateReporter \<Rightarrow> EstimateSegment \<Rightarrow> (SegmentEstimate \<times> Message list \<times> int list) result" where
  "prepareSegment r seg =
     prepareSegment_from r
       (\<lparr>SegName = EsName seg, SegMessages = [], SegPerMessage = [], SegTokens = 0, SegCoverage = [],
         SegPartKinds = [], SegExtensionTypes = []\<rparr>, [], []) (EsMessages seg)"

definition estimateKnown :: "EstimateReporter \<Rightarrow> Message list \<Rightarrow> int list comp" where
  "estimateKnown r known =
     bind poll (\<lambda>_.
     bind (settle (map_err (Wrap ErrTokenCountFailed) (EstimatePerMessage (RpEnv r) (RpEstimator r) (cloneMessageSlice known)))) (\<lambda>perMessage.
     bind poll (\<lambda>_.
     bind (settle (map_err (Wrap ErrTokenCountFailed) (Estimate (RpEnv r) (RpEstimator r) (cloneMessageSlice known)))) (\<lambda>tot.
     if length perMessage \<noteq> length known then fail ErrInconsistentEstimate
     else bind (lift_res (sum_from 0 perMessage)) (\<lambda>s.
          if s \<noteq> tot then fail ErrInconsistentEstimate
          else bind poll (\<lambda>_. ret perMessage))))))"

text \<open>The weights of the messages of one segment, from the shared list of weights and fallbacks.\<close>

fun weighMessages :: "int list \<times> int \<Rightarrow> (int \<times> int) list \<Rightarrow> (int list \<times> int) result" where
  "weighMessages acc [] = Inr acc"
| "weighMessages (perMessage, tokens) ((weight, fallback) # ws) =
     bind_res (addEstimateTokens weight fallback) (\<lambda>v.
     bind_res (addEstimateTokens tokens v) (\<lambda>tokens'. weighMessages (perMessage @ [v], tokens') ws))"

fun weighSegments :: "(int \<times> int) list \<Rightarrow> SegmentEstimate list \<Rightarrow> SegmentEstimate list result" where
  "weighSegments ws [] = Inr []"
| "weighSegments ws (seg # segs) =
     (let n = length (SegMessages seg) in
      bind_res (weighMessages ([], 0) (take n ws)) (\<lambda>(perMessage, tokens).
      bind_res (weighSegments (drop n ws) segs) (\<lambda>rest.
      Inr (seg\<lparr>SegPerMessage := perMessage, SegTokens := tokens\<rparr> # rest))))"

definition estimateSegments :: "EstimateReporter \<Rightarrow> EstimateSegment list \<Rightarrow> SegmentEstimate list comp" where
  "estimateSegments r inputs =
     bind (lift_res (map_res (prepareSegment r) inputs)) (\<lambda>prepared.
     let known = concat (map (\<lambda>(_, k, _). k) prepared); fallbacks = concat (map (\<lambda>(_, _, f). f) prepared) in
     bind (estimateKnown r known) (\<lambda>weights.
     lift_res (weighSegments (zip weights fallbacks) (map fst prepared))))"

definition coverageQuality :: "EstimateQuality \<Rightarrow> SegmentEstimate \<Rightarrow> EstimateQuality" where
  "coverageQuality q seg =
     (let q' = foldl worseEstimateQuality q (map CovQuality (SegCoverage seg)) in
      if SegCoverage seg = [] \<and> SegTokens seg > 0 then worseEstimateQuality q' EstimateEstimated else q')"

fun totalSegments :: "int \<times> EstimateQuality \<Rightarrow> SegmentEstimate list \<Rightarrow> (int \<times> EstimateQuality) result" where
  "totalSegments acc [] = Inr acc"
| "totalSegments (tot, quality) (seg # segs) =
     bind_res (addEstimateTokens tot (SegTokens seg)) (\<lambda>tot'. totalSegments (tot', coverageQuality quality seg) segs)"

definition ReasonTokenBudgetExceeded :: string where
  "ReasonTokenBudgetExceeded = ''token_budget_exceeded''"

definition estimateRequestDigest :: "ReportDigests \<Rightarrow> EstimateReport \<Rightarrow> string result" where
  "estimateRequestDigest D rep =
     RequestDigest D \<lparr>EvInputs = map (\<lambda>seg. (SegName seg, SegMessages seg)) (RepSegments rep),
       EvKinds = map SegPartKinds (RepSegments rep), EvExtensions = map SegExtensionTypes (RepSegments rep),
       EvBudget = RepBudget rep, EvProfileDigest = RepProfileDigest rep,
       EvManifestRef = RepManifestRef rep, EvWireRef = RepWireRef rep\<rparr>"

definition contentDigest :: "ReportDigests \<Rightarrow> EstimateReport \<Rightarrow> string result" where
  "contentDigest D rep = ReportDigest D (rep\<lparr>RepDigest := []\<rparr>)"

subsection \<open>Validating a report\<close>

fun validateManifestSegmentRefs_from :: "string list \<Rightarrow> ContentRef list \<Rightarrow> unit result" where
  "validateManifestSegmentRefs_from seen [] = Inr ()"
| "validateManifestSegmentRefs_from seen (ref # refs) =
     bind_res (ContentRef_Validate ref) (\<lambda>_.
     if RefID ref \<in> set seen then Inl ErrInvalidManifest
     else validateManifestSegmentRefs_from (RefID ref # seen) refs)"

definition validateManifestSegmentRefs :: "ContentRef list \<Rightarrow> unit result" where
  "validateManifestSegmentRefs refs = validateManifestSegmentRefs_from [] refs"

definition validateEstimateExtensionGroups :: "EstimateProfile \<Rightarrow> EstimateKind list list \<Rightarrow> string list \<Rightarrow> unit result" where
  "validateEstimateExtensionGroups p parts types =
     (if [] \<in> set types then Inl ErrInvalidEstimateReport
      else if \<exists>kinds \<in> set parts. EstimateExtension \<in> set kinds \<and> length kinds \<noteq> 1 then Inl ErrInvalidEstimateReport
      else if length (filter (\<lambda>kinds. EstimateExtension \<in> set kinds) parts) \<noteq> length (participating p types)
        then Inl ErrInvalidEstimateReport else Inr ())"

definition validateEstimateExtensions :: "SegmentEstimate \<Rightarrow> EstimateProfile \<Rightarrow> unit result" where
  "validateEstimateExtensions seg p =
     (if length (SegExtensionTypes seg) \<noteq> length (SegMessages seg) then Inl ErrInvalidEstimateReport
      else bind_res (map_res (\<lambda>(parts, types). validateEstimateExtensionGroups p parts types)
                       (zip (SegPartKinds seg) (SegExtensionTypes seg))) (\<lambda>_. Inr ()))"

definition kindCount :: "SegmentEstimate \<Rightarrow> EstimateKind \<Rightarrow> nat" where
  "kindCount seg kind = count_list (concat (concat (SegPartKinds seg))) kind"

definition validateEstimateKindCounts :: "SegmentEstimate \<Rightarrow> unit result" where
  "validateEstimateKindCounts seg =
     (let parts = concat (SegPartKinds seg) in
      if \<exists>part \<in> set parts. part = [] \<or> (\<exists>kind \<in> set part. \<not> validEstimateKind kind) then Inl ErrInvalidEstimateReport
      else if card (set (concat parts)) \<noteq> length (SegCoverage seg) then Inl ErrInvalidEstimateReport
      else if \<exists>entry \<in> set (SegCoverage seg). int (kindCount seg (CovKind entry)) \<noteq> CovParts entry
        then Inl ErrInvalidEstimateReport else Inr ())"

definition validateEstimateCoverageEntry :: "EstimateCoverage \<Rightarrow> EstimateProfile \<Rightarrow> unit result" where
  "validateEstimateCoverageEntry entry p =
     (if \<not> validEstimateKind (CovKind entry) \<or> \<not> validEstimateQuality (CovQuality entry) \<or> CovParts entry \<le> 0
        then Inl ErrInvalidEstimateReport
      else if worseEstimateQuality (CovQuality entry) (capability p (CovKind entry)) \<noteq> CovQuality entry \<or>
              (CovQuality entry \<noteq> EstimateUnknown \<and> CovFallbackTokens entry \<noteq> 0)
        then Inl ErrInvalidEstimateReport else Inr ())"

definition estimateExtensionCoverageQuality :: "SegmentEstimate \<Rightarrow> EstimateProfile \<Rightarrow> EstimateQuality" where
  "estimateExtensionCoverageQuality seg p =
     foldl worseEstimateQuality EstimateCounted
       (map (estimateExtensionQuality p) (participating p (concat (SegExtensionTypes seg))))"

definition validateEstimateSegmentCoverageEntry :: "EstimateCoverage \<Rightarrow> SegmentEstimate \<Rightarrow> EstimateProfile \<Rightarrow> unit result" where
  "validateEstimateSegmentCoverageEntry entry seg p =
     bind_res (validateEstimateCoverageEntry entry p) (\<lambda>_.
     if CovKind entry = EstimateExtension \<and> CovQuality entry \<noteq> estimateExtensionCoverageQuality seg p
     then Inl ErrInvalidEstimateReport else Inr ())"

definition estimateUnsupportedUnits :: "EstimateProfile \<Rightarrow> EstimateKind list list \<Rightarrow> string list \<Rightarrow> nat" where
  "estimateUnsupportedUnits p message types =
     length (filter (\<lambda>part. EstimateExtension \<notin> set part \<and> (\<exists>kind \<in> set part. capability p kind = EstimateUnknown)) message) +
     length (filter (\<lambda>t. \<not> metadataOnly p t \<and> estimateExtensionQuality p t = EstimateUnknown) types)"

fun estimateExpectedFallback_from :: "EstimateProfile \<Rightarrow> int \<Rightarrow> (EstimateKind list list \<times> string list) list \<Rightarrow> int result" where
  "estimateExpectedFallback_from p tot [] = Inr tot"
| "estimateExpectedFallback_from p tot ((message, types) # rest) =
     (let unsupported = int (estimateUnsupportedUnits p message types) in
      if unsupported = 0 then estimateExpectedFallback_from p tot rest
      else case PfFallback p of
        None \<Rightarrow> Inl ErrUnknownEstimateCost
      | Some fb \<Rightarrow>
          if FbTokens fb > go_div MaxInt unsupported then Inl ErrInconsistentEstimate
          else bind_res (addEstimateTokens tot (go_mul unsupported (FbTokens fb))) (\<lambda>tot'.
               estimateExpectedFallback_from p tot' rest))"

definition estimateExpectedFallback :: "SegmentEstimate \<Rightarrow> EstimateProfile \<Rightarrow> int result" where
  "estimateExpectedFallback seg p = estimateExpectedFallback_from p 0 (zip (SegPartKinds seg) (SegExtensionTypes seg))"

fun coverageLoop ::
  "SegmentEstimate \<Rightarrow> EstimateProfile \<Rightarrow> EstimateKind list \<Rightarrow> int \<times> bool \<Rightarrow> EstimateCoverage list \<Rightarrow> (int \<times> bool) result" where
  "coverageLoop seg p seen acc [] = Inr acc"
| "coverageLoop seg p seen (fallbacks, unknown) (entry # entries) =
     (if CovKind entry \<in> set seen then Inl ErrInvalidEstimateReport
      else bind_res (validateEstimateSegmentCoverageEntry entry seg p) (\<lambda>_.
           bind_res (addEstimateTokens fallbacks (CovFallbackTokens entry)) (\<lambda>fallbacks'.
           coverageLoop seg p (CovKind entry # seen) (fallbacks', unknown \<or> CovQuality entry = EstimateUnknown) entries)))"

definition validateEstimateCoverage :: "SegmentEstimate \<Rightarrow> EstimateProfile \<Rightarrow> unit result" where
  "validateEstimateCoverage seg p =
     bind_res (validateEstimateKindCounts seg) (\<lambda>_.
     bind_res (coverageLoop seg p [] (0, False) (SegCoverage seg)) (\<lambda>(fallbacks, unknown).
     if unknown \<and> (PfFallback p = None \<or> fallbacks = 0) then Inl ErrUnknownEstimateCost
     else bind_res (estimateExpectedFallback seg p) (\<lambda>expected.
     if expected \<noteq> fallbacks then Inl ErrInconsistentEstimate
     else if fallbacks > SegTokens seg \<or> (\<not> unknown \<and> fallbacks \<noteq> 0) \<or> (SegMessages seg = [] \<and> SegCoverage seg \<noteq> [])
       then Inl ErrInconsistentEstimate else Inr ())))"

definition validateEstimateSegment :: "SegmentEstimate \<Rightarrow> EstimateProfile \<Rightarrow> unit result" where
  "validateEstimateSegment seg p =
     (if length (SegMessages seg) \<noteq> length (SegPerMessage seg) \<or> length (SegMessages seg) \<noteq> length (SegPartKinds seg)
        then Inl ErrInconsistentEstimate
      else bind_res (validateEstimateExtensions seg p) (\<lambda>_.
           bind_res (validateManifestSegmentRefs (SegMessages seg)) (\<lambda>_.
           bind_res (sum_from 0 (SegPerMessage seg)) (\<lambda>s.
           if s \<noteq> SegTokens seg then Inl ErrInconsistentEstimate else validateEstimateCoverage seg p))))"

fun validateSegments_from ::
  "EstimateProfile \<Rightarrow> string list \<Rightarrow> int \<times> EstimateQuality \<Rightarrow> SegmentEstimate list \<Rightarrow> (int \<times> EstimateQuality) result" where
  "validateSegments_from p seen acc [] = Inr acc"
| "validateSegments_from p seen (tot, quality) (seg # segs) =
     (if SegName seg = [] \<or> SegName seg \<in> set seen then Inl ErrInvalidEstimateReport
      else bind_res (validateEstimateSegment seg p) (\<lambda>_.
           bind_res (addEstimateTokens tot (SegTokens seg)) (\<lambda>tot'.
           validateSegments_from p (SegName seg # seen) (tot', coverageQuality quality seg) segs)))"

definition overflowReason :: "int \<Rightarrow> int \<Rightarrow> string" where
  "overflowReason tot limit = (if tot > limit then ReasonTokenBudgetExceeded else [])"

definition validateEstimateSegments :: "EstimateReport \<Rightarrow> unit result" where
  "validateEstimateSegments rep =
     bind_res (validateSegments_from (RepProfile rep) [] (0, EstimateCounted) (RepSegments rep)) (\<lambda>(tot, quality).
     if tot \<noteq> RepTotal rep \<or> worseEstimateQuality (RepQuality rep) quality \<noteq> RepQuality rep then Inl ErrInconsistentEstimate
     else if RepOverflowReason rep \<noteq> overflowReason tot (RepEffectiveLimit rep) then Inl ErrInvalidEstimateReport else Inr ())"

definition EstimateReport_Validate :: "ReportDigests \<Rightarrow> EstimateReport \<Rightarrow> unit result" where
  "EstimateReport_Validate D rep =
     bind_res (EstimateProfile_validate (RepProfile rep)) (\<lambda>_.
     bind_res (Resolve (RepBudget rep)) (\<lambda>limit.
     if limit \<noteq> RepEffectiveLimit rep \<or> \<not> validEstimateQuality (RepQuality rep) then Inl ErrInvalidEstimateReport
     else bind_res (validateEstimateRefs [RepManifestRef rep, RepWireRef rep]) (\<lambda>_.
     bind_res (validateEstimateSegments rep) (\<lambda>_.
     if ProfileDigest D (RepProfile rep) \<noteq> Inr (RepProfileDigest rep) then Inl ErrStaleEstimate
     else if estimateRequestDigest D rep \<noteq> Inr (RepRequestDigest rep) then Inl ErrStaleEstimate
     else if contentDigest D rep \<noteq> Inr (RepDigest rep) then Inl ErrInvalidEstimateReport else Inr ()))))"

definition finalizeEstimateReport :: "ReportDigests \<Rightarrow> EstimateReport \<Rightarrow> EstimateReport result" where
  "finalizeEstimateReport D rep =
     bind_res (contentDigest D rep) (\<lambda>digest.
     let rep' = rep\<lparr>RepDigest := digest\<rparr> in
     bind_res (EstimateReport_Validate D rep') (\<lambda>_. Inr rep'))"

text \<open>\<open>draftReport\<close> is the report before its digests and its final validation.\<close>

definition draftReport :: "EstimateReporter \<Rightarrow> EstimateRequest \<Rightarrow> int \<Rightarrow> SegmentEstimate list \<Rightarrow> int \<times> EstimateQuality \<Rightarrow> EstimateReport" where
  "draftReport r req limit segs totals =
     \<lparr>RepDigest = [], RepRequestDigest = [], RepProfileDigest = [], RepProfile = RpProfile r, RepBudget = ErBudget req,
      RepEffectiveLimit = limit, RepSegments = segs, RepTotal = fst totals, RepQuality = snd totals,
      RepOverflowReason = overflowReason (fst totals) limit, RepManifestRef = ErManifestRef req, RepWireRef = ErWireRef req\<rparr>"

definition startQuality :: "EstimateReporter \<Rightarrow> EstimateQuality" where
  "startQuality r = (case EstimateAccuracy r of None \<Rightarrow> EstimateCounted | Some q \<Rightarrow> worseEstimateQuality EstimateCounted q)"

definition measureRequest :: "EstimateReporter \<Rightarrow> EstimateRequest \<Rightarrow> EstimateReport comp" where
  "measureRequest r req =
     bind poll (\<lambda>_.
     bind (lift_res (Resolve (ErBudget req))) (\<lambda>limit.
     bind (lift_res (validateEstimateRefs [ErManifestRef req, ErWireRef req])) (\<lambda>_.
     bind (lift_res (prepareRequest r req)) (\<lambda>req'.
     bind (estimateSegments r (ErSegments req')) (\<lambda>segs.
     bind (lift_res (totalSegments (0, startQuality r) segs)) (\<lambda>totals.
     ret (draftReport r req' limit segs totals)))))))"

definition sealReport :: "ReportDigests \<Rightarrow> EstimateReport \<Rightarrow> EstimateReport result" where
  "sealReport D rep =
     bind_res (ProfileDigest D (RepProfile rep)) (\<lambda>profile.
     let rep1 = rep\<lparr>RepProfileDigest := profile\<rparr> in
     bind_res (estimateRequestDigest D rep1) (\<lambda>request. Inr (rep1\<lparr>RepRequestDigest := request\<rparr>)))"

definition Report :: "ReportDigests \<Rightarrow> EstimateReporter \<Rightarrow> EstimateRequest \<Rightarrow> EstimateReport comp" where
  "Report D r req =
     bind (measureRequest r req) (\<lambda>rep.
     bind (lift_res (sealReport D rep)) (\<lambda>rep'.
     bind poll (\<lambda>_. lift_res (finalizeEstimateReport D rep'))))"

text \<open>The two methods of a reporter as an estimator, under the largest budget.\<close>

definition messagesRequest :: "Message list \<Rightarrow> EstimateRequest" where
  "messagesRequest msgs = \<lparr>ErSegments = [\<lparr>EsName = ''messages'', EsMessages = msgs\<rparr>],
     ErBudget = EffectiveInputBudget MaxInt, ErManifestRef = None, ErWireRef = None\<rparr>"

definition reporterEstimate :: "ReportDigests \<Rightarrow> EstimateReporter \<Rightarrow> Message list \<Rightarrow> int comp" where
  "reporterEstimate D r msgs = bind (Report D r (messagesRequest msgs)) (\<lambda>rep. ret (RepTotal rep))"

definition reporterPerMessage :: "ReportDigests \<Rightarrow> EstimateReporter \<Rightarrow> Message list \<Rightarrow> int list comp" where
  "reporterPerMessage D r msgs = bind (Report D r (messagesRequest msgs)) (\<lambda>rep. ret (SegPerMessage (RepSegments rep ! 0)))"

definition reporterEstimator :: "ReportDigests \<Rightarrow> EstimateReporter \<Rightarrow> TokenEstimator" where
  "reporterEstimator D r = TokenEstimator.EstimateReporter (RpEstimator r) (reporterEstimate D r) (reporterPerMessage D r)"

subsection \<open>Qualities\<close>

lemma worse_simps [simp]:
  "worseEstimateQuality EstimateUnknown q = EstimateUnknown"
  "worseEstimateQuality q EstimateUnknown = EstimateUnknown"
  "worseEstimateQuality (worseEstimateQuality a b) c = worseEstimateQuality a (worseEstimateQuality b c)"
  "worseEstimateQuality a b = EstimateUnknown \<longleftrightarrow> a = EstimateUnknown \<or> b = EstimateUnknown"
  by (auto simp: worseEstimateQuality_def)

lemma worse_valid [simp]: "validEstimateQuality (worseEstimateQuality a b)"
  by (simp add: worseEstimateQuality_def validEstimateQuality_def)

lemma worse_Counted: "validEstimateQuality q \<Longrightarrow> worseEstimateQuality EstimateCounted q = q"
  "validEstimateQuality q \<Longrightarrow> worseEstimateQuality q EstimateCounted = q"
  by (auto simp: worseEstimateQuality_def validEstimateQuality_def)

definition worst :: "EstimateQuality list \<Rightarrow> EstimateQuality" where
  "worst qs = foldl worseEstimateQuality EstimateCounted qs"

lemma foldl_worse: "foldl worseEstimateQuality (worseEstimateQuality a q) qs = worseEstimateQuality a (foldl worseEstimateQuality q qs)"
  by (induction qs arbitrary: q) simp_all

lemma worst_simps [simp]: "worst [] = EstimateCounted" "worst (qs @ [q]) = worseEstimateQuality (worst qs) q"
  by (simp_all add: worst_def)

lemma foldl_worse_valid: "validEstimateQuality q \<Longrightarrow> validEstimateQuality (foldl worseEstimateQuality q qs)"
  by (induction qs arbitrary: q) simp_all

lemma worst_valid [simp]: "validEstimateQuality (worst qs)"
  unfolding worst_def by (rule foldl_worse_valid) (simp add: validEstimateQuality_def)

lemma worst_Cons: "worst (q # qs) = worseEstimateQuality q (worst qs)"
  by (induction qs rule: rev_induct) (simp_all add: worst_def worseEstimateQuality_def)

lemma worst_append [simp]: "worst (xs @ ys) = worseEstimateQuality (worst xs) (worst ys)"
  by (induction xs) (simp_all add: worst_Cons worse_Counted)

lemma worst_single: "validEstimateQuality q \<Longrightarrow> worst [q] = q"
  by (simp add: worst_Cons worse_Counted)

lemma worst_Unknown: "worst qs = EstimateUnknown \<longleftrightarrow> EstimateUnknown \<in> set qs"
  by (induction qs) (auto simp: worst_Cons)

subsection \<open>Merging coverage adds up\<close>

definition parts_of_kind :: "EstimateCoverage list \<Rightarrow> EstimateKind \<Rightarrow> int" where
  "parts_of_kind cov k = sum_list (map CovParts (filter (\<lambda>e. CovKind e = k) cov))"

definition worst_of_kind :: "EstimateCoverage list \<Rightarrow> EstimateKind \<Rightarrow> EstimateQuality" where
  "worst_of_kind cov k = worst (map CovQuality (filter (\<lambda>e. CovKind e = k) cov))"

definition fallback_of :: "EstimateCoverage list \<Rightarrow> int" where
  "fallback_of cov = sum_list (map CovFallbackTokens cov)"

definition entry_ok :: "EstimateProfile \<Rightarrow> EstimateCoverage \<Rightarrow> bool" where
  "entry_ok p e \<longleftrightarrow> validEstimateKind (CovKind e) \<and> validEstimateQuality (CovQuality e) \<and> 0 < CovParts e \<and>
     0 \<le> CovFallbackTokens e \<and> (CovQuality e \<noteq> EstimateUnknown \<longrightarrow> CovFallbackTokens e = 0) \<and>
     worseEstimateQuality (CovQuality e) (capability p (CovKind e)) = CovQuality e"

lemma merge_Nil [simp]: "mergeEstimateCoverage d [] = d"
  and merge_Cons: "mergeEstimateCoverage d (i # s) = mergeEstimateCoverage (mergeEntry d i) s"
  by (simp_all add: mergeEstimateCoverage_def)

lemma fallback_of_simps [simp]:
  "fallback_of [] = 0" "fallback_of (e # cov) = CovFallbackTokens e + fallback_of cov"
  by (simp_all add: fallback_of_def)

lemma fallback_of_zero: "\<forall>e \<in> set cov. CovFallbackTokens e = 0 \<Longrightarrow> fallback_of cov = 0"
  by (induction cov) auto

lemma fallback_of_nonneg: "\<forall>e \<in> set cov. entry_ok p e \<Longrightarrow> 0 \<le> fallback_of cov"
  by (induction cov) (auto simp: entry_ok_def)

lemma mergeEntry_kinds [simp]: "CovKind ` set (mergeEntry d i) = insert (CovKind i) (CovKind ` set d)"
  by (induction d) auto

lemma mergeEntry_distinct: "distinct (map CovKind d) \<Longrightarrow> distinct (map CovKind (mergeEntry d i))"
proof (induction d)
  case (Cons e d)
  have "set (map CovKind (mergeEntry d i)) = insert (CovKind i) (set (map CovKind d))" by (simp del: set_map add: set_map)
  with Cons show ?case by auto
qed simp

lemma mergeEntry_parts: "parts_of_kind (mergeEntry d i) k = parts_of_kind d k + (if CovKind i = k then CovParts i else 0)"
  by (induction d) (auto simp: parts_of_kind_def)

lemma mergeEntry_worst:
  "\<forall>e \<in> set d. validEstimateQuality (CovQuality e) \<Longrightarrow>
   worst_of_kind (mergeEntry d i) k =
     worseEstimateQuality (worst_of_kind d k) (if CovKind i = k then CovQuality i else EstimateCounted)"
proof (induction d)
  case Nil
  then show ?case by (simp add: worst_of_kind_def worst_Cons worseEstimateQuality_def)
next
  case (Cons e d)
  have comm: "worseEstimateQuality a (worseEstimateQuality b c) = worseEstimateQuality a (worseEstimateQuality c b)" for a b c
    by (simp add: worseEstimateQuality_def)
  show ?case using Cons by (auto simp: worst_of_kind_def worst_Cons worse_Counted comm)
qed

lemma mergeEntry_ok:
  assumes "\<forall>e \<in> set d. entry_ok p e" "entry_ok p i" "fallback_of d + CovFallbackTokens i \<le> MaxInt"
  shows "(\<forall>e \<in> set (mergeEntry d i). entry_ok p e) \<and> fallback_of (mergeEntry d i) = fallback_of d + CovFallbackTokens i"
  using assms
proof (induction d)
  case (Cons e d)
  have rest: "0 \<le> fallback_of d" "0 \<le> CovFallbackTokens e" "0 \<le> CovFallbackTokens i"
    using Cons.prems fallback_of_nonneg [of d p] by (auto simp: entry_ok_def)
  have add: "go_add (CovFallbackTokens e) (CovFallbackTokens i) = CovFallbackTokens e + CovFallbackTokens i"
    by (rule go_add_exact) (use Cons.prems rest in \<open>simp add: go_int_def MaxInt_def\<close>)
  show ?case
  proof (cases "CovKind e = CovKind i")
    case True
    then show ?thesis using Cons.prems add by (auto simp: entry_ok_def)
  next
    case False
    have "fallback_of d + CovFallbackTokens i \<le> MaxInt" using Cons.prems rest by simp
    then show ?thesis using Cons False by auto
  qed
qed simp

lemma merge_distinct: "distinct (map CovKind d) \<Longrightarrow> distinct (map CovKind (mergeEstimateCoverage d s))"
  by (induction s arbitrary: d) (auto simp: merge_Cons dest: mergeEntry_distinct)

lemma merge_kinds [simp]: "CovKind ` set (mergeEstimateCoverage d s) = CovKind ` set d \<union> CovKind ` set s"
  by (induction s arbitrary: d) (auto simp: merge_Cons)

lemma parts_of_kind_simps [simp]:
  "parts_of_kind [] k = 0" "parts_of_kind (e # cov) k = (if CovKind e = k then CovParts e else 0) + parts_of_kind cov k"
  by (simp_all add: parts_of_kind_def)

lemma merge_parts: "parts_of_kind (mergeEstimateCoverage d s) k = parts_of_kind d k + parts_of_kind s k"
  by (induction s arbitrary: d) (simp_all add: merge_Cons mergeEntry_parts)

lemma merge_ok:
  assumes "\<forall>e \<in> set d. entry_ok p e" "\<forall>e \<in> set s. entry_ok p e" "fallback_of d + fallback_of s \<le> MaxInt"
  shows "(\<forall>e \<in> set (mergeEstimateCoverage d s). entry_ok p e) \<and>
     fallback_of (mergeEstimateCoverage d s) = fallback_of d + fallback_of s \<and>
     worst_of_kind (mergeEstimateCoverage d s) k = worseEstimateQuality (worst_of_kind d k) (worst_of_kind s k)"
  using assms
proof (induction s arbitrary: d)
  case Nil
  then show ?case by (simp add: worst_of_kind_def worse_Counted)
next
  case (Cons i s)
  have "0 \<le> fallback_of s" using Cons.prems fallback_of_nonneg [of s p] by simp
  then have step: "(\<forall>e \<in> set (mergeEntry d i). entry_ok p e) \<and> fallback_of (mergeEntry d i) = fallback_of d + CovFallbackTokens i"
    by (intro mergeEntry_ok) (use Cons.prems in auto)
  have "\<forall>e \<in> set d. validEstimateQuality (CovQuality e)" using Cons.prems by (simp add: entry_ok_def)
  then have w: "worst_of_kind (mergeEntry d i) k =
      worseEstimateQuality (worst_of_kind d k) (if CovKind i = k then CovQuality i else EstimateCounted)"
    by (rule mergeEntry_worst)
  have wi: "worst_of_kind (i # s) k = worseEstimateQuality (if CovKind i = k then CovQuality i else EstimateCounted) (worst_of_kind s k)"
    by (simp add: worst_of_kind_def worst_Cons worse_Counted)
  show ?case using Cons.IH [of "mergeEntry d i"] step Cons.prems w wi by (simp add: merge_Cons)
qed

subsection \<open>What a coverage accounts for\<close>

text \<open>
  \<open>covers p parts types cov fb\<close>: the coverage \<open>cov\<close> and the fallback \<open>fb\<close> account for exactly the units
  \<open>parts\<close> (one group of kinds each) and the extension types \<open>types\<close>.
\<close>

definition fallbackTokens :: "EstimateProfile \<Rightarrow> int" where
  "fallbackTokens p = (case PfFallback p of None \<Rightarrow> 0 | Some fb \<Rightarrow> FbTokens fb)"

definition group_ok :: "EstimateKind list \<Rightarrow> bool" where
  "group_ok part \<longleftrightarrow> part \<noteq> [] \<and> (\<forall>k \<in> set part. validEstimateKind k) \<and> (EstimateExtension \<in> set part \<longrightarrow> length part = 1)"

definition covers :: "EstimateProfile \<Rightarrow> EstimateKind list list \<Rightarrow> string list \<Rightarrow> EstimateCoverage list \<Rightarrow> int \<Rightarrow> bool" where
  "covers p parts types cov fb \<longleftrightarrow>
     distinct (map CovKind cov) \<and> (\<forall>e \<in> set cov. entry_ok p e) \<and> CovKind ` set cov = set (concat parts) \<and>
     (\<forall>k. parts_of_kind cov k = int (count_list (concat parts) k)) \<and>
     worst_of_kind cov EstimateExtension = worst (map (estimateExtensionQuality p) (participating p types)) \<and>
     fallback_of cov = fb \<and> fb = fallbackTokens p * int (estimateUnsupportedUnits p parts types) \<and>
     (0 < estimateUnsupportedUnits p parts types \<longrightarrow> PfFallback p \<noteq> None) \<and>
     ((\<exists>e \<in> set cov. CovQuality e = EstimateUnknown) \<longrightarrow> 0 < estimateUnsupportedUnits p parts types) \<and>
     (\<forall>part \<in> set parts. group_ok part) \<and> [] \<notin> set types \<and>
     length (filter (\<lambda>kinds. EstimateExtension \<in> set kinds) parts) = length (participating p types)"

lemma units_append: "estimateUnsupportedUnits p (a @ b) (s @ t) = estimateUnsupportedUnits p a s + estimateUnsupportedUnits p b t"
  by (simp add: estimateUnsupportedUnits_def)

lemma participating_append [simp]: "participating p (s @ t) = participating p s @ participating p t"
  by (simp add: participating_def)

lemma coversD:
  assumes "covers p parts types cov fb"
  shows "\<forall>e \<in> set cov. entry_ok p e" "fallback_of cov = fb"
    "fb = fallbackTokens p * int (estimateUnsupportedUnits p parts types)"
    "(\<exists>e \<in> set cov. CovQuality e = EstimateUnknown) \<longrightarrow> 0 < estimateUnsupportedUnits p parts types"
    "CovKind ` set cov = set (concat parts)"
  using assms unfolding covers_def by blast+

lemma covers_nonneg: "covers p parts types cov fb \<Longrightarrow> 0 \<le> fb"
  using fallback_of_nonneg [of cov p] coversD(1,2) [of p parts types cov fb] by simp

lemma covers_Nil: "covers p [] [] [] 0"
  by (simp add: covers_def estimateUnsupportedUnits_def participating_def worst_of_kind_def)

lemma mergeEntry_Unknown:
  "e \<in> set (mergeEntry d i) \<Longrightarrow> CovQuality e = EstimateUnknown \<Longrightarrow> \<exists>x \<in> set (i # d). CovQuality x = EstimateUnknown"
  by (induction d) (auto split: if_splits)

lemma merge_Unknown:
  "\<exists>e \<in> set (mergeEstimateCoverage d s). CovQuality e = EstimateUnknown \<Longrightarrow> \<exists>x \<in> set d \<union> set s. CovQuality x = EstimateUnknown"
proof (induction s arbitrary: d)
  case (Cons i s)
  from Cons.IH [of "mergeEntry d i"] Cons.prems obtain x
    where "x \<in> set (mergeEntry d i) \<union> set s" "CovQuality x = EstimateUnknown" by (auto simp: merge_Cons)
  then show ?case using mergeEntry_Unknown [of x d i] by auto
qed auto

lemma covers_append:
  assumes "covers p a s c f" "covers p b t d g" "f + g \<le> MaxInt"
  shows "covers p (a @ b) (s @ t) (mergeEstimateCoverage c d) (f + g)"
proof -
  have ok: "\<forall>e \<in> set c. entry_ok p e" "\<forall>e \<in> set d. entry_ok p e" "fallback_of c + fallback_of d \<le> MaxInt"
    using assms by (auto simp: covers_def)
  note m = merge_ok [OF ok, of EstimateExtension]
  have "(\<exists>e \<in> set (mergeEstimateCoverage c d). CovQuality e = EstimateUnknown) \<longrightarrow>
      0 < estimateUnsupportedUnits p (a @ b) (s @ t)"
  proof
    assume "\<exists>e \<in> set (mergeEstimateCoverage c d). CovQuality e = EstimateUnknown"
    from merge_Unknown [OF this] show "0 < estimateUnsupportedUnits p (a @ b) (s @ t)"
      using coversD(4) [OF assms(1)] coversD(4) [OF assms(2)] by (auto simp: units_append)
  qed
  moreover have "distinct (map CovKind (mergeEstimateCoverage c d))"
    using assms(1) by (simp add: covers_def merge_distinct)
  moreover have "0 < estimateUnsupportedUnits p (a @ b) (s @ t) \<longrightarrow> PfFallback p \<noteq> None"
    using assms(1,2) by (auto simp: covers_def units_append)
  moreover have "f + g = fallbackTokens p * int (estimateUnsupportedUnits p (a @ b) (s @ t))"
    using coversD(3) [OF assms(1)] coversD(3) [OF assms(2)] by (simp add: units_append algebra_simps)
  ultimately show ?thesis
    using assms(1,2) m unfolding covers_def by (simp add: merge_parts ball_Un)
qed

subsection \<open>Parts and extensions are accounted for\<close>

definition profile_ok :: "EstimateProfile \<Rightarrow> bool" where
  "profile_ok p \<longleftrightarrow> EstimateProfile_validate p = Inr ()"

lemma profile_quality: "profile_ok p \<Longrightarrow> validEstimateQuality (capability p k)"
proof -
  assume "profile_ok p"
  then have "\<forall>(kind, quality) \<in> set (Capabilities p). validEstimateQuality quality"
    by (auto simp: profile_ok_def EstimateProfile_validate_def bind_res_Inr_iff split: if_splits)
  then show ?thesis
    by (auto simp: capability_def validEstimateQuality_def split: option.split dest: map_of_SomeD)
qed

lemma profile_fallback: "profile_ok p \<Longrightarrow> PfFallback p \<noteq> None \<Longrightarrow> 0 < fallbackTokens p"
  by (auto simp: profile_ok_def EstimateProfile_validate_def bind_res_Inr_iff fallbackTokens_def split: if_splits option.splits)

lemma extensionQuality_capability:
  assumes "profile_ok p"
  shows "estimateExtensionQuality p t = EstimateUnknown \<or> estimateExtensionQuality p t = capability p EstimateExtension"
  by (auto simp: estimateExtensionQuality_def capability_def split: option.split)

lemma worse_self: "validEstimateQuality q \<Longrightarrow> worseEstimateQuality q q = q"
  by (auto simp: worseEstimateQuality_def validEstimateQuality_def)

lemma partKinds_ok: "estimatePartKinds E p = Inr kinds \<Longrightarrow> group_ok kinds \<and> EstimateExtension \<notin> set kinds \<and> distinct kinds"
  by (auto simp: estimatePartKinds_def estimatePayloadKinds_def group_ok_def validEstimateKind_def bind_res_Inr_iff
      split: option.splits ContentPart.splits if_splits)

definition plainCoverage :: "EstimateProfile \<Rightarrow> EstimateKind list \<Rightarrow> EstimateCoverage list" where
  "plainCoverage p kinds = fst (partCoverage p kinds)"

definition chargedCoverage :: "EstimateProfile \<Rightarrow> EstimateKind list \<Rightarrow> int \<Rightarrow> EstimateCoverage list" where
  "chargedCoverage p kinds tokens =
     map (\<lambda>e. e\<lparr>CovQuality := EstimateUnknown\<rparr>) (recordEstimateFallback (plainCoverage p kinds) kinds tokens)"

lemma record_map:
  "map CovKind (recordEstimateFallback cov kinds tokens) = map CovKind cov"
  "map CovParts (recordEstimateFallback cov kinds tokens) = map CovParts cov"
  by (induction cov) auto

lemma parts_of_kind_maps: "map CovKind c = map CovKind d \<Longrightarrow> map CovParts c = map CovParts d \<Longrightarrow> parts_of_kind c k = parts_of_kind d k"
proof (induction c arbitrary: d)
  case (Cons e c)
  then obtain x d' where "d = x # d'" "CovKind e = CovKind x" "CovParts e = CovParts x" by (cases d) auto
  then show ?case using Cons.IH [of d'] Cons.prems by simp
qed simp

lemma plain_parts: "parts_of_kind (plainCoverage p kinds) k = int (count_list kinds k)"
  by (induction kinds) (auto simp: plainCoverage_def partCoverage_def)

lemma plain_map [simp]: "map CovKind (plainCoverage p kinds) = kinds"
  by (simp add: plainCoverage_def partCoverage_def comp_def)

lemma record_fallback:
  assumes "\<exists>e \<in> set cov. CovQuality e = EstimateUnknown \<and> CovKind e \<in> set kinds" "\<forall>e \<in> set cov. CovFallbackTokens e = 0"
    and "0 \<le> tokens" "tokens \<le> MaxInt"
  shows "fallback_of (recordEstimateFallback cov kinds tokens) = tokens \<and>
     (\<forall>e \<in> set (recordEstimateFallback cov kinds tokens). 0 \<le> CovFallbackTokens e)"
proof -
  have "go_int (0 + tokens)" using assms(3,4) by (simp add: go_int_def MaxInt_def)
  then have add: "go_add 0 tokens = tokens" by (simp only: go_add_exact)
  show ?thesis
    using assms(1,2)
  proof (induction cov)
    case (Cons e cov)
    then show ?case using add fallback_of_zero [of cov] assms(3) by auto
  qed simp
qed

lemma group_units:
  assumes "group_ok kinds" "EstimateExtension \<notin> set kinds"
  shows "estimateUnsupportedUnits p [kinds] [] = (if (\<exists>k \<in> set kinds. capability p k = EstimateUnknown) then 1 else 0)"
  using assms by (simp add: estimateUnsupportedUnits_def)

lemma worst_absent: "EstimateExtension \<notin> CovKind ` set cov \<Longrightarrow> worst_of_kind cov EstimateExtension = EstimateCounted"
proof -
  assume "EstimateExtension \<notin> CovKind ` set cov"
  then have "filter (\<lambda>e. CovKind e = EstimateExtension) cov = []" by (auto simp: filter_empty_conv image_iff)
  then show ?thesis by (simp add: worst_of_kind_def)
qed

lemma covers_group:
  assumes group: "group_ok kinds" "EstimateExtension \<notin> set kinds" "distinct kinds"
    and cov: "map CovKind cov = kinds" "map CovParts cov = map (\<lambda>_. 1) kinds" "\<forall>e \<in> set cov. entry_ok p e" "fallback_of cov = fb"
    and fb: "fb = (if (\<exists>k \<in> set kinds. capability p k = EstimateUnknown) then fallbackTokens p else 0)"
      "(\<exists>k \<in> set kinds. capability p k = EstimateUnknown) \<longrightarrow> PfFallback p \<noteq> None"
    and unknown: "\<exists>e \<in> set cov. CovQuality e = EstimateUnknown \<Longrightarrow> (\<exists>k \<in> set kinds. capability p k = EstimateUnknown)"
  shows "covers p [kinds] [] cov fb"
proof -
  have kinds: "CovKind ` set cov = set kinds" using cov(1) by (metis set_map)
  have "parts_of_kind cov k = parts_of_kind (plainCoverage p kinds) k" for k
    by (rule parts_of_kind_maps) (use cov(1,2) in \<open>simp_all add: plainCoverage_def partCoverage_def comp_def\<close>)
  then have parts: "parts_of_kind cov k = int (count_list kinds k)" for k by (simp add: plain_parts)
  have "filter (\<lambda>kinds. EstimateExtension \<in> set kinds) [kinds] = []" using group(2) by simp
  moreover have "worst_of_kind cov EstimateExtension = EstimateCounted"
    using kinds group(2) by (simp add: worst_absent)
  moreover have "estimateUnsupportedUnits p [kinds] [] = (if (\<exists>k \<in> set kinds. capability p k = EstimateUnknown) then 1 else 0)"
    by (rule group_units [OF group(1,2)])
  ultimately show ?thesis
    unfolding covers_def using group cov fb kinds parts unknown by (auto simp: participating_def)
qed

lemma plain_entries:
  assumes "e \<in> set (plainCoverage p kinds)"
  shows "CovQuality e = capability p (CovKind e) \<and> CovKind e \<in> set kinds \<and> CovParts e = 1 \<and> CovFallbackTokens e = 0"
  using assms by (auto simp: plainCoverage_def partCoverage_def)

lemma record_kind_parts:
  assumes "e \<in> set (recordEstimateFallback cov kinds tokens)"
  shows "\<exists>x \<in> set cov. CovKind e = CovKind x \<and> CovParts e = CovParts x"
  using assms by (induction cov) (auto split: if_splits)

lemma partCoverage_unknown:
  "snd (partCoverage p kinds) = EstimateUnknown \<longleftrightarrow> (\<exists>k \<in> set kinds. capability p k = EstimateUnknown)"
proof -
  have "worst (map (capability p) kinds) = EstimateUnknown \<longleftrightarrow> (\<exists>k \<in> set kinds. capability p k = EstimateUnknown)"
    by (induction kinds) (auto simp: worst_Cons)
  then show ?thesis by (simp add: partCoverage_def worst_def)
qed

lemma covers_plain:
  assumes "profile_ok p" "group_ok kinds" "EstimateExtension \<notin> set kinds" "distinct kinds"
    and "snd (partCoverage p kinds) \<noteq> EstimateUnknown"
  shows "covers p [kinds] [] (fst (partCoverage p kinds)) 0"
proof -
  have none: "\<forall>k \<in> set kinds. capability p k \<noteq> EstimateUnknown" using assms(5) by (simp add: partCoverage_unknown)
  have ok: "\<forall>e \<in> set (plainCoverage p kinds). entry_ok p e"
    using plain_entries [of _ p kinds] assms(1,2) profile_quality [of p] by (auto simp: entry_ok_def group_ok_def worse_self)
  have zero: "fallback_of (plainCoverage p kinds) = 0"
    by (simp add: fallback_of_def plainCoverage_def partCoverage_def comp_def)
  have "map CovParts (plainCoverage p kinds) = map (\<lambda>_. 1) kinds" by (simp add: plainCoverage_def partCoverage_def)
  then have "covers p [kinds] [] (plainCoverage p kinds) 0"
    by (rule covers_group [OF assms(2-4) plain_map _ ok zero]) (use none plain_entries [of _ p kinds] in auto)
  then show ?thesis by (simp add: plainCoverage_def)
qed

lemma covers_charged:
  assumes "profile_ok p" "group_ok kinds" "EstimateExtension \<notin> set kinds" "distinct kinds"
    and "snd (partCoverage p kinds) = EstimateUnknown" "PfFallback p = Some fb" "FbTokens fb \<le> MaxInt"
  shows "covers p [kinds] [] (map (\<lambda>e. e\<lparr>CovQuality := EstimateUnknown\<rparr>)
      (recordEstimateFallback (fst (partCoverage p kinds)) kinds (FbTokens fb))) (FbTokens fb)"
proof -
  let ?c = "chargedCoverage p kinds (FbTokens fb)" and ?rec = "recordEstimateFallback (plainCoverage p kinds) kinds (FbTokens fb)"
  have some: "(\<exists>k \<in> set kinds. capability p k = EstimateUnknown)" using assms(5) by (simp add: partCoverage_unknown)
  have pos: "0 < FbTokens fb" using profile_fallback [OF assms(1)] assms(6) by (simp add: fallbackTokens_def)
  from some obtain k where "k \<in> set kinds" "capability p k = EstimateUnknown" by auto
  then have "\<exists>e \<in> set (plainCoverage p kinds). CovQuality e = EstimateUnknown \<and> CovKind e \<in> set kinds"
    by (auto simp: plainCoverage_def partCoverage_def)
  then have rf: "fallback_of ?rec = FbTokens fb \<and> (\<forall>e \<in> set ?rec. 0 \<le> CovFallbackTokens e)"
    by (rule record_fallback) (use plain_entries [of _ p kinds] pos assms(7) in auto)
  have "fallback_of ?c = fallback_of ?rec" by (simp add: chargedCoverage_def fallback_of_def comp_def)
  with rf have fb: "fallback_of ?c = FbTokens fb" by simp
  have ok: "\<forall>e \<in> set ?c. entry_ok p e"
  proof
    fix e assume "e \<in> set ?c"
    then obtain x where x: "x \<in> set ?rec" "e = x\<lparr>CovQuality := EstimateUnknown\<rparr>" by (auto simp: chargedCoverage_def)
    from record_kind_parts [OF x(1)] plain_entries [of _ p kinds] have "CovKind x \<in> set kinds" "CovParts x = 1" by auto
    then show "entry_ok p e" using rf x assms(2) by (auto simp: entry_ok_def group_ok_def validEstimateQuality_def)
  qed
  have "map CovKind ?c = map CovKind ?rec" by (simp add: chargedCoverage_def comp_def)
  then have k: "map CovKind ?c = kinds" by (simp add: record_map)
  have "map CovParts ?c = map CovParts ?rec" by (simp add: chargedCoverage_def comp_def)
  then have n: "map CovParts ?c = map (\<lambda>_. 1) kinds" by (simp add: record_map plainCoverage_def partCoverage_def comp_def)
  have "covers p [kinds] [] ?c (FbTokens fb)"
    by (rule covers_group [OF assms(2-4) k n ok fb]) (use some assms(6) in \<open>simp_all add: fallbackTokens_def\<close>)
  then show ?thesis by (simp add: chargedCoverage_def plainCoverage_def)
qed

lemma covers_metadata: "metadataOnly p t \<Longrightarrow> t \<noteq> [] \<Longrightarrow> covers p [] [t] [] 0"
  by (simp add: covers_def estimateUnsupportedUnits_def participating_def worst_of_kind_def)

lemma covers_extension:
  assumes "profile_ok p" "\<not> metadataOnly p t" "t \<noteq> []"
    and "if estimateExtensionQuality p t = EstimateUnknown
         then (\<exists>x. PfFallback p = Some x) \<and> fb = fallbackTokens p \<and> fb \<le> MaxInt else fb = 0"
    and "e = \<lparr>CovKind = EstimateExtension, CovQuality = estimateExtensionQuality p t, CovParts = 1, CovFallbackTokens = fb\<rparr>"
  shows "covers p [[EstimateExtension]] [t] [e] fb"
proof -
  have q: "validEstimateQuality (estimateExtensionQuality p t) \<and>
      worseEstimateQuality (estimateExtensionQuality p t) (capability p EstimateExtension) = estimateExtensionQuality p t"
    using extensionQuality_capability [OF assms(1), of t] profile_quality [OF assms(1), of EstimateExtension]
    by (auto simp: worse_self validEstimateQuality_def)
  have pos: "(\<exists>x. PfFallback p = Some x) \<Longrightarrow> 0 < fallbackTokens p" using profile_fallback [OF assms(1)] by auto
  have units: "estimateUnsupportedUnits p [[EstimateExtension]] [t] =
      (if estimateExtensionQuality p t = EstimateUnknown then 1 else 0)"
    using assms(2) by (simp add: estimateUnsupportedUnits_def)
  have "entry_ok p e" using q assms(4) pos unfolding assms(5) entry_ok_def by (auto simp: validEstimateKind_def split: if_splits)
  then show ?thesis
    using assms(2-4) units q by (auto simp: covers_def assms(5) participating_def worst_of_kind_def worst_single group_ok_def
        validEstimateKind_def split: if_splits)
qed

lemma addEstimate_Inr: "addEstimateTokens a b = Inr c \<Longrightarrow> 0 \<le> a \<and> 0 \<le> b \<and> (a \<le> MaxInt \<longrightarrow> a + b \<le> MaxInt \<and> c = a + b)"
proof (cases "a \<le> MaxInt")
  case True
  then show "addEstimateTokens a b = Inr c \<Longrightarrow> ?thesis" by (simp add: addEstimateTokens_Inr)
qed (auto simp: addEstimateTokens_def split: if_splits)

lemma estimateParts_from_covers:
  assumes "profile_ok (RpProfile r)" "covers (RpProfile r) done [] cov fb" "fb \<le> MaxInt"
    and "estimateParts_from r (kn, cov, fb) ps = Inr (kn', cov', fb')"
  shows "\<exists>kss. map_res (estimatePartKinds (RpEnv r)) ps = Inr kss \<and> covers (RpProfile r) (done @ kss) [] cov' fb' \<and> fb' \<le> MaxInt"
  using assms
proof (induction ps arbitrary: "done" kn cov fb)
  case Nil
  then show ?case by simp
next
  case (Cons q ps)
  let ?p = "RpProfile r"
  from Cons.prems(4) obtain kinds where k: "estimatePartKinds (RpEnv r) q = Inr kinds"
    by (auto simp: bind_res_Inr_iff)
  note g = partKinds_ok [OF k, THEN conjunct1] partKinds_ok [OF k, THEN conjunct2, THEN conjunct1]
    partKinds_ok [OF k, THEN conjunct2, THEN conjunct2]
  have step: "\<exists>kss. map_res (estimatePartKinds (RpEnv r)) ps = Inr kss \<and> covers ?p ((done @ [kinds]) @ kss) [] cov' fb' \<and> fb' \<le> MaxInt"
    if add: "covers ?p [kinds] [] c f" "fb + f \<le> MaxInt"
      and run: "estimateParts_from r (kn1, mergeEstimateCoverage cov c, fb + f) ps = Inr (kn', cov', fb')" for kn1 c f
  proof -
    have "covers ?p (done @ [kinds]) ([] @ []) (mergeEstimateCoverage cov c) (fb + f)"
      by (rule covers_append [OF Cons.prems(2) add])
    from Cons.IH [OF Cons.prems(1) this [simplified] add(2) run] show ?thesis by simp
  qed
  have "\<exists>kss. map_res (estimatePartKinds (RpEnv r)) ps = Inr kss \<and> covers ?p ((done @ [kinds]) @ kss) [] cov' fb' \<and> fb' \<le> MaxInt"
  proof (cases "snd (partCoverage ?p kinds) = EstimateUnknown")
    case False
    have "estimateParts_from r (kn @ [cloneKnownPart q], mergeEstimateCoverage cov (fst (partCoverage ?p kinds)), fb + 0) ps =
        Inr (kn', cov', fb')"
      using Cons.prems(4) k False by (simp add: case_prod_beta)
    then show ?thesis
      by (rule step [OF covers_plain [OF Cons.prems(1) g False], rotated]) (use Cons.prems(3) in simp)
  next
    case True
    then obtain fbk fb1 where fbk: "PfFallback ?p = Some fbk" and add: "addEstimateTokens fb (FbTokens fbk) = Inr fb1"
      and run: "estimateParts_from r (kn, mergeEstimateCoverage cov
          (map (\<lambda>e. e\<lparr>CovQuality := EstimateUnknown\<rparr>) (recordEstimateFallback (fst (partCoverage ?p kinds)) kinds (FbTokens fbk))), fb1) ps =
          Inr (kn', cov', fb')"
      using Cons.prems(4) k by (auto simp: case_prod_beta bind_res_Inr_iff Let_def split: option.splits)
    from addEstimate_Inr [OF add] Cons.prems(3) have sum: "fb1 = fb + FbTokens fbk" "fb + FbTokens fbk \<le> MaxInt" "FbTokens fbk \<le> MaxInt"
      by auto
    from step [OF covers_charged [OF Cons.prems(1) g True fbk sum(3)] sum(2)] run show ?thesis by (simp add: sum(1))
  qed
  then show ?case using k by auto
qed

lemma estimateParts_covers:
  assumes "profile_ok (RpProfile r)" "estimateParts r ps = Inr (kn, cov, fb)"
  shows "\<exists>kss. map_res (estimatePartKinds (RpEnv r)) ps = Inr kss \<and> covers (RpProfile r) kss [] cov fb \<and> fb \<le> MaxInt"
  using estimateParts_from_covers [OF assms(1) covers_Nil] assms(2) by (simp add: estimateParts_def MaxInt_def)

lemma estimateExtensions_from_covers:
  assumes "profile_ok (RpProfile r)"
    and "covers (RpProfile r) (map (\<lambda>_. [EstimateExtension]) (participating (RpProfile r) types)) types cov fb" "fb \<le> MaxInt"
    and "estimateExtensions_from r (kn, types, cov, fb) es = Inr (kn', types', cov', fb')"
  shows "covers (RpProfile r) (map (\<lambda>_. [EstimateExtension]) (participating (RpProfile r) types')) types' cov' fb' \<and> fb' \<le> MaxInt"
  using assms
proof (induction es arbitrary: kn types cov fb)
  case Nil
  then show ?case by simp
next
  case (Cons e es)
  let ?p = "RpProfile r" and ?t = "ext_type e" and ?q = "estimateExtensionQuality (RpProfile r) (ext_type e)"
  have t: "?t \<noteq> []" using Cons.prems(4) by (auto split: if_splits)
  have step: ?case
    if add: "covers ?p (map (\<lambda>_. [EstimateExtension]) (participating ?p [?t])) [?t] c f" "fb + f \<le> MaxInt"
      and run: "estimateExtensions_from r (kn1, types @ [?t], mergeEstimateCoverage cov c, fb + f) es = Inr (kn', types', cov', fb')" for kn1 c f
  proof -
    have "covers ?p (map (\<lambda>_. [EstimateExtension]) (participating ?p (types @ [?t]))) (types @ [?t]) (mergeEstimateCoverage cov c) (fb + f)"
      using covers_append [OF Cons.prems(2) add] by simp
    from Cons.IH [OF Cons.prems(1) this add(2) run] show ?thesis .
  qed
  show ?case
  proof (cases "metadataOnly ?p ?t")
    case True
    have "estimateExtensions_from r (kn, types @ [?t], mergeEstimateCoverage cov [], fb + 0) es = Inr (kn', types', cov', fb')"
      using Cons.prems(4) True t by (auto simp: bind_res_Inr_iff split: if_splits)
    then show ?thesis
      by (rule step [rotated 2]) (use True t Cons.prems(3) covers_metadata in \<open>auto simp: participating_def\<close>)
  next
    case False
    have part: "participating ?p [?t] = [?t]" using False by (simp add: participating_def)
    let ?e = "\<lambda>f. \<lparr>CovKind = EstimateExtension, CovQuality = ?q, CovParts = 1, CovFallbackTokens = f\<rparr>"
    show ?thesis
    proof (cases "?q = EstimateUnknown")
      case known: False
      have "estimateExtensions_from r (kn @ [CloneExtension e], types @ [?t], mergeEstimateCoverage cov [?e 0], fb + 0) es = Inr (kn', types', cov', fb')"
        using Cons.prems(4) False t known by (auto simp: bind_res_Inr_iff Let_def split: if_splits)
      moreover have "covers ?p [[EstimateExtension]] [?t] [?e 0] 0"
        by (rule covers_extension [OF Cons.prems(1) False t _ refl]) (use known in simp)
      ultimately show ?thesis by (intro step [rotated 2]) (use part Cons.prems(3) in auto)
    next
      case unknown: True
      obtain fbk fb1 where fbk: "PfFallback ?p = Some fbk" and add: "addEstimateTokens fb (FbTokens fbk) = Inr fb1"
        and run: "estimateExtensions_from r (kn, types @ [?t], mergeEstimateCoverage cov
            (recordEstimateFallback [?e 0] [EstimateExtension] (FbTokens fbk)), fb1) es = Inr (kn', types', cov', fb')"
        using Cons.prems(4) False t unknown by (auto simp: bind_res_Inr_iff Let_def split: if_splits option.splits)
      from addEstimate_Inr [OF add] Cons.prems(3) have sum: "fb1 = fb + FbTokens fbk" "fb + FbTokens fbk \<le> MaxInt" "FbTokens fbk \<le> MaxInt" "0 \<le> FbTokens fbk"
        by auto
      have "go_int (0 + FbTokens fbk)" using sum by (simp add: go_int_def MaxInt_def)
      then have "go_add 0 (FbTokens fbk) = FbTokens fbk" by (simp only: go_add_exact)
      then have "recordEstimateFallback [?e 0] [EstimateExtension] (FbTokens fbk) = [?e (FbTokens fbk)]" using unknown by simp
      with run sum have run': "estimateExtensions_from r (kn, types @ [?t], mergeEstimateCoverage cov [?e (FbTokens fbk)], fb + FbTokens fbk) es =
          Inr (kn', types', cov', fb')" by simp
      have "covers ?p [[EstimateExtension]] [?t] [?e (FbTokens fbk)] (FbTokens fbk)"
        by (rule covers_extension [OF Cons.prems(1) False t _ refl]) (use unknown fbk sum in \<open>simp add: fallbackTokens_def\<close>)
      then show ?thesis using part by (intro step [OF _ sum(2) run']) simp
    qed
  qed
qed

lemma estimateExtensions_covers:
  assumes "profile_ok (RpProfile r)" "estimateExtensions r es = Inr (kn, types, cov, fb)"
  shows "covers (RpProfile r) (map (\<lambda>_. [EstimateExtension]) (participating (RpProfile r) types)) types cov fb \<and> fb \<le> MaxInt"
proof -
  have nil: "covers (RpProfile r) (map (\<lambda>_. [EstimateExtension]) (participating (RpProfile r) [])) [] [] 0"
    by (simp add: participating_def covers_Nil)
  show ?thesis
    using estimateExtensions_from_covers [OF assms(1) nil] assms(2) by (simp add: estimateExtensions_def MaxInt_def)
qed

lemma measureMessage_covers:
  assumes "profile_ok (RpProfile r)" "measureMessage r m = Inr (ref, kinds, types, shown, fb, cov)"
  shows "MessageContentRef (RpEnv r) m = Inr ref \<and> covers (RpProfile r) kinds types cov fb \<and> fb \<le> MaxInt"
proof -
  from assms(2) obtain kss kn cov1 fb1 kn2 cov2 fb2 where
    ref: "MessageContentRef (RpEnv r) m = Inr ref" and k: "map_res (estimatePartKinds (RpEnv r)) (MsgParts m) = Inr kss"
    and p: "estimateParts r (MsgParts m) = Inr (kn, cov1, fb1)" and e: "estimateExtensions r (MsgExtensions m) = Inr (kn2, types, cov2, fb2)"
    and a: "addEstimateTokens fb1 fb2 = Inr fb" and cov: "cov = mergeEstimateCoverage cov1 cov2"
    and kinds: "kinds = kss @ map (\<lambda>_. [EstimateExtension]) (participating (RpProfile r) types)"
    by (auto simp: measureMessage_def bind_res_Inr_iff)
  from estimateParts_covers [OF assms(1) p] k have c1: "covers (RpProfile r) kss [] cov1 fb1" "fb1 \<le> MaxInt" by auto
  from estimateExtensions_covers [OF assms(1) e] have
    c2: "covers (RpProfile r) (map (\<lambda>_. [EstimateExtension]) (participating (RpProfile r) types)) types cov2 fb2" by simp
  from addEstimate_Inr [OF a] c1(2) have f: "fb = fb1 + fb2" "fb1 + fb2 \<le> MaxInt" by auto
  show ?thesis using covers_append [OF c1(1) c2 f(2)] ref f by (simp add: cov kinds)
qed

subsection \<open>A measured segment\<close>

type_synonym measure = "ContentRef \<times> EstimateKind list list \<times> string list \<times> Message \<times> int \<times> EstimateCoverage list"

abbreviation mRef :: "measure \<Rightarrow> ContentRef" where "mRef x \<equiv> fst x"
abbreviation mKinds :: "measure \<Rightarrow> EstimateKind list list" where "mKinds x \<equiv> fst (snd x)"
abbreviation mTypes :: "measure \<Rightarrow> string list" where "mTypes x \<equiv> fst (snd (snd x))"
abbreviation mShown :: "measure \<Rightarrow> Message" where "mShown x \<equiv> fst (snd (snd (snd x)))"
abbreviation mFallback :: "measure \<Rightarrow> int" where "mFallback x \<equiv> fst (snd (snd (snd (snd x))))"
abbreviation mCoverage :: "measure \<Rightarrow> EstimateCoverage list" where "mCoverage x \<equiv> snd (snd (snd (snd (snd x))))"

definition measuredSegment :: "string \<Rightarrow> measure list \<Rightarrow> SegmentEstimate" where
  "measuredSegment name xs = \<lparr>SegName = name, SegMessages = map mRef xs, SegPerMessage = [], SegTokens = 0,
     SegCoverage = foldl mergeEstimateCoverage [] (map mCoverage xs), SegPartKinds = map mKinds xs, SegExtensionTypes = map mTypes xs\<rparr>"

lemma prepareSegment_from_Inr:
  assumes "prepareSegment_from r (measuredSegment name xs, map mShown xs, map mFallback xs) ms = Inr res"
  shows "\<exists>ys. map_res (measureMessage r) ms = Inr ys \<and>
     res = (measuredSegment name (xs @ ys), map mShown (xs @ ys), map mFallback (xs @ ys))"
  using assms
proof (induction ms arbitrary: xs)
  case (Cons m ms)
  from Cons.prems obtain x where x: "measureMessage r m = Inr x"
    and run: "prepareSegment_from r (measuredSegment name (xs @ [x]), map mShown (xs @ [x]), map mFallback (xs @ [x])) ms = Inr res"
    by (auto simp: bind_res_Inr_iff measuredSegment_def)
  from Cons.IH [OF run] x show ?case by fastforce
qed (simp add: measuredSegment_def)

lemma prepareSegment_Inr:
  assumes "prepareSegment r seg = Inr res"
  shows "\<exists>xs. map_res (measureMessage r) (EsMessages seg) = Inr xs \<and> res = (measuredSegment (EsName seg) xs, map mShown xs, map mFallback xs)"
  using prepareSegment_from_Inr [of r "EsName seg" "[]"] assms by (simp add: prepareSegment_def measuredSegment_def)

definition accounted :: "EstimateProfile \<Rightarrow> measure \<Rightarrow> bool" where
  "accounted p x \<longleftrightarrow> covers p (mKinds x) (mTypes x) (mCoverage x) (mFallback x)"

lemma covers_foldl:
  assumes "covers p ks ts cov fb" "\<forall>x \<in> set xs. accounted p x" "fb + sum_list (map mFallback xs) \<le> MaxInt"
  shows "covers p (ks @ concat (map mKinds xs)) (ts @ concat (map mTypes xs)) (foldl mergeEstimateCoverage cov (map mCoverage xs))
     (fb + sum_list (map mFallback xs))"
  using assms
proof (induction xs arbitrary: ks ts cov fb)
  case (Cons x xs)
  have x: "covers p (mKinds x) (mTypes x) (mCoverage x) (mFallback x)" using Cons.prems by (simp add: accounted_def)
  have "0 \<le> sum_list (map mFallback xs)"
    by (rule sum_list_nonneg) (use Cons.prems in \<open>auto simp: accounted_def dest: covers_nonneg\<close>)
  then have b: "fb + mFallback x \<le> MaxInt" using Cons.prems by simp
  from Cons.IH [OF covers_append [OF Cons.prems(1) x b]] Cons.prems show ?case by (simp add: add.assoc)
qed simp

lemma weighMessages_Inr:
  assumes "weighMessages (pm, tok) ws = Inr (pm', tok')" "\<forall>x \<in> set ws. fst x \<le> MaxInt" "tok \<le> MaxInt" "0 \<le> tok"
  shows "pm' = pm @ map (\<lambda>(w, f). w + f) ws \<and> tok' = tok + sum_list (map (\<lambda>(w, f). w + f) ws) \<and> tok' \<le> MaxInt \<and>
     (\<forall>x \<in> set ws. 0 \<le> fst x \<and> 0 \<le> snd x)"
  using assms
proof (induction ws arbitrary: pm tok)
  case (Cons x ws)
  obtain w f where x: "x = (w, f)" by force
  from Cons.prems(1) x obtain v tok1 where v: "addEstimateTokens w f = Inr v" and t: "addEstimateTokens tok v = Inr tok1"
    and run: "weighMessages (pm @ [v], tok1) ws = Inr (pm', tok')" by (auto simp: bind_res_Inr_iff)
  from addEstimate_Inr [OF v] Cons.prems(2) x have v': "v = w + f" "0 \<le> w" "0 \<le> f" by auto
  from addEstimate_Inr [OF t] Cons.prems(3) have t': "tok1 = tok + v" "tok1 \<le> MaxInt" "0 \<le> tok1" using Cons.prems(4) by auto
  from Cons.IH [OF run _ t'(2,3)] Cons.prems(2) show ?case using x v' t' by (auto simp: algebra_simps)
qed simp

text \<open>A segment together with what it measured, after weighing.\<close>

definition weighed :: "EstimateProfile \<Rightarrow> SegmentEstimate \<Rightarrow> measure list \<Rightarrow> int list \<Rightarrow> bool" where
  "weighed p seg xs ws \<longleftrightarrow> length ws = length xs \<and> (\<forall>w \<in> set ws. 0 \<le> w) \<and> (\<forall>x \<in> set xs. accounted p x) \<and>
     seg = (measuredSegment (SegName seg) xs)\<lparr>SegPerMessage := map2 (+) ws (map mFallback xs), SegTokens := SegTokens seg\<rparr> \<and>
     SegTokens seg = sum_list (map2 (+) ws (map mFallback xs)) \<and> SegTokens seg \<le> MaxInt"

lemma weighSegments_Inr:
  assumes "weighSegments (zip ws (concat (map (map mFallback) xss))) (map2 measuredSegment names xss) = Inr segs"
    and "length ws = length (concat xss)" "length names = length xss" "\<forall>w \<in> set ws. w \<le> MaxInt" "\<forall>xs \<in> set xss. \<forall>x \<in> set xs. accounted p x"
  shows "\<exists>wss. ws = concat wss \<and> list_all2 (\<lambda>seg (xs, ws). weighed p seg xs ws) segs (zip xss wss) \<and> map SegName segs = names \<and>
     length wss = length xss"
  using assms
proof (induction xss arbitrary: ws segs names)
  case Nil
  then show ?case by simp
next
  case (Cons xs xss)
  let ?n = "length xs" and ?fs = "map mFallback xs"
  obtain name names' where names: "names = name # names'" using Cons.prems(3) by (cases names) auto
  have len: "?n \<le> length ws" "length (take ?n ws) = ?n" using Cons.prems(2) by simp_all
  have take: "take ?n (zip ws (?fs @ concat (map (map mFallback) xss))) = zip (take ?n ws) ?fs"
    by (simp add: take_zip)
  have drop: "drop ?n (zip ws (?fs @ concat (map (map mFallback) xss))) = zip (drop ?n ws) (concat (map (map mFallback) xss))"
    by (simp add: drop_zip)
  from Cons.prems(1) names take drop obtain pm tok rest where
    w: "weighMessages ([], 0) (zip (take ?n ws) ?fs) = Inr (pm, tok)"
    and r: "weighSegments (zip (drop ?n ws) (concat (map (map mFallback) xss))) (map2 measuredSegment names' xss) = Inr rest"
    and segs: "segs = (measuredSegment name xs)\<lparr>SegPerMessage := pm, SegTokens := tok\<rparr> # rest"
    by (auto simp: bind_res_Inr_iff Let_def measuredSegment_def [of name])
  have "\<forall>x \<in> set (zip (take ?n ws) ?fs). fst x \<le> MaxInt"
    using Cons.prems(4) by (auto dest!: set_zip_leftD in_set_takeD)
  from weighMessages_Inr [OF w this] have pm: "pm = map (\<lambda>(w, f). w + f) (zip (take ?n ws) ?fs)" "tok = sum_list pm" "tok \<le> MaxInt"
    and nn: "\<forall>x \<in> set (zip (take ?n ws) ?fs). 0 \<le> fst x \<and> 0 \<le> snd x" by (auto simp: MaxInt_def)
  have "\<forall>w \<in> set (take ?n ws). 0 \<le> w"
  proof
    fix w assume "w \<in> set (take ?n ws)"
    then have "\<exists>f. (w, f) \<in> set (zip (take ?n ws) ?fs)"
      using len by (metis in_set_impl_in_set_zip1 length_map)
    then show "0 \<le> w" using nn by auto
  qed
  then have "weighed p (hd segs) xs (take ?n ws)"
    using segs pm len Cons.prems(5) by (simp add: weighed_def measuredSegment_def)
  moreover obtain wss where "drop ?n ws = concat wss" "list_all2 (\<lambda>seg (xs, ws). weighed p seg xs ws) rest (zip xss wss)"
      "map SegName rest = names'" "length wss = length xss"
    using Cons.IH [OF r] Cons.prems(2-5) names by (auto dest: in_set_dropD)
  ultimately show ?case
    using segs names by (intro exI [of _ "take ?n ws # wss"]) (simp add: measuredSegment_def, metis append_take_drop_id)
qed

subsection \<open>A weighed segment passes validation\<close>

lemma single_entry:
  assumes "distinct (map CovKind cov)" "e \<in> set cov"
  shows "filter (\<lambda>x. CovKind x = CovKind e) cov = [e]"
  using assms
proof (induction cov)
  case (Cons x cov)
  show ?case
  proof (cases "x = e")
    case True
    then have "filter (\<lambda>y. CovKind y = CovKind e) cov = []" using Cons.prems by (auto simp: filter_empty_conv image_iff)
    then show ?thesis using True by simp
  next
    case False
    then have "CovKind x \<noteq> CovKind e" using Cons.prems by (auto simp: image_iff)
    then show ?thesis using Cons False by auto
  qed
qed simp

lemma coversE:
  assumes "covers p parts types cov fb" "e \<in> set cov"
  shows "CovParts e = int (count_list (concat parts) (CovKind e))"
    "CovKind e = EstimateExtension \<Longrightarrow> CovQuality e = worst (map (estimateExtensionQuality p) (participating p types))"
proof -
  have one: "filter (\<lambda>x. CovKind x = CovKind e) cov = [e]"
    by (rule single_entry [OF _ assms(2)]) (use assms(1) in \<open>simp add: covers_def\<close>)
  then have "parts_of_kind cov (CovKind e) = CovParts e" by (simp add: parts_of_kind_def)
  moreover have "parts_of_kind cov (CovKind e) = int (count_list (concat parts) (CovKind e))"
    using assms(1) unfolding covers_def by blast
  ultimately show "CovParts e = int (count_list (concat parts) (CovKind e))" by simp
  assume "CovKind e = EstimateExtension"
  moreover have "validEstimateQuality (CovQuality e)" using coversD(1) [OF assms(1)] assms(2) by (auto simp: entry_ok_def)
  ultimately have "worst_of_kind cov EstimateExtension = CovQuality e" using one by (simp add: worst_of_kind_def worst_single)
  then show "CovQuality e = worst (map (estimateExtensionQuality p) (participating p types))"
    using assms(1) unfolding covers_def by simp
qed

lemma coverageLoop_ok:
  assumes "\<forall>e \<in> set cov. validateEstimateSegmentCoverageEntry e seg p = Inr () \<and> 0 \<le> CovFallbackTokens e"
    and "distinct (map CovKind cov)" "set seen \<inter> CovKind ` set cov = {}" "0 \<le> f" "f + fallback_of cov \<le> MaxInt"
  shows "coverageLoop seg p seen (f, u) cov = Inr (f + fallback_of cov, u \<or> (\<exists>e \<in> set cov. CovQuality e = EstimateUnknown))"
  using assms
proof (induction cov arbitrary: seen f u)
  case (Cons e cov)
  have nn: "0 \<le> fallback_of cov" unfolding fallback_of_def by (rule sum_list_nonneg) (use Cons.prems in auto)
  then have add: "addEstimateTokens f (CovFallbackTokens e) = Inr (f + CovFallbackTokens e)"
    using Cons.prems by (subst addEstimateTokens_Inr) auto
  have "set (CovKind e # seen) \<inter> CovKind ` set cov = {}" using Cons.prems by auto
  with Cons.IH [of "CovKind e # seen" "f + CovFallbackTokens e"] Cons.prems add show ?case by (auto simp: add.assoc)
qed simp

lemma expectedFallback_ok:
  assumes "\<forall>x \<in> set xs. accounted p x" "0 \<le> f" "f + sum_list (map mFallback xs) \<le> MaxInt"
  shows "estimateExpectedFallback_from p f (zip (map mKinds xs) (map mTypes xs)) = Inr (f + sum_list (map mFallback xs))"
  using assms
proof (induction xs arbitrary: f)
  case (Cons x xs)
  let ?u = "estimateUnsupportedUnits p (mKinds x) (mTypes x)"
  have c: "covers p (mKinds x) (mTypes x) (mCoverage x) (mFallback x)" using Cons.prems(1) by (simp add: accounted_def)
  have rest: "0 \<le> sum_list (map mFallback xs)"
    by (rule sum_list_nonneg) (use Cons.prems(1) in \<open>auto simp: accounted_def dest: covers_nonneg\<close>)
  have fb: "mFallback x = fallbackTokens p * int ?u" by (rule coversD(3) [OF c])
  show ?case
  proof (cases "?u = 0")
    case True
    then show ?thesis using Cons fb by simp
  next
    case False
    then obtain k where k: "PfFallback p = Some k" using c unfolding covers_def by auto
    have nn: "0 \<le> mFallback x" by (rule covers_nonneg [OF c])
    have tok: "FbTokens k * int ?u = mFallback x" using fb k by (simp add: fallbackTokens_def)
    have le: "mFallback x \<le> MaxInt" using Cons.prems rest by simp
    have div: "go_div MaxInt (int ?u) = MaxInt div int ?u"
      by (rule go_div_nonneg) (use False in \<open>simp_all add: MaxInt_def\<close>)
    have "FbTokens k \<le> MaxInt div int ?u"
      using zdiv_mono1 [OF le [folded tok], of "int ?u"] False by simp
    then have guard: "\<not> FbTokens k > go_div MaxInt (int ?u)" using div by simp
    have mul: "go_mul (int ?u) (FbTokens k) = mFallback x"
      using go_mul_exact [of "int ?u" "FbTokens k"] tok nn le by (simp add: go_int_def MaxInt_def mult.commute)
    have add: "addEstimateTokens f (mFallback x) = Inr (f + mFallback x)"
      using Cons.prems nn rest by (subst addEstimateTokens_Inr) auto
    show ?thesis using Cons.IH [of "f + mFallback x"] Cons.prems False k guard mul add nn by (simp add: Let_def add.assoc)
  qed
qed simp

lemma validateRefs_ok:
  assumes "\<forall>ref \<in> set refs. ContentRef_Validate ref = Inr ()" "distinct (map RefID refs)" "set seen \<inter> RefID ` set refs = {}"
  shows "validateManifestSegmentRefs_from seen refs = Inr ()"
  using assms by (induction refs arbitrary: seen) auto

lemma groups_ok:
  assumes "accounted p x"
  shows "validateEstimateExtensionGroups p (mKinds x) (mTypes x) = Inr ()"
  using assms by (auto simp: accounted_def covers_def validateEstimateExtensionGroups_def group_ok_def)

lemma map_res_unit_zip:
  "\<forall>x \<in> set xs. g (f x) (h x) = Inr () \<Longrightarrow> \<exists>us. map_res (\<lambda>(a, b). g a b) (zip (map f xs) (map h xs)) = Inr us"
  by (induction xs) auto

lemma segment_covers:
  assumes "weighed p seg xs ws"
  shows "covers p (concat (SegPartKinds seg)) (concat (SegExtensionTypes seg)) (SegCoverage seg) (sum_list (map mFallback xs)) \<and>
     sum_list (map mFallback xs) \<le> SegTokens seg"
proof -
  have "sum_list (map2 (+) ws (map mFallback xs)) = sum_list ws + sum_list (map mFallback xs)"
    using assms by (simp add: weighed_def sum_list_addf flip: map2_map_map) (simp add: sum_list_addf split_def comp_def flip: zip_map2)
  then have le: "sum_list (map mFallback xs) \<le> SegTokens seg"
    using assms sum_list_nonneg [of ws] by (simp add: weighed_def)
  then have "0 + sum_list (map mFallback xs) \<le> MaxInt" using assms by (simp add: weighed_def)
  from covers_foldl [OF covers_Nil _ this] le assms show ?thesis
    by (simp add: weighed_def) (metis (no_types, lifting) SegmentEstimate.select_convs(5-7) SegmentEstimate.surjective
       SegmentEstimate.update_convs(3,4) measuredSegment_def)
qed

lemma kindCounts_ok:
  assumes "covers p (concat (SegPartKinds seg)) types (SegCoverage seg) fb"
  shows "validateEstimateKindCounts seg = Inr ()"
proof -
  have groups: "\<forall>part \<in> set (concat (SegPartKinds seg)). group_ok part" "distinct (map CovKind (SegCoverage seg))"
    "CovKind ` set (SegCoverage seg) = set (concat (concat (SegPartKinds seg)))"
    using assms unfolding covers_def by blast+
  have "card (set (concat (concat (SegPartKinds seg)))) = length (SegCoverage seg)"
    using distinct_card [OF groups(2)] groups(3) by (simp flip: groups(3))
  then show ?thesis
    using groups(1) coversE(1) [OF assms] by (auto simp: validateEstimateKindCounts_def kindCount_def group_ok_def)
qed

lemma coverageEntry_ok:
  assumes "covers p parts (concat (SegExtensionTypes seg)) cov fb" "e \<in> set cov"
  shows "validateEstimateSegmentCoverageEntry e seg p = Inr () \<and> 0 \<le> CovFallbackTokens e"
proof -
  have "entry_ok p e" using coversD(1) [OF assms(1)] assms(2) by simp
  then show ?thesis
    using coversE(2) [OF assms] by (auto simp: validateEstimateSegmentCoverageEntry_def validateEstimateCoverageEntry_def entry_ok_def
        estimateExtensionCoverageQuality_def worst_def)
qed

lemma validateCoverage_ok:
  assumes "profile_ok p" "weighed p seg xs ws"
  shows "validateEstimateCoverage seg p = Inr ()"
proof -
  let ?F = "sum_list (map mFallback xs)" and ?u = "\<exists>e \<in> set (SegCoverage seg). CovQuality e = EstimateUnknown"
  let ?units = "estimateUnsupportedUnits p (concat (SegPartKinds seg)) (concat (SegExtensionTypes seg))"
  have c: "covers p (concat (SegPartKinds seg)) (concat (SegExtensionTypes seg)) (SegCoverage seg) ?F" and le: "?F \<le> SegTokens seg"
    using segment_covers [OF assms(2)] by simp_all
  have nn: "0 \<le> ?F" by (rule covers_nonneg [OF c])
  have max: "?F \<le> MaxInt" using le assms(2) by (simp add: weighed_def)
  have "coverageLoop seg p [] (0, False) (SegCoverage seg) = Inr (0 + fallback_of (SegCoverage seg), False \<or> ?u)"
  proof (rule coverageLoop_ok)
    show "\<forall>e \<in> set (SegCoverage seg). validateEstimateSegmentCoverageEntry e seg p = Inr () \<and> 0 \<le> CovFallbackTokens e"
      using coverageEntry_ok [OF c] by blast
    show "distinct (map CovKind (SegCoverage seg))" using c by (simp add: covers_def)
  qed (use coversD(2) [OF c] max in simp_all)
  then have loop: "coverageLoop seg p [] (0, False) (SegCoverage seg) = Inr (?F, ?u)" using coversD(2) [OF c] by simp
  have kinds: "SegPartKinds seg = map mKinds xs" "SegExtensionTypes seg = map mTypes xs" "SegMessages seg = map mRef xs"
    using assms(2) unfolding weighed_def measuredSegment_def
    by (metis SegmentEstimate.select_convs(2,6,7) SegmentEstimate.update_convs(3,4))+
  have ex: "estimateExpectedFallback seg p = Inr ?F"
    unfolding estimateExpectedFallback_def kinds
    using expectedFallback_ok [of xs p 0] assms(2) max by (simp add: weighed_def)
  have known: "\<not> ?u \<Longrightarrow> ?F = 0"
  proof -
    assume "\<not> ?u"
    then have "\<forall>e \<in> set (SegCoverage seg). CovFallbackTokens e = 0" using coversD(1) [OF c] by (auto simp: entry_ok_def)
    then have "fallback_of (SegCoverage seg) = 0" by (rule fallback_of_zero)
    then show ?thesis using coversD(2) [OF c] by simp
  qed
  have unknown: "?u \<Longrightarrow> PfFallback p \<noteq> None \<and> ?F \<noteq> 0"
  proof -
    assume ?u
    then have u: "0 < ?units" using coversD(4) [OF c] by blast
    then have "PfFallback p \<noteq> None" using c unfolding covers_def by blast
    then show ?thesis using coversD(3) [OF c] u profile_fallback [OF assms(1)] by auto
  qed
  have "SegMessages seg = [] \<Longrightarrow> SegCoverage seg = []"
  proof -
    assume "SegMessages seg = []"
    then have "set (concat (concat (SegPartKinds seg))) = {}" using kinds by simp
    then have "CovKind ` set (SegCoverage seg) = {}" using coversD(5) [OF c] by metis
    then show ?thesis by simp
  qed
  then show ?thesis
    using kindCounts_ok [OF c] loop ex known unknown le by (auto simp: validateEstimateCoverage_def)
qed

lemma map2_nonneg: "\<forall>a \<in> set as. 0 \<le> (a :: int) \<Longrightarrow> \<forall>b \<in> set bs. 0 \<le> b \<Longrightarrow> \<forall>v \<in> set (map2 (+) as bs). 0 \<le> v"
  by (induction as bs rule: list_induct2') auto

lemma validateSegment_ok:
  assumes "profile_ok p" "weighed p seg xs ws"
    and "\<forall>x \<in> set xs. ContentRef_Validate (mRef x) = Inr ()" "distinct (map (\<lambda>x. RefID (mRef x)) xs)"
  shows "validateEstimateSegment seg p = Inr ()"
proof -
  have f: "SegPartKinds seg = map mKinds xs" "SegExtensionTypes seg = map mTypes xs" "SegMessages seg = map mRef xs"
    "SegPerMessage seg = map2 (+) ws (map mFallback xs)"
    using assms(2) unfolding weighed_def measuredSegment_def
    by (metis SegmentEstimate.select_convs(2,3,6,7) SegmentEstimate.update_convs(3,4))+
  have len: "length ws = length xs" using assms(2) by (simp add: weighed_def)
  have "validateEstimateExtensionGroups p (mKinds x) (mTypes x) = Inr ()" if "x \<in> set xs" for x
    using that assms(2) by (intro groups_ok) (simp add: weighed_def)
  then obtain us where "map_res (\<lambda>(parts, types). validateEstimateExtensionGroups p parts types) (zip (SegPartKinds seg) (SegExtensionTypes seg)) = Inr us"
    using map_res_unit_zip [of xs "validateEstimateExtensionGroups p" mKinds mTypes] f by auto
  then have e: "validateEstimateExtensions seg p = Inr ()" by (simp add: validateEstimateExtensions_def f)
  have r: "validateManifestSegmentRefs (SegMessages seg) = Inr ()"
    unfolding validateManifestSegmentRefs_def f by (rule validateRefs_ok) (use assms(3,4) in \<open>auto simp: comp_def\<close>)
  have "\<forall>f \<in> set (map mFallback xs). 0 \<le> f"
    using assms(2) by (auto simp: weighed_def accounted_def dest!: bspec covers_nonneg)
  then have "\<forall>w \<in> set (SegPerMessage seg). 0 \<le> w"
    unfolding f by (rule map2_nonneg [rotated]) (use assms(2) in \<open>simp add: weighed_def\<close>)
  moreover have "0 + sum_list (SegPerMessage seg) \<le> MaxInt" "SegTokens seg = sum_list (SegPerMessage seg)"
    using assms(2) by (simp_all add: weighed_def f)
  ultimately have s: "sum_from 0 (SegPerMessage seg) = Inr (SegTokens seg)"
    by (subst sum_from_Inr) (auto simp: MaxInt_def)
  show ?thesis
    using e r s validateCoverage_ok [OF assms(1,2)] f len by (simp add: validateEstimateSegment_def)
qed

subsection \<open>The whole report passes validation\<close>

lemma totalSegments_Inr:
  assumes "totalSegments (tot, q) segs = Inr (tot', q')" "0 \<le> tot" "tot \<le> MaxInt"
  shows "tot' = tot + sum_list (map SegTokens segs) \<and> tot' \<le> MaxInt \<and> 0 \<le> tot' \<and> q' = foldl coverageQuality q segs"
  using assms
proof (induction segs arbitrary: tot q)
  case (Cons seg segs)
  from Cons.prems(1) obtain t where a: "addEstimateTokens tot (SegTokens seg) = Inr t"
    and run: "totalSegments (t, coverageQuality q seg) segs = Inr (tot', q')" by (auto simp: bind_res_Inr_iff)
  from addEstimate_Inr [OF a] Cons.prems(3) have "t = tot + SegTokens seg" "t \<le> MaxInt" "0 \<le> t" by auto
  with Cons.IH [OF run] show ?case by simp
qed simp

lemma validateSegments_from_ok:
  assumes "totalSegments (tot, q) segs = Inr (tot', q')"
    and "\<forall>seg \<in> set segs. validateEstimateSegment seg p = Inr () \<and> SegName seg \<noteq> []" "distinct (map SegName segs)"
    and "set seen \<inter> SegName ` set segs = {}"
  shows "validateSegments_from p seen (tot, q0) segs = Inr (tot', foldl coverageQuality q0 segs)"
  using assms by (induction segs arbitrary: tot q q0 seen) (auto simp: bind_res_Inr_iff)

lemma coverageQuality_worse:
  "coverageQuality (worseEstimateQuality a b) seg = worseEstimateQuality a (coverageQuality b seg)"
  by (simp add: coverageQuality_def Let_def foldl_worse)

lemma coverageQuality_valid: "validEstimateQuality q \<Longrightarrow> validEstimateQuality (coverageQuality q seg)"
  by (auto simp: coverageQuality_def Let_def foldl_worse_valid)

lemma foldl_coverageQuality:
  "foldl coverageQuality (worseEstimateQuality a b) segs = worseEstimateQuality a (foldl coverageQuality b segs)"
  by (induction segs arbitrary: b) (simp_all add: coverageQuality_worse)

lemma foldl_coverageQuality_valid: "validEstimateQuality q \<Longrightarrow> validEstimateQuality (foldl coverageQuality q segs)"
  by (induction segs arbitrary: q) (simp_all add: coverageQuality_valid)

lemma prepareRequest_from_Inr:
  assumes "prepareRequest_from r seen segs = Inr segs'"
  shows "segs' = map (\<lambda>seg. seg\<lparr>EsMessages := cloneMessageSlice (EsMessages seg)\<rparr>) segs \<and>
     distinct (map EsName segs) \<and> (\<forall>seg \<in> set segs. EsName seg \<noteq> [] \<and> EsName seg \<notin> set seen)"
  using assms
proof (induction segs arbitrary: seen segs')
  case (Cons seg segs)
  from Cons.prems obtain rest where name: "EsName seg \<noteq> []" "EsName seg \<notin> set seen"
    and run: "prepareRequest_from r (EsName seg # seen) segs = Inr rest"
    and segs': "segs' = seg\<lparr>EsMessages := cloneMessageSlice (EsMessages seg)\<rparr> # rest"
    by (auto simp: bind_res_Inr_iff Let_def split: if_splits)
  from Cons.IH [OF run] name segs' show ?case by auto
qed simp

lemma estimateKnown_Inr:
  assumes "estimateKnown r known c = (Inr ws, c')"
  shows "length ws = length known \<and> (\<forall>w \<in> set ws. 0 \<le> w \<and> w \<le> MaxInt) \<and> sum_list ws \<le> MaxInt \<and>
     (\<exists>c1 c2. Estimate (RpEnv r) (RpEstimator r) (cloneMessageSlice known) c1 = (Inr (sum_list ws), c2)) \<and>
     (\<exists>c1 c2. EstimatePerMessage (RpEnv r) (RpEstimator r) (cloneMessageSlice known) c1 = (Inr ws, c2))"
proof -
  from assms obtain tot s c1 c2 c3 c4 where
    pm: "EstimatePerMessage (RpEnv r) (RpEstimator r) (cloneMessageSlice known) c1 = (Inr ws, c2)"
    and tot: "Estimate (RpEnv r) (RpEstimator r) (cloneMessageSlice known) c3 = (Inr tot, c4)"
    and len: "length ws = length known" and s: "sum_from 0 ws = Inr s" "s = tot"
    unfolding estimateKnown_def by (auto elim!: comp_elims split: if_splits)
  from s(1) have sum: "\<forall>w \<in> set ws. 0 \<le> w" "sum_list ws \<le> MaxInt" "s = sum_list ws"
    by (simp_all add: sum_from_Inr MaxInt_def)
  have "w \<le> MaxInt" if "w \<in> set ws" for w
    using member_le_sum_list [of w ws] that sum by force
  with sum pm tot len s show ?thesis by blast
qed

definition measuredBy :: "EstimateReporter \<Rightarrow> EstimateSegment \<Rightarrow> measure list \<Rightarrow> bool" where
  "measuredBy r seg xs \<longleftrightarrow> map_res (measureMessage r) (EsMessages seg) = Inr xs"

lemma prepared_measures:
  assumes "map_res (prepareSegment r) inputs = Inr prepared"
  shows "\<exists>xss. list_all2 (measuredBy r) inputs xss \<and>
     prepared = map2 (\<lambda>seg xs. (measuredSegment (EsName seg) xs, map mShown xs, map mFallback xs)) inputs xss"
  using assms
proof (induction inputs arbitrary: prepared)
  case (Cons seg inputs)
  from Cons.prems obtain y ys where y: "prepareSegment r seg = Inr y" and ys: "map_res (prepareSegment r) inputs = Inr ys"
    and prepared: "prepared = y # ys" by (auto simp: bind_res_Inr_iff)
  from prepareSegment_Inr [OF y] obtain xs where "measuredBy r seg xs"
    "y = (measuredSegment (EsName seg) xs, map mShown xs, map mFallback xs)" unfolding measuredBy_def by blast
  moreover from Cons.IH [OF ys] obtain xss where "list_all2 (measuredBy r) inputs xss"
    "ys = map2 (\<lambda>seg xs. (measuredSegment (EsName seg) xs, map mShown xs, map mFallback xs)) inputs xss" by blast
  ultimately show ?case by (intro exI [of _ "xs # xss"]) (simp add: prepared)
qed simp

lemma measuredBy_accounted:
  assumes "profile_ok (RpProfile r)" "measuredBy r seg xs" "x \<in> set xs"
  shows "accounted (RpProfile r) x"
proof -
  from assms(2,3) obtain m where "measureMessage r m = Inr x"
    by (auto simp: measuredBy_def map_res_Inr_iff list_all2_conv_all_nth in_set_conv_nth)
  then show ?thesis
    using measureMessage_covers [OF assms(1), of m "mRef x" "mKinds x" "mTypes x" "mShown x" "mFallback x" "mCoverage x"]
    by (simp add: accounted_def)
qed

lemma prepared_parts:
  assumes "length inputs = length xss"
  shows "concat (map (\<lambda>(_, k, _). k) (map2 (\<lambda>seg xs. (measuredSegment (EsName seg) xs, map mShown xs, map mFallback xs)) inputs xss)) = map mShown (concat xss)"
    "concat (map (\<lambda>(_, _, f). f) (map2 (\<lambda>seg xs. (measuredSegment (EsName seg) xs, map mShown xs, map mFallback xs)) inputs xss)) = concat (map (map mFallback) xss)"
    "map fst (map2 (\<lambda>seg xs. (measuredSegment (EsName seg) xs, map mShown xs, map mFallback xs)) inputs xss) = map2 measuredSegment (map EsName inputs) xss"
  using assms by (induction inputs xss rule: list_induct2) simp_all

lemma estimateSegments_Inr:
  assumes "profile_ok (RpProfile r)" "estimateSegments r inputs c = (Inr segs, c')"
  shows "\<exists>xss wss. list_all2 (measuredBy r) inputs xss \<and> length wss = length xss \<and>
     list_all2 (\<lambda>seg (xs, ws). weighed (RpProfile r) seg xs ws) segs (zip xss wss) \<and> map SegName segs = map EsName inputs \<and>
     (\<exists>c1 c2. Estimate (RpEnv r) (RpEstimator r) (cloneMessageSlice (map mShown (concat xss))) c1 = (Inr (sum_list (concat wss)), c2))"
proof -
  from assms(2) obtain prepared where prep: "map_res (prepareSegment r) inputs = Inr prepared"
    by (auto simp: estimateSegments_def bind_Inr_iff)
  from prepared_measures [OF prep] obtain xss where xss: "list_all2 (measuredBy r) inputs xss"
    and prepared: "prepared = map2 (\<lambda>seg xs. (measuredSegment (EsName seg) xs, map mShown xs, map mFallback xs)) inputs xss" by blast
  have len: "length inputs = length xss" using xss by (rule list_all2_lengthD)
  from assms(2) obtain ws c1 where known: "estimateKnown r (map mShown (concat xss)) c = (Inr ws, c1)"
    and weigh: "weighSegments (zip ws (concat (map (map mFallback) xss))) (map2 measuredSegment (map EsName inputs) xss) = Inr segs"
    unfolding estimateSegments_def prep using prepared_parts [OF len] by (auto simp: prepared Let_def bind_Inr_iff simp del: map_map)
  note k = estimateKnown_Inr [OF known]
  have acc: "\<forall>xs \<in> set xss. \<forall>x \<in> set xs. accounted (RpProfile r) x"
  proof (intro ballI)
    fix xs x assume "xs \<in> set xss" and x: "x \<in> set xs"
    then obtain seg where "measuredBy r seg xs" using xss by (auto simp: list_all2_conv_all_nth in_set_conv_nth)
    then show "accounted (RpProfile r) x" using x by (rule measuredBy_accounted [OF assms(1)])
  qed
  have "length ws = length (concat xss)" "\<forall>w \<in> set ws. w \<le> MaxInt" using k by auto
  from weighSegments_Inr [OF weigh this(1) _ this(2) acc] len obtain wss where
    "ws = concat wss" "list_all2 (\<lambda>seg (xs, ws). weighed (RpProfile r) seg xs ws) segs (zip xss wss)"
    "map SegName segs = map EsName inputs" "length wss = length xss" by auto
  with xss k show ?thesis by blast
qed

lemma measured_refs:
  assumes "profile_ok (RpProfile r)" "digest_wf (RpEnv r)" "measuredBy r seg xs"
  shows "(\<forall>x \<in> set xs. ContentRef_Validate (mRef x) = Inr ()) \<and> map (\<lambda>x. RefID (mRef x)) xs = map MsgID (EsMessages seg) \<and>
     map_res (MessageContentRef (RpEnv r)) (EsMessages seg) = Inr (map mRef xs)"
proof -
  have all: "list_all2 (\<lambda>m x. measureMessage r m = Inr x) (EsMessages seg) xs" using assms(3) by (simp add: measuredBy_def map_res_Inr_iff)
  have ref: "MessageContentRef (RpEnv r) m = Inr (mRef x)" if "measureMessage r m = Inr x" for m x
    using measureMessage_covers [OF assms(1), of m "mRef x" "mKinds x" "mTypes x" "mShown x" "mFallback x" "mCoverage x"] that by simp
  have ident: "RefID (mRef x) = MsgID m \<and> ContentRef_Validate (mRef x) = Inr ()" if "measureMessage r m = Inr x" for m x
    using MessageContentRef_valid [OF assms(2) ref [OF that]] ref [OF that]
    by (cases "mRef x") (auto simp: MessageContentRef_def bind_res_Inr_iff split: if_splits)
  show ?thesis using all by (induction rule: list_all2_induct) (simp_all add: ref ident)
qed

lemma measureRequest_Inr:
  assumes "profile_ok (RpProfile r)" "measureRequest r req c = (Inr rep, c')"
  obtains limit segs xss wss q where "Resolve (ErBudget req) = Inr limit"
    "validateEstimateRefs [ErManifestRef req, ErWireRef req] = Inr ()"
    "distinct (map EsName (ErSegments req))" "\<forall>seg \<in> set (ErSegments req). EsName seg \<noteq> []"
    "list_all2 (\<lambda>seg xs. measuredBy r (seg\<lparr>EsMessages := cloneMessageSlice (EsMessages seg)\<rparr>) xs) (ErSegments req) xss"
    "list_all2 (\<lambda>seg (xs, ws). weighed (RpProfile r) seg xs ws) segs (zip xss wss)" "length wss = length xss"
    "map SegName segs = map EsName (ErSegments req)"
    "totalSegments (0, startQuality r) segs = Inr (RepTotal rep, q)"
    "rep = draftReport r req limit segs (RepTotal rep, q)"
    "\<exists>c1 c2. Estimate (RpEnv r) (RpEstimator r) (cloneMessageSlice (map mShown (concat xss))) c1 = (Inr (sum_list (concat wss)), c2)"
proof -
  from assms(2) obtain limit req' segs totals c1 c2 where
    limit: "Resolve (ErBudget req) = Inr limit" and refs: "validateEstimateRefs [ErManifestRef req, ErWireRef req] = Inr ()"
    and prep: "prepareRequest r req = Inr req'" and segs: "estimateSegments r (ErSegments req') c1 = (Inr segs, c2)"
    and tot: "totalSegments (0, startQuality r) segs = Inr totals" and rep: "rep = draftReport r req' limit segs totals"
    unfolding measureRequest_def by (auto elim!: comp_elims)
  obtain T q where totals: "totals = (T, q)" by force
  from prep obtain segs0 where segs0: "prepareRequest_from r [] (ErSegments req) = Inr segs0" and req': "req' = req\<lparr>ErSegments := segs0\<rparr>"
    by (auto simp: prepareRequest_def bind_res_Inr_iff)
  note p = prepareRequest_from_Inr [OF segs0]
  from estimateSegments_Inr [OF assms(1) segs] obtain xss wss where
    w: "list_all2 (measuredBy r) segs0 xss" "length wss = length xss"
      "list_all2 (\<lambda>seg (xs, ws). weighed (RpProfile r) seg xs ws) segs (zip xss wss)" "map SegName segs = map EsName segs0"
      "\<exists>c1 c2. Estimate (RpEnv r) (RpEstimator r) (cloneMessageSlice (map mShown (concat xss))) c1 = (Inr (sum_list (concat wss)), c2)"
    by (auto simp: req')
  have rep': "rep = draftReport r req limit segs (RepTotal rep, q)" "RepTotal rep = T"
    by (simp_all add: rep totals req' draftReport_def)
  show ?thesis
    by (rule that [of limit xss segs wss q])
      (use limit refs p w rep' tot totals in \<open>simp_all add: comp_def list_all2_map1\<close>)
qed

lemma NewEstimateReporter_Inr: "NewEstimateReporter r0 = Inr r \<Longrightarrow> r = r0 \<and> profile_ok (RpProfile r)"
  unfolding NewEstimateReporter_def profile_ok_def by (auto simp: bind_res_Inr_iff split: if_splits)

lemma startQuality_worse: "startQuality r = worseEstimateQuality (startQuality r) EstimateCounted"
  "validEstimateQuality (startQuality r)"
  by (auto simp: startQuality_def worseEstimateQuality_def validEstimateQuality_def split: option.split)

lemma draft_segments_validate:
  assumes "profile_ok (RpProfile r)" "digest_wf (RpEnv r)" "\<forall>seg \<in> set (ErSegments req). distinct (map MsgID (EsMessages seg))"
    and "measureRequest r req c = (Inr draft, c')"
  shows "validateEstimateSegments draft = Inr ()"
proof (rule measureRequest_Inr [OF assms(1,4)])
  fix limit xss segs wss q
  assume names: "distinct (map EsName (ErSegments req))" "\<forall>seg \<in> set (ErSegments req). EsName seg \<noteq> []"
    and m: "list_all2 (\<lambda>seg xs. measuredBy r (seg\<lparr>EsMessages := cloneMessageSlice (EsMessages seg)\<rparr>) xs) (ErSegments req) xss"
    and w: "list_all2 (\<lambda>seg (xs, ws). weighed (RpProfile r) seg xs ws) segs (zip xss wss)" "length wss = length xss"
    and segn: "map SegName segs = map EsName (ErSegments req)"
    and tot: "totalSegments (0, startQuality r) segs = Inr (RepTotal draft, q)"
    and draft: "draft = draftReport r req limit segs (RepTotal draft, q)"
  have seg_ok: "validateEstimateSegment seg (RpProfile r) = Inr ()" if "seg \<in> set segs" for seg
  proof -
    from that obtain i where i: "i < length segs" "seg = segs ! i" by (auto simp: in_set_conv_nth)
    have len: "length segs = length xss" "length xss = length (ErSegments req)"
      using w(1,2) m by (auto dest!: list_all2_lengthD)
    let ?es = "(ErSegments req ! i)\<lparr>EsMessages := cloneMessageSlice (EsMessages (ErSegments req ! i))\<rparr>"
    have wi: "weighed (RpProfile r) seg (xss ! i) (wss ! i)"
      using list_all2_nthD [OF w(1) i(1)] i len w(2) by simp
    have mi: "measuredBy r ?es (xss ! i)" using list_all2_nthD [OF m, of i] i len by simp
    note refs = measured_refs [OF assms(1,2) mi]
    have "map MsgID (EsMessages ?es) = map MsgID (EsMessages (ErSegments req ! i))" by (simp add: cloneMessageSlice_def)
    then have "distinct (map (\<lambda>x. RefID (mRef x)) (xss ! i))" using refs assms(3) i len by simp
    then show ?thesis using validateSegment_ok [OF assms(1) wi] refs by simp
  qed
  have "\<forall>seg \<in> set segs. validateEstimateSegment seg (RpProfile r) = Inr () \<and> SegName seg \<noteq> []"
  proof
    fix seg assume seg: "seg \<in> set segs"
    then have "SegName seg \<in> set (map EsName (ErSegments req))" by (simp flip: segn)
    then show "validateEstimateSegment seg (RpProfile r) = Inr () \<and> SegName seg \<noteq> []" using names(2) seg_ok [OF seg] by auto
  qed
  from validateSegments_from_ok [OF tot this, of "[]" EstimateCounted] names(1) segn
  have v: "validateSegments_from (RpProfile r) [] (0, EstimateCounted) segs = Inr (RepTotal draft, foldl coverageQuality EstimateCounted segs)" by simp
  have "q = foldl coverageQuality (startQuality r) segs" using totalSegments_Inr [OF tot] by (simp add: MaxInt_def)
  also have "\<dots> = worseEstimateQuality (startQuality r) (foldl coverageQuality EstimateCounted segs)"
    by (subst startQuality_worse(1)) (rule foldl_coverageQuality)
  finally have "worseEstimateQuality q (foldl coverageQuality EstimateCounted segs) = q"
    using foldl_coverageQuality_valid [of EstimateCounted segs] by (simp add: worse_self validEstimateQuality_def)
  with v show "validateEstimateSegments draft = Inr ()"
    by (subst draft) (simp add: validateEstimateSegments_def draftReport_def)
qed

subsection \<open>What a report says of its request\<close>

text \<open>
  The messages of a request, and the content of a message that the profile can measure: the parts and extensions all of whose
  kinds it knows how to count. \<open>unknownUnits\<close> counts the others; an extension of a metadata-only type is neither.
\<close>

definition requestMessages :: "EstimateRequest \<Rightarrow> Message list" where
  "requestMessages req = cloneMessageSlice (concat (map EsMessages (ErSegments req)))"

definition knownPart :: "EstimateReporter \<Rightarrow> part \<Rightarrow> bool" where
  "knownPart r p = (case estimatePartKinds (RpEnv r) p of
     Inl _ \<Rightarrow> False | Inr kinds \<Rightarrow> \<forall>kind \<in> set kinds. capability (RpProfile r) kind \<noteq> EstimateUnknown)"

definition knownExtension :: "EstimateReporter \<Rightarrow> Extension \<Rightarrow> bool" where
  "knownExtension r e = (\<not> metadataOnly (RpProfile r) (ext_type e) \<and> estimateExtensionQuality (RpProfile r) (ext_type e) \<noteq> EstimateUnknown)"

definition unknownExtension :: "EstimateReporter \<Rightarrow> Extension \<Rightarrow> bool" where
  "unknownExtension r e = (\<not> metadataOnly (RpProfile r) (ext_type e) \<and> estimateExtensionQuality (RpProfile r) (ext_type e) = EstimateUnknown)"

definition knownContent :: "EstimateReporter \<Rightarrow> Message \<Rightarrow> Message" where
  "knownContent r m = (Message_Clone m)\<lparr>MsgParts := map cloneKnownPart (filter (knownPart r) (MsgParts m)),
     MsgExtensions := map CloneExtension (filter (knownExtension r) (MsgExtensions m))\<rparr>"

definition unknownUnits :: "EstimateReporter \<Rightarrow> Message \<Rightarrow> nat" where
  "unknownUnits r m = length (filter (\<lambda>p. \<not> knownPart r p) (MsgParts m)) + length (filter (unknownExtension r) (MsgExtensions m))"

lemma estimateParts_from_known:
  assumes "estimateParts_from r (kn, cov, fb) ps = Inr (kn', cov', fb')"
  shows "kn' = kn @ map cloneKnownPart (filter (knownPart r) ps)"
  using assms
proof (induction ps arbitrary: kn cov fb)
  case (Cons p ps)
  from Cons.prems obtain kinds where k: "estimatePartKinds (RpEnv r) p = Inr kinds" by (auto simp: bind_res_Inr_iff)
  show ?case
  proof (cases "snd (partCoverage (RpProfile r) kinds) = EstimateUnknown")
    case True
    then have "\<not> knownPart r p" using k by (auto simp: knownPart_def partCoverage_unknown)
    moreover have "\<exists>c f. estimateParts_from r (kn, c, f) ps = Inr (kn', cov', fb')"
      using Cons.prems k True by (auto simp: bind_res_Inr_iff Let_def split_beta split: option.splits)
    ultimately show ?thesis using Cons.IH by auto
  next
    case False
    then have "knownPart r p" using k by (auto simp: knownPart_def partCoverage_unknown)
    moreover have "\<exists>c f. estimateParts_from r (kn @ [cloneKnownPart p], c, f) ps = Inr (kn', cov', fb')"
      using Cons.prems k False by (auto simp: Let_def split_beta)
    ultimately show ?thesis using Cons.IH by fastforce
  qed
qed simp

lemma estimateExtensions_from_known:
  assumes "estimateExtensions_from r (kn, types, cov, fb) es = Inr (kn', types', cov', fb')"
  shows "kn' = kn @ map CloneExtension (filter (knownExtension r) es) \<and> types' = types @ map ext_type es"
  using assms
proof (induction es arbitrary: kn types cov fb)
  case (Cons e es)
  then have "\<exists>c f. estimateExtensions_from r (kn @ (if knownExtension r e then [CloneExtension e] else []), types @ [ext_type e], c, f) es =
      Inr (kn', types', cov', fb')"
    by (auto simp: knownExtension_def bind_res_Inr_iff Let_def split: if_splits option.splits)
  then show ?case using Cons.IH by fastforce
qed simp

lemma kinds_units:
  assumes "map_res (estimatePartKinds (RpEnv r)) ps = Inr kss"
  shows "estimateUnsupportedUnits (RpProfile r) kss [] = length (filter (\<lambda>p. \<not> knownPart r p) ps)"
proof -
  have "list_all2 (\<lambda>p ks. estimatePartKinds (RpEnv r) p = Inr ks) ps kss" using assms by (simp add: map_res_Inr_iff)
  then show ?thesis
    by (induction rule: list_all2_induct) (auto simp: estimateUnsupportedUnits_def knownPart_def dest: partKinds_ok)
qed

lemma extension_units:
  "estimateUnsupportedUnits (RpProfile r) (map (\<lambda>_. [EstimateExtension]) ys) (map ext_type es) = length (filter (unknownExtension r) es)"
  by (simp add: estimateUnsupportedUnits_def filter_map comp_def unknownExtension_def [abs_def])

lemma measureMessage_known:
  assumes "measureMessage r m = Inr x"
  shows "mShown x = knownContent r m \<and> estimateUnsupportedUnits (RpProfile r) (mKinds x) (mTypes x) = unknownUnits r m \<and>
     MessageContentRef (RpEnv r) m = Inr (mRef x)"
proof -
  from assms obtain ref kss kn cov1 fb1 kn2 types cov2 fb2 fb where
    ref: "MessageContentRef (RpEnv r) m = Inr ref" and k: "map_res (estimatePartKinds (RpEnv r)) (MsgParts m) = Inr kss"
    and p: "estimateParts r (MsgParts m) = Inr (kn, cov1, fb1)" and e: "estimateExtensions r (MsgExtensions m) = Inr (kn2, types, cov2, fb2)"
    and x: "x = (ref, kss @ map (\<lambda>_. [EstimateExtension]) (participating (RpProfile r) types), types,
      (Message_Clone m)\<lparr>MsgParts := kn, MsgExtensions := kn2\<rparr>, fb, mergeEstimateCoverage cov1 cov2)"
    by (auto simp: measureMessage_def bind_res_Inr_iff)
  have kn: "kn = map cloneKnownPart (filter (knownPart r) (MsgParts m))"
    using estimateParts_from_known p unfolding estimateParts_def by fastforce
  have e2: "kn2 = map CloneExtension (filter (knownExtension r) (MsgExtensions m))" "types = map ext_type (MsgExtensions m)"
    using estimateExtensions_from_known e unfolding estimateExtensions_def by fastforce+
  show ?thesis
    using units_append [of "RpProfile r" kss _ "[]" types] kinds_units [OF k] extension_units [of r _ "MsgExtensions m"] ref
    by (simp add: x kn e2 knownContent_def unknownUnits_def)
qed

lemma measured_messages:
  assumes "list_all2 (\<lambda>seg xs. measuredBy r (seg\<lparr>EsMessages := cloneMessageSlice (EsMessages seg)\<rparr>) xs) segs xss"
  shows "list_all2 (\<lambda>m x. measureMessage r m = Inr x) (cloneMessageSlice (concat (map EsMessages segs))) (concat xss)"
  using assms
  by (induction rule: list_all2_induct) (simp_all add: measuredBy_def map_res_Inr_iff list_all2_appendI)

lemma measured_known:
  assumes "list_all2 (\<lambda>m x. measureMessage r m = Inr x) ms xs"
  shows "map mShown xs = map (knownContent r) ms"
    and "sum_list (map (\<lambda>x. estimateUnsupportedUnits (RpProfile r) (mKinds x) (mTypes x)) xs) = sum_list (map (unknownUnits r) ms)"
  using assms by (induction rule: list_all2_induct) (use measureMessage_known in fastforce)+

lemma weighed_fields: "weighed p seg xs ws \<Longrightarrow> SegMessages seg = map mRef xs \<and> SegPartKinds seg = map mKinds xs \<and> SegExtensionTypes seg = map mTypes xs"
  unfolding weighed_def measuredSegment_def
  by (metis SegmentEstimate.select_convs(2,6,7) SegmentEstimate.update_convs(3,4))

lemma weighed_units:
  assumes "list_all2 (\<lambda>seg (xs, ws). weighed p seg xs ws) segs (zip xss wss)" "length wss = length xss"
  shows "estimateUnsupportedUnits p (concat (concat (map SegPartKinds segs))) (concat (concat (map SegExtensionTypes segs))) =
     sum_list (map (\<lambda>x. estimateUnsupportedUnits p (mKinds x) (mTypes x)) (concat xss))"
  using assms
proof (induction segs arbitrary: xss wss)
  case Nil
  then have "xss = []" by (cases xss; cases wss) simp_all
  then show ?case by (simp add: estimateUnsupportedUnits_def)
next
  case (Cons seg segs)
  then obtain xs xss' ws wss' where e: "xss = xs # xss'" "wss = ws # wss'" and w: "weighed p seg xs ws"
    and rest: "list_all2 (\<lambda>seg (xs, ws). weighed p seg xs ws) segs (zip xss' wss')" "length wss' = length xss'"
    by (cases xss; cases wss) auto
  have "estimateUnsupportedUnits p (concat (map mKinds xs)) (concat (map mTypes xs)) =
      sum_list (map (\<lambda>x. estimateUnsupportedUnits p (mKinds x) (mTypes x)) xs)"
    by (induction xs) (simp_all add: units_append, simp add: estimateUnsupportedUnits_def)
  with Cons.IH [OF rest] weighed_fields [OF w] show ?case by (simp add: e units_append)
qed

definition segmentRefs :: "EstimateReporter \<Rightarrow> SegmentEstimate list \<Rightarrow> EstimateSegment list \<Rightarrow> bool" where
  "segmentRefs r segs inputs =
     list_all2 (\<lambda>seg es. map_res (MessageContentRef (RpEnv r)) (cloneMessageSlice (EsMessages es)) = Inr (SegMessages seg)) segs inputs"

lemma weighed_refs:
  assumes "list_all2 (\<lambda>seg xs. measuredBy r (seg\<lparr>EsMessages := cloneMessageSlice (EsMessages seg)\<rparr>) xs) inputs xss"
    and "list_all2 (\<lambda>seg (xs, ws). weighed (RpProfile r) seg xs ws) segs (zip xss wss)" "length wss = length xss"
  shows "segmentRefs r segs inputs"
  unfolding segmentRefs_def list_all2_conv_all_nth
proof (intro conjI allI impI)
  have len: "length segs = length xss" "length inputs = length xss" using assms by (auto dest!: list_all2_lengthD)
  then show "length segs = length inputs" by simp
  fix i assume i: "i < length segs"
  have "SegMessages (segs ! i) = map mRef (xss ! i)"
    using list_all2_nthD [OF assms(2) i] i len assms(3) weighed_fields [of "RpProfile r" "segs ! i" "xss ! i" "wss ! i"] by simp
  moreover have "list_all2 (\<lambda>m x. measureMessage r m = Inr x) (cloneMessageSlice (EsMessages (inputs ! i))) (xss ! i)"
    using list_all2_nthD [OF assms(1), of i] i len by (simp add: measuredBy_def map_res_Inr_iff)
  ultimately show "map_res (MessageContentRef (RpEnv r)) (cloneMessageSlice (EsMessages (inputs ! i))) = Inr (SegMessages (segs ! i))"
    using measureMessage_known [of r] by (auto simp: map_res_Inr_iff list_all2_conv_all_nth)
qed

lemma MessageContentRef_id: "MessageContentRef E m = Inr ref \<Longrightarrow> RefID ref = MsgID m"
  by (auto simp: MessageContentRef_def bind_res_Inr_iff split: if_splits)

lemma refs_identities:
  assumes "map_res (MessageContentRef E) (cloneMessageSlice ms) = Inr refs"
  shows "map RefID refs = map MsgID ms"
proof -
  have "list_all2 (\<lambda>m ref. MessageContentRef E m = Inr ref) (cloneMessageSlice ms) refs" using assms by (simp add: map_res_Inr_iff)
  then have "map RefID refs = map MsgID (cloneMessageSlice ms)"
    by (induction rule: list_all2_induct) (simp_all add: MessageContentRef_id)
  then show ?thesis by (simp add: cloneMessageSlice_def)
qed

lemma validateRefs_distinct:
  "validateManifestSegmentRefs_from seen refs = Inr () \<Longrightarrow> distinct (map RefID refs) \<and> set seen \<inter> RefID ` set refs = {}"
  by (induction seen refs rule: validateManifestSegmentRefs_from.induct) (auto simp: bind_res_Inr_iff split: if_splits)

lemma validateSegments_from_all:
  "validateSegments_from p seen acc segs = Inr res \<Longrightarrow> seg \<in> set segs \<Longrightarrow> validateEstimateSegment seg p = Inr ()"
  by (induction p seen acc segs rule: validateSegments_from.induct) (auto simp: bind_res_Inr_iff split: if_splits)

lemma validated_distinct:
  assumes "profile_ok (RpProfile r)" "measureRequest r req c = (Inr draft, c')" "validateEstimateSegments draft = Inr ()" "seg \<in> set (ErSegments req)"
  shows "distinct (map MsgID (EsMessages seg))"
proof (rule measureRequest_Inr [OF assms(1,2)])
  fix limit xss segs wss q
  assume m: "list_all2 (\<lambda>seg xs. measuredBy r (seg\<lparr>EsMessages := cloneMessageSlice (EsMessages seg)\<rparr>) xs) (ErSegments req) xss"
    and w: "list_all2 (\<lambda>seg (xs, ws). weighed (RpProfile r) seg xs ws) segs (zip xss wss)" "length wss = length xss"
    and draft: "draft = draftReport r req limit segs (RepTotal draft, q)"
  have "RepSegments draft = segs" "RepProfile draft = RpProfile r" by (subst draft, simp add: draftReport_def)+
  then have valid: "validateEstimateSegment s (RpProfile r) = Inr ()" if "s \<in> set segs" for s
    using assms(3) that by (auto simp: validateEstimateSegments_def bind_res_Inr_iff dest: validateSegments_from_all)
  from weighed_refs [OF m w] assms(4) obtain s where s: "s \<in> set segs"
    and refs: "map_res (MessageContentRef (RpEnv r)) (cloneMessageSlice (EsMessages seg)) = Inr (SegMessages s)"
    by (fastforce simp: segmentRefs_def list_all2_conv_all_nth in_set_conv_nth)
  have "distinct (map RefID (SegMessages s))"
    using valid [OF s] by (auto simp: validateEstimateSegment_def validateManifestSegmentRefs_def bind_res_Inr_iff dest: validateRefs_distinct split: if_splits)
  then show ?thesis using refs_identities [OF refs] by simp
qed

subsection \<open>Properties\<close>

text \<open>
  C31. The final validation of a report agrees with what the reporter measured: for a constructed reporter, once the measurement
  and the digests succeed, the sealed report passes its own validation (the counts, qualities, fallbacks and totals that are
  recomputed from the evidence agree) exactly when no segment of the request repeats a message identity. A segment that repeats one
  is measured, and its report is refused.
\<close>

theorem Report_validates:
  assumes "NewEstimateReporter r0 = Inr r" "digest_wf (RpEnv r)"
    and "measureRequest r req c = (Inr draft, c')" "sealReport D draft = Inr rep" "contentDigest D rep = Inr digest"
  shows "finalizeEstimateReport D rep = Inr (rep\<lparr>RepDigest := digest\<rparr>) \<longleftrightarrow> (\<forall>seg \<in> set (ErSegments req). distinct (map MsgID (EsMessages seg)))"
proof -
  have prof: "profile_ok (RpProfile r)" using NewEstimateReporter_Inr [OF assms(1)] by blast
  have segs: "validateEstimateSegments draft = Inr () \<longleftrightarrow> (\<forall>seg \<in> set (ErSegments req). distinct (map MsgID (EsMessages seg)))"
    using draft_segments_validate [OF prof assms(2) _ assms(3)] validated_distinct [OF prof assms(3)] by blast
  from assms(4) obtain pd rd where pd: "ProfileDigest D (RepProfile draft) = Inr pd"
    and rd: "estimateRequestDigest D (draft\<lparr>RepProfileDigest := pd\<rparr>) = Inr rd"
    and rep: "rep = draft\<lparr>RepProfileDigest := pd, RepRequestDigest := rd\<rparr>"
    by (auto simp: sealReport_def bind_res_Inr_iff Let_def)
  have same: "validateEstimateSegments (rep\<lparr>RepDigest := digest\<rparr>) = validateEstimateSegments draft"
    "estimateRequestDigest D (rep\<lparr>RepDigest := digest\<rparr>) = estimateRequestDigest D (draft\<lparr>RepProfileDigest := pd\<rparr>)"
    "contentDigest D (rep\<lparr>RepDigest := digest\<rparr>) = contentDigest D rep"
    by (simp_all add: rep validateEstimateSegments_def estimateRequestDigest_def contentDigest_def cong del: if_weak_cong)
  have d: "RepProfile draft = RpProfile r \<and> Resolve (RepBudget draft) = Inr (RepEffectiveLimit draft) \<and>
      validEstimateQuality (RepQuality draft) \<and> validateEstimateRefs [RepManifestRef draft, RepWireRef draft] = Inr ()"
  proof (rule measureRequest_Inr [OF prof assms(3)])
    fix limit segs q
    assume limit: "Resolve (ErBudget req) = Inr limit" and refs: "validateEstimateRefs [ErManifestRef req, ErWireRef req] = Inr ()"
      and tot: "totalSegments (0, startQuality r) segs = Inr (RepTotal draft, q)" and draft: "draft = draftReport r req limit segs (RepTotal draft, q)"
    have "validEstimateQuality q" using totalSegments_Inr [OF tot] foldl_coverageQuality_valid [OF startQuality_worse(2)] by (simp add: MaxInt_def)
    moreover define T where "T = RepTotal draft"
    note draft [folded T_def]
    ultimately show ?thesis using limit refs by (simp add: draftReport_def)
  qed
  have "EstimateReport_Validate D (rep\<lparr>RepDigest := digest\<rparr>) = Inr () \<longleftrightarrow> validateEstimateSegments draft = Inr ()"
    unfolding EstimateReport_Validate_def same using d prof pd rd assms(5) by (simp add: rep profile_ok_def bind_res_Inr_iff)
  then show ?thesis using assms(5) segs by (simp add: finalizeEstimateReport_def bind_res_Inr_iff Let_def)
qed

lemma weighed_sum:
  assumes "weighed p seg xs ws"
  shows "SegTokens seg = sum_list (SegPerMessage seg) \<and> 0 \<le> SegTokens seg \<and>
     SegTokens seg = sum_list ws + fallbackTokens p * int (estimateUnsupportedUnits p (concat (SegPartKinds seg)) (concat (SegExtensionTypes seg)))"
proof -
  have len: "length ws = length (map mFallback xs)" using assms by (simp add: weighed_def)
  then have "sum_list (map2 (+) ws (map mFallback xs)) = sum_list ws + sum_list (map mFallback xs)"
    by (induction ws "map mFallback xs" arbitrary: xs rule: list_induct2) (auto simp: Cons_eq_map_conv)
  moreover have "SegPerMessage seg = map2 (+) ws (map mFallback xs)"
    using assms unfolding weighed_def measuredSegment_def by (metis SegmentEstimate.select_convs(3) SegmentEstimate.update_convs(3,4))
  moreover have "0 \<le> sum_list ws" using assms by (intro sum_list_nonneg) (simp add: weighed_def)
  moreover note segment_covers [OF assms, THEN conjunct1]
  ultimately show ?thesis
    using assms coversD(3) covers_nonneg by (fastforce simp: weighed_def)
qed

lemma units_concat:
  assumes "list_all2 (\<lambda>seg (xs, ws). weighed p seg xs ws) segs (zip xss wss)" "length wss = length xss"
  shows "sum_list (map SegTokens segs) = sum_list (concat wss) +
      fallbackTokens p * int (estimateUnsupportedUnits p (concat (concat (map SegPartKinds segs))) (concat (concat (map SegExtensionTypes segs)))) \<and>
    sum_list (map SegTokens segs) = sum_list (concat (map SegPerMessage segs))"
  using assms
proof (induction segs arbitrary: xss wss)
  case Nil
  then have "wss = []" by (cases xss; cases wss) simp_all
  then show ?case by (simp add: estimateUnsupportedUnits_def)
next
  case (Cons seg segs)
  then obtain xs xss' ws wss' where e: "xss = xs # xss'" "wss = ws # wss'" and w: "weighed p seg xs ws"
    and rest: "list_all2 (\<lambda>seg (xs, ws). weighed p seg xs ws) segs (zip xss' wss')" "length wss' = length xss'"
    by (cases xss; cases wss) auto
  from Cons.IH [OF rest] weighed_sum [OF w] show ?case by (simp add: e units_append algebra_simps)
qed

text \<open>
  C32. A report is exact: its total is the sum of its per-message weights, and it is what the estimator counts on exactly the
  parts and extensions of the request's messages that the profile can measure, plus the fallback for every part and extension of
  the request that it cannot (extensions of a type declared metadata-only cost nothing); each segment lists the content references of its messages in order; the arithmetic does not
  overflow, and the overflow reason is set exactly when the total exceeds the limit that the request resolves to.
\<close>

theorem Report_exact:
  assumes "NewEstimateReporter r0 = Inr r" "Report D r req c = (Inr rep, c')"
  shows "Resolve (ErBudget req) = Inr (RepEffectiveLimit rep) \<and> map SegName (RepSegments rep) = map EsName (ErSegments req) \<and>
     RepTotal rep = sum_list (concat (map SegPerMessage (RepSegments rep))) \<and> 0 \<le> RepTotal rep \<and> RepTotal rep \<le> MaxInt \<and>
     (RepOverflowReason rep = [] \<longleftrightarrow> RepTotal rep \<le> RepEffectiveLimit rep) \<and> EstimateReport_Validate D rep = Inr () \<and>
     segmentRefs r (RepSegments rep) (ErSegments req) \<and>
     (\<exists>counted c1 c2. Estimate (RpEnv r) (RpEstimator r) (cloneMessageSlice (map (knownContent r) (requestMessages req))) c1 = (Inr counted, c2) \<and>
        RepTotal rep = counted + fallbackTokens (RpProfile r) * int (sum_list (map (unknownUnits r) (requestMessages req))))"
proof -
  have prof: "profile_ok (RpProfile r)" using NewEstimateReporter_Inr [OF assms(1)] by blast
  from assms(2) obtain draft sealed c1 where m: "measureRequest r req c = (Inr draft, c1)"
    and s: "sealReport D draft = Inr sealed" and f: "finalizeEstimateReport D sealed = Inr rep"
    by (auto simp: Report_def bind_Inr_iff)
  from s obtain pd rd where sealed: "sealed = draft\<lparr>RepProfileDigest := pd, RepRequestDigest := rd\<rparr>"
    by (auto simp: sealReport_def bind_res_Inr_iff Let_def)
  from f obtain d where rep: "rep = sealed\<lparr>RepDigest := d\<rparr>" and v: "EstimateReport_Validate D rep = Inr ()"
    by (auto simp: finalizeEstimateReport_def bind_res_Inr_iff Let_def)
  show ?thesis
  proof (rule measureRequest_Inr [OF prof m])
    fix limit xss segs wss q
    assume limit: "Resolve (ErBudget req) = Inr limit"
      and m: "list_all2 (\<lambda>seg xs. measuredBy r (seg\<lparr>EsMessages := cloneMessageSlice (EsMessages seg)\<rparr>) xs) (ErSegments req) xss"
      and w: "list_all2 (\<lambda>seg (xs, ws). weighed (RpProfile r) seg xs ws) segs (zip xss wss)" "length wss = length xss"
      and n: "map SegName segs = map EsName (ErSegments req)"
      and tot: "totalSegments (0, startQuality r) segs = Inr (RepTotal draft, q)"
      and draft: "draft = draftReport r req limit segs (RepTotal draft, q)"
      and est: "\<exists>c1 c2. Estimate (RpEnv r) (RpEstimator r) (cloneMessageSlice (map mShown (concat xss))) c1 = (Inr (sum_list (concat wss)), c2)"
    note known = measured_known [OF measured_messages [OF m], folded requestMessages_def]
    have t: "RepTotal draft = sum_list (map SegTokens segs)" "RepTotal draft \<le> MaxInt" "0 \<le> RepTotal draft"
      using totalSegments_Inr [OF tot] by (simp_all add: MaxInt_def)
    define T where "T = RepTotal draft"
    from draft [folded T_def] have "RepEffectiveLimit draft = limit" "RepSegments draft = segs" "RepOverflowReason draft = overflowReason T limit"
      by (simp_all add: draftReport_def)
    then have fields: "RepEffectiveLimit rep = limit" "RepSegments rep = segs" "RepTotal rep = RepTotal draft"
      "RepOverflowReason rep = overflowReason (RepTotal draft) limit"
      by (simp_all add: rep sealed T_def)
    show ?thesis
      using limit n t est units_concat [OF w] v weighed_refs [OF m w]
      by (auto simp: fields weighed_units [OF w] known overflowReason_def ReasonTokenBudgetExceeded_def)
  qed
qed

subsection \<open>A concrete report\<close>

definition sampleProfile :: EstimateProfile where
  "sampleProfile = (let d = \<lparr>DescID = ''d'', DescRevision = ''1''\<rparr> in
     \<lparr>PfModel = d, PfEstimator = d, PfMethod = d, PfEncoding = d, Capabilities = [(EstimateText, EstimateEstimated)],
      PfFallback = Some \<lparr>FbPolicy = d, FbTokens = 85\<rparr>, PfExtensions = []\<rparr>)"

definition sampleReporter :: EstimateReporter where
  "sampleReporter = \<lparr>RpEstimator = CharTokenEstimator, RpProfile = sampleProfile, RpEnv = sampleEnv,
     RpWire = \<lparr>EncodeWire = (\<lambda>t p. Inr (t @ p)), DecodeWire = (\<lambda>w. Inl (Errorf w)), IsOpaqueState = (\<lambda>_. False)\<rparr>,
     RpExtensions = None, RpHostAccuracy = None, RpHostCapabilities = None\<rparr>"

definition sampleDigests :: ReportDigests where
  "sampleDigests = \<lparr>ProfileDigest = (\<lambda>_. Inr ''p''), RequestDigest = (\<lambda>_. Inr ''q''), ReportDigest = (\<lambda>_. Inr ''r'')\<rparr>"

definition sampleMixed :: Message where
  "sampleMixed = (userText ''m1'' ''hello'')\<lparr>MsgParts := [PartValue (TextPart ''hello''), PartValue (ImagePart ''u'' [])]\<rparr>"

definition sampleRequest :: EstimateRequest where
  "sampleRequest = (messagesRequest [sampleMixed, userText ''m2'' ''world''])\<lparr>ErBudget := EffectiveInputBudget 90\<rparr>"

lemma sample_reporter: "NewEstimateReporter sampleReporter = Inr sampleReporter"
proof -
  have "EstimateProfile_validate sampleProfile = Inr ()" by code_simp
  then show ?thesis
    by (simp add: NewEstimateReporter_def sampleReporter_def EstimateAccuracy_def EstimateCapabilities_def sampleProfile_def Let_def
        legacyEstimateCapabilities_def)
qed

theorem Report_exact_witness:
  "\<exists>rep. Report sampleDigests sampleReporter sampleRequest None = (Inr rep, None) \<and> RepTotal rep = 95 \<and> RepOverflowReason rep \<noteq> []"
proof -
  have "(case Report sampleDigests sampleReporter sampleRequest None of (Inr rep, None) \<Rightarrow> RepTotal rep = 95 \<and> RepEffectiveLimit rep = 90 | _ \<Rightarrow> False)"
    by code_simp
  then obtain rep where rep: "Report sampleDigests sampleReporter sampleRequest None = (Inr rep, None)" "RepTotal rep = 95" "RepEffectiveLimit rep = 90"
    by (auto split: prod.splits sum.splits option.splits)
  with Report_exact [OF sample_reporter rep(1)] show ?thesis by auto
qed

theorem Report_validates_witness:
  "\<exists>draft rep. measureRequest sampleReporter sampleRequest None = (Inr draft, None) \<and> sealReport sampleDigests draft = Inr rep \<and>
     finalizeEstimateReport sampleDigests rep = Inr (rep\<lparr>RepDigest := ''r''\<rparr>)"
proof -
  have "(case measureRequest sampleReporter sampleRequest None of (Inr draft, None) \<Rightarrow> True | _ \<Rightarrow> False)" by code_simp
  then obtain draft where m: "measureRequest sampleReporter sampleRequest None = (Inr draft, None)"
    by (auto split: prod.splits sum.splits option.splits)
  obtain rep where s: "sealReport sampleDigests draft = Inr rep" by (simp add: sealReport_def sampleDigests_def estimateRequestDigest_def Let_def)
  have d: "contentDigest sampleDigests rep = Inr ''r''" by (simp add: contentDigest_def sampleDigests_def)
  have "\<forall>seg \<in> set (ErSegments sampleRequest). distinct (map MsgID (EsMessages seg))" by code_simp
  moreover have "digest_wf (RpEnv sampleReporter)" using sampleEnv_digest by (simp add: sampleReporter_def)
  ultimately show ?thesis using Report_validates [OF sample_reporter _ m s d] m s by blast
qed

end
