(* ===== verification/Materialization.thy ===== *)
theory Materialization
  imports Conversation Estimate_Report
begin

text \<open>
  Materialization and admission of artifacts (materialization.go, artifact_budget.go, artifact_estimate.go):
  the host decides how an artifact is represented as a message; within one compile each revision of an artifact is
  materialized once, and an artifact with a token budget is admitted only when its message fits.
  The contexts of the code carry the evidence of a compile; here it is a record that is passed along.
  The JSON digests of artifacts and payloads are parameters.
\<close>

subsection \<open>The host of a compile\<close>

text \<open>
  \<open>DefaultEnv\<close> is \<^verbatim>\<open>DefaultJSONSerializer\<close>, \<open>MaterialEnv\<close> the codec of the materialization and \<open>SelectionEnv\<close> the codec that
  \<^verbatim>\<open>selectionCodec\<close> returns for the context. \<open>SharedPreparation\<close> is the flag \<^verbatim>\<open>sharedPreparationKey\<close>.
\<close>

record CompileHost =
  DefaultEnv :: env
  MaterialEnv :: env
  SelectionEnv :: env
  ArtifactDigest :: "ContextArtifact \<Rightarrow> string result"
  HostPayloadDigest :: "ToolPayload \<Rightarrow> string result"
  SharedPreparation :: bool

abbreviation ErrMissingArtifactMaterialization :: go_error where
  "ErrMissingArtifactMaterialization \<equiv> Sentinel ''ErrMissingArtifactMaterialization''"

abbreviation ErrInvalidArtifactMaterialization :: go_error where
  "ErrInvalidArtifactMaterialization \<equiv> Sentinel ''ErrInvalidArtifactMaterialization''"

definition ArtifactContentRef :: "CompileHost \<Rightarrow> ContextArtifact \<Rightarrow> ContentRef result" where
  "ArtifactContentRef H a =
     (if ArtID a = [] then Inl ErrInvalidContentRef
      else bind_res (validateArtifactBlob (DefaultEnv H) (HostPayloadDigest H) a) (\<lambda>_.
           bind_res (ArtifactDigest H a) (\<lambda>d. Inr \<lparr>RefID = ArtID a, RefDigest = d, RefOccurrence = []\<rparr>)))"

subsection \<open>Materialization\<close>

record ArtifactRepresentation =
  ArRole :: Role
  ArParts :: "part list"

record ArtifactMaterializationPolicy =
  MatIdentity :: Descriptor
  Materialize :: "(ContextArtifact \<Rightarrow> ArtifactRepresentation comp) option"

record ArtifactMaterializationDecision =
  MdPolicy :: Descriptor
  MdArtifact :: ContentRef
  MdMessage :: ContentRef

record materializationState =
  MstPolicy :: "ArtifactMaterializationPolicy option"
  MstMessages :: "(ContentRef \<times> Message) list"
  MstDecisions :: "(ContentRef \<times> ArtifactMaterializationDecision) list"

definition withArtifactMaterialization :: "ArtifactMaterializationPolicy option \<Rightarrow> materializationState option" where
  "withArtifactMaterialization policy = Some \<lparr>MstPolicy = policy, MstMessages = [], MstDecisions = []\<rparr>"

definition validateMaterializationPolicy :: "ArtifactMaterializationPolicy option \<Rightarrow> unit result" where
  "validateMaterializationPolicy policy =
     (case policy of
        None \<Rightarrow> Inl ErrMissingArtifactMaterialization
      | Some p \<Rightarrow> (case Materialize p of
          None \<Rightarrow> Inl ErrMissingArtifactMaterialization
        | Some _ \<Rightarrow> if Descriptor_Validate (MatIdentity p) \<noteq> Inr () then Inl ErrInvalidArtifactMaterialization else Inr ()))"

definition initializeArtifactMaterializationContext ::
  "ArtifactMaterializationPolicy option \<Rightarrow> materializationState option result" where
  "initializeArtifactMaterializationContext policy =
     bind_res (case policy of None \<Rightarrow> Inr () | Some _ \<Rightarrow> validateMaterializationPolicy policy) (\<lambda>_.
     Inr (withArtifactMaterialization policy))"

definition ownContentParts :: "env \<Rightarrow> part list \<Rightarrow> part list result" where
  "ownContentParts E parts =
     bind_res (validateContentParts E parts) (\<lambda>_.
     let owned = map (\<lambda>p. case canonicalPartValue p of None \<Rightarrow> PartNil | Some v \<Rightarrow> PartValue (clonePart v)) parts in
     bind_res (validateContentParts E owned) (\<lambda>_. Inr owned))"

definition isToolPart :: "part \<Rightarrow> bool" where
  "isToolPart p = (case p of PartValue (ToolCallPart _) \<Rightarrow> True | PartValue (ToolResultPart _) \<Rightarrow> True | _ \<Rightarrow> False)"

definition artifactMessageID :: "string \<Rightarrow> string" where
  "artifactMessageID i = ''artifact:'' @ i"

definition materializationMessage :: "env \<Rightarrow> ContextArtifact \<Rightarrow> ArtifactRepresentation \<Rightarrow> Message result" where
  "materializationMessage E a rep =
     (case Role_Validate (ArRole rep) of
        Inl e \<Rightarrow> Inl (Wrap ErrInvalidArtifactMaterialization e)
      | Inr _ \<Rightarrow>
          if ArParts rep = [] then Inl ErrInvalidArtifactMaterialization
          else case ownContentParts E (ArParts rep) of
            Inl e \<Rightarrow> Inl (Wrap ErrInvalidArtifactMaterialization e)
          | Inr parts \<Rightarrow>
              if \<exists>p \<in> set parts. isToolPart p then Inl ErrInvalidArtifactMaterialization
              else Inr (Message_Clone
                \<lparr>MsgID = artifactMessageID (ArtID a), MsgRole = ArRole rep, MsgActor = None, MsgParts = parts, MsgTimestamp = None,
                 MsgSourceRefs = clone_nonempty (ArtSourceRefs a), MsgExtensions = cloneExtensions (ArtExtensions a),
                 MsgOrigin = None, MsgLLMCache = None, MsgProvenance = ProvNil\<rparr>))"

text \<open>\<^verbatim>\<open>state.policy.Materialize\<close> and \<^verbatim>\<open>state.policy.Identity\<close>, used after the policy was validated.\<close>

definition hostMaterialize :: "ArtifactMaterializationPolicy option \<Rightarrow> ContextArtifact \<Rightarrow> ArtifactRepresentation comp" where
  "hostMaterialize policy a =
     (case policy of None \<Rightarrow> fail ErrMissingArtifactMaterialization
      | Some p \<Rightarrow> (case Materialize p of None \<Rightarrow> fail ErrMissingArtifactMaterialization | Some f \<Rightarrow> f a))"

definition policyIdentity :: "ArtifactMaterializationPolicy option \<Rightarrow> Descriptor" where
  "policyIdentity policy = (case policy of Some p \<Rightarrow> MatIdentity p | None \<Rightarrow> \<lparr>DescID = [], DescRevision = []\<rparr>)"

definition artifactMessage ::
  "CompileHost \<Rightarrow> materializationState option \<Rightarrow> ContextArtifact \<Rightarrow> (Message \<times> materializationState option) comp" where
  "artifactMessage H st a =
     bind poll (\<lambda>_.
     case st of None \<Rightarrow> fail ErrMissingArtifactMaterialization
     | Some s \<Rightarrow>
       bind (lift_res (validateMaterializationPolicy (MstPolicy s))) (\<lambda>_.
       bind (lift_res (ArtifactContentRef H a)) (\<lambda>ref.
       case map_of (MstMessages s) ref of
         Some cached \<Rightarrow> ret (Message_Clone cached, st)
       | None \<Rightarrow>
           bind (lift_res (validateArtifactBlob (DefaultEnv H) (HostPayloadDigest H) a)) (\<lambda>_.
           bind (settle (hostMaterialize (MstPolicy s) (ContextArtifact_Clone a))) (\<lambda>representation.
           bind (lift_res (materializationMessage (DefaultEnv H) a representation)) (\<lambda>message.
           bind (lift_res (MessageContentRef (MaterialEnv H) message)) (\<lambda>out.
           ret (Message_Clone message,
                Some (s\<lparr>MstMessages := AList.update ref (Message_Clone message) (MstMessages s),
                        MstDecisions := AList.update ref
                          \<lparr>MdPolicy = policyIdentity (MstPolicy s),
                           MdArtifact = ref, MdMessage = out\<rparr> (MstDecisions s)\<rparr>)))))))))"

fun artifactMessages ::
  "CompileHost \<Rightarrow> materializationState option \<Rightarrow> ContextArtifact list \<Rightarrow> (Message list \<times> materializationState option) comp" where
  "artifactMessages H st [] = ret ([], st)"
| "artifactMessages H st (a # as) =
     bind (artifactMessage H st a) (\<lambda>(m, st'). bind (artifactMessages H st' as) (\<lambda>(ms, st''). ret (m # ms, st'')))"

text \<open>The lexicographic order by identity and digest, as two stable sorts.\<close>

definition materializationDecisions :: "materializationState option \<Rightarrow> ArtifactMaterializationDecision list" where
  "materializationDecisions st =
     (case st of None \<Rightarrow> []
      | Some s \<Rightarrow> sort_key (\<lambda>d. RefID (MdArtifact d)) (sort_key (\<lambda>d. RefDigest (MdArtifact d)) (map snd (MstDecisions s))))"

definition ArtifactMaterializationDecision_Validate :: "ArtifactMaterializationDecision \<Rightarrow> unit result" where
  "ArtifactMaterializationDecision_Validate d =
     (if Descriptor_Validate (MdPolicy d) \<noteq> Inr () \<or> ContentRef_Validate (MdArtifact d) \<noteq> Inr () \<or>
         ContentRef_Validate (MdMessage d) \<noteq> Inr () \<or> RefOccurrence (MdArtifact d) \<noteq> [] \<or> RefOccurrence (MdMessage d) \<noteq> [] \<or>
         RefID (MdMessage d) \<noteq> artifactMessageID (RefID (MdArtifact d))
      then Inl ErrInvalidArtifactMaterialization else Inr ())"

definition materializationPolicyIdentity :: "materializationState option \<Rightarrow> Descriptor result" where
  "materializationPolicyIdentity st =
     (case st of None \<Rightarrow> Inl ErrMissingArtifactMaterialization
      | Some s \<Rightarrow> bind_res (validateMaterializationPolicy (MstPolicy s)) (\<lambda>_.
          case MstPolicy s of Some p \<Rightarrow> Inr (MatIdentity p) | None \<Rightarrow> Inl ErrMissingArtifactMaterialization))"

subsection \<open>Admission\<close>

text \<open>
  \<open>counter\<close> is a token estimator with the outcome of the type test \<^verbatim>\<open>estimator.(*EstimateReporter)\<close>.
\<close>

datatype counter = PlainCounter TokenEstimator | ReportCounter ReportDigests EstimateReporter

definition counterEstimator :: "counter \<Rightarrow> TokenEstimator" where
  "counterEstimator k = (case k of PlainCounter est \<Rightarrow> est | ReportCounter D r \<Rightarrow> reporterEstimator D r)"

record ArtifactBudgetEstimate =
  AeInput :: ContentRef
  AeMessage :: ContentRef
  AeTokenLimit :: int
  AeTokens :: int
  AeQuality :: EstimateQuality
  AeReport :: "EstimateReport option"

definition estimateArtifact ::
  "CompileHost \<Rightarrow> counter \<Rightarrow> ContextArtifact \<Rightarrow> int \<Rightarrow> Message \<Rightarrow> ArtifactBudgetEstimate comp" where
  "estimateArtifact H k a limit message =
     bind (lift_res (ArtifactContentRef H a)) (\<lambda>input.
     bind (lift_res (MessageContentRef (DefaultEnv H) message)) (\<lambda>ref.
     let estimate = \<lparr>AeInput = input, AeMessage = ref, AeTokenLimit = limit, AeTokens = 0, AeQuality = EstimateEstimated, AeReport = None\<rparr> in
     case k of
       ReportCounter D r \<Rightarrow>
         bind (Report D r \<lparr>ErSegments = [\<lparr>EsName = ''artifact'', EsMessages = [message]\<rparr>],
                 ErBudget = EffectiveInputBudget limit, ErManifestRef = None, ErWireRef = None\<rparr>) (\<lambda>report.
         ret (estimate\<lparr>AeTokens := RepTotal report, AeQuality := RepQuality report, AeReport := Some report\<rparr>))
     | PlainCounter est \<Rightarrow>
         bind (estimateOwned (DefaultEnv H) est [message]) (\<lambda>tokens. ret (estimate\<lparr>AeTokens := tokens\<rparr>))))"

text \<open>The evidence that a compile collects in its context while artifacts are selected.\<close>

record Evidence =
  EvMaterial :: "materializationState option"
  EvExclusions :: "(ContentRef \<times> string) list"
  EvEstimates :: "(ContentRef \<times> ArtifactBudgetEstimate) list"

definition artifactInactiveReason :: string where
  "artifactInactiveReason = ''artifact_inactive''"

definition artifactSelectionReason ::
  "CompileHost \<Rightarrow> counter \<Rightarrow> string \<Rightarrow> ContextArtifact \<Rightarrow> Evidence \<Rightarrow> (string \<times> Evidence) comp" where
  "artifactSelectionReason H k turnID a ev =
     (if \<not> artifactVisibleInTurn turnID a then ret (artifactInactiveReason, ev)
      else bind (artifactMessage H (EvMaterial ev) a) (\<lambda>(message, st).
      let ev1 = ev\<lparr>EvMaterial := st\<rparr> in
      if SharedPreparation H then ret ([], ev1)
      else case ArtBudget a of
        None \<Rightarrow> ret ([], ev1)
      | Some limit \<Rightarrow>
          if limit < 0 then fail ErrInvalidBudgetRequest
          else bind (settle (map_err (Wrap ErrTokenCountFailed) (estimateArtifact H k a limit message))) (\<lambda>estimate.
          if AeTokens estimate < 0 then fail ErrTokenCountFailed
          else let ev2 = ev1\<lparr>EvEstimates := AList.update (AeInput estimate) estimate (EvEstimates ev1)\<rparr> in
               if AeTokens estimate > limit then ret (ReasonTokenBudgetExceeded, ev2) else ret ([], ev2))))"

fun selectArtifacts_from ::
  "CompileHost \<Rightarrow> counter \<Rightarrow> string \<Rightarrow> ContextArtifact list \<Rightarrow> Evidence \<Rightarrow> ContextArtifact list \<Rightarrow> (ContextArtifact list \<times> Evidence) comp" where
  "selectArtifacts_from H k turnID active ev [] = ret (active, ev)"
| "selectArtifacts_from H k turnID active ev (a # as) =
     bind poll (\<lambda>_.
     bind (artifactSelectionReason H k turnID a ev) (\<lambda>(reason, ev').
     if reason = [] then selectArtifacts_from H k turnID (upsertArtifact active a) ev' as
     else bind (lift_res (ArtifactContentRef H a)) (\<lambda>ref.
          selectArtifacts_from H k turnID active (ev'\<lparr>EvExclusions := AList.update ref reason (EvExclusions ev')\<rparr>) as)))"

definition selectArtifacts ::
  "CompileHost \<Rightarrow> counter option \<Rightarrow> string \<Rightarrow> ContextArtifact list \<Rightarrow> Evidence \<Rightarrow> (ContextArtifact list \<times> Evidence) comp" where
  "selectArtifacts H budget turnID as ev =
     selectArtifacts_from H (case budget of None \<Rightarrow> PlainCounter CharTokenEstimator | Some k \<Rightarrow> k) turnID [] ev as"

subsection \<open>Each revision is materialized once\<close>

text \<open>
  The evidence of a materialization: messages and decisions have the same keys, and each decision names the policy, the
  exact artifact revision and a message with the identity of that artifact.
\<close>

definition material_ok :: "materializationState \<Rightarrow> bool" where
  "material_ok s \<longleftrightarrow> dom (map_of (MstMessages s)) = dom (map_of (MstDecisions s)) \<and> distinct (map fst (MstDecisions s)) \<and>
     (\<forall>ref d. map_of (MstDecisions s) ref = Some d \<longrightarrow> MdArtifact d = ref \<and> ArtifactMaterializationDecision_Validate d = Inr () \<and>
        MstPolicy s \<noteq> None \<and> MdPolicy d = policyIdentity (MstPolicy s)) \<and>
     (\<forall>ref m. map_of (MstMessages s) ref = Some m \<longrightarrow> MsgID m = artifactMessageID (RefID ref) \<and> Role_Validate (MsgRole m) = Inr () \<and>
        ToolCallParts m = [] \<and> ToolResultParts m = [])"

definition artifact_digest_wf :: "CompileHost \<Rightarrow> bool" where
  "artifact_digest_wf H \<longleftrightarrow> (\<forall>a d. ArtifactDigest H a = Inr d \<longrightarrow> (\<exists>b. length b = 32 \<and> d = bytesToHex b))"

lemma ArtifactContentRef_valid:
  assumes "artifact_digest_wf H" "ArtifactContentRef H a = Inr ref"
  shows "ContentRef_Validate ref = Inr () \<and> RefID ref = ArtID a \<and> RefOccurrence ref = []"
proof -
  from assms(2) obtain d where d: "ArtifactDigest H a = Inr d" "ArtID a \<noteq> []" "ref = \<lparr>RefID = ArtID a, RefDigest = d, RefOccurrence = []\<rparr>"
    by (auto simp: ArtifactContentRef_def bind_res_Inr_iff split: if_splits)
  with assms(1) obtain b where "length b = 32" "d = bytesToHex b" by (auto simp: artifact_digest_wf_def)
  with d show ?thesis by (simp add: ContentRef_Validate_def)
qed

lemma no_tool_parts:
  assumes "\<forall>p \<in> set ps. \<not> isToolPart p" "\<forall>p \<in> set ps. \<exists>v. p = PartValue v \<or> p = PartNil"
  shows "tool_calls_of ps = [] \<and> tool_results_of ps = []"
  using assms
proof (induction ps)
  case (Cons p ps)
  then obtain v where "p = PartValue v \<or> p = PartNil" by auto
  with Cons show ?case by (cases v) (auto simp: canonicalPartValue_def isToolPart_def)
qed simp

lemma ToolParts_Clone_Nil [simp]:
  "ToolCallParts (Message_Clone m) = [] \<longleftrightarrow> ToolCallParts m = []" "ToolResultParts (Message_Clone m) = [] \<longleftrightarrow> ToolResultParts m = []"
  using ToolCallParts_Clone [of m] ToolResultParts_Clone [of m] by (metis list.map_disc_iff)+

lemma materializationMessage_Inr:
  assumes "materializationMessage E a rep = Inr m"
  shows "MsgID m = artifactMessageID (ArtID a) \<and> Role_Validate (MsgRole m) = Inr () \<and> ToolCallParts m = [] \<and> ToolResultParts m = []"
proof -
  from assms obtain parts m0 where role: "Role_Validate (ArRole rep) = Inr ()" and own: "ownContentParts E (ArParts rep) = Inr parts"
    and tools: "\<forall>p \<in> set parts. \<not> isToolPart p" and m: "m = Message_Clone m0" "MsgID m0 = artifactMessageID (ArtID a)" "MsgRole m0 = ArRole rep" "MsgParts m0 = parts"
    by (auto simp: materializationMessage_def split: sum.splits if_splits)
  have "\<forall>p \<in> set parts. \<exists>v. p = PartValue v \<or> p = PartNil"
    using own by (auto simp: ownContentParts_def bind_res_Inr_iff Let_def split: option.splits)
  from no_tool_parts [OF tools this] role m show ?thesis by (simp add: ToolCallParts_def [of m0] ToolResultParts_def [of m0])
qed

lemma artifactMessage_InrE:
  assumes "artifactMessage H st a c = (Inr (m, st'), c')"
  obtains (hit) s ref cached where "st = Some s" "ArtifactContentRef H a = Inr ref" "map_of (MstMessages s) ref = Some cached"
      "m = Message_Clone cached" "st' = st"
  | (miss) s ref rep message out p where "st = Some s" "ArtifactContentRef H a = Inr ref" "map_of (MstMessages s) ref = None"
      "materializationMessage (DefaultEnv H) a rep = Inr message" "MessageContentRef (MaterialEnv H) message = Inr out"
      "MstPolicy s = Some p" "Descriptor_Validate (MatIdentity p) = Inr ()" "m = Message_Clone message"
      "st' = Some (s\<lparr>MstMessages := AList.update ref (Message_Clone message) (MstMessages s),
         MstDecisions := AList.update ref \<lparr>MdPolicy = MatIdentity p, MdArtifact = ref, MdMessage = out\<rparr> (MstDecisions s)\<rparr>)"
proof (cases st)
  case None
  then show ?thesis using assms by (auto simp: artifactMessage_def bind_Inr_iff)
next
  case (Some s)
  from assms Some obtain ref c1 where ref: "ArtifactContentRef H a = Inr ref" and pol: "validateMaterializationPolicy (MstPolicy s) = Inr ()"
    by (auto simp: artifactMessage_def bind_Inr_iff)
  from pol obtain p where p: "MstPolicy s = Some p" "Descriptor_Validate (MatIdentity p) = Inr ()"
    by (auto simp: validateMaterializationPolicy_def split: option.splits if_splits)
  show ?thesis
  proof (cases "map_of (MstMessages s) ref")
    case (Some cached)
    then have "m = Message_Clone cached" "st' = st"
      using assms \<open>st = Some s\<close> ref by (auto simp: artifactMessage_def bind_Inr_iff)
    with Some ref \<open>st = Some s\<close> show ?thesis by (intro hit)
  next
    case None
    then obtain rep message out where "materializationMessage (DefaultEnv H) a rep = Inr message"
      "MessageContentRef (MaterialEnv H) message = Inr out" "m = Message_Clone message"
      "st' = Some (s\<lparr>MstMessages := AList.update ref (Message_Clone message) (MstMessages s),
         MstDecisions := AList.update ref \<lparr>MdPolicy = MatIdentity p, MdArtifact = ref, MdMessage = out\<rparr> (MstDecisions s)\<rparr>)"
      using assms \<open>st = Some s\<close> ref p(1) by (auto simp: artifactMessage_def bind_Inr_iff policyIdentity_def)
    with None p ref \<open>st = Some s\<close> show ?thesis by (intro miss)
  qed
qed

lemma artifactMessage_ok:
  assumes "artifactMessage H (Some s) a c = (Inr (m, st'), c')" "material_ok s" "artifact_digest_wf H" "digest_wf (MaterialEnv H)"
  shows "\<exists>s'. st' = Some s' \<and> material_ok s' \<and> MstPolicy s' = MstPolicy s \<and> map_of (MstMessages s) \<subseteq>\<^sub>m map_of (MstMessages s') \<and>
     (\<exists>ref m0. ArtifactContentRef H a = Inr ref \<and> map_of (MstMessages s') ref = Some m0 \<and> (m = m0 \<or> m = Message_Clone m0) \<and>
        dom (map_of (MstMessages s')) = insert ref (dom (map_of (MstMessages s))))"
  using assms(1)
proof (cases rule: artifactMessage_InrE)
  case (hit s ref cached)
  then show ?thesis using assms(2) by auto
next
  case (miss s0 ref rep message out p)
  let ?d = "\<lparr>MdPolicy = MatIdentity p, MdArtifact = ref, MdMessage = out\<rparr>"
  let ?s = "s\<lparr>MstMessages := AList.update ref (Message_Clone message) (MstMessages s), MstDecisions := AList.update ref ?d (MstDecisions s)\<rparr>"
  note mm = materializationMessage_Inr [OF miss(4)]
  have out: "ContentRef_Validate out = Inr ()" "RefID out = MsgID message"
    using MessageContentRef_valid [OF assms(4) miss(5)] MessageContentRef_ID [OF miss(5)] by auto
  have occ: "RefOccurrence out = []" using miss(5) by (auto simp: MessageContentRef_def bind_res_Inr_iff split: if_splits)
  have ref: "ContentRef_Validate ref = Inr ()" "RefID ref = ArtID a" "RefOccurrence ref = []"
    using ArtifactContentRef_valid [OF assms(3) miss(2)] by auto
  have d: "ArtifactMaterializationDecision_Validate ?d = Inr ()"
    using miss(7) out occ ref mm by (simp add: ArtifactMaterializationDecision_Validate_def)
  have s: "s0 = s" using miss(1) by simp
  have "material_ok ?s"
    using assms(2) miss(6) s d mm ref by (auto simp: material_ok_def update_conv' policyIdentity_def distinct_update)
  moreover have "map_of (MstMessages s) \<subseteq>\<^sub>m map_of (MstMessages ?s)"
    using miss(3) s by (auto simp: map_le_def update_conv')
  ultimately show ?thesis
    using miss s by (intro exI [of _ ?s]) (simp add: update_conv')
qed

lemma artifactMessages_ok:
  assumes "artifactMessages H (Some s) as c = (Inr (ms, st'), c')" "material_ok s" "artifact_digest_wf H" "digest_wf (MaterialEnv H)"
  shows "\<exists>s'. st' = Some s' \<and> material_ok s' \<and> MstPolicy s' = MstPolicy s \<and> map_of (MstMessages s) \<subseteq>\<^sub>m map_of (MstMessages s') \<and>
     dom (map_of (MstMessages s')) = {ref. \<exists>a \<in> set as. ArtifactContentRef H a = Inr ref} \<union> dom (map_of (MstMessages s)) \<and>
     list_all2 (\<lambda>a m. \<exists>ref m0. ArtifactContentRef H a = Inr ref \<and> map_of (MstMessages s') ref = Some m0 \<and> (m = m0 \<or> m = Message_Clone m0)) as ms"
  using assms(1,2)
proof (induction as arbitrary: s c ms)
  case Nil
  then show ?case by auto
next
  case (Cons a as)
  from Cons.prems(1) obtain m ms1 st1 c1 where m: "artifactMessage H (Some s) a c = (Inr (m, st1), c1)"
    and rest: "artifactMessages H st1 as c1 = (Inr (ms1, st'), c')" and ms: "ms = m # ms1"
    by (auto simp: bind_Inr_iff)
  from artifactMessage_ok [OF m Cons.prems(2) assms(3,4)] obtain s1 ref m0 where s1: "st1 = Some s1" "material_ok s1" "MstPolicy s1 = MstPolicy s"
      "map_of (MstMessages s) \<subseteq>\<^sub>m map_of (MstMessages s1)"
    and ref: "ArtifactContentRef H a = Inr ref" "map_of (MstMessages s1) ref = Some m0" "m = m0 \<or> m = Message_Clone m0"
      "dom (map_of (MstMessages s1)) = insert ref (dom (map_of (MstMessages s)))"
    by blast
  from Cons.IH [OF rest [unfolded s1(1)] s1(2)] obtain s' where s': "st' = Some s'" "material_ok s'" "MstPolicy s' = MstPolicy s1"
      "map_of (MstMessages s1) \<subseteq>\<^sub>m map_of (MstMessages s')"
      "dom (map_of (MstMessages s')) = {ref. \<exists>a \<in> set as. ArtifactContentRef H a = Inr ref} \<union> dom (map_of (MstMessages s1))"
      "list_all2 (\<lambda>a m. \<exists>ref m0. ArtifactContentRef H a = Inr ref \<and> map_of (MstMessages s') ref = Some m0 \<and> (m = m0 \<or> m = Message_Clone m0)) as ms1"
    by blast
  have "map_of (MstMessages s') ref = Some m0" using s'(4) ref(2) by (auto simp: map_le_def dest: bspec)
  moreover have "map_of (MstMessages s) \<subseteq>\<^sub>m map_of (MstMessages s')" using s1(4) s'(4) by (rule map_le_trans)
  ultimately show ?case using s1 s' ref ms by (intro exI [of _ s']) (auto simp: s'(5))
qed

lemma artifactMessage_cached:
  assumes "ArtifactContentRef H a = Inr ref" "map_of (MstMessages s) ref = Some m0" "validateMaterializationPolicy (MstPolicy s) = Inr ()"
  shows "artifactMessage H (Some s) a None = (Inr (Message_Clone m0, Some s), None)"
  using assms by (simp add: artifactMessage_def bind_def)

lemma material_policy:
  assumes "material_ok s" "map_of (MstMessages s) ref = Some m" "initializeArtifactMaterializationContext (MstPolicy s) = Inr st"
  shows "validateMaterializationPolicy (MstPolicy s) = Inr ()"
proof -
  have "ref \<in> dom (map_of (MstDecisions s))" using assms(1,2) by (auto simp: material_ok_def)
  then obtain d where "map_of (MstDecisions s) ref = Some d" by blast
  then have "MstPolicy s \<noteq> None" using assms(1) by (simp add: material_ok_def)
  then show ?thesis using assms(3) by (auto simp: initializeArtifactMaterializationContext_def bind_res_Inr_iff)
qed

lemma decisions_keys: "material_ok s \<Longrightarrow> map (\<lambda>d. MdArtifact (snd d)) (MstDecisions s) = map fst (MstDecisions s)"
proof -
  assume ok: "material_ok s"
  then have "map_of (MstDecisions s) (fst x) = Some (snd x)" if "x \<in> set (MstDecisions s)" for x
    using that by (simp add: material_ok_def)
  then show ?thesis using ok by (auto simp: material_ok_def)
qed

text \<open>
  C33. Within a compile every revision of an artifact is materialized once: however often an artifact occurs in a
  list, and after the whole list, its message is the one of the first materialization, the host's policy is not asked again,
  and the recorded decisions are valid and name exactly the revisions that were materialized, each once.
\<close>

theorem materialize_once:
  assumes "initializeArtifactMaterializationContext policy = Inr st" "artifactMessages H st as c = (Inr (ms, st'), c')"
    and "artifact_digest_wf H" "digest_wf (MaterialEnv H)"
  shows "list_all2 (\<lambda>a m. \<exists>m0. (m = m0 \<or> m = Message_Clone m0) \<and>
       artifactMessage H st' a None = (Inr (Message_Clone m0, st'), None)) as ms \<and>
     (\<forall>d \<in> set (materializationDecisions st'). ArtifactMaterializationDecision_Validate d = Inr ()) \<and>
     set (map MdArtifact (materializationDecisions st')) = {ref. \<exists>a \<in> set as. ArtifactContentRef H a = Inr ref} \<and>
     distinct (map MdArtifact (materializationDecisions st'))"
proof -
  let ?s = "\<lparr>MstPolicy = policy, MstMessages = [], MstDecisions = []\<rparr>"
  have st: "st = Some ?s" using assms(1) by (auto simp: initializeArtifactMaterializationContext_def bind_res_Inr_iff withArtifactMaterialization_def)
  have "material_ok ?s" by (simp add: material_ok_def)
  from artifactMessages_ok [OF assms(2) [unfolded st] this assms(3,4)] obtain s where
    s: "st' = Some s" "material_ok s" "MstPolicy s = policy"
      "dom (map_of (MstMessages s)) = {ref. \<exists>a \<in> set as. ArtifactContentRef H a = Inr ref}"
      "list_all2 (\<lambda>a m. \<exists>ref m0. ArtifactContentRef H a = Inr ref \<and> map_of (MstMessages s) ref = Some m0 \<and> (m = m0 \<or> m = Message_Clone m0)) as ms"
    by auto
  have "list_all2 (\<lambda>a m. \<exists>m0. (m = m0 \<or> m = Message_Clone m0) \<and> artifactMessage H st' a None = (Inr (Message_Clone m0, st'), None)) as ms"
    using s(5)
  proof (rule list_all2_mono)
    fix a m assume "\<exists>ref m0. ArtifactContentRef H a = Inr ref \<and> map_of (MstMessages s) ref = Some m0 \<and> (m = m0 \<or> m = Message_Clone m0)"
    then obtain ref m0 where r: "ArtifactContentRef H a = Inr ref" "map_of (MstMessages s) ref = Some m0" and m: "m = m0 \<or> m = Message_Clone m0"
      by blast
    have "validateMaterializationPolicy (MstPolicy s) = Inr ()"
      by (rule material_policy [OF s(2) r(2)]) (use assms(1) s(3) in simp)
    from artifactMessage_cached [OF r this] m s(1)
    show "\<exists>m0. (m = m0 \<or> m = Message_Clone m0) \<and> artifactMessage H st' a None = (Inr (Message_Clone m0, st'), None)" by auto
  qed
  moreover have set: "set (materializationDecisions st') = snd ` set (MstDecisions s)" by (simp add: materializationDecisions_def s(1))
  have "ArtifactMaterializationDecision_Validate (snd x) = Inr ()" if "x \<in> set (MstDecisions s)" for x
  proof -
    have "map_of (MstDecisions s) (fst x) = Some (snd x)" using that s(2) by (simp add: material_ok_def)
    then show ?thesis using s(2) unfolding material_ok_def by blast
  qed
  then have "\<forall>d \<in> set (materializationDecisions st'). ArtifactMaterializationDecision_Validate d = Inr ()" by (auto simp: set)
  moreover have arts: "mset (map MdArtifact (materializationDecisions st')) = mset (map fst (MstDecisions s))"
    by (simp add: materializationDecisions_def s(1) flip: decisions_keys [OF s(2)]) (simp add: multiset.map_comp comp_def)
  then have "distinct (map MdArtifact (materializationDecisions st'))"
    using s(2) mset_eq_imp_distinct_iff [OF arts] by (simp add: material_ok_def)
  moreover have "set (map MdArtifact (materializationDecisions st')) = dom (map_of (MstDecisions s))"
    using mset_eq_setD [OF arts] by (simp add: dom_map_of_conv_image_fst)
  ultimately show ?thesis using s(2,4) by (simp add: material_ok_def)
qed

subsection \<open>A concrete compile host\<close>

definition sampleHost :: CompileHost where
  "sampleHost = \<lparr>DefaultEnv = sampleEnv, MaterialEnv = sampleEnv, SelectionEnv = sampleEnv,
     ArtifactDigest = (\<lambda>a. Inr (bytesToHex (take 32 (ArtID a @ replicate 32 CHR ''0'')))), HostPayloadDigest = (\<lambda>p. Inr (PlainText p)),
     SharedPreparation = False\<rparr>"

definition samplePolicy :: ArtifactMaterializationPolicy where
  "samplePolicy = \<lparr>MatIdentity = \<lparr>DescID = ''m'', DescRevision = ''1''\<rparr>,
     Materialize = Some (\<lambda>a. ret \<lparr>ArRole = RoleUser, ArParts = [PartValue (TextPart (PlainText (ArtPayload a)))]\<rparr>)\<rparr>"

definition sampleBlocks :: "ContextArtifact list" where
  "sampleBlocks = [NewMemoryBlock ''a'' (TextPayload ''x''), NewMemoryBlock ''b'' (TextPayload ''y''), NewMemoryBlock ''a'' (TextPayload ''x'')]"

lemma sampleHost_digests: "artifact_digest_wf sampleHost" "digest_wf (MaterialEnv sampleHost)"
proof -
  have "length (take 32 (i @ replicate 32 CHR ''0'')) = 32" for i :: string by simp
  then show "artifact_digest_wf sampleHost" unfolding artifact_digest_wf_def sampleHost_def by (metis Inr_inject CompileHost.select_convs(4))
  show "digest_wf (MaterialEnv sampleHost)" using sampleEnv_digest by (simp add: sampleHost_def)
qed

theorem materialize_once_witness:
  "\<exists>ms st. artifactMessages sampleHost (withArtifactMaterialization (Some samplePolicy)) sampleBlocks None = (Inr (ms, st), None) \<and>
     map MsgID ms = [''artifact:a'', ''artifact:b'', ''artifact:a''] \<and> distinct (map MdArtifact (materializationDecisions st))"
proof -
  have "(case artifactMessages sampleHost (withArtifactMaterialization (Some samplePolicy)) sampleBlocks None of
      (Inr (ms, st), None) \<Rightarrow> map MsgID ms = [''artifact:a'', ''artifact:b'', ''artifact:a''] | _ \<Rightarrow> False)"
    by code_simp
  then obtain ms st where ms: "artifactMessages sampleHost (withArtifactMaterialization (Some samplePolicy)) sampleBlocks None = (Inr (ms, st), None)"
    "map MsgID ms = [''artifact:a'', ''artifact:b'', ''artifact:a'']"
    by (auto split: prod.splits sum.splits option.splits)
  have "initializeArtifactMaterializationContext (Some samplePolicy) = Inr (withArtifactMaterialization (Some samplePolicy))"
    by (simp add: initializeArtifactMaterializationContext_def validateMaterializationPolicy_def samplePolicy_def Descriptor_Validate_def)
  from materialize_once [OF this ms(1) sampleHost_digests] ms show ?thesis by (intro exI [of _ ms] exI [of _ st]) simp
qed

end
