(* ===== verification/Selection.thy ===== *)
theory Selection
  imports Materialization
begin

text \<open>
  Selection of the content of an output (selection.go): the messages of a snapshot and the pending turn become atomic
  candidates (a message or a whole tool round), the host plans which of them it wants, the plan is checked, and the planned
  candidates are admitted in order of priority as long as they fit the budget.
\<close>

subsection \<open>Candidates, plans and decisions\<close>

record ContextCandidate =
  CcArtifact :: "ContextArtifact option"
  CcMembers :: "ContentRef list"
  CcRef :: ContentRef
  CcSegment :: string
  CcMessages :: "Message list"
  CcRequired :: bool
  CcOrdinal :: nat

record SelectionChoice =
  ChRef :: ContentRef
  ChPriority :: int

record SelectionPolicy =
  SpRequired :: "ContentRef list"
  SpIdentity :: Descriptor
  SpSelect :: "(ContextCandidate list \<Rightarrow> SelectionChoice list comp) option"

definition SelectionPolicy_validate :: "SelectionPolicy \<Rightarrow> unit result" where
  "SelectionPolicy_validate p = (case SpSelect p of None \<Rightarrow> Inl ErrInvalidSelection | Some _ \<Rightarrow> Descriptor_Validate (SpIdentity p))"

record CandidateDecision =
  CdRoundMembers :: "ContentRef list"
  CdMembers :: "ContentRef list"
  CdRef :: ContentRef
  CdSegment :: string
  CdOrdinal :: nat
  CdRequired :: bool
  CdSelected :: bool
  CdReason :: string

record SelectionDecision =
  SdPolicy :: "Descriptor option"
  SdPlan :: "SelectionChoice list"
  SdCandidates :: "CandidateDecision list"

text \<open>
  The budget pipeline of an output with its counter; \<open>MainOutput\<close> tells whether the context belongs to the main output
  (\<^verbatim>\<open>finalBudgetChannel\<close>).
\<close>

record OutputBudget =
  ObPipe :: BudgetPipeline
  ObCounter :: counter
  MainOutput :: bool

abbreviation SegmentSystem :: string where "SegmentSystem \<equiv> ''system''"
abbreviation SegmentHistory :: string where "SegmentHistory \<equiv> ''history''"
abbreviation SegmentMemory :: string where "SegmentMemory \<equiv> ''memory''"
abbreviation SegmentTools :: string where "SegmentTools \<equiv> ''tools''"

definition snapshotSegmentOrder :: "string list" where
  "snapshotSegmentOrder = [SegmentSystem, SegmentHistory, SegmentMemory, SegmentTools]"

definition isKnownSegment :: "string \<Rightarrow> bool" where
  "isKnownSegment seg = (seg \<in> set [SegmentSystem, SegmentHistory, SegmentTools, SegmentMemory])"

subsection \<open>Preparing candidates\<close>

definition hasRoundParts :: "Message list \<Rightarrow> bool" where
  "hasRoundParts msgs = (\<exists>m \<in> set msgs. ToolCallParts m \<noteq> [] \<or> ToolResultParts m \<noteq> [])"

definition shiftRound :: "nat \<Rightarrow> ToolRoundObservation \<Rightarrow> ToolRoundObservation" where
  "shiftRound i r = r\<lparr>ObsStart := ObsStart r + i, ObsEnd := ObsEnd r + i\<rparr>"

function segmentToolRounds_from :: "Message list \<Rightarrow> nat \<Rightarrow> ToolRoundObservation list result" where
  "segmentToolRounds_from msgs i =
     (if length msgs \<le> i then Inr []
      else if ToolResultParts (msgs ! i) \<noteq> [] then Inl ErrInvalidToolRound
      else if \<not> HasToolCalls (msgs ! i) then segmentToolRounds_from msgs (Suc i)
      else let e = contiguousToolBlockEnd msgs i in
        bind_res (InspectToolRoundStates (take (Suc e - i) (drop i msgs)) []) (\<lambda>unit.
        bind_res (segmentToolRounds_from msgs (Suc e)) (\<lambda>rest. Inr (map (shiftRound i) unit @ rest))))"
  by pat_completeness auto
termination
  by (relation "measure (\<lambda>(msgs, i). length msgs - i)") (auto simp: less_Suc_eq_le intro!: diff_less_mono2)

declare segmentToolRounds_from.simps [simp del]

definition segmentToolRounds :: "string \<Rightarrow> Message list \<Rightarrow> ToolRoundObservation list result" where
  "segmentToolRounds seg msgs =
     (if seg = SegmentHistory then InspectToolRoundStates msgs [] else segmentToolRounds_from msgs 0)"

definition segmentRequired ::
  "CompileHost \<Rightarrow> string \<Rightarrow> Message list \<Rightarrow> nat \<Rightarrow> OutputBudget option \<Rightarrow> (ToolRoundObservation list \<times> bool list) comp" where
  "segmentRequired H seg msgs pendingCount pipe =
     (let required = replicate (length msgs) False in
      if seg \<noteq> SegmentHistory \<and> \<not> hasRoundParts msgs then ret ([], required)
      else bind (lift_res (segmentToolRounds seg msgs)) (\<lambda>rounds.
      if seg \<noteq> SegmentHistory then ret (rounds, protectBudgetSuffix required rounds None)
      else bind (case pipe of
                   Some b \<Rightarrow> bind (selectRequired (SelectionEnv H) (ObPipe b) msgs rounds) (\<lambda>req.
                               ret (protectBudgetSuffix req rounds (PipeRolling (ObPipe b))))
                 | None \<Rightarrow> ret (protectBudgetSuffix required rounds None)) (\<lambda>req.
           ret (rounds, expandRequiredRounds (setRange (length msgs - pendingCount) (length msgs) req) rounds))))"

definition messageContentRefs :: "CompileHost \<Rightarrow> Message list \<Rightarrow> ContentRef list result" where
  "messageContentRefs H msgs = map_res (MessageContentRef (SelectionEnv H)) msgs"

definition roundEnd :: "ToolRoundObservation list \<Rightarrow> nat \<Rightarrow> nat" where
  "roundEnd rounds i = fold (\<lambda>r e. if ObsStart r = i then ObsEnd r else e) rounds i"

text \<open>An observed round ends at or after its start; the maximum only makes the recursion evidently terminate.\<close>

function cutCandidates ::
  "CompileHost \<Rightarrow> string \<Rightarrow> Message list \<Rightarrow> ToolRoundObservation list \<Rightarrow> bool list \<Rightarrow> nat \<Rightarrow> ContextCandidate list result" where
  "cutCandidates H seg msgs rounds required i =
     (if length msgs \<le> i then Inr []
      else let e = max i (roundEnd rounds i); unit = take (Suc e - i) (drop i msgs) in
        bind_res (messageContentRefs H unit) (\<lambda>members.
        bind_res (cutCandidates H seg msgs rounds required (Suc e)) (\<lambda>rest.
        Inr (\<lparr>CcArtifact = None, CcMembers = members, CcRef = hd members, CcSegment = seg,
              CcMessages = cloneMessageSlice unit, CcRequired = required ! i, CcOrdinal = 0\<rparr> # rest))))"
  by pat_completeness auto
termination
  by (relation "measure (\<lambda>(_, _, msgs, _, _, i). length msgs - i)") (auto simp: Let_def)

declare cutCandidates.simps [simp del]

definition segmentCandidates ::
  "CompileHost \<Rightarrow> string \<Rightarrow> Message list \<Rightarrow> nat \<Rightarrow> OutputBudget option \<Rightarrow> ContextCandidate list comp" where
  "segmentCandidates H seg msgs pendingCount pipe =
     bind (segmentRequired H seg msgs pendingCount pipe) (\<lambda>(rounds, required).
     lift_res (cutCandidates H seg msgs rounds required 0))"

text \<open>\<^verbatim>\<open>strings.CutPrefix(id, "artifact:")\<close>\<close>

definition cutArtifactPrefix :: "string \<Rightarrow> string option" where
  "cutArtifactPrefix i = (if take 9 i = ''artifact:'' then Some (drop 9 i) else None)"

definition attachCandidateArtifact :: "CompileHost \<Rightarrow> artifacts \<Rightarrow> ContextCandidate \<Rightarrow> ContextCandidate result" where
  "attachCandidateArtifact H arts cand =
     (case cutArtifactPrefix (MsgID (hd (CcMessages cand))) of
        None \<Rightarrow> Inr cand
      | Some i \<Rightarrow> (case map_of arts i of
          None \<Rightarrow> Inr cand
        | Some a \<Rightarrow> bind_res (ArtifactContentRef H (ContextArtifact_Clone a)) (\<lambda>ref.
            Inr (cand\<lparr>CcArtifact := Some (ContextArtifact_Clone a), CcRef := ref\<rparr>))))"

fun allCandidates ::
  "CompileHost \<Rightarrow> ConversationState \<Rightarrow> Message list \<Rightarrow> OutputBudget option \<Rightarrow> string list \<Rightarrow> ContextCandidate list comp" where
  "allCandidates H snap pending pipe [] = ret []"
| "allCandidates H snap pending pipe (seg # segs) =
     bind (segmentCandidates H seg (Segment snap seg @ (if seg = SegmentHistory then cloneMessageSlice pending else []))
             (length pending) pipe) (\<lambda>units.
     bind (allCandidates H snap pending pipe segs) (\<lambda>rest. ret (units @ rest)))"

definition selectionCandidates ::
  "CompileHost \<Rightarrow> ConversationState \<Rightarrow> Message list \<Rightarrow> OutputBudget option \<Rightarrow> ContextCandidate list comp" where
  "selectionCandidates H snap pending pipe =
     bind (allCandidates H snap pending pipe snapshotSegmentOrder) (\<lambda>cands.
     lift_res (map_res (\<lambda>(i, cand). attachCandidateArtifact H (ArtifactMap snap) (cand\<lparr>CcOrdinal := i\<rparr>)) (enumerate 0 cands)))"

fun markFirst :: "ContentRef \<Rightarrow> ContextCandidate list \<Rightarrow> ContextCandidate list option" where
  "markFirst ref [] = None"
| "markFirst ref (cand # cands) =
     (if CcRef cand = ref then Some (cand\<lparr>CcRequired := True\<rparr> # cands) else map_option ((#) cand) (markFirst ref cands))"

fun markRequired_from :: "ContentRef list \<Rightarrow> ContextCandidate list \<Rightarrow> ContentRef list \<Rightarrow> ContextCandidate list result" where
  "markRequired_from seen cands [] = Inr cands"
| "markRequired_from seen cands (ref # refs) =
     (if ref \<in> set seen then Inl ErrDuplicateSelection
      else case markFirst ref cands of
        None \<Rightarrow> Inl ErrUnavailableCandidate
      | Some cands' \<Rightarrow> markRequired_from (ref # seen) cands' refs)"

definition markSelectionRequired :: "ContextCandidate list \<Rightarrow> SelectionPolicy option \<Rightarrow> ContextCandidate list result" where
  "markSelectionRequired cands policy = (case policy of None \<Rightarrow> Inr cands | Some p \<Rightarrow> markRequired_from [] cands (SpRequired p))"

subsection \<open>Plans\<close>

definition cloneCandidates :: "ContextCandidate list \<Rightarrow> ContextCandidate list" where
  "cloneCandidates cands =
     map (\<lambda>c. c\<lparr>CcMessages := cloneMessageSlice (CcMessages c), CcArtifact := map_option ContextArtifact_Clone (CcArtifact c)\<rparr>) cands"

definition selectionPlan :: "ContextCandidate list \<Rightarrow> SelectionPolicy option \<Rightarrow> SelectionChoice list comp" where
  "selectionPlan cands policy =
     (case policy of
        None \<Rightarrow> ret (map (\<lambda>c. \<lparr>ChRef = CcRef c, ChPriority = 0\<rparr>) cands)
      | Some p \<Rightarrow>
          bind (lift_res (SelectionPolicy_validate p)) (\<lambda>_.
          bind poll (\<lambda>_.
          settle (case SpSelect p of None \<Rightarrow> fail ErrInvalidSelection | Some f \<Rightarrow> f (cloneCandidates cands)))))"

text \<open>The refs of the later messages of the candidates, which are not addressable.\<close>

definition memberRefs :: "CompileHost \<Rightarrow> ContextCandidate list \<Rightarrow> ContentRef list result" where
  "memberRefs H cands = map_res (MessageContentRef (SelectionEnv H)) (concat (map (\<lambda>c. tl (CcMessages c)) cands))"

fun planPriorities ::
  "ContentRef list \<Rightarrow> ContentRef list \<Rightarrow> (ContentRef \<times> int) list \<Rightarrow> SelectionChoice list \<Rightarrow> (ContentRef \<times> int) list result" where
  "planPriorities members allowed prios [] = Inr prios"
| "planPriorities members allowed prios (ch # plan) =
     (if ChRef ch \<in> set members then Inl ErrSelectionRound
      else if ChRef ch \<notin> set allowed then Inl ErrUnavailableCandidate
      else if map_of prios (ChRef ch) \<noteq> None then Inl ErrDuplicateSelection
      else planPriorities members allowed ((ChRef ch, ChPriority ch) # prios) plan)"

definition validateSelectionPlan ::
  "CompileHost \<Rightarrow> ContextCandidate list \<Rightarrow> SelectionChoice list \<Rightarrow> (ContentRef \<times> int) list result" where
  "validateSelectionPlan H cands plan =
     bind_res (memberRefs H cands) (\<lambda>members.
     bind_res (planPriorities members (map CcRef cands) [] plan) (\<lambda>prios.
     if \<exists>c \<in> set cands. CcRequired c \<and> map_of prios (CcRef c) = None then Inl ErrMandatorySelection else Inr prios))"

subsection \<open>Admission\<close>

definition selectionMessages :: "ContextCandidate list \<Rightarrow> ContentRef list \<Rightarrow> Message list" where
  "selectionMessages cands admitted =
     concat (map (\<lambda>c. cloneMessageSlice (CcMessages c)) (filter (\<lambda>c. CcRef c \<in> set admitted) cands))"

record AbstractPayload =
  PlSystem :: "Message list"
  PlHistory :: "Message list"
  PlTools :: "Message list"
  PlMemory :: "Message list"

definition payloadEstimateSegments :: "AbstractPayload \<Rightarrow> EstimateSegment list" where
  "payloadEstimateSegments p =
     [\<lparr>EsName = SegmentSystem, EsMessages = PlSystem p\<rparr>, \<lparr>EsName = SegmentHistory, EsMessages = PlHistory p\<rparr>,
      \<lparr>EsName = SegmentTools, EsMessages = PlTools p\<rparr>, \<lparr>EsName = SegmentMemory, EsMessages = PlMemory p\<rparr>]"

definition admittedSnapshot :: "ContextCandidate list \<Rightarrow> ContentRef list \<Rightarrow> ConversationState" where
  "admittedSnapshot cands admitted =
     fold (\<lambda>c snap. WithSegment snap (CcSegment c) (Segment snap (CcSegment c) @ CcMessages c))
       (filter (\<lambda>c. CcRef c \<in> set admitted) cands) EmptyState"

definition estimateSelection ::
  "CompileHost \<Rightarrow> ContextCandidate list \<Rightarrow> ContentRef list \<Rightarrow> OutputBudget \<Rightarrow> int comp" where
  "estimateSelection H cands admitted b =
     (case ObCounter b of
        PlainCounter est \<Rightarrow> estimateOwned (DefaultEnv H) est (selectionMessages cands admitted)
      | ReportCounter D r \<Rightarrow>
          let snap = admittedSnapshot cands admitted;
              segs = (if MainOutput b
                then payloadEstimateSegments \<lparr>PlSystem = Segment snap SegmentSystem, PlHistory = Segment snap SegmentHistory,
                       PlTools = Segment snap SegmentTools, PlMemory = Segment snap SegmentMemory\<rparr>
                else [\<lparr>EsName = ''messages'', EsMessages = selectionMessages cands admitted\<rparr>])
          in bind (Report D r \<lparr>ErSegments = segs, ErBudget = CfgBudget (ObPipe b), ErManifestRef = None, ErWireRef = None\<rparr>)
               (\<lambda>report. ret (RepTotal report)))"

definition selectionFits ::
  "CompileHost \<Rightarrow> ContextCandidate list \<Rightarrow> ContentRef list \<Rightarrow> bool \<Rightarrow> OutputBudget option \<Rightarrow> bool comp" where
  "selectionFits H cands admitted pack pipe =
     (case pipe of
        None \<Rightarrow> ret True
      | Some b \<Rightarrow>
          if \<not> pack then ret True
          else bind (settle (estimateSelection H cands admitted b)) (\<lambda>tokens.
          if tokens < 0 then fail ErrInconsistentEstimate
          else bind (lift_res (Resolve (CfgBudget (ObPipe b)))) (\<lambda>limit. ret (tokens \<le> limit))))"

definition candidateLocalAdmission ::
  "CompileHost \<Rightarrow> ContextCandidate \<Rightarrow> OutputBudget option \<Rightarrow> Evidence \<Rightarrow> (bool \<times> Evidence) comp" where
  "candidateLocalAdmission H cand pipe ev =
     (case CcArtifact cand of
        None \<Rightarrow> ret (True, ev)
      | Some a \<Rightarrow>
          bind (artifactSelectionReason H (case pipe of None \<Rightarrow> PlainCounter CharTokenEstimator | Some b \<Rightarrow> ObCounter b)
                  (ArtBoundTurnID a) a ev) (\<lambda>(reason, ev').
          if reason \<noteq> [] \<and> CcRequired cand then fail ErrBudgetExceeded else ret (reason = [], ev')))"

text \<open>The stable sort by requirement and descending priority, as two stable sorts.\<close>

definition priorityOf :: "(ContentRef \<times> int) list \<Rightarrow> ContentRef \<Rightarrow> int" where
  "priorityOf prios ref = (case map_of prios ref of None \<Rightarrow> 0 | Some n \<Rightarrow> n)"

definition orderCandidates :: "(ContentRef \<times> int) list \<Rightarrow> ContextCandidate list \<Rightarrow> ContextCandidate list" where
  "orderCandidates prios cands =
     sort_key (\<lambda>c. \<not> CcRequired c) (sort_key (\<lambda>c. - priorityOf prios (CcRef c)) cands)"

fun admitLoop ::
  "CompileHost \<Rightarrow> ContextCandidate list \<Rightarrow> (ContentRef \<times> int) list \<Rightarrow> bool \<Rightarrow> OutputBudget option \<Rightarrow>
   ContentRef list \<Rightarrow> Evidence \<Rightarrow> ContextCandidate list \<Rightarrow> (ContentRef list \<times> Evidence) comp" where
  "admitLoop H cands prios pack pipe admitted ev [] = ret (admitted, ev)"
| "admitLoop H cands prios pack pipe admitted ev (c # ordered) =
     (if map_of prios (CcRef c) = None then admitLoop H cands prios pack pipe admitted ev ordered
      else bind (candidateLocalAdmission H c pipe ev) (\<lambda>(eligible, ev').
      if \<not> eligible then admitLoop H cands prios pack pipe admitted ev' ordered
      else bind (selectionFits H cands (CcRef c # admitted) pack pipe) (\<lambda>fits.
      if \<not> fits then
        if CcRequired c then fail ErrBudgetExceeded
        else admitLoop H cands prios pack pipe (removeAll (CcRef c) admitted) ev' ordered
      else admitLoop H cands prios pack pipe (CcRef c # admitted) ev' ordered)))"

definition admitSelection ::
  "CompileHost \<Rightarrow> ContextCandidate list \<Rightarrow> (ContentRef \<times> int) list \<Rightarrow> bool \<Rightarrow> OutputBudget option \<Rightarrow> Evidence \<Rightarrow>
   (ContentRef list \<times> Evidence) comp" where
  "admitSelection H cands prios pack pipe ev = admitLoop H cands prios pack pipe [] ev (orderCandidates prios cands)"

subsection \<open>The selected output\<close>

definition roundSemanticRef :: "CompileHost \<Rightarrow> Message \<Rightarrow> ContentRef result" where
  "roundSemanticRef H m =
     MessageContentRef (SelectionEnv H)
       \<lparr>MsgID = MsgID m, MsgRole = MsgRole m, MsgActor = None,
        MsgParts = filter (\<lambda>p. case canonicalPartValue p of Some (ToolCallPart _) \<Rightarrow> True | Some (ToolResultPart _) \<Rightarrow> True | _ \<Rightarrow> False) (MsgParts m),
        MsgTimestamp = None, MsgSourceRefs = None, MsgExtensions = [], MsgOrigin = None, MsgLLMCache = None, MsgProvenance = ProvNil\<rparr>"

definition candidateRoundRefs :: "CompileHost \<Rightarrow> ContextCandidate \<Rightarrow> ContentRef list result" where
  "candidateRoundRefs H cand =
     (if \<not> hasRoundParts (CcMessages cand) then Inr [] else map_res (roundSemanticRef H) (CcMessages cand))"

definition messageIDSet :: "Message list \<Rightarrow> string list" where
  "messageIDSet msgs = filter (\<lambda>i. i \<noteq> []) (map MsgID msgs)"

definition coverageNotSelected :: string where
  "coverageNotSelected = ''not_selected''"

definition decideCandidate ::
  "CompileHost \<Rightarrow> ContentRef list \<Rightarrow> (ContentRef \<times> int) list \<Rightarrow> ContextCandidate \<Rightarrow> CandidateDecision result" where
  "decideCandidate H admitted prios cand =
     bind_res (candidateRoundRefs H cand) (\<lambda>roundMembers.
     Inr \<lparr>CdRoundMembers = roundMembers, CdMembers = CcMembers cand, CdRef = CcRef cand, CdSegment = CcSegment cand,
          CdOrdinal = CcOrdinal cand, CdRequired = CcRequired cand, CdSelected = CcRef cand \<in> set admitted,
          CdReason = (if CcRef cand \<in> set admitted then ''selected''
                      else if map_of prios (CcRef cand) \<noteq> None then ReasonTokenBudgetExceeded else coverageNotSelected)\<rparr>)"

definition selectedMessages :: "ContextCandidate list \<Rightarrow> ContentRef list \<Rightarrow> string list \<Rightarrow> string \<Rightarrow> Message list" where
  "selectedMessages cands admitted pendingIDs seg =
     filter (\<lambda>m. MsgID m \<notin> set pendingIDs)
       (concat (map CcMessages (filter (\<lambda>c. CcSegment c = seg \<and> CcRef c \<in> set admitted) cands)))"

text \<open>\<^verbatim>\<open>selectedSegments\<close> has a key for every segment to which a message was appended.\<close>

definition selectedSnapshot ::
  "ConversationState \<Rightarrow> ContextCandidate list \<Rightarrow> ContentRef list \<Rightarrow> string list \<Rightarrow> ConversationState" where
  "selectedSnapshot snap cands admitted pendingIDs =
     fold (\<lambda>seg out. WithSegment out seg (selectedMessages cands admitted pendingIDs seg))
       (filter (\<lambda>seg. selectedMessages cands admitted pendingIDs seg \<noteq> []) (remdups (map CcSegment cands)))
       (WithArtifacts (WithVersion EmptyState (Version snap)) (Artifacts snap))"

definition selectOutput ::
  "CompileHost \<Rightarrow> ConversationState \<Rightarrow> Message list \<Rightarrow> SelectionPolicy option \<Rightarrow> OutputBudget option \<Rightarrow> Evidence \<Rightarrow>
   (ConversationState \<times> SelectionDecision \<times> Evidence) comp" where
  "selectOutput H snap pending policy pipe ev =
     bind (selectionCandidates H snap pending pipe) (\<lambda>cands0.
     bind (lift_res (markSelectionRequired cands0 policy)) (\<lambda>cands.
     bind (selectionPlan cands policy) (\<lambda>plan.
     bind (lift_res (validateSelectionPlan H cands plan)) (\<lambda>prios.
     bind (admitSelection H cands prios (policy \<noteq> None) pipe ev) (\<lambda>(admitted, ev').
     bind (lift_res (map_res (decideCandidate H admitted prios) cands)) (\<lambda>decisions.
     ret (selectedSnapshot snap cands admitted (messageIDSet pending),
          \<lparr>SdPolicy = map_option SpIdentity policy, SdPlan = plan, SdCandidates = decisions\<rparr>, ev')))))))"

subsection \<open>Checking decisions and final outputs\<close>

definition validateManifestRefs :: "ContentRef list \<Rightarrow> unit result" where
  "validateManifestRefs refs = bind_res (map_res ContentRef_Validate refs) (\<lambda>_. Inr ())"

definition validateCandidateDecision :: "CandidateDecision \<Rightarrow> nat \<Rightarrow> unit result" where
  "validateCandidateDecision cand ordinal =
     (if CdOrdinal cand \<noteq> ordinal \<or> \<not> isKnownSegment (CdSegment cand) \<or> ContentRef_Validate (CdRef cand) \<noteq> Inr () \<or> CdMembers cand = []
        then Inl ErrInvalidSelection
      else bind_res (validateManifestRefs (CdMembers cand)) (\<lambda>_.
      bind_res (if CdRoundMembers cand = [] then Inr ()
                else if length (CdRoundMembers cand) \<noteq> length (CdMembers cand) then Inl ErrInvalidSelection
                else bind_res (validateManifestRefs (CdRoundMembers cand)) (\<lambda>_.
                  if map RefID (CdRoundMembers cand) \<noteq> map RefID (CdMembers cand) then Inl ErrInvalidSelection else Inr ())) (\<lambda>_.
      if CdRequired cand \<and> \<not> CdSelected cand then Inl ErrMandatorySelection
      else if CdSelected cand then (if CdReason cand \<noteq> ''selected'' then Inl ErrInvalidSelection else Inr ())
      else if CdReason cand \<noteq> coverageNotSelected \<and> CdReason cand \<noteq> ReasonTokenBudgetExceeded then Inl ErrInvalidSelection
      else Inr ())))"

fun validateCandidates_from :: "ContentRef list \<Rightarrow> nat \<Rightarrow> CandidateDecision list \<Rightarrow> unit result" where
  "validateCandidates_from seen i [] = Inr ()"
| "validateCandidates_from seen i (cand # cands) =
     bind_res (validateCandidateDecision cand i) (\<lambda>_.
     if CdRef cand \<in> set seen then Inl ErrDuplicateSelection
     else validateCandidates_from (CdRef cand # seen) (Suc i) cands)"

fun validatePlan_from :: "ContentRef list \<Rightarrow> ContentRef list \<Rightarrow> SelectionChoice list \<Rightarrow> unit result" where
  "validatePlan_from cands planned [] = Inr ()"
| "validatePlan_from cands planned (ch # plan) =
     (if ChRef ch \<notin> set cands then Inl ErrUnavailableCandidate
      else if ChRef ch \<in> set planned then Inl ErrDuplicateSelection
      else validatePlan_from cands (ChRef ch # planned) plan)"

definition validateSelectionDecision :: "SelectionDecision option \<Rightarrow> unit result" where
  "validateSelectionDecision decision =
     (case decision of None \<Rightarrow> Inr ()
      | Some d \<Rightarrow>
          bind_res (case SdPolicy d of None \<Rightarrow> Inr () | Some p \<Rightarrow> Descriptor_Validate p) (\<lambda>_.
          bind_res (validateCandidates_from [] 0 (SdCandidates d)) (\<lambda>_.
          bind_res (validatePlan_from (map CdRef (SdCandidates d)) [] (SdPlan d)) (\<lambda>_.
          if \<exists>cand \<in> set (SdCandidates d). CdSelected cand \<and> CdRef cand \<notin> ChRef ` set (SdPlan d)
          then Inl ErrInvalidSelection else Inr ()))))"

text \<open>\<^verbatim>\<open>indexes\<close>: the last position of each identity.\<close>

definition lastIndex :: "Message list \<Rightarrow> string \<Rightarrow> nat option" where
  "lastIndex after i = map_of (rev (map (\<lambda>(k, m). (MsgID m, k)) (enumerate 0 after))) i"

fun mandatoryUnit_from ::
  "CompileHost \<Rightarrow> Message list \<Rightarrow> bool \<Rightarrow> int \<times> int \<Rightarrow> ContentRef list \<Rightarrow> (int \<times> int) result" where
  "mandatoryUnit_from H after exact acc [] = Inr acc"
| "mandatoryUnit_from H after exact (first, prior) (ref # refs) =
     (case lastIndex after (RefID ref) of
        None \<Rightarrow> Inl ErrMandatorySelection
      | Some k \<Rightarrow>
          if prior \<ge> 0 \<and> int k \<noteq> prior + 1 then Inl ErrMandatorySelection
          else bind_res (if exact then bind_res (MessageContentRef (SelectionEnv H) (after ! k)) (\<lambda>actual.
                           if actual \<noteq> ref then Inl ErrMandatorySelection else Inr ()) else Inr ()) (\<lambda>_.
               mandatoryUnit_from H after exact (if first < 0 then int k else first, int k) refs))"

definition validateMandatoryUnit :: "CompileHost \<Rightarrow> CandidateDecision \<Rightarrow> Message list \<Rightarrow> bool \<Rightarrow> (int \<times> int) result" where
  "validateMandatoryUnit H cand after exact = mandatoryUnit_from H after exact (-1, -1) (CdMembers cand)"

fun admittedRound_from ::
  "CompileHost \<Rightarrow> Message list \<Rightarrow> nat \<times> int \<Rightarrow> ContentRef list \<Rightarrow> (nat \<times> int) result" where
  "admittedRound_from H after acc [] = Inr acc"
| "admittedRound_from H after (present, prior) (ref # refs) =
     (case lastIndex after (RefID ref) of
        None \<Rightarrow> admittedRound_from H after (present, prior) refs
      | Some k \<Rightarrow>
          bind_res (roundSemanticRef H (after ! k)) (\<lambda>actual.
          if actual \<noteq> ref \<or> (prior \<ge> 0 \<and> int k \<noteq> prior + 1) then Inl (Wrap ErrSelectionRound ErrInvalidToolRound)
          else admittedRound_from H after (Suc present, int k) refs))"

definition validateAdmittedRound :: "CompileHost \<Rightarrow> CandidateDecision \<Rightarrow> Message list \<Rightarrow> unit result" where
  "validateAdmittedRound H cand after =
     bind_res (admittedRound_from H after (0, -1) (CdRoundMembers cand)) (\<lambda>(present, _).
     if present \<noteq> 0 \<and> present \<noteq> length (CdRoundMembers cand) then Inl (Wrap ErrSelectionRound ErrInvalidToolRound) else Inr ())"

fun mandatory_from ::
  "CompileHost \<Rightarrow> ContentRef list \<Rightarrow> Message list \<Rightarrow> (string \<times> int) list \<Rightarrow> CandidateDecision list \<Rightarrow> unit result" where
  "mandatory_from H exact after priors [] = Inr ()"
| "mandatory_from H exact after priors (cand # cands) =
     bind_res (if CdRoundMembers cand \<noteq> [] \<and> CdSelected cand then validateAdmittedRound H cand after else Inr ()) (\<lambda>_.
     if \<not> CdRequired cand then mandatory_from H exact after priors cands
     else bind_res (validateMandatoryUnit H cand after (CdRef cand \<in> set exact)) (\<lambda>(first, last').
          if (case map_of priors (CdSegment cand) of None \<Rightarrow> False | Some prior \<Rightarrow> first \<le> prior) then Inl ErrMandatorySelection
          else mandatory_from H exact after ((CdSegment cand, last') # priors) cands))"

definition validateMandatorySelection ::
  "CompileHost \<Rightarrow> SelectionDecision option \<Rightarrow> SelectionPolicy option \<Rightarrow> Message list \<Rightarrow> unit comp" where
  "validateMandatorySelection H decision policy after =
     (case decision of None \<Rightarrow> ret ()
      | Some d \<Rightarrow> bind poll (\<lambda>_.
          lift_res (mandatory_from H (case policy of None \<Rightarrow> [] | Some p \<Rightarrow> SpRequired p) after [] (SdCandidates d))))"

fun validateFinalRounds_from :: "ConversationState \<Rightarrow> string list \<Rightarrow> unit result" where
  "validateFinalRounds_from snap [] = Inr ()"
| "validateFinalRounds_from snap (seg # segs) =
     (if \<not> hasRoundParts (Segment snap seg) then validateFinalRounds_from snap segs
      else bind_res (segmentToolRounds seg (Segment snap seg)) (\<lambda>_. validateFinalRounds_from snap segs))"

definition validateFinalSelectionRounds :: "ConversationState \<Rightarrow> unit result" where
  "validateFinalSelectionRounds snap = validateFinalRounds_from snap snapshotSegmentOrder"

definition participatingArtifactIDs :: "ContextArtifact list \<Rightarrow> Message list \<Rightarrow> string list" where
  "participatingArtifactIDs arts msgs =
     map ArtID (filter (\<lambda>a. \<exists>m \<in> set msgs. MsgID m = artifactMessageID (ArtID a)) arts)"

definition filterParticipatingArtifacts :: "ContextArtifact list \<Rightarrow> Message list \<Rightarrow> ContextArtifact list" where
  "filterParticipatingArtifacts arts msgs =
     map ContextArtifact_Clone (filter (\<lambda>a. ArtID a \<in> set (participatingArtifactIDs arts msgs)) arts)"

fun excludeArtifacts :: "CompileHost \<Rightarrow> CandidateDecision \<Rightarrow> (ContentRef \<times> string) list \<Rightarrow> ContextArtifact list \<Rightarrow> (ContentRef \<times> string) list result" where
  "excludeArtifacts H cand ex [] = Inr ex"
| "excludeArtifacts H cand ex (a # as) =
     (if RefID (CdRef cand) = ArtID a
      then bind_res (ArtifactContentRef H a) (\<lambda>ref. excludeArtifacts H cand (AList.update ref (CdReason cand) ex) as)
      else excludeArtifacts H cand ex as)"

fun recordExclusions_from :: "CompileHost \<Rightarrow> ContextArtifact list \<Rightarrow> (ContentRef \<times> string) list \<Rightarrow> CandidateDecision list \<Rightarrow> (ContentRef \<times> string) list result" where
  "recordExclusions_from H arts ex [] = Inr ex"
| "recordExclusions_from H arts ex (cand # cands) =
     (if CdSelected cand then recordExclusions_from H arts ex cands
      else bind_res (excludeArtifacts H cand ex arts) (\<lambda>ex'. recordExclusions_from H arts ex' cands))"

definition recordSelectionArtifactExclusions ::
  "CompileHost \<Rightarrow> SelectionDecision \<Rightarrow> ContextArtifact list \<Rightarrow> Evidence \<Rightarrow> Evidence result" where
  "recordSelectionArtifactExclusions H d arts ev =
     bind_res (recordExclusions_from H arts (EvExclusions ev) (SdCandidates d)) (\<lambda>ex. Inr (ev\<lparr>EvExclusions := ex\<rparr>))"

definition finalByID :: "Message list \<Rightarrow> string \<Rightarrow> Message option" where
  "finalByID msgs i = map_of (rev (map (\<lambda>m. (MsgID m, m)) msgs)) i"

definition snapshotWithFinalMessages :: "ConversationState \<Rightarrow> Message list \<Rightarrow> ConversationState" where
  "snapshotWithFinalMessages snap msgs =
     fold (\<lambda>seg s. WithSegment s seg (map Message_Clone (List.map_filter (\<lambda>m. finalByID msgs (MsgID m)) (Segment s seg))))
       snapshotSegmentOrder snap"

subsection \<open>Plans are checked exactly\<close>

lemma planPriorities_Inr:
  "planPriorities members allowed prios plan = Inr prios' \<longleftrightarrow>
     ChRef ` set plan \<inter> set members = {} \<and> ChRef ` set plan \<subseteq> set allowed \<and> distinct (map ChRef plan) \<and>
     ChRef ` set plan \<inter> dom (map_of prios) = {} \<and> prios' = rev (map (\<lambda>ch. (ChRef ch, ChPriority ch)) plan) @ prios"
proof (induction plan arbitrary: prios)
  case (Cons ch plan)
  show ?case
  proof (cases "ChRef ch \<in> set members \<or> ChRef ch \<notin> set allowed \<or> map_of prios (ChRef ch) \<noteq> None")
    case True
    then show ?thesis by auto
  next
    case False
    then have "planPriorities members allowed prios (ch # plan) = planPriorities members allowed ((ChRef ch, ChPriority ch) # prios) plan"
      by simp
    moreover have "dom (map_of ((ChRef ch, ChPriority ch) # prios)) = insert (ChRef ch) (dom (map_of prios))" by auto
    moreover have "ChRef ch \<notin> dom (map_of prios)" using False by auto
    ultimately show ?thesis using False Cons.IH [of "(ChRef ch, ChPriority ch) # prios"] by (auto simp del: map_of_Cons_code map_of.simps)
  qed
qed auto

lemma validateSelectionPlan_Inr:
  "validateSelectionPlan H cands plan = Inr prios \<longleftrightarrow>
     (\<exists>members. memberRefs H cands = Inr members \<and> ChRef ` set plan \<inter> set members = {}) \<and>
     ChRef ` set plan \<subseteq> CcRef ` set cands \<and> distinct (map ChRef plan) \<and>
     (\<forall>c \<in> set cands. CcRequired c \<longrightarrow> CcRef c \<in> ChRef ` set plan) \<and> prios = rev (map (\<lambda>ch. (ChRef ch, ChPriority ch)) plan)"
proof -
  have dom: "map_of (rev (map (\<lambda>ch. (ChRef ch, ChPriority ch)) plan)) ref = None \<longleftrightarrow> ref \<notin> ChRef ` set plan" for ref
    by (simp add: map_of_eq_None_iff image_image)
  show ?thesis
    by (cases "memberRefs H cands") (auto simp: validateSelectionPlan_def bind_res_Inr_iff planPriorities_Inr dom split: if_splits)
qed

subsection \<open>Admission is greedy\<close>

lemma set_orderCandidates [simp]: "set (orderCandidates prios cands) = set cands"
  by (simp add: orderCandidates_def)

lemma distinct_orderCandidates [simp]: "distinct (map CcRef (orderCandidates prios cands)) = distinct (map CcRef cands)"
proof -
  have "mset (map CcRef (orderCandidates prios cands)) = mset (map CcRef cands)" by (simp add: orderCandidates_def)
  then show ?thesis by (rule mset_eq_imp_distinct_iff)
qed

definition ineligible :: "CompileHost \<Rightarrow> OutputBudget option \<Rightarrow> ContextCandidate \<Rightarrow> bool" where
  "ineligible H pipe c \<longleftrightarrow> \<not> CcRequired c \<and> (\<exists>ev c1 ev' c2. candidateLocalAdmission H c pipe ev c1 = (Inr (False, ev'), c2))"

definition fit_result :: "CompileHost \<Rightarrow> ContextCandidate list \<Rightarrow> bool \<Rightarrow> OutputBudget option \<Rightarrow> ContentRef list \<Rightarrow> bool \<Rightarrow> bool" where
  "fit_result H cands pack pipe admitted b \<longleftrightarrow> (\<exists>c1 c2. selectionFits H cands admitted pack pipe c1 = (Inr b, c2))"

lemma candidateLocalAdmission_required:
  "candidateLocalAdmission H cand pipe ev c = (Inr (False, ev'), c') \<Longrightarrow> \<not> CcRequired cand"
  by (auto simp: candidateLocalAdmission_def bind_Inr_iff split: option.splits if_splits)

text \<open>A planned candidate was passed over: it is not eligible, or it did not fit beside the candidates admitted before it.\<close>

definition passed_over ::
  "CompileHost \<Rightarrow> ContextCandidate list \<Rightarrow> bool \<Rightarrow> OutputBudget option \<Rightarrow> ContentRef list \<Rightarrow> ContextCandidate \<Rightarrow> ContextCandidate list \<Rightarrow> bool" where
  "passed_over H cands pack pipe admitted x post \<longleftrightarrow>
     ineligible H pipe x \<or>
     (\<exists>later sofar. admitted = later @ sofar \<and> set later \<subseteq> CcRef ` set post \<and> set sofar \<inter> CcRef ` set post = {} \<and>
        \<not> CcRequired x \<and> fit_result H cands pack pipe (CcRef x # sofar) False)"

definition greedy ::
  "CompileHost \<Rightarrow> ContextCandidate list \<Rightarrow> (ContentRef \<times> int) list \<Rightarrow> bool \<Rightarrow> OutputBudget option \<Rightarrow> ContentRef list \<Rightarrow>
   ContextCandidate list \<Rightarrow> ContentRef list \<Rightarrow> bool" where
  "greedy H cands prios pack pipe admitted ordered new \<longleftrightarrow>
     (\<forall>ref \<in> set new. ref \<in> CcRef ` set ordered \<and> map_of prios ref \<noteq> None) \<and>
     (\<forall>x \<in> set ordered. CcRequired x \<and> map_of prios (CcRef x) \<noteq> None \<longrightarrow> CcRef x \<in> set new) \<and>
     (new \<noteq> [] \<longrightarrow> fit_result H cands pack pipe admitted True) \<and>
     (\<forall>pre x post. ordered = pre @ x # post \<longrightarrow> map_of prios (CcRef x) \<noteq> None \<longrightarrow> CcRef x \<notin> set new \<longrightarrow>
        passed_over H cands pack pipe admitted x post)"

lemma greedy_skip:
  assumes "greedy H cands prios pack pipe admitted ordered new"
    and "map_of prios (CcRef y) = None \<or> \<not> CcRequired y \<and> passed_over H cands pack pipe admitted y ordered"
  shows "greedy H cands prios pack pipe admitted (y # ordered) new"
  unfolding greedy_def
proof (intro conjI allI impI)
  fix pre x post assume "y # ordered = pre @ x # post" "map_of prios (CcRef x) \<noteq> None" "CcRef x \<notin> set new"
  then show "passed_over H cands pack pipe admitted x post"
    using assms by (cases pre) (auto simp: greedy_def)
qed (use assms in \<open>auto simp: greedy_def\<close>)

lemma greedy_admit:
  assumes "greedy H cands prios pack pipe admitted ordered new"
    and "map_of prios (CcRef y) \<noteq> None" "new = [] \<longrightarrow> fit_result H cands pack pipe admitted True"
  shows "greedy H cands prios pack pipe admitted (y # ordered) (new @ [CcRef y])"
  unfolding greedy_def
proof (intro conjI allI impI)
  fix pre x post assume "y # ordered = pre @ x # post" "map_of prios (CcRef x) \<noteq> None" "CcRef x \<notin> set (new @ [CcRef y])"
  then show "passed_over H cands pack pipe admitted x post"
    using assms(1) by (cases pre) (auto simp: greedy_def)
qed (use assms in \<open>auto simp: greedy_def\<close>)

lemma admitLoop_greedy:
  assumes "admitLoop H cands prios pack pipe admitted ev ordered c = (Inr (admitted', ev'), c')"
    and "distinct (map CcRef ordered)" "set admitted \<inter> CcRef ` set ordered = {}"
  shows "\<exists>new. admitted' = new @ admitted \<and> greedy H cands prios pack pipe admitted' ordered new"
  using assms
proof (induction ordered arbitrary: admitted ev c)
  case Nil
  then show ?case by (auto simp: greedy_def)
next
  case (Cons y ordered)
  note run = Cons.prems(1)
  have d: "distinct (map CcRef ordered)" "CcRef y \<notin> CcRef ` set ordered" "CcRef y \<notin> set admitted" "set admitted \<inter> CcRef ` set ordered = {}"
    using Cons.prems(2,3) by auto
  show ?case
  proof (cases "map_of prios (CcRef y) = None")
    case True
    then have "admitLoop H cands prios pack pipe admitted ev ordered c = (Inr (admitted', ev'), c')" using run by simp
    from Cons.IH [OF this d(1,4)] True show ?thesis by (blast intro: greedy_skip)
  next
    case planned: False
    obtain eligible ev1 c1 where loc: "candidateLocalAdmission H y pipe ev c = (Inr (eligible, ev1), c1)"
      using run planned by (auto simp: bind_Inr_iff)
    show ?thesis
    proof (cases eligible)
      case False
      then have "admitLoop H cands prios pack pipe admitted ev1 ordered c1 = (Inr (admitted', ev'), c')"
        using run planned loc by (auto simp: bind_Inr_iff)
      note IH = Cons.IH [OF this d(1,4)]
      have nr: "\<not> CcRequired y" using candidateLocalAdmission_required loc False by auto
      then have "passed_over H cands pack pipe admitted' y ordered" using loc False by (auto simp: ineligible_def passed_over_def)
      with IH nr show ?thesis by (blast intro: greedy_skip)
    next
      case True
      then obtain fits c2 where fit: "selectionFits H cands (CcRef y # admitted) pack pipe c1 = (Inr fits, c2)"
        using run planned loc by (auto simp: bind_Inr_iff)
      show ?thesis
      proof (cases fits)
        case False
        then have nr: "\<not> CcRequired y" and "admitLoop H cands prios pack pipe admitted ev1 ordered c2 = (Inr (admitted', ev'), c')"
          using run planned loc fit True d(3) by (auto simp: bind_Inr_iff split: if_splits)
        from Cons.IH [OF this(2) d(1,4)] obtain new where new: "admitted' = new @ admitted" "greedy H cands prios pack pipe admitted' ordered new" by blast
        have "fit_result H cands pack pipe (CcRef y # admitted) False" using fit False by (auto simp: fit_result_def)
        moreover have "set new \<subseteq> CcRef ` set ordered" using new(2) by (auto simp: greedy_def)
        ultimately have "passed_over H cands pack pipe admitted' y ordered"
          unfolding passed_over_def using new(1) nr d(4) by blast
        with new nr show ?thesis by (blast intro: greedy_skip)
      next
        case fits: True
        then have step: "admitLoop H cands prios pack pipe (CcRef y # admitted) ev1 ordered c2 = (Inr (admitted', ev'), c')"
          using run planned loc fit True by (auto simp: bind_Inr_iff)
        have "set (CcRef y # admitted) \<inter> CcRef ` set ordered = {}" using d by auto
        from Cons.IH [OF step d(1) this] obtain new where new: "admitted' = new @ CcRef y # admitted"
          "greedy H cands prios pack pipe admitted' ordered new" by blast
        have "fit_result H cands pack pipe (CcRef y # admitted) True" using fit fits by (auto simp: fit_result_def)
        then have "greedy H cands prios pack pipe admitted' (y # ordered) (new @ [CcRef y])"
          using new planned by (intro greedy_admit) auto
        then show ?thesis using new(1) by (intro exI [of _ "new @ [CcRef y]"]) simp
      qed
    qed
  qed
qed

text \<open>The estimate of a set that fits is within the limit of the budget.\<close>

definition within_limit :: "CompileHost \<Rightarrow> ContextCandidate list \<Rightarrow> ContentRef list \<Rightarrow> OutputBudget \<Rightarrow> bool" where
  "within_limit H cands admitted b \<longleftrightarrow>
     (\<exists>limit c1 c2 tokens. Resolve (CfgBudget (ObPipe b)) = Inr limit \<and>
        estimateSelection H cands admitted b c1 = (Inr tokens, c2) \<and> 0 \<le> tokens \<and> tokens \<le> limit)"

definition over_limit :: "CompileHost \<Rightarrow> ContextCandidate list \<Rightarrow> ContentRef list \<Rightarrow> OutputBudget \<Rightarrow> bool" where
  "over_limit H cands admitted b \<longleftrightarrow>
     (\<exists>limit c1 c2 tokens. Resolve (CfgBudget (ObPipe b)) = Inr limit \<and>
        estimateSelection H cands admitted b c1 = (Inr tokens, c2) \<and> limit < tokens)"

lemma fit_result_limit:
  "fit_result H cands True (Some b) admitted True \<Longrightarrow> within_limit H cands admitted b"
  "fit_result H cands True (Some b) admitted False \<Longrightarrow> over_limit H cands admitted b"
  by (fastforce simp: fit_result_def selectionFits_def within_limit_def over_limit_def bind_Inr_iff split: if_splits elim!: settle_InrE)+

text \<open>The order of admission: required first, then by falling priority, then by position.\<close>

definition before_in :: "'a list \<Rightarrow> 'a \<Rightarrow> 'a \<Rightarrow> bool" where
  "before_in xs x y \<longleftrightarrow> (\<exists>as bs cs. xs = as @ x # bs @ y # cs)"

definition precedes :: "(ContentRef \<times> int) list \<Rightarrow> ContextCandidate list \<Rightarrow> ContextCandidate \<Rightarrow> ContextCandidate \<Rightarrow> bool" where
  "precedes prios cands x y \<longleftrightarrow> CcRequired x \<and> \<not> CcRequired y \<or>
     CcRequired x = CcRequired y \<and>
       (priorityOf prios (CcRef y) < priorityOf prios (CcRef x) \<or>
        priorityOf prios (CcRef x) = priorityOf prios (CcRef y) \<and> before_in cands x y)"

lemma before_in_index: "distinct xs \<Longrightarrow> before_in xs x y \<longleftrightarrow> (\<exists>i j. i < j \<and> j < length xs \<and> xs ! i = x \<and> xs ! j = y)"
proof
  assume "before_in xs x y"
  then obtain as bs cs where "xs = as @ x # bs @ y # cs" by (auto simp: before_in_def)
  then show "\<exists>i j. i < j \<and> j < length xs \<and> xs ! i = x \<and> xs ! j = y"
    by (intro exI [of _ "length as"] exI [of _ "Suc (length as + length bs)"]) (auto simp: nth_append)
next
  assume "\<exists>i j. i < j \<and> j < length xs \<and> xs ! i = x \<and> xs ! j = y"
  then obtain i j where ij: "i < j" "j < length xs" "xs ! i = x" "xs ! j = y" by blast
  have "xs = take i xs @ x # drop (Suc i) xs" using ij id_take_nth_drop [of i xs] by simp
  moreover have "drop (Suc i) xs = take (j - Suc i) (drop (Suc i) xs) @ y # drop (Suc j) xs"
    using ij id_take_nth_drop [of "j - Suc i" "drop (Suc i) xs"] by simp
  ultimately show "before_in xs x y" unfolding before_in_def by metis
qed

lemma sorted_wrt_before_in: "sorted_wrt (before_in xs) xs"
proof -
  have "sorted_wrt (before_in (as @ xs)) xs" for as
  proof (induction xs arbitrary: as)
    case (Cons x xs)
    have "before_in (as @ x # xs) x y" if "y \<in> set xs" for y
      using split_list [OF that] by (auto simp: before_in_def)
    with Cons.IH [of "as @ [x]"] show ?case by simp
  qed simp
  from this [of "[]"] show ?thesis by simp
qed

text \<open>A stable sort refines the order that the list already had.\<close>

lemma sorted_wrt_insort_key:
  assumes "sorted (map f ys)" "sorted_wrt (\<lambda>x y. f x < f y \<or> f x = f y \<and> R x y) ys" "\<forall>y \<in> set ys. R x y"
  shows "sorted_wrt (\<lambda>x y. f x < f y \<or> f x = f y \<and> R x y) (insort_key f x ys)"
  using assms by (induction ys) (auto simp: set_insort_key)

lemma sorted_wrt_sort_key:
  "sorted_wrt R xs \<Longrightarrow> sorted_wrt (\<lambda>x y. f x < f y \<or> f x = f y \<and> R x y) (sort_key f xs)"
  by (induction xs) (auto intro!: sorted_wrt_insort_key)

lemma orderCandidates_sorted: "sorted_wrt (precedes prios cands) (orderCandidates prios cands)"
  unfolding orderCandidates_def
  by (rule sorted_wrt_mono_rel [OF _ sorted_wrt_sort_key [OF sorted_wrt_sort_key [OF sorted_wrt_before_in]]])
    (auto simp: precedes_def)

lemma orderCandidates_split:
  assumes "distinct cands" "orderCandidates prios cands = pre @ x # post"
  shows "set pre = {y \<in> set cands. precedes prios cands y x}"
proof -
  have all: "set cands = set (pre @ x # post)" using set_orderCandidates [of prios cands] assms(2) by metis
  have ord: "sorted_wrt (precedes prios cands) (pre @ x # post)" using orderCandidates_sorted [of prios cands] assms(2) by simp
  have asym: "\<not> precedes prios cands u v" if "precedes prios cands v u" for u v
  proof -
    have "\<not> (before_in cands u v \<and> before_in cands v u)"
      unfolding before_in_index [OF assms(1)] using assms(1) by (auto simp: nth_eq_iff_index_eq)
    with that show ?thesis by (auto simp: precedes_def)
  qed
  show ?thesis using ord asym unfolding all by (auto simp: sorted_wrt_append)
qed

text \<open>
  C10. Admission is greedy in priority order. When the candidates have distinct references and admission succeeds under a packing budget: only
  planned candidates are admitted; every required planned candidate is; the admitted set, when it is not empty, is estimated
  within the limit; and a planned candidate that was left out is not eligible by itself, or is not required and overflows the
  limit together with all the admitted candidates that precede it, namely the required ones, the ones with a higher priority, and of those
  with the same priority the earlier ones.
\<close>

theorem admitSelection_greedy:
  assumes "distinct (map CcRef cands)" "admitSelection H cands prios True (Some b) ev c = (Inr (admitted, ev'), c')"
  shows "(\<forall>ref \<in> set admitted. ref \<in> CcRef ` set cands \<and> map_of prios ref \<noteq> None) \<and>
     (\<forall>x \<in> set cands. CcRequired x \<and> map_of prios (CcRef x) \<noteq> None \<longrightarrow> CcRef x \<in> set admitted) \<and>
     (admitted \<noteq> [] \<longrightarrow> within_limit H cands admitted b) \<and>
     (\<forall>x \<in> set cands. map_of prios (CcRef x) \<noteq> None \<and> CcRef x \<notin> set admitted \<longrightarrow>
        ineligible H (Some b) x \<or>
        \<not> CcRequired x \<and>
          over_limit H cands (CcRef x # filter (\<lambda>ref. \<exists>y \<in> set cands. CcRef y = ref \<and> precedes prios cands y x) admitted) b)"
proof -
  from admitLoop_greedy [OF assms(2) [unfolded admitSelection_def]] assms(1)
  have g: "greedy H cands prios True (Some b) admitted (orderCandidates prios cands) admitted" by auto
  have "over_limit H cands (CcRef x # filter (\<lambda>ref. ref \<in> CcRef ` set pre) admitted) b"
    if s: "orderCandidates prios cands = pre @ x # post" and x: "CcRef x \<notin> set admitted"
      and a: "admitted = later @ sofar" "set later \<subseteq> CcRef ` set post" "set sofar \<inter> CcRef ` set post = {}" "fit_result H cands True (Some b) (CcRef x # sofar) False"
    for pre x post later sofar
  proof -
    have d: "distinct (map CcRef (pre @ x # post))" using assms(1) s distinct_orderCandidates [of prios cands] by simp
    have "set admitted \<subseteq> CcRef ` set (pre @ x # post)" using g s unfolding greedy_def by fastforce
    then have "set sofar \<subseteq> CcRef ` set pre" using a(1,3) x by (auto simp: image_Un)
    moreover have "set later \<inter> CcRef ` set pre = {}" using a(2) d by auto
    ultimately have "filter (\<lambda>ref. ref \<in> CcRef ` set pre) later = []" "filter (\<lambda>ref. ref \<in> CcRef ` set pre) sofar = sofar"
      by (auto intro!: filter_True filter_False)
    then have "filter (\<lambda>ref. ref \<in> CcRef ` set pre) admitted = sofar" by (simp add: a(1))
    with fit_result_limit(2) [OF a(4)] show ?thesis by simp
  qed
  note over = this
  show ?thesis
  proof (intro conjI ballI impI)
    fix x assume x: "x \<in> set cands" "map_of prios (CcRef x) \<noteq> None \<and> CcRef x \<notin> set admitted"
    obtain pre post where s: "orderCandidates prios cands = pre @ x # post"
      using x(1) split_list [of x "orderCandidates prios cands"] by auto
    have "set pre = {y \<in> set cands. precedes prios cands y x}"
      using assms(1) by (intro orderCandidates_split [OF _ s]) (simp add: distinct_map)
    then have "(\<lambda>ref. ref \<in> CcRef ` set pre) = (\<lambda>ref. \<exists>y \<in> set cands. CcRef y = ref \<and> precedes prios cands y x)" by (auto simp: fun_eq_iff)
    moreover have "passed_over H cands True (Some b) admitted x post" using s x g unfolding greedy_def by blast
    ultimately show "ineligible H (Some b) x \<or> \<not> CcRequired x \<and>
        over_limit H cands (CcRef x # filter (\<lambda>ref. \<exists>y \<in> set cands. CcRef y = ref \<and> precedes prios cands y x) admitted) b"
      using over [OF s] x(2) unfolding passed_over_def by metis
  qed (use g fit_result_limit(1) in \<open>auto simp: greedy_def\<close>)
qed

subsection \<open>Candidates partition the context\<close>

text \<open>What a candidate says about its messages.\<close>

definition candidate_ok :: "ContextCandidate \<Rightarrow> bool" where
  "candidate_ok c \<longleftrightarrow> CcMembers c \<noteq> [] \<and> map RefID (CcMembers c) = map MsgID (CcMessages c) \<and>
     (\<forall>ref \<in> set (CcRef c # CcMembers c). ContentRef_Validate ref = Inr ()) \<and> isKnownSegment (CcSegment c)"

text \<open>The units of a segment, which neither artifacts nor requirements change.\<close>

abbreviation unitsOf :: "ContextCandidate list \<Rightarrow> (string \<times> Message list) list" where
  "unitsOf cands \<equiv> map (\<lambda>c. (CcSegment c, CcMessages c)) cands"

definition unitMessages :: "(string \<times> Message list) list \<Rightarrow> string \<Rightarrow> Message list" where
  "unitMessages us seg = concat (map snd (filter (\<lambda>u. fst u = seg) us))"

lemma unitMessages_append [simp]: "unitMessages (us @ vs) seg = unitMessages us seg @ unitMessages vs seg"
  by (simp add: unitMessages_def)

lemma unitMessages_same: "\<forall>u \<in> set us. fst u = seg' \<Longrightarrow> unitMessages us seg = (if seg = seg' then concat (map snd us) else [])"
  by (auto simp: unitMessages_def intro!: arg_cong [where f = concat] map_cong filter_True filter_False)

lemma unitMessages_Nil: "seg \<notin> fst ` set us \<Longrightarrow> unitMessages us seg = []"
  by (induction us) (auto simp: unitMessages_def)

lemma messageContentRefs_ids:
  assumes "messageContentRefs H msgs = Inr refs" "digest_wf (SelectionEnv H)"
  shows "map RefID refs = map MsgID msgs \<and> (\<forall>ref \<in> set refs. ContentRef_Validate ref = Inr ())"
proof -
  from assms(1) have "list_all2 (\<lambda>m ref. MessageContentRef (SelectionEnv H) m = Inr ref) msgs refs"
    by (simp add: messageContentRefs_def map_res_Inr_iff)
  then show ?thesis
  proof (induction rule: list_all2_induct)
    case (Cons m msgs ref refs)
    then show ?case using MessageContentRef_valid [OF assms(2) Cons(1)]
      by (auto simp: MessageContentRef_def bind_res_Inr_iff split: if_splits)
  qed simp
qed

lemma cutCandidates_ok:
  assumes "cutCandidates H seg msgs rounds required i = Inr cs" "digest_wf (SelectionEnv H)" "isKnownSegment seg"
  shows "(\<forall>c \<in> set cs. candidate_ok c \<and> CcSegment c = seg) \<and> concat (map CcMessages cs) = map Message_Clone (drop i msgs)"
  using assms
proof (induction H seg msgs rounds required i arbitrary: cs rule: cutCandidates.induct)
  case (1 H seg msgs rounds required i)
  show ?case
  proof (cases "length msgs \<le> i")
    case True
    then show ?thesis using 1(2) by (simp add: cutCandidates.simps [of H seg msgs rounds required i])
  next
    case False
    define e where "e = max i (roundEnd rounds i)"
    define ms where "ms = take (Suc e - i) (drop i msgs)"
    from False 1(2) obtain members rest where m: "messageContentRefs H ms = Inr members"
        and r: "cutCandidates H seg msgs rounds required (Suc e) = Inr rest"
        and cs: "cs = \<lparr>CcArtifact = None, CcMembers = members, CcRef = hd members, CcSegment = seg,
              CcMessages = cloneMessageSlice ms, CcRequired = required ! i, CcOrdinal = 0\<rparr> # rest"
      unfolding cutCandidates.simps [of H seg msgs rounds required i] by (auto simp: bind_res_Inr_iff Let_def e_def ms_def)
    have IH: "(\<forall>c \<in> set rest. candidate_ok c \<and> CcSegment c = seg) \<and> concat (map CcMessages rest) = map Message_Clone (drop (Suc e) msgs)"
      using 1(1) [OF False e_def refl r 1(3,4)] .
    have "ms \<noteq> []" using False by (simp add: ms_def e_def)
    then have "members \<noteq> []" using messageContentRefs_ids [OF m 1(3)] by auto
    moreover have "ms @ drop (Suc e) msgs = drop i msgs"
      by (simp add: ms_def e_def) (metis append_take_drop_id drop_drop le_add_diff_inverse2 max.cobounded1 le_SucI)
    then have "map Message_Clone ms @ map Message_Clone (drop (Suc e) msgs) = map Message_Clone (drop i msgs)" by (metis map_append)
    ultimately show ?thesis using IH messageContentRefs_ids [OF m 1(3)] 1(4)
      by (auto simp: cs candidate_ok_def cloneMessageSlice_def)
  qed
qed

text \<open>The messages a segment contributes to the candidates.\<close>

definition sourceMessages :: "ConversationState \<Rightarrow> Message list \<Rightarrow> string \<Rightarrow> Message list" where
  "sourceMessages snap pending seg = Segment snap seg @ (if seg = SegmentHistory then cloneMessageSlice pending else [])"

lemma allCandidates_ok:
  assumes "allCandidates H snap pending pipe segs c = (Inr cs, c')" "digest_wf (SelectionEnv H)" "\<forall>seg \<in> set segs. isKnownSegment seg" "distinct segs"
  shows "(\<forall>x \<in> set cs. candidate_ok x \<and> CcSegment x \<in> set segs) \<and>
     (\<forall>seg \<in> set segs. unitMessages (unitsOf cs) seg = map Message_Clone (sourceMessages snap pending seg))"
  using assms
proof (induction segs arbitrary: cs c)
  case (Cons seg segs)
  from Cons.prems(1) obtain us c1 rest where
    u: "segmentCandidates H seg (sourceMessages snap pending seg) (length pending) pipe c = (Inr us, c1)"
    and r: "allCandidates H snap pending pipe segs c1 = (Inr rest, c')" and cs: "cs = us @ rest"
    by (auto simp: bind_Inr_iff sourceMessages_def)
  from u obtain rounds required where "cutCandidates H seg (sourceMessages snap pending seg) rounds required 0 = Inr us"
    by (auto simp: segmentCandidates_def bind_Inr_iff)
  from cutCandidates_ok [OF this] Cons.prems(2,3)
  have us: "\<forall>x \<in> set us. candidate_ok x \<and> CcSegment x = seg" "concat (map CcMessages us) = map Message_Clone (sourceMessages snap pending seg)"
    by simp_all
  have IH: "\<forall>x \<in> set rest. candidate_ok x \<and> CcSegment x \<in> set segs"
    "\<forall>seg \<in> set segs. unitMessages (unitsOf rest) seg = map Message_Clone (sourceMessages snap pending seg)"
    using Cons.IH [OF r] Cons.prems(2-4) by simp_all
  have "\<forall>v \<in> set (unitsOf us). fst v = seg" using us(1) by auto
  then have m: "unitMessages (unitsOf us) seg' = (if seg' = seg then concat (map CcMessages us) else [])" for seg'
    using unitMessages_same [of "unitsOf us" seg seg'] by (simp add: comp_def)
  have "seg \<notin> fst ` set (unitsOf rest)" using IH(1) Cons.prems(4) by auto
  then have "unitMessages (unitsOf rest) seg = []" by (rule unitMessages_Nil)
  then show ?case using us IH Cons.prems(4) by (auto simp: cs m)
qed simp

lemma attachCandidateArtifact_ok:
  assumes "attachCandidateArtifact H arts x = Inr x'" "artifact_digest_wf H" "candidate_ok x"
  shows "candidate_ok x' \<and> CcSegment x' = CcSegment x \<and> CcMessages x' = CcMessages x \<and> CcOrdinal x' = CcOrdinal x"
  using assms ArtifactContentRef_valid [OF assms(2)]
  by (auto simp: attachCandidateArtifact_def candidate_ok_def bind_res_Inr_iff split: option.splits)

lemma attach_all_ok:
  assumes "list_all2 (\<lambda>(k, x) x'. attachCandidateArtifact H arts (x\<lparr>CcOrdinal := k\<rparr>) = Inr x') (enumerate n xs) xs'"
    and "artifact_digest_wf H" "\<forall>x \<in> set xs. candidate_ok x"
  shows "(\<forall>x \<in> set xs'. candidate_ok x) \<and> unitsOf xs' = unitsOf xs \<and> map CcOrdinal xs' = [n..<n + length xs]"
  using assms
proof (induction xs arbitrary: n xs')
  case (Cons x xs)
  then obtain y ys where xs': "xs' = y # ys" "attachCandidateArtifact H arts (x\<lparr>CcOrdinal := n\<rparr>) = Inr y"
    "list_all2 (\<lambda>(k, x) x'. attachCandidateArtifact H arts (x\<lparr>CcOrdinal := k\<rparr>) = Inr x') (enumerate (Suc n) xs) ys"
    by (auto simp: list_all2_Cons1)
  have "candidate_ok (x\<lparr>CcOrdinal := n\<rparr>)" using Cons.prems(3) by (simp add: candidate_ok_def)
  from attachCandidateArtifact_ok [OF xs'(2) assms(2) this] Cons.IH [OF xs'(3) assms(2)] Cons.prems(3)
  show ?case by (simp add: xs'(1) upt_conv_Cons del: upt_Suc)
qed simp

lemma known_segments: "\<forall>seg \<in> set snapshotSegmentOrder. isKnownSegment seg" "distinct snapshotSegmentOrder"
  by code_simp+

lemma isKnownSegment_iff: "isKnownSegment seg \<longleftrightarrow> seg \<in> set snapshotSegmentOrder"
  by (auto simp: isKnownSegment_def snapshotSegmentOrder_def)

lemma selectionCandidates_ok:
  assumes "selectionCandidates H snap pending pipe c = (Inr cs, c')" "digest_wf (SelectionEnv H)" "artifact_digest_wf H"
  shows "(\<forall>x \<in> set cs. candidate_ok x) \<and> map CcOrdinal cs = [0..<length cs] \<and>
     (\<forall>seg \<in> set snapshotSegmentOrder. unitMessages (unitsOf cs) seg = map Message_Clone (sourceMessages snap pending seg))"
proof -
  from assms(1) obtain cs0 c1 where all: "allCandidates H snap pending pipe snapshotSegmentOrder c = (Inr cs0, c1)"
    and att: "list_all2 (\<lambda>(k, x) x'. attachCandidateArtifact H (ArtifactMap snap) (x\<lparr>CcOrdinal := k\<rparr>) = Inr x') (enumerate 0 cs0) cs"
    by (auto simp: selectionCandidates_def bind_Inr_iff map_res_Inr_iff split_def)
  note ok = allCandidates_ok [OF all assms(2) known_segments]
  with attach_all_ok [OF att assms(3)] have "\<forall>x \<in> set cs. candidate_ok x" "unitsOf cs = unitsOf cs0" "map CcOrdinal cs = [0..<length cs0]"
    by auto
  moreover from att have "length cs = length cs0" by (auto dest: list_all2_lengthD)
  ultimately show ?thesis using ok by auto
qed

lemma markFirst_ok:
  "markFirst ref xs = Some xs' \<Longrightarrow> \<forall>x \<in> set xs. candidate_ok x \<Longrightarrow>
   (\<forall>x \<in> set xs'. candidate_ok x) \<and> map CcOrdinal xs' = map CcOrdinal xs \<and> unitsOf xs' = unitsOf xs"
  by (induction xs arbitrary: xs') (auto simp: candidate_ok_def split: if_splits)

lemma markRequired_from_ok:
  "markRequired_from seen xs refs = Inr xs' \<Longrightarrow> \<forall>x \<in> set xs. candidate_ok x \<Longrightarrow>
   (\<forall>x \<in> set xs'. candidate_ok x) \<and> map CcOrdinal xs' = map CcOrdinal xs \<and> unitsOf xs' = unitsOf xs"
proof (induction refs arbitrary: seen xs)
  case (Cons ref refs)
  from Cons.prems(1) obtain ys where "markFirst ref xs = Some ys" "markRequired_from (ref # seen) ys refs = Inr xs'" by (auto split: if_splits option.splits)
  note m = markFirst_ok [OF this(1) Cons.prems(2)] and r = this(2)
  from Cons.IH [OF r] m show ?case by auto
qed simp

subsection \<open>Decisions\<close>

lemma roundSemanticRef_ok:
  "roundSemanticRef H m = Inr ref \<Longrightarrow> digest_wf (SelectionEnv H) \<Longrightarrow> RefID ref = MsgID m \<and> ContentRef_Validate ref = Inr ()"
  unfolding roundSemanticRef_def by (frule (1) MessageContentRef_valid) (auto simp: MessageContentRef_def bind_res_Inr_iff split: if_splits)

lemma candidateRoundRefs_ok:
  assumes "candidateRoundRefs H x = Inr refs" "digest_wf (SelectionEnv H)"
  shows "refs = [] \<or> map RefID refs = map MsgID (CcMessages x) \<and> (\<forall>ref \<in> set refs. ContentRef_Validate ref = Inr ())"
proof (cases "hasRoundParts (CcMessages x)")
  case True
  with assms(1) have "list_all2 (\<lambda>m ref. roundSemanticRef H m = Inr ref) (CcMessages x) refs"
    by (simp add: candidateRoundRefs_def map_res_Inr_iff)
  then have "list_all2 (\<lambda>m ref. RefID ref = MsgID m \<and> ContentRef_Validate ref = Inr ()) (CcMessages x) refs"
    by (rule list_all2_mono) (use roundSemanticRef_ok assms(2) in blast)
  then have "map RefID refs = map MsgID (CcMessages x) \<and> (\<forall>ref \<in> set refs. ContentRef_Validate ref = Inr ())"
    by (induction rule: list_all2_induct) auto
  then show ?thesis by simp
qed (use assms(1) in \<open>simp add: candidateRoundRefs_def\<close>)

lemma validateManifestRefs_iff: "validateManifestRefs refs = Inr () \<longleftrightarrow> (\<forall>ref \<in> set refs. ContentRef_Validate ref = Inr ())"
  by (auto simp: validateManifestRefs_def bind_res_Inr_iff simp flip: map_res_unit)

lemma decideCandidate_valid:
  assumes "decideCandidate H admitted prios x = Inr d" "candidate_ok x" "digest_wf (SelectionEnv H)" "CcRequired x \<Longrightarrow> CcRef x \<in> set admitted"
  shows "validateCandidateDecision d (CcOrdinal x) = Inr ()"
proof -
  from assms(1) obtain refs where r: "candidateRoundRefs H x = Inr refs"
    and d: "d = \<lparr>CdRoundMembers = refs, CdMembers = CcMembers x, CdRef = CcRef x, CdSegment = CcSegment x,
          CdOrdinal = CcOrdinal x, CdRequired = CcRequired x, CdSelected = CcRef x \<in> set admitted,
          CdReason = (if CcRef x \<in> set admitted then ''selected''
                      else if map_of prios (CcRef x) \<noteq> None then ReasonTokenBudgetExceeded else coverageNotSelected)\<rparr>"
    by (auto simp: decideCandidate_def bind_res_Inr_iff)
  have "validateManifestRefs (CcMembers x) = Inr ()" using assms(2) by (simp add: validateManifestRefs_iff candidate_ok_def)
  moreover have "refs = [] \<or> map RefID refs = map RefID (CcMembers x) \<and> validateManifestRefs refs = Inr ()"
    using candidateRoundRefs_ok [OF r assms(3)] assms(2) by (auto simp: validateManifestRefs_iff candidate_ok_def)
  moreover from this have "refs = [] \<or> length refs = length (CcMembers x)" by (auto dest: map_eq_imp_length_eq)
  ultimately show ?thesis using assms(2,4)
    by (auto simp: validateCandidateDecision_def d candidate_ok_def)
qed

lemma validateCandidates_from_valid:
  assumes "\<forall>k < length ds. validateCandidateDecision (ds ! k) (i + k) = Inr ()"
  shows "validateCandidates_from seen i ds =
     (if distinct (map CdRef ds) \<and> set seen \<inter> CdRef ` set ds = {} then Inr () else Inl ErrDuplicateSelection)"
  using assms
proof (induction ds arbitrary: i seen)
  case (Cons d ds)
  from Cons.prems have "validateCandidateDecision d i = Inr ()" "\<forall>k < length ds. validateCandidateDecision (ds ! k) (Suc i + k) = Inr ()"
    by (auto dest: spec [of _ 0] simp: All_less_Suc2)
  with Cons.IH show ?case by (auto simp: bind_res_def)
qed simp

lemma validatePlan_from_ok:
  "validatePlan_from refs planned plan = Inr () \<longleftrightarrow>
     ChRef ` set plan \<subseteq> set refs \<and> distinct (map ChRef plan) \<and> ChRef ` set plan \<inter> set planned = {}"
  by (induction plan arbitrary: planned) auto

lemma subseq_unitMessages_filter: "subseq (concat (map f (filter Q (filter R xs)))) (concat (map f (filter R xs)))"
  by (induction xs) (auto intro: list_emb_append_mono list_emb_append2)

lemma subseq_map_clone: "subseq xs (map f ys) \<Longrightarrow> \<exists>kept. subseq kept ys \<and> xs = map f kept"
  by (auto simp: subseq_conv_nths nths_map)

text \<open>The message identities that a list of decisions is about.\<close>

definition decidedIDs :: "(CandidateDecision \<Rightarrow> bool) \<Rightarrow> CandidateDecision list \<Rightarrow> string list" where
  "decidedIDs P ds = concat (map (\<lambda>d. map RefID (CdMembers d)) (filter P ds))"

lemma decisions_fields:
  assumes "list_all2 (\<lambda>x d. decideCandidate H admitted prios x = Inr d) xs ds" "\<forall>x \<in> set xs. candidate_ok x"
  shows "map CdRef ds = map CcRef xs \<and> (\<forall>d \<in> set ds. CdSelected d = (CdRef d \<in> set admitted)) \<and>
     decidedIDs (\<lambda>d. CdSegment d = seg) ds = map MsgID (unitMessages (unitsOf xs) seg) \<and>
     decidedIDs (\<lambda>d. CdSegment d = seg \<and> CdSelected d) ds =
       map MsgID (concat (map CcMessages (filter (\<lambda>x. CcSegment x = seg \<and> CcRef x \<in> set admitted) xs)))"
  using assms
  by (induction rule: list_all2_induct)
    (auto simp: decidedIDs_def unitMessages_def decideCandidate_def bind_res_Inr_iff candidate_ok_def)

lemma Segment_WithSegment: "Segment (WithSegment st n ms) n' = (if n' = n then map Message_Clone (map Message_Clone ms) else Segment st n')"
  by (simp add: Segment_def WithSegment_def withOwnedSegment_def segment_def cloneMessageSlice_def update_conv')

lemma Segment_fold:
  "Segment (fold (\<lambda>seg out. WithSegment out seg (f seg)) segs st) n =
     (if n \<in> set segs then map Message_Clone (map Message_Clone (f n)) else Segment st n)"
  by (induction segs arbitrary: st) (simp_all add: Segment_WithSegment)

lemma Version_fold: "Version (fold (\<lambda>seg out. WithSegment out seg (f seg)) segs st) = Version st"
  by (induction segs arbitrary: st) (simp_all add: WithSegment_def withOwnedSegment_def)

lemma Segment_selectedSnapshot:
  "Segment (selectedSnapshot snap xs admitted ids) seg = map Message_Clone (map Message_Clone (selectedMessages xs admitted ids seg))"
proof -
  have "selectedMessages xs admitted ids seg = []" if "seg \<notin> CcSegment ` set xs"
    using that by (auto simp: selectedMessages_def filter_empty_conv)
  then show ?thesis
    by (auto simp: selectedSnapshot_def Segment_fold) (simp add: Segment_def segment_def cloneMessageSlice_def WithArtifacts_def WithVersion_def EmptyState_def)+
qed

lemma selected_kept:
  assumes "unitMessages (unitsOf xs) seg = map Message_Clone (sourceMessages snap pending seg)" "\<forall>x \<in> set xs. candidate_ok x"
  shows "\<exists>kept. subseq kept (Segment snap seg) \<and> selectedMessages xs admitted (messageIDSet pending) seg = map Message_Clone kept"
proof -
  let ?P = "\<lambda>m. MsgID m \<notin> set (messageIDSet pending)"
  let ?all = "concat (map CcMessages (filter (\<lambda>x. CcSegment x = seg) xs))"
  have all: "?all = map Message_Clone (sourceMessages snap pending seg)"
    using assms(1) by (simp add: unitMessages_def filter_map comp_def)
  have "MsgID m \<noteq> []" if "m \<in> set ?all" for m
  proof -
    from that obtain x where x: "x \<in> set xs" "m \<in> set (CcMessages x)" by auto
    with assms(2) have "MsgID m \<in> set (map RefID (CcMembers x))" by (simp add: candidate_ok_def)
    then obtain ref where "ref \<in> set (CcMembers x)" "MsgID m = RefID ref" by auto
    moreover have "ContentRef_Validate ref = Inr ()" using assms(2) x(1) calculation(1) by (simp add: candidate_ok_def)
    ultimately show ?thesis by (auto simp: ContentRef_Validate_def split: option.splits if_splits)
  qed
  then have "MsgID m \<noteq> []" if "m \<in> set (if seg = SegmentHistory then pending else [])" for m
    using that unfolding all by (force simp: sourceMessages_def cloneMessageSlice_def split: if_splits)
  then have "filter ?P ?all = filter ?P (map Message_Clone (Segment snap seg))"
    unfolding all by (auto simp: sourceMessages_def cloneMessageSlice_def messageIDSet_def filter_empty_conv)
  moreover have "subseq (concat (map CcMessages (filter (\<lambda>x. CcSegment x = seg \<and> CcRef x \<in> set admitted) xs))) ?all"
    using subseq_unitMessages_filter [of CcMessages "\<lambda>x. CcRef x \<in> set admitted" "\<lambda>x. CcSegment x = seg" xs] by (simp add: conj_commute)
  then have "subseq (selectedMessages xs admitted (messageIDSet pending) seg) (filter ?P ?all)"
    unfolding selectedMessages_def by (rule subseq_filter)
  ultimately have "subseq (selectedMessages xs admitted (messageIDSet pending) seg) (map Message_Clone (Segment snap seg))"
    by (metis subseq_filter_left subseq_order.order_trans)
  then show ?thesis by (rule subseq_map_clone)
qed

lemma selectOutput_Inr:
  assumes "selectOutput H snap pending policy pipe ev c = (Inr (out, d, ev'), c')"
  obtains xs0 xs prios admitted c1 c2 c3 where "selectionCandidates H snap pending pipe c = (Inr xs0, c1)"
    "markSelectionRequired xs0 policy = Inr xs" "selectionPlan xs policy c1 = (Inr (SdPlan d), c2)"
    "validateSelectionPlan H xs (SdPlan d) = Inr prios" "admitSelection H xs prios (policy \<noteq> None) pipe ev c2 = (Inr (admitted, ev'), c3)"
    "list_all2 (\<lambda>x d. decideCandidate H admitted prios x = Inr d) xs (SdCandidates d)" "SdPolicy d = map_option SpIdentity policy"
    "out = selectedSnapshot snap xs admitted (messageIDSet pending)"
  using assms that by (auto simp: selectOutput_def bind_Inr_iff map_res_Inr_iff)

lemma selectionPlan_policy:
  "selectionPlan xs (Some p) c = (Inr plan, c') \<Longrightarrow> Descriptor_Validate (SpIdentity p) = Inr ()"
  by (auto simp: selectionPlan_def bind_Inr_iff SelectionPolicy_validate_def split: option.splits)

lemma decision_validates:
  assumes "list_all2 (\<lambda>x d. decideCandidate H admitted prios x = Inr d) xs ds" "\<forall>x \<in> set xs. candidate_ok x"
    and "digest_wf (SelectionEnv H)" "map CcOrdinal xs = [0..<length xs]" "distinct (map CcRef xs)"
    and "validateSelectionPlan H xs plan = Inr prios" "admitSelection H xs prios pack pipe ev c = (Inr (admitted, ev'), c')"
    and "\<forall>p. policy = Some p \<longrightarrow> Descriptor_Validate p = Inr ()"
  shows "validateSelectionDecision (Some \<lparr>SdPolicy = policy, SdPlan = plan, SdCandidates = ds\<rparr>) = Inr ()"
proof -
  from admitLoop_greedy [OF assms(7) [unfolded admitSelection_def]] assms(5)
  have g: "greedy H xs prios pack pipe admitted (orderCandidates prios xs) admitted" by auto
  note plan = assms(6) [unfolded validateSelectionPlan_Inr]
  have planned: "map_of prios ref \<noteq> None \<longleftrightarrow> ref \<in> ChRef ` set plan" for ref
    using plan by (simp add: map_of_eq_None_iff image_image)
  have req: "CcRef x \<in> set admitted" if "x \<in> set xs" "CcRequired x" for x
    using that plan g planned unfolding greedy_def by simp
  have "validateCandidateDecision (ds ! k) (0 + k) = Inr ()" if k: "k < length ds" for k
  proof -
    have l: "length ds = length xs" using assms(1) by (auto dest: list_all2_lengthD)
    have "CcOrdinal (xs ! k) = k" using assms(4) k l by (metis nth_map nth_upt add_0)
    then show ?thesis
      using decideCandidate_valid [of H admitted prios "xs ! k" "ds ! k"] list_all2_nthD2 [OF assms(1) k] assms(2,3) req [of "xs ! k"] k l by auto
  qed
  then have "validateCandidates_from [] 0 ds =
      (if distinct (map CdRef ds) \<and> set ([] :: ContentRef list) \<inter> CdRef ` set ds = {} then Inr () else Inl ErrDuplicateSelection)"
    by (intro validateCandidates_from_valid) simp
  moreover note f = decisions_fields [OF assms(1,2)]
  moreover have "validatePlan_from (map CdRef ds) [] plan = Inr ()" using f plan by (simp add: validatePlan_from_ok)
  moreover have "CdRef d \<in> ChRef ` set plan" if "d \<in> set ds" "CdSelected d" for d
    using that f g planned unfolding greedy_def by simp
  ultimately show ?thesis using assms(5,8) by (auto simp: validateSelectionDecision_def split: option.splits)
qed

text \<open>
  C6. Selecting an output decides about the whole context and nothing else. When selection succeeds and the candidates
  have distinct references, the decision is one that \<open>validateSelectionDecision\<close> accepts (without a policy the distinctness is
  checked by the selection itself); in each segment the candidates are exactly the messages of the snapshot, and in the history
  also those of the pending turn, in order; the selected messages of a segment are the ones of its selected candidates, less
  the pending ones, and are copies of messages of the snapshot in their order; and the version is kept.
\<close>

theorem selectOutput_sound:
  assumes "selectOutput H snap pending policy pipe ev c = (Inr (out, d, ev'), c')"
    and "digest_wf (SelectionEnv H)" "artifact_digest_wf H" "policy = None \<or> distinct (map CdRef (SdCandidates d))"
  shows "validateSelectionDecision (Some d) = Inr () \<and> Version out = Version snap \<and>
     (\<forall>seg \<in> set snapshotSegmentOrder.
        decidedIDs (\<lambda>x. CdSegment x = seg) (SdCandidates d) =
          map MsgID (Segment snap seg @ (if seg = SegmentHistory then pending else [])) \<and>
        map MsgID (Segment out seg) =
          filter (\<lambda>i. i \<notin> set (messageIDSet pending)) (decidedIDs (\<lambda>x. CdSegment x = seg \<and> CdSelected x) (SdCandidates d)) \<and>
        (\<exists>kept. subseq kept (Segment snap seg) \<and> Segment out seg = map (Message_Clone \<circ> Message_Clone \<circ> Message_Clone) kept))"
proof -
  obtain xs0 xs prios admitted c1 c2 c3 where
    cs: "selectionCandidates H snap pending pipe c = (Inr xs0, c1)"
    and mk: "markSelectionRequired xs0 policy = Inr xs" and plan: "selectionPlan xs policy c1 = (Inr (SdPlan d), c2)"
    and v: "validateSelectionPlan H xs (SdPlan d) = Inr prios" and ad: "admitSelection H xs prios (policy \<noteq> None) pipe ev c2 = (Inr (admitted, ev'), c3)"
    and ds: "list_all2 (\<lambda>x d. decideCandidate H admitted prios x = Inr d) xs (SdCandidates d)"
    and pol: "SdPolicy d = map_option SpIdentity policy" and out: "out = selectedSnapshot snap xs admitted (messageIDSet pending)"
    using assms(1) by (rule selectOutput_Inr)
  note ok0 = selectionCandidates_ok [OF cs assms(2,3)]
  have same: "(\<forall>x \<in> set xs. candidate_ok x) \<and> map CcOrdinal xs = map CcOrdinal xs0 \<and> unitsOf xs = unitsOf xs0"
  proof (cases policy)
    case (Some p)
    then have "markRequired_from [] xs0 (SpRequired p) = Inr xs" using mk by (simp add: markSelectionRequired_def)
    from markRequired_from_ok [OF this] ok0 show ?thesis by blast
  qed (use mk ok0 in \<open>simp add: markSelectionRequired_def\<close>)
  then have l: "length xs = length xs0" using map_eq_imp_length_eq by blast
  have src: "unitMessages (unitsOf xs) seg = map Message_Clone (sourceMessages snap pending seg)" if "seg \<in> set snapshotSegmentOrder" for seg
    using that same ok0 by simp
  note f = decisions_fields [OF ds conjunct1 [OF same]]
  have "distinct (map CcRef xs)"
  proof (cases policy)
    case None
    then have "SdPlan d = map (\<lambda>x. \<lparr>ChRef = CcRef x, ChPriority = 0\<rparr>) xs" using plan by (auto simp: selectionPlan_def)
    then have "map ChRef (SdPlan d) = map CcRef xs" by simp
    then show ?thesis using v by (simp add: validateSelectionPlan_Inr)
  qed (use assms(4) f in auto)
  moreover have "\<forall>p. SdPolicy d = Some p \<longrightarrow> Descriptor_Validate p = Inr ()" using plan pol by (auto dest: selectionPlan_policy)
  moreover have "map CcOrdinal xs = [0..<length xs]" using same ok0 l by simp
  ultimately have "validateSelectionDecision (Some \<lparr>SdPolicy = SdPolicy d, SdPlan = SdPlan d, SdCandidates = SdCandidates d\<rparr>) = Inr ()"
    using decision_validates [OF ds conjunct1 [OF same] assms(2) _ _ v ad] by blast
  then have "validateSelectionDecision (Some d) = Inr ()" by (cases d) simp
  moreover have "Version out = Version snap" by (simp add: out selectedSnapshot_def Version_fold WithArtifacts_def WithVersion_def)
  moreover have "map MsgID (Segment out seg) =
      filter (\<lambda>i. i \<notin> set (messageIDSet pending)) (decidedIDs (\<lambda>x. CdSegment x = seg \<and> CdSelected x) (SdCandidates d))" for seg
    using f [of seg] by (simp add: out Segment_selectedSnapshot selectedMessages_def filter_map comp_def)
  moreover have "decidedIDs (\<lambda>x. CdSegment x = seg) (SdCandidates d) =
      map MsgID (Segment snap seg @ (if seg = SegmentHistory then pending else []))" if "seg \<in> set snapshotSegmentOrder" for seg
    using f [of seg] src [OF that] by (simp add: sourceMessages_def cloneMessageSlice_def comp_def)
  moreover have "\<exists>kept. subseq kept (Segment snap seg) \<and> Segment out seg = map (Message_Clone \<circ> Message_Clone \<circ> Message_Clone) kept"
    if "seg \<in> set snapshotSegmentOrder" for seg
    using selected_kept [OF src [OF that] conjunct1 [OF same], of admitted] by (auto simp: out Segment_selectedSnapshot comp_def)
  ultimately show ?thesis by blast
qed

subsection \<open>Mandatory selections\<close>

lemma lastIndex_Some: "lastIndex after i = Some k \<Longrightarrow> k < length after \<and> MsgID (after ! k) = i"
  unfolding lastIndex_def by (drule map_of_SomeD) (auto simp: in_set_enumerate_eq)

lemma lastIndex_None: "lastIndex after i = None \<longleftrightarrow> i \<notin> MsgID ` set after"
proof -
  have "map fst (map (\<lambda>(k, m). (MsgID m, k)) (enumerate 0 after)) = map MsgID (map snd (enumerate 0 after))"
    unfolding map_map by (rule map_cong) auto
  then have "fst ` set (map (\<lambda>(k, m). (MsgID m, k)) (enumerate 0 after)) = MsgID ` set after" by (metis map_snd_enumerate set_map)
  then show ?thesis by (simp add: lastIndex_def map_of_eq_None_iff)
qed

text \<open>A list of references is realized by adjacent messages.\<close>

definition unit_at :: "(Message \<Rightarrow> ContentRef \<Rightarrow> bool) \<Rightarrow> Message list \<Rightarrow> nat \<Rightarrow> ContentRef list \<Rightarrow> bool" where
  "unit_at R after k refs = list_all2 R (take (length refs) (drop k after)) refs"

lemma unit_at_Nil [simp]: "unit_at R after k []"
  by (simp add: unit_at_def)

lemma unit_at_Cons: "k < length after \<Longrightarrow> unit_at R after k (ref # refs) = (R (after ! k) ref \<and> unit_at R after (Suc k) refs)"
  by (simp add: unit_at_def flip: Cons_nth_drop_Suc)

abbreviation member_of :: "CompileHost \<Rightarrow> bool \<Rightarrow> Message \<Rightarrow> ContentRef \<Rightarrow> bool" where
  "member_of H exact m ref \<equiv> MsgID m = RefID ref \<and> (exact \<longrightarrow> MessageContentRef (SelectionEnv H) m = Inr ref)"

lemma mandatoryUnit_from_at:
  assumes "mandatoryUnit_from H after exact (first, int p) refs = Inr (f, l)" "0 \<le> first"
  shows "f = first \<and> l = int (p + length refs) \<and> unit_at (member_of H exact) after (Suc p) refs"
  using assms
proof (induction refs arbitrary: p)
  case (Cons ref refs)
  obtain k where k: "lastIndex after (RefID ref) = Some k" "int k = int p + 1" "exact \<longrightarrow> MessageContentRef (SelectionEnv H) (after ! k) = Inr ref"
    and r: "mandatoryUnit_from H after exact (first, int k) refs = Inr (f, l)"
    using Cons.prems by (cases "lastIndex after (RefID ref)"; cases exact) (auto simp: bind_res_Inr_iff split: if_splits)
  have "k = Suc p" using k(2) by simp
  with Cons.IH [OF r Cons.prems(2)] lastIndex_Some [OF k(1)] k(3) show ?case by (auto simp: unit_at_Cons)
qed simp

definition unitStart :: "Message list \<Rightarrow> CandidateDecision \<Rightarrow> nat" where
  "unitStart after x = the (lastIndex after (RefID (hd (CdMembers x))))"

lemma validateMandatoryUnit_at:
  assumes "validateMandatoryUnit H x after exact = Inr (f, l)" "CdMembers x \<noteq> []"
  shows "f = int (unitStart after x) \<and> l = int (unitStart after x + length (CdMembers x)) - 1 \<and>
     unit_at (member_of H exact) after (unitStart after x) (CdMembers x)"
proof -
  obtain ref refs where m: "CdMembers x = ref # refs" using assms(2) by (cases "CdMembers x") auto
  with assms(1) obtain k where k: "lastIndex after (RefID ref) = Some k" "exact \<longrightarrow> MessageContentRef (SelectionEnv H) (after ! k) = Inr ref"
    and r: "mandatoryUnit_from H after exact (int k, int k) refs = Inr (f, l)"
    by (auto simp: validateMandatoryUnit_def bind_res_Inr_iff split: option.splits if_splits)
  have "unitStart after x = k" using k(1) m by (simp add: unitStart_def)
  then show ?thesis using mandatoryUnit_from_at [OF r] lastIndex_Some [OF k(1)] k(2) m by (simp add: unit_at_Cons)
qed

lemma admittedRound_from_at:
  assumes "admittedRound_from H after (n, prior) refs = Inr (n', prior')"
  shows "n \<le> n' \<and> n' \<le> n + length refs \<and>
     (n' = n \<longrightarrow> (\<forall>ref \<in> set refs. RefID ref \<notin> MsgID ` set after)) \<and>
     (n' = n + length refs \<and> 0 \<le> prior \<longrightarrow> unit_at (\<lambda>m ref. roundSemanticRef H m = Inr ref) after (nat (prior + 1)) refs) \<and>
     (n' = n + length refs \<longrightarrow> (\<exists>k. unit_at (\<lambda>m ref. roundSemanticRef H m = Inr ref) after k refs))"
  using assms
proof (induction refs arbitrary: n prior)
  case (Cons ref refs)
  show ?case
  proof (cases "lastIndex after (RefID ref)")
    case None
    with Cons.prems have "admittedRound_from H after (n, prior) refs = Inr (n', prior')" by simp
    from Cons.IH [OF this] None show ?thesis by (auto simp: lastIndex_None)
  next
    case (Some k)
    with Cons.prems have sem: "roundSemanticRef H (after ! k) = Inr ref" "0 \<le> prior \<longrightarrow> int k = prior + 1"
      and r: "admittedRound_from H after (Suc n, int k) refs = Inr (n', prior')"
      by (auto simp: bind_res_Inr_iff split: if_splits)
    have "nat (int k + 1) = Suc k" by simp
    with Cons.IH [OF r] have IH: "Suc n \<le> n'" "n' \<le> Suc n + length refs"
      "n' = Suc n + length refs \<longrightarrow> unit_at (\<lambda>m ref. roundSemanticRef H m = Inr ref) after (Suc k) refs" by simp_all
    then have "n' = n + length (ref # refs) \<longrightarrow> unit_at (\<lambda>m ref. roundSemanticRef H m = Inr ref) after k (ref # refs)"
      using lastIndex_Some [OF Some] sem by (simp add: unit_at_Cons)
    moreover have "0 \<le> prior \<longrightarrow> nat (prior + 1) = k" using sem(2) by auto
    ultimately show ?thesis using IH(1,2) by auto
  qed
qed simp

definition round_whole :: "CompileHost \<Rightarrow> Message list \<Rightarrow> CandidateDecision \<Rightarrow> bool" where
  "round_whole H after x \<longleftrightarrow>
     (\<forall>ref \<in> set (CdRoundMembers x). RefID ref \<notin> MsgID ` set after) \<or>
     (\<exists>k. unit_at (\<lambda>m ref. roundSemanticRef H m = Inr ref) after k (CdRoundMembers x))"

lemma validateAdmittedRound_whole: "validateAdmittedRound H x after = Inr () \<Longrightarrow> round_whole H after x"
  by (auto simp: validateAdmittedRound_def round_whole_def bind_res_Inr_iff split: if_splits dest!: admittedRound_from_at)

definition unit_ok :: "CompileHost \<Rightarrow> ContentRef list \<Rightarrow> Message list \<Rightarrow> CandidateDecision \<Rightarrow> bool" where
  "unit_ok H exact after x \<longleftrightarrow>
     (CdSelected x \<longrightarrow> round_whole H after x) \<and>
     (CdRequired x \<longrightarrow> unit_at (member_of H (CdRef x \<in> set exact)) after (unitStart after x) (CdMembers x))"

abbreviation unit_before :: "Message list \<Rightarrow> CandidateDecision \<Rightarrow> CandidateDecision \<Rightarrow> bool" where
  "unit_before after x y \<equiv> CdSegment x = CdSegment y \<longrightarrow> unitStart after x + length (CdMembers x) \<le> unitStart after y"

lemma mandatory_from_ok:
  assumes "mandatory_from H exact after priors xs = Inr ()" "\<forall>x \<in> set xs. CdMembers x \<noteq> []"
  shows "(\<forall>x \<in> set xs. unit_ok H exact after x) \<and> sorted_wrt (unit_before after) (filter CdRequired xs) \<and>
     (\<forall>x \<in> set (filter CdRequired xs). \<forall>prior. map_of priors (CdSegment x) = Some prior \<longrightarrow> prior < int (unitStart after x))"
  using assms
proof (induction xs arbitrary: priors)
  case (Cons x xs)
  have rnd: "CdSelected x \<longrightarrow> round_whole H after x"
    using Cons.prems(1) validateAdmittedRound_whole by (auto simp: bind_res_Inr_iff round_whole_def split: if_splits)
  show ?case
  proof (cases "CdRequired x")
    case False
    then have "mandatory_from H exact after priors xs = Inr ()" using Cons.prems(1) by (auto simp: bind_res_Inr_iff)
    from Cons.IH [OF this] Cons.prems(2) False rnd show ?thesis by (simp add: unit_ok_def)
  next
    case True
    then obtain f l where u: "validateMandatoryUnit H x after (CdRef x \<in> set exact) = Inr (f, l)"
      and p: "\<forall>prior. map_of priors (CdSegment x) = Some prior \<longrightarrow> prior < f"
      and r: "mandatory_from H exact after ((CdSegment x, l) # priors) xs = Inr ()"
      using Cons.prems(1) by (fastforce simp: bind_res_Inr_iff split: option.splits if_splits)
    have at: "f = int (unitStart after x)" "l = int (unitStart after x + length (CdMembers x)) - 1"
      "unit_at (member_of H (CdRef x \<in> set exact)) after (unitStart after x) (CdMembers x)" "CdMembers x \<noteq> []"
      using validateMandatoryUnit_at [OF u] Cons.prems(2) by simp_all
    note IH = Cons.IH [OF r] 
    have "unit_before after x y" if "y \<in> set xs" "CdRequired y" for y using IH Cons.prems(2) that at(2) by auto
    moreover have "prior < int (unitStart after y)" if "y \<in> set xs" "CdRequired y" "map_of priors (CdSegment y) = Some prior" for y prior
    proof (cases "CdSegment y = CdSegment x")
      case True
      then have "prior < f" using p that(3) by simp
      also have "f \<le> int (unitStart after y)" using calculation True IH Cons.prems(2) that(1,2) at by auto
      finally show ?thesis .
    next
      case False
      then show ?thesis using IH Cons.prems(2) that by auto
    qed
    ultimately show ?thesis using IH Cons.prems(2) True rnd at(1,3) p by (auto simp: unit_ok_def)
  qed
qed simp

text \<open>
  C34. What the check of the mandatory selection on the final messages guarantees. When a valid decision passes it, the members
  of every required candidate stand next to each other in the final messages, with their exact content when the policy named the
  candidate; the required candidates of a segment keep their order without overlapping; and the tool round of a selected
  candidate is there as a whole, with its calls and results unchanged, or not at all.
\<close>

theorem mandatory_selection_sound:
  assumes "validateSelectionDecision (Some d) = Inr ()" "validateMandatorySelection H (Some d) policy after c = (Inr (), c')"
  shows "(\<forall>x \<in> set (SdCandidates d). unit_ok H (case policy of None \<Rightarrow> [] | Some p \<Rightarrow> SpRequired p) after x) \<and>
     sorted_wrt (unit_before after) (filter CdRequired (SdCandidates d))"
proof -
  have "\<forall>x \<in> set xs. CdMembers x \<noteq> []" if "validateCandidates_from seen i xs = Inr ()" for seen i xs
    using that by (induction xs arbitrary: seen i) (auto simp: bind_res_Inr_iff validateCandidateDecision_def split: if_splits)
  then have "\<forall>x \<in> set (SdCandidates d). CdMembers x \<noteq> []"
    using assms(1) by (auto simp: validateSelectionDecision_def bind_res_Inr_iff)
  moreover have "mandatory_from H (case policy of None \<Rightarrow> [] | Some p \<Rightarrow> SpRequired p) after [] (SdCandidates d) = Inr ()"
    using assms(2) by (simp add: validateMandatorySelection_def bind_Inr_iff)
  ultimately show ?thesis using mandatory_from_ok by blast
qed

text \<open>
  The check of a plan accepts exactly the plans it promises: every choice addresses a candidate, none a later message of a
  candidate, no candidate twice, and every required candidate is chosen. The priorities it returns are the ones of the choices.
\<close>

theorem validateSelectionPlan_exact:
  assumes "memberRefs H cands = Inr members"
  shows "((\<exists>prios. validateSelectionPlan H cands plan = Inr prios) \<longleftrightarrow>
       ChRef ` set plan \<subseteq> CcRef ` set cands - set members \<and> distinct (map ChRef plan) \<and>
       CcRef ` set (filter CcRequired cands) \<subseteq> ChRef ` set plan) \<and>
     (\<forall>prios. validateSelectionPlan H cands plan = Inr prios \<longrightarrow> map_of prios = map_of (map (\<lambda>ch. (ChRef ch, ChPriority ch)) plan))"
proof (intro conjI allI impI)
  fix prios assume "validateSelectionPlan H cands plan = Inr prios"
  then have "prios = rev (map (\<lambda>ch. (ChRef ch, ChPriority ch)) plan)" "distinct (map ChRef plan)" by (simp_all add: validateSelectionPlan_Inr)
  then show "map_of prios = map_of (map (\<lambda>ch. (ChRef ch, ChPriority ch)) plan)" by (subst map_of_inject_set) (auto simp: comp_def distinct_rev simp flip: rev_map)
qed (use assms in \<open>auto simp: validateSelectionPlan_Inr\<close>)

subsection \<open>A concrete selection\<close>

definition sampleSnapshot :: ConversationState where
  "sampleSnapshot = WithSegment EmptyState SegmentHistory
     [assistantCall ''m1'' ''c1'', toolReply ''m2'' ''c1'', userText ''m3'' ''a much longer text that does not fit'']"

definition samplePending :: "Message list" where
  "samplePending = [userText ''p1'' ''go on'']"

definition sampleSelection :: SelectionPolicy where
  "sampleSelection = \<lparr>SpRequired = [], SpIdentity = \<lparr>DescID = ''s'', DescRevision = ''1''\<rparr>,
     SpSelect = Some (\<lambda>cands. ret (map (\<lambda>x. \<lparr>ChRef = CcRef x, ChPriority = int (CcOrdinal x)\<rparr>) cands))\<rparr>"

definition sampleBudget :: OutputBudget where
  "sampleBudget = \<lparr>ObPipe = samplePipeline 20 [], ObCounter = PlainCounter CharTokenEstimator, MainOutput = True\<rparr>"

definition noEvidence :: Evidence where
  "noEvidence = \<lparr>EvMaterial = None, EvExclusions = [], EvEstimates = []\<rparr>"

lemma sample_selected:
  obtains out d ev where "selectOutput sampleHost sampleSnapshot samplePending (Some sampleSelection) (Some sampleBudget) noEvidence None = (Inr (out, d, ev), None)"
    "distinct (map CdRef (SdCandidates d))" "map CdSelected (SdCandidates d) = [True, False, True]"
proof -
  have "(case selectOutput sampleHost sampleSnapshot samplePending (Some sampleSelection) (Some sampleBudget) noEvidence None of
      (Inr (out, d, ev), None) \<Rightarrow> distinct (map CdRef (SdCandidates d)) \<and> map CdSelected (SdCandidates d) = [True, False, True]
    | _ \<Rightarrow> False)"
    by code_simp
  then show thesis
    by (cases "selectOutput sampleHost sampleSnapshot samplePending (Some sampleSelection) (Some sampleBudget) noEvidence None")
      (auto intro!: that split: sum.splits option.splits)
qed

theorem selectOutput_sound_witness:
  "\<exists>out d ev. selectOutput sampleHost sampleSnapshot samplePending (Some sampleSelection) (Some sampleBudget) noEvidence None = (Inr (out, d, ev), None) \<and>
     map CdSelected (SdCandidates d) = [True, False, True] \<and> validateSelectionDecision (Some d) = Inr ()"
proof -
  obtain out d ev where s: "selectOutput sampleHost sampleSnapshot samplePending (Some sampleSelection) (Some sampleBudget) noEvidence None = (Inr (out, d, ev), None)"
    "distinct (map CdRef (SdCandidates d))" "map CdSelected (SdCandidates d) = [True, False, True]"
    by (rule sample_selected)
  have "digest_wf (SelectionEnv sampleHost)" using sampleEnv_digest by (simp add: sampleHost_def)
  from selectOutput_sound [OF s(1) this sampleHost_digests(1) disjI2 [OF s(2)]] s
  show ?thesis by (intro exI [of _ out] exI [of _ d] exI [of _ ev]) simp
qed

definition sampleRound :: ConversationState where
  "sampleRound = WithSegment EmptyState SegmentHistory [assistantCall ''m1'' ''c1'', toolReply ''m2'' ''c1'']"

lemma sample_unlimited:
  obtains out d ev where "selectOutput sampleHost sampleRound [] (Some sampleSelection) None noEvidence None = (Inr (out, d, ev), None)"
    "map CdSelected (SdCandidates d) = [True]" "validateSelectionDecision (Some d) = Inr ()"
    "validateMandatorySelection sampleHost (Some d) (Some sampleSelection) (Segment out SegmentHistory) None = (Inr (), None)"
proof -
  have "(case selectOutput sampleHost sampleRound [] (Some sampleSelection) None noEvidence None of
      (Inr (out, d, ev), None) \<Rightarrow> map CdSelected (SdCandidates d) = [True] \<and> validateSelectionDecision (Some d) = Inr () \<and>
        validateMandatorySelection sampleHost (Some d) (Some sampleSelection) (Segment out SegmentHistory) None = (Inr (), None)
    | _ \<Rightarrow> False)"
    by code_simp
  then show thesis
    by (cases "selectOutput sampleHost sampleRound [] (Some sampleSelection) None noEvidence None")
      (auto intro!: that split: sum.splits option.splits)
qed

theorem mandatory_selection_sound_witness:
  "\<exists>d after. d \<noteq> [] \<and> (\<forall>x \<in> set d. unit_ok sampleHost [] after x) \<and> sorted_wrt (unit_before after) (filter CdRequired d)"
proof -
  obtain out d ev where s: "map CdSelected (SdCandidates d) = [True]" "validateSelectionDecision (Some d) = Inr ()"
    "validateMandatorySelection sampleHost (Some d) (Some sampleSelection) (Segment out SegmentHistory) None = (Inr (), None)"
    by (rule sample_unlimited)
  have "SdCandidates d \<noteq> []" using s(1) by auto
  with mandatory_selection_sound [OF s(2,3)] show ?thesis by (auto simp: sampleSelection_def)
qed

definition sampleCandidate :: "string \<Rightarrow> nat \<Rightarrow> string \<Rightarrow> bool \<Rightarrow> ContextCandidate" where
  "sampleCandidate i n t required = (let ref = \<lparr>RefID = i, RefDigest = bytesToHex (take 32 (i @ replicate 32 CHR ''0'')), RefOccurrence = []\<rparr> in
     \<lparr>CcArtifact = None, CcMembers = [ref], CcRef = ref, CcSegment = SegmentHistory, CcMessages = [userText i t], CcRequired = required, CcOrdinal = n\<rparr>)"

definition sampleCandidates :: "ContextCandidate list" where
  "sampleCandidates = [sampleCandidate ''a'' 0 ''first text'' False, sampleCandidate ''b'' 1 ''second text'' False, sampleCandidate ''c'' 2 ''go'' True]"

definition samplePriorities :: "(ContentRef \<times> int) list" where
  "samplePriorities = map (\<lambda>x. (CcRef x, int (CcOrdinal x))) sampleCandidates"

theorem admitSelection_greedy_witness:
  "\<exists>admitted ev. admitSelection sampleHost sampleCandidates samplePriorities True (Some (sampleBudget\<lparr>ObPipe := samplePipeline 12 []\<rparr>)) noEvidence None =
       (Inr (admitted, ev), None) \<and> map RefID admitted = [''a'', ''c''] \<and>
     within_limit sampleHost sampleCandidates admitted (sampleBudget\<lparr>ObPipe := samplePipeline 12 []\<rparr>)"
proof -
  let ?run = "admitSelection sampleHost sampleCandidates samplePriorities True (Some (sampleBudget\<lparr>ObPipe := samplePipeline 12 []\<rparr>)) noEvidence None"
  have "(case ?run of (Inr (admitted, ev), None) \<Rightarrow> map RefID admitted = [''a'', ''c''] | _ \<Rightarrow> False)"
    by code_simp
  then obtain admitted ev where r: "?run = (Inr (admitted, ev), None)" "map RefID admitted = [''a'', ''c'']"
    by (cases ?run) (auto split: sum.splits option.splits)
  have "distinct (map CcRef sampleCandidates)" by code_simp
  from admitSelection_greedy [OF this r(1)] r show ?thesis by auto
qed

theorem validateSelectionPlan_exact_witness:
  "memberRefs sampleHost sampleCandidates = Inr [] \<and>
   (\<exists>prios. validateSelectionPlan sampleHost sampleCandidates [\<lparr>ChRef = CcRef (sampleCandidates ! 2), ChPriority = 3\<rparr>] = Inr prios)"
proof -
  have m: "memberRefs sampleHost sampleCandidates = Inr []" by code_simp
  have "CcRef ` set (filter CcRequired sampleCandidates) \<subseteq> {CcRef (sampleCandidates ! 2)}" by code_simp
  moreover have "CcRef (sampleCandidates ! 2) \<in> CcRef ` set sampleCandidates" by (simp add: sampleCandidates_def)
  ultimately show ?thesis using validateSelectionPlan_exact [OF m, of "[\<lparr>ChRef = CcRef (sampleCandidates ! 2), ChPriority = 3\<rparr>]"] m by simp
qed

end
