(* ===== verification/Decimal.thy ===== *)
theory Decimal
  imports Contexty_Prelude
begin

text \<open>
  Decimal numerals as \<^verbatim>\<open>strconv\<close> writes and reads them: the stores keep revisions as text and build
  object identities from counters.
\<close>

fun dec :: "nat \<Rightarrow> string" where
  "dec n = (if n < 10 then [char_of (48 + n)] else dec (n div 10) @ [char_of (48 + n mod 10)])"

declare dec.simps [simp del]

text \<open>\<^verbatim>\<open>strconv.FormatInt\<close>, which go-redis applies to an integer argument.\<close>

definition FormatInt :: "int \<Rightarrow> string" where
  "FormatInt v = (if v < 0 then CHR ''-'' # dec (nat (- v)) else dec (nat v))"

definition digit_value :: "char \<Rightarrow> nat option" where
  "digit_value ch = (let n = of_char ch in if 48 \<le> n \<and> n \<le> (57 :: nat) then Some (n - 48) else None)"

fun parse_digits :: "nat \<Rightarrow> string \<Rightarrow> nat option" where
  "parse_digits acc [] = Some acc"
| "parse_digits acc (ch # cs) = (case digit_value ch of None \<Rightarrow> None | Some d \<Rightarrow> parse_digits (10 * acc + d) cs)"

text \<open>\<^verbatim>\<open>strconv.ParseInt(s, 10, 64)\<close>\<close>

definition ParseInt :: "string \<Rightarrow> int option" where
  "ParseInt s =
     (let (negative, ds) = (case s of [] \<Rightarrow> (False, []) | ch # cs \<Rightarrow>
        if ch = CHR ''-'' then (True, cs) else if ch = CHR ''+'' then (False, cs) else (False, s))
      in if ds = [] then None
         else case parse_digits 0 ds of None \<Rightarrow> None
            | Some n \<Rightarrow> let v = (if negative then - int n else int n) in if go_int v then Some v else None)"

lemma digit_value_char [simp]: "d < 10 \<Longrightarrow> digit_value (char_of (48 + d)) = Some d"
  by (simp add: digit_value_def Let_def of_char_of)

lemma digit_chars:
  "char_of (48 :: nat) = CHR ''0''" "char_of (49 :: nat) = CHR ''1''" "char_of (50 :: nat) = CHR ''2''"
  "char_of (51 :: nat) = CHR ''3''" "char_of (52 :: nat) = CHR ''4''" "char_of (53 :: nat) = CHR ''5''"
  "char_of (54 :: nat) = CHR ''6''" "char_of (55 :: nat) = CHR ''7''" "char_of (56 :: nat) = CHR ''8''"
  "char_of (57 :: nat) = CHR ''9''"
  by code_simp+

lemma parse_digits_dec: "parse_digits 0 (dec n @ cs) = parse_digits n cs"
proof (induction n arbitrary: cs rule: dec.induct)
  case (1 n)
  then show ?case by (cases "n < 10") (simp_all add: dec.simps [of n])
qed

lemma dec_inject [simp]: "dec m = dec n \<longleftrightarrow> m = n"
proof
  assume "dec m = dec n"
  then have "parse_digits m [] = parse_digits n []" by (metis parse_digits_dec)
  then show "m = n" by simp
qed simp

lemma dec_head: "\<exists>d cs. d < (10 :: nat) \<and> dec n = char_of (48 + d) # cs"
proof (induction n rule: dec.induct)
  case (1 n)
  then show ?case by (cases "n < 10") (auto simp: dec.simps [of n])
qed

lemma digit_not_sign:
  assumes "d < (10 :: nat)"
  shows "char_of (48 + d) \<noteq> CHR ''-''" "char_of (48 + d) \<noteq> CHR ''+''"
proof -
  have "digit_value (CHR ''-'') = None" "digit_value (CHR ''+'') = None" by code_simp+
  then show "char_of (48 + d) \<noteq> CHR ''-''" "char_of (48 + d) \<noteq> CHR ''+''"
    using digit_value_char [OF assms] by (metis option.distinct(1))+
qed

lemma FormatInt_eq_dec: "FormatInt v = dec n \<longleftrightarrow> v = int n"
proof (cases "v < 0")
  case True
  obtain d cs where "d < (10 :: nat)" "dec n = char_of (48 + d) # cs" using dec_head by blast
  then show ?thesis using True digit_not_sign(1) [of d] by (auto simp: FormatInt_def)
qed (auto simp: FormatInt_def)

lemma ParseInt_dec: "int n \<le> MaxInt \<Longrightarrow> ParseInt (dec n) = Some (int n)"
proof -
  assume "int n \<le> MaxInt"
  moreover obtain d cs where d: "d < (10 :: nat)" "dec n = char_of (48 + d) # cs" using dec_head by blast
  ultimately show ?thesis
    using parse_digits_dec [of n "[]"] digit_not_sign [OF d(1)] unfolding ParseInt_def d(2)
    by (simp add: Let_def go_int_def MaxInt_def)
qed

lemma dec_zero: "dec n = ''0'' \<longleftrightarrow> n = 0"
proof -
  have "dec 0 = ''0''" by code_simp
  then show ?thesis by (metis dec_inject)
qed

end
