(* ===== verification/Go_Text.thy ===== *)
theory Go_Text
  imports Decimal Message_Model
begin

text \<open>
  The text functions of the Go standard library that identities depend on: \<^verbatim>\<open>strings.TrimSpace\<close>,
  \<^verbatim>\<open>utf8.ValidString\<close> and the encoding of a string by \<^verbatim>\<open>json.Marshal\<close>, on strings of bytes.
\<close>

abbreviation byte :: "char \<Rightarrow> nat" where
  "byte c \<equiv> of_char c"

subsection \<open>Trimming\<close>

text \<open>The UTF-8 encodings of the runes for which \<^verbatim>\<open>unicode.IsSpace\<close> holds.\<close>

definition spaceRunes :: "string list" where
  "spaceRunes = map (map char_of)
     ([[9], [10], [11], [12], [13], [32], [0xC2, 0x85], [0xC2, 0xA0], [0xE1, 0x9A, 0x80], [0xE2, 0x80, 0xA8], [0xE2, 0x80, 0xA9],
       [0xE2, 0x80, 0xAF], [0xE2, 0x81, 0x9F], [0xE3, 0x80, 0x80]] @ map (\<lambda>k. [0xE2, 0x80, 0x80 + k]) [0..<11 :: nat])"

definition leadingRune :: "string list \<Rightarrow> string \<Rightarrow> nat" where
  "leadingRune runes s = (case filter (\<lambda>r. r \<noteq> [] \<and> take (length r) s = r) runes of [] \<Rightarrow> 0 | r # _ \<Rightarrow> length r)"

function stripRunes :: "string list \<Rightarrow> string \<Rightarrow> string" where
  "stripRunes runes s = (let n = leadingRune runes s in if n = 0 \<or> s = [] then s else stripRunes runes (drop n s))"
  by pat_completeness auto
termination
  by (relation "measure (\<lambda>(_, s). length s)") auto

declare stripRunes.simps [simp del]

definition TrimSpace :: "string \<Rightarrow> string" where
  "TrimSpace s = rev (stripRunes (map rev spaceRunes) (rev (stripRunes spaceRunes s)))"

subsection \<open>Valid UTF-8\<close>

text \<open>For a first byte: the number of continuation bytes and the range of the first of them.\<close>

definition runeInfo :: "nat \<Rightarrow> (nat \<times> nat \<times> nat) option" where
  "runeInfo b =
     (if b < 0x80 then Some (0, 0, 0)
      else if 0xC2 \<le> b \<and> b \<le> 0xDF then Some (1, 0x80, 0xBF)
      else if b = 0xE0 then Some (2, 0xA0, 0xBF)
      else if b = 0xED then Some (2, 0x80, 0x9F)
      else if 0xE1 \<le> b \<and> b \<le> 0xEF then Some (2, 0x80, 0xBF)
      else if b = 0xF0 then Some (3, 0x90, 0xBF)
      else if b = 0xF4 then Some (3, 0x80, 0x8F)
      else if 0xF1 \<le> b \<and> b \<le> 0xF3 then Some (3, 0x80, 0xBF)
      else None)"

function ValidString :: "string \<Rightarrow> bool" where
  "ValidString [] = True"
| "ValidString (c # cs) =
     (case runeInfo (byte c) of
        None \<Rightarrow> False
      | Some (n, lo, hi) \<Rightarrow>
          n \<le> length cs \<and> (n > 0 \<longrightarrow> lo \<le> byte (hd cs) \<and> byte (hd cs) \<le> hi) \<and>
          (\<forall>d \<in> set (take n cs). 0x80 \<le> byte d \<and> byte d \<le> 0xBF) \<and> ValidString (drop n cs))"
  by pat_completeness auto
termination
  by (relation "measure length") auto

subsection \<open>JSON strings\<close>

abbreviation quote :: char where "quote \<equiv> CHR 0x22"
abbreviation backslash :: char where "backslash \<equiv> CHR 0x5C"

text \<open>
  \<^verbatim>\<open>json.Marshal\<close> of valid UTF-8 with its HTML escapes; U+2028 and U+2029 are escaped by their code points.
\<close>

definition escapeByte :: "char \<Rightarrow> string" where
  "escapeByte c =
     (if c = quote \<or> c = backslash then [backslash, c]
      else if byte c = 8 then [backslash, CHR ''b''] else if byte c = 12 then [backslash, CHR ''f'']
      else if byte c = 10 then [backslash, CHR ''n''] else if byte c = 13 then [backslash, CHR ''r'']
      else if byte c = 9 then [backslash, CHR ''t'']
      else if byte c < 32 \<or> c = CHR ''<'' \<or> c = CHR ''>'' \<or> c = CHR ''&''
        then [backslash, CHR ''u'', CHR ''0'', CHR ''0'', hex_digit (byte c div 16), hex_digit (byte c mod 16)]
      else [c])"

fun jsonEscape :: "string \<Rightarrow> string" where
  "jsonEscape [] = []"
| "jsonEscape (c # cs) =
     (if c = CHR 0xE2 \<and> take 2 cs \<in> {[CHR 0x80, CHR 0xA8], [CHR 0x80, CHR 0xA9]}
      then [backslash, CHR ''u'', CHR ''2'', CHR ''0'', CHR ''2'', hex_digit (byte (cs ! 1) mod 16)] @ jsonEscape (drop 2 cs)
      else escapeByte c @ jsonEscape cs)"

definition jsonString :: "string \<Rightarrow> string" where
  "jsonString s = quote # jsonEscape s @ [quote]"

subsection \<open>Reading back\<close>

text \<open>A reader of escaped strings, which shows that the encoding is injective even inside of longer text.\<close>

fun readEscape :: "string \<Rightarrow> (string \<times> string) option" where
  "readEscape (d # ds) =
     (if d = quote \<or> d = backslash then Some ([d], ds)
      else if d = CHR ''b'' then Some ([char_of (8 :: nat)], ds) else if d = CHR ''f'' then Some ([char_of (12 :: nat)], ds)
      else if d = CHR ''n'' then Some ([char_of (10 :: nat)], ds) else if d = CHR ''r'' then Some ([char_of (13 :: nat)], ds)
      else if d = CHR ''t'' then Some ([char_of (9 :: nat)], ds)
      else case ds of
        h1 # h2 # h3 # h4 # rest \<Rightarrow>
          (case (hex_value h3, hex_value h4) of
             (Some a, Some b) \<Rightarrow>
               if h1 = CHR ''0'' then Some ([char_of (16 * a + b)], rest) else Some ([CHR 0xE2, CHR 0x80, char_of (0xA0 + b)], rest)
           | _ \<Rightarrow> None)
      | _ \<Rightarrow> None)"
| "readEscape [] = None"

lemma readEscape_shorter: "readEscape s = Some (x, rest) \<Longrightarrow> length rest < length s"
  by (cases s) (auto split: if_splits list.splits option.splits prod.splits)

function jsonRead :: "string \<Rightarrow> (string \<times> string) option" where
  "jsonRead [] = None"
| "jsonRead (c # cs) =
     (if c = quote then Some ([], cs)
      else if c = backslash then
        (case readEscape cs of None \<Rightarrow> None | Some (x, rest) \<Rightarrow> map_option (\<lambda>(s, r). (x @ s, r)) (jsonRead rest))
      else map_option (\<lambda>(s, r). (c # s, r)) (jsonRead cs))"
  by pat_completeness auto
termination
  by (relation "measure length") (auto dest: readEscape_shorter)

lemma jsonRead_escapeByte: "jsonRead (escapeByte c @ rest) = map_option (\<lambda>(s, r). (c # s, r)) (jsonRead rest)"
proof -
  have h: "hex_value (hex_digit (byte c div 16)) = Some (byte c div 16)" "hex_value (hex_digit (byte c mod 16)) = Some (byte c mod 16)"
    by (simp_all add: hex_value_hex_digit less_mult_imp_div_less)
  have c: "char_of (16 * (byte c div 16) + byte c mod 16) = c" by simp
  have e: "c = char_of n" if "byte c = n" for n :: nat using that by auto
  show ?thesis by (auto simp: escapeByte_def h c dest!: e)
qed

lemma char_of_code: "char_of (168 :: nat) = CHR 0xA8" "char_of (169 :: nat) = CHR 0xA9"
  by code_simp+

lemma jsonRead_jsonEscape: "jsonRead (jsonEscape s @ quote # rest) = Some (s, rest)"
proof (induction s rule: jsonEscape.induct)
  case (2 c cs)
  show ?case
  proof (cases "c = CHR 0xE2 \<and> take 2 cs \<in> {[CHR 0x80, CHR 0xA8], [CHR 0x80, CHR 0xA9]}")
    case True
    then obtain d ds where cs: "cs = CHR 0x80 # d # ds" "d = CHR 0xA8 \<or> d = CHR 0xA9"
      by (cases cs; cases "tl cs") auto
    have "hex_value (hex_digit (byte d mod 16)) = Some (byte d mod 16)" by (simp add: hex_value_hex_digit)
    moreover have "char_of (0xA0 + byte d mod 16) = d" using cs(2) by (auto simp: char_of_code)
    ultimately show ?thesis using 2(1) [OF True] True cs(1) by (simp add: hex_value_def)
  next
    case False
    then have "jsonEscape (c # cs) = escapeByte c @ jsonEscape cs" by (simp only: jsonEscape.simps if_not_P not_False_eq_True if_False)
    with 2(2) [OF False] show ?thesis by (simp add: jsonRead_escapeByte del: jsonEscape.simps)
  qed
qed simp

lemma jsonString_inject: "jsonString s @ x = jsonString t @ y \<Longrightarrow> s = t \<and> x = y"
proof -
  assume "jsonString s @ x = jsonString t @ y"
  then have "jsonRead (jsonEscape s @ quote # x) = jsonRead (jsonEscape t @ quote # y)" by (simp add: jsonString_def)
  then show ?thesis by (simp add: jsonRead_jsonEscape)
qed

end
