(* ===== verification/Compile_Request.thy ===== *)
theory Compile_Request
  imports Selection Lineage Go_Text Samples
begin

text \<open>
  Compile requests: the current turn (current_turn.go), identity policies (identity_policy.go), and the normalization of a
  request that gives every message an identity, its validation and the snapshots derived from it (transform_record.go); the merge of
  a request with stored state (compile.go). The options and the declared resources of a request are carried through unchanged and
  are not represented.
\<close>

abbreviation ErrMissingIdentityPolicy :: go_error where
  "ErrMissingIdentityPolicy \<equiv> Sentinel ''ErrMissingIdentityPolicy''"
abbreviation ErrCurrentTurnIDMismatch :: go_error where
  "ErrCurrentTurnIDMismatch \<equiv> Sentinel ''ErrCurrentTurnIDMismatch''"
abbreviation ErrDuplicateCompileTarget :: go_error where
  "ErrDuplicateCompileTarget \<equiv> Sentinel ''ErrDuplicateCompileTarget''"
abbreviation ErrUnknownCompileTargetView :: go_error where
  "ErrUnknownCompileTargetView \<equiv> Sentinel ''ErrUnknownCompileTargetView''"
abbreviation ErrConflictingCompileTargetFields :: go_error where
  "ErrConflictingCompileTargetFields \<equiv> Sentinel ''ErrConflictingCompileTargetFields''"
abbreviation ErrInvalidCompileTargetSegment :: go_error where
  "ErrInvalidCompileTargetSegment \<equiv> Sentinel ''ErrInvalidCompileTargetSegment''"
abbreviation ErrInvalidManifest :: go_error where
  "ErrInvalidManifest \<equiv> Sentinel ''ErrInvalidManifest''"

subsection \<open>Identities\<close>

record MessageIdentityContext =
  IcPending :: bool
  IcOrdinal :: int
  IcSegment :: string
  IcIndex :: int
  IcTurnID :: string
  IcTargetName :: string
  IcCurrentTurn :: bool
  IcPromptProjection :: bool

text \<open>A policy that is not nil as an interface may still be a nil pointer.\<close>

datatype MessageIdentityPolicy = NilPolicy | IdentityFunc "MessageIdentityContext \<Rightarrow> Message \<Rightarrow> string result"

definition ResolveMessageID :: "MessageIdentityPolicy \<Rightarrow> MessageIdentityContext \<Rightarrow> Message \<Rightarrow> string result" where
  "ResolveMessageID p ic m = (case p of NilPolicy \<Rightarrow> Inl ErrMissingIdentityPolicy | IdentityFunc f \<Rightarrow> f ic m)"

text \<open>The array that \<^verbatim>\<open>json.Marshal\<close> yields for prefix, turn, kind and ordinal.\<close>

definition eventKey :: "string \<Rightarrow> string \<Rightarrow> string \<Rightarrow> int \<Rightarrow> string" where
  "eventKey p turnID kind ordinal =
     ''['' @ jsonString p @ '','' @ jsonString turnID @ '','' @ jsonString kind @ '','' @ FormatInt ordinal @ '']''"

text \<open>\<open>sha\<close> is the hexadecimal SHA-256.\<close>

definition StableMessageIdentityPolicy_Resolve :: "(string \<Rightarrow> string) \<Rightarrow> string \<Rightarrow> MessageIdentityContext \<Rightarrow> string result" where
  "StableMessageIdentityPolicy_Resolve sha pre ic =
     (if IcTurnID ic = [] \<or> IcOrdinal ic < 0 \<or> (\<not> IcCurrentTurn ic \<and> \<not> IcPending ic) \<or> \<not> ValidString (IcTurnID ic) \<or> \<not> ValidString pre
        then Inl ErrMissingEventIdentity
      else let kind = (if IcCurrentTurn ic then ''current_turn'' else ''pending_event'');
               p = (if TrimSpace pre = [] then ''msg'' else TrimSpace pre)
           in Inr (''event:'' @ sha (eventKey p (IcTurnID ic) kind (IcOrdinal ic))))"

definition NewStableMessageIdentityPolicy :: "(string \<Rightarrow> string) \<Rightarrow> string \<Rightarrow> MessageIdentityPolicy" where
  "NewStableMessageIdentityPolicy sha pre = IdentityFunc (\<lambda>ic _. StableMessageIdentityPolicy_Resolve sha pre ic)"

record MessageIdentityWriteback =
  WbSegment :: string
  WbIndex :: int
  WbID :: string
  WbBefore :: Message
  WbAfter :: Message
  WbCurrentTurn :: bool

text \<open>
  What a request needs from its host: content validation, and the random identity that \<^verbatim>\<open>newMessageID\<close> draws for the message at a
  position; no two draws of one request are at the same position.
\<close>

record IdentityHost =
  IhEnv :: env
  IhFresh :: "MessageIdentityContext \<Rightarrow> Message \<Rightarrow> string"

definition normalizeMessageForCompile ::
  "IdentityHost \<Rightarrow> Message \<Rightarrow> MessageIdentityContext \<Rightarrow> MessageIdentityPolicy option \<Rightarrow> bool \<Rightarrow>
   (Message \<times> MessageIdentityWriteback option) result" where
  "normalizeMessageForCompile I m ic policy requireDurable =
     bind_res (ownCompileMessage (IhEnv I) m) (\<lambda>owned.
     if MsgID m \<noteq> [] then Inr (owned, None)
     else bind_res (case policy of
            Some NilPolicy \<Rightarrow> Inl ErrMissingIdentityPolicy
          | None \<Rightarrow> if requireDurable then Inl ErrMissingIdentityPolicy else Inr (EnsureMessageID (IhFresh I ic) owned)
          | Some p \<Rightarrow> bind_res (ResolveMessageID p ic (Message_Clone m)) (\<lambda>i.
              if i = [] then Inl ErrMissingIdentityPolicy else Inr (owned\<lparr>MsgID := i\<rparr>))) (\<lambda>normalized.
          Inr (normalized, Some \<lparr>WbSegment = IcSegment ic, WbIndex = IcIndex ic, WbID = MsgID normalized,
            WbBefore = Message_Clone m, WbAfter = Message_Clone normalized, WbCurrentTurn = IcCurrentTurn ic\<rparr>)))"

definition positionContext :: "string \<Rightarrow> nat \<Rightarrow> string \<Rightarrow> bool \<Rightarrow> nat \<Rightarrow> MessageIdentityContext" where
  "positionContext seg offset turnID pending i =
     \<lparr>IcPending = pending, IcOrdinal = int i, IcSegment = seg, IcIndex = int (offset + i), IcTurnID = turnID, IcTargetName = [],
      IcCurrentTurn = False, IcPromptProjection = False\<rparr>"

fun normalizeMessages_from ::
  "IdentityHost \<Rightarrow> string \<Rightarrow> nat \<Rightarrow> string \<Rightarrow> MessageIdentityPolicy option \<Rightarrow> bool \<Rightarrow> bool \<Rightarrow> nat \<Rightarrow> Message list \<Rightarrow>
   (Message list \<times> MessageIdentityWriteback list) result" where
  "normalizeMessages_from I seg offset turnID policy requireDurable pending i [] = Inr ([], [])"
| "normalizeMessages_from I seg offset turnID policy requireDurable pending i (m # ms) =
     bind_res (normalizeMessageForCompile I m (positionContext seg offset turnID pending i) policy requireDurable) (\<lambda>(normalized, wb).
     bind_res (normalizeMessages_from I seg offset turnID policy requireDurable pending (Suc i) ms) (\<lambda>(rest, wbs).
     Inr (normalized # rest, (case wb of None \<Rightarrow> [] | Some w \<Rightarrow> [w]) @ wbs)))"

definition normalizeMessagesForCompile ::
  "IdentityHost \<Rightarrow> Message slice \<Rightarrow> string \<Rightarrow> nat \<Rightarrow> string \<Rightarrow> MessageIdentityPolicy option \<Rightarrow> bool \<Rightarrow> bool \<Rightarrow>
   MessageIdentityWriteback list \<Rightarrow> (Message slice \<times> MessageIdentityWriteback list) result" where
  "normalizeMessagesForCompile I msgs seg offset turnID policy requireDurable pending wbs =
     (case msgs of
        None \<Rightarrow> Inr (None, wbs)
      | Some ms \<Rightarrow>
          bind_res (normalizeMessages_from I seg offset turnID policy requireDurable pending 0 ms) (\<lambda>(out, new). Inr (Some out, wbs @ new)))"

subsection \<open>The current turn\<close>

datatype CurrentTurnPersistencePolicy =
  TurnPersistUnset | TurnPersistRaw | TurnPersistPromptSafe | TurnPersistNone | TurnPersistOther string

record CurrentTurn =
  TurnRaw :: Message
  TurnPromptSafe :: Message
  TurnPersistence :: CurrentTurnPersistencePolicy

definition zeroMessage :: Message where
  "zeroMessage = \<lparr>MsgID = [], MsgRole = RoleUnknown [], MsgActor = None, MsgParts = [], MsgTimestamp = None, MsgSourceRefs = None,
     MsgExtensions = [], MsgOrigin = None, MsgLLMCache = None, MsgProvenance = ProvNil\<rparr>"

definition NewCurrentTurn :: "Message \<Rightarrow> CurrentTurn" where
  "NewCurrentTurn raw = \<lparr>TurnRaw = raw, TurnPromptSafe = zeroMessage, TurnPersistence = TurnPersistRaw\<rparr>"

definition WithPromptSafe :: "CurrentTurn \<Rightarrow> Message \<Rightarrow> CurrentTurn" where
  "WithPromptSafe t m = t\<lparr>TurnPromptSafe := m\<rparr>"

definition CurrentTurn_clone :: "CurrentTurn \<Rightarrow> CurrentTurn" where
  "CurrentTurn_clone t = t\<lparr>TurnRaw := Message_Clone (TurnRaw t), TurnPromptSafe := Message_Clone (TurnPromptSafe t)\<rparr>"

definition messageHasContent :: "Message \<Rightarrow> bool" where
  "messageHasContent m \<longleftrightarrow> MsgID m \<noteq> [] \<or> MsgRole m \<noteq> RoleUnknown [] \<or> MsgParts m \<noteq> [] \<or> MsgActor m \<noteq> None \<or> MsgTimestamp m \<noteq> None \<or>
     elems (MsgSourceRefs m) \<noteq> [] \<or> MsgExtensions m \<noteq> [] \<or> MsgOrigin m \<noteq> None \<or> MsgLLMCache m \<noteq> None \<or> MsgProvenance m \<noteq> ProvNil"

definition hasRaw :: "CurrentTurn \<Rightarrow> bool" where
  "hasRaw t = messageHasContent (TurnRaw t)"

definition hasPromptSafe :: "CurrentTurn \<Rightarrow> bool" where
  "hasPromptSafe t = messageHasContent (TurnPromptSafe t)"

definition promptMessage :: "CurrentTurn \<Rightarrow> Message option" where
  "promptMessage t = (if \<not> hasRaw t then None else if hasPromptSafe t then Some (Message_Clone (TurnPromptSafe t)) else Some (Message_Clone (TurnRaw t)))"

definition persistedMessage :: "CurrentTurn \<Rightarrow> Message option" where
  "persistedMessage t =
     (if \<not> hasRaw t then None
      else case TurnPersistence t of
        TurnPersistNone \<Rightarrow> None
      | TurnPersistPromptSafe \<Rightarrow> promptMessage t
      | TurnPersistRaw \<Rightarrow> Some (Message_Clone (TurnRaw t))
      | TurnPersistUnset \<Rightarrow> Some (Message_Clone (TurnRaw t))
      | TurnPersistOther _ \<Rightarrow> None)"

definition CurrentTurn_validate :: "CurrentTurn \<Rightarrow> unit result" where
  "CurrentTurn_validate t =
     (if \<not> hasRaw t \<and> hasPromptSafe t then Inl ErrInvalidCurrentTurn
      else case TurnPersistence t of
        TurnPersistOther _ \<Rightarrow> Inl ErrInvalidCurrentTurnPersistencePolicy
      | p \<Rightarrow> if \<not> hasRaw t \<and> p \<noteq> TurnPersistUnset then Inl ErrInvalidCurrentTurn else Inr ())"

definition normalizePromptSafe :: "IdentityHost \<Rightarrow> Message \<Rightarrow> Message \<Rightarrow> Message result" where
  "normalizePromptSafe I raw m =
     bind_res (validateContentParts (IhEnv I) (MsgParts m)) (\<lambda>_.
     if MsgProvenance m \<noteq> ProvNil \<and> nilProvenance (MsgProvenance m) then Inl ErrInvalidProvenance
     else let prompt = Message_Clone m in
       bind_res (validateProvenanceClone (MsgProvenance m) (MsgProvenance prompt)) (\<lambda>_.
       if MsgID prompt \<noteq> [] \<and> MsgID raw \<noteq> [] \<and> MsgID prompt \<noteq> MsgID raw then Inl ErrCurrentTurnIDMismatch
       else Inr (prompt\<lparr>MsgID := MsgID raw\<rparr>)))"

definition turnContext :: "string \<Rightarrow> nat \<Rightarrow> MessageIdentityContext" where
  "turnContext turnID index =
     \<lparr>IcPending = False, IcOrdinal = 0, IcSegment = SegmentHistory, IcIndex = int index, IcTurnID = turnID, IcTargetName = [],
      IcCurrentTurn = True, IcPromptProjection = False\<rparr>"

definition normalizeCurrentTurnForCompile ::
  "IdentityHost \<Rightarrow> CurrentTurn option \<Rightarrow> string \<Rightarrow> nat \<Rightarrow> MessageIdentityPolicy option \<Rightarrow> bool \<Rightarrow> MessageIdentityWriteback list \<Rightarrow>
   (CurrentTurn option \<times> MessageIdentityWriteback list) result" where
  "normalizeCurrentTurnForCompile I turn turnID index policy requireDurable wbs =
     (case turn of
        None \<Rightarrow> Inr (None, wbs)
      | Some t \<Rightarrow>
          bind_res (CurrentTurn_validate t) (\<lambda>_.
          if \<not> hasRaw t then Inr (None, wbs)
          else bind_res (normalizeMessageForCompile I (TurnRaw t) (turnContext turnID index) policy requireDurable) (\<lambda>(raw, wb).
            let wbs' = wbs @ (case wb of None \<Rightarrow> [] | Some w \<Rightarrow> [w]) in
            if hasPromptSafe t
            then bind_res (normalizePromptSafe I raw (TurnPromptSafe t)) (\<lambda>prompt.
              Inr (Some \<lparr>TurnRaw = raw, TurnPromptSafe = prompt, TurnPersistence = TurnPersistence t\<rparr>, wbs'))
            else Inr (Some \<lparr>TurnRaw = raw, TurnPromptSafe = zeroMessage, TurnPersistence = TurnPersistence t\<rparr>, wbs'))))"

subsection \<open>Requests\<close>

record CompileTarget =
  TgName :: string
  TgView :: string
  TgSegments :: "string list"
  TgArtifactRefs :: "ContentRef list"
  TgIncludeCurrentTurn :: bool
  TgIncludeArtifacts :: bool
  TgSelection :: "SelectionPolicy option"
  TgBudget :: "OutputBudget option"
  TgFormatter :: "(Message list \<Rightarrow> Message list comp) option"

definition builtinViews :: "string list" where
  "builtinViews = [''llm_xml'', ''flat_classifier'']"

fun validateTargetSegments :: "string list \<Rightarrow> string list \<Rightarrow> unit result" where
  "validateTargetSegments seen [] = Inr ()"
| "validateTargetSegments seen (seg # segs) =
     (if \<not> isKnownSegment seg \<or> seg \<in> set seen then Inl ErrInvalidCompileTargetSegment else validateTargetSegments (seg # seen) segs)"

definition validateCompileTarget :: "CompileTarget \<Rightarrow> unit result" where
  "validateCompileTarget t =
     (if TgView t \<noteq> [] \<and> TgView t \<notin> set builtinViews then Inl ErrUnknownCompileTargetView
      else if TgView t \<noteq> [] \<and> (TgSegments t \<noteq> [] \<or> TgArtifactRefs t \<noteq> [] \<or> TgIncludeCurrentTurn t \<or> TgIncludeArtifacts t \<or>
                \<not> Option.is_none (TgSelection t) \<or> \<not> Option.is_none (TgBudget t) \<or> \<not> Option.is_none (TgFormatter t))
        then Inl ErrConflictingCompileTargetFields
      else bind_res (validateTargetSegments [] (TgSegments t)) (\<lambda>_.
        case TgSelection t of None \<Rightarrow> Inr () | Some p \<Rightarrow> SelectionPolicy_validate p))"

fun validateTargets_from :: "string list \<Rightarrow> CompileTarget list \<Rightarrow> unit result" where
  "validateTargets_from seen [] = Inr ()"
| "validateTargets_from seen (t # ts) =
     (let name = TrimSpace (TgName t) in
      if name = [] then Inl (Errorf ''contexty: compile target name is empty'')
      else if name \<in> set seen then Inl ErrDuplicateCompileTarget
      else bind_res (validateCompileTarget t) (\<lambda>_. validateTargets_from (name # seen) ts))"

definition validateCompileTargets :: "CompileTarget list \<Rightarrow> unit result" where
  "validateCompileTargets ts = validateTargets_from [] ts"

record CompileRequest =
  CrTurnID :: string
  CrSystem :: "Message slice"
  CrHistory :: "Message slice"
  CrMemory :: "Message slice"
  CrTools :: "Message slice"
  CrPending :: "Message slice"
  CrCurrentTurn :: "CurrentTurn option"
  CrArtifacts :: "ContextArtifact list"
  CrIdentityPolicy :: "MessageIdentityPolicy option"
  CrRequireDurableIdentity :: bool
  CrTargets :: "CompileTarget list"
  CrCompilationID :: string
  CrLineage :: Lineage
  CrOrigins :: "ContentRef list"
  CrSourceRevision :: int
  CrPreviousRecord :: "ContentRef option"

definition AllMessages :: "CompileRequest \<Rightarrow> Message list" where
  "AllMessages r = elems (CrSystem r) @ elems (CrHistory r) @ elems (CrMemory r) @ elems (CrTools r) @ elems (CrPending r) @
     (case CrCurrentTurn r of None \<Rightarrow> [] | Some t \<Rightarrow> if hasRaw t then [TurnRaw t] else [])"

definition normalizeCompileRequest :: "IdentityHost \<Rightarrow> CompileRequest \<Rightarrow> (CompileRequest \<times> MessageIdentityWriteback list) result" where
  "normalizeCompileRequest I r =
     (let turnID = CrTurnID r; policy = CrIdentityPolicy r; durable = CrRequireDurableIdentity r;
          norm = (\<lambda>msgs seg offset. normalizeMessagesForCompile I msgs seg offset turnID policy durable) in
      bind_res (norm (CrSystem r) SegmentSystem 0 False []) (\<lambda>(system, w1).
      bind_res (norm (CrHistory r) SegmentHistory 0 False w1) (\<lambda>(history, w2).
      bind_res (norm (CrMemory r) SegmentMemory 0 False w2) (\<lambda>(memory, w3).
      bind_res (norm (CrTools r) SegmentTools 0 False w3) (\<lambda>(tools, w4).
      bind_res (norm (CrPending r) SegmentHistory (length (elems history)) True w4) (\<lambda>(pending, w5).
      bind_res (normalizeCurrentTurnForCompile I (CrCurrentTurn r) turnID (length (elems history) + length (elems pending)) policy durable w5)
        (\<lambda>(turn, w6).
      Inr (r\<lparr>CrSystem := system, CrHistory := history, CrMemory := memory, CrTools := tools, CrPending := pending,
             CrCurrentTurn := turn, CrArtifacts := mergeArtifacts (CrArtifacts r),
             CrTargets := map (\<lambda>t. t\<lparr>TgName := TrimSpace (TgName t)\<rparr>) (CrTargets r)\<rparr>, w6))))))))"

definition cloneCompileInputMessages :: "Message slice \<Rightarrow> Message slice" where
  "cloneCompileInputMessages ms = map_option cloneMessageSlice ms"

definition Freeze :: "CompileRequest \<Rightarrow> CompileRequest" where
  "Freeze r = r\<lparr>CrSystem := cloneCompileInputMessages (CrSystem r), CrHistory := cloneCompileInputMessages (CrHistory r),
     CrMemory := cloneCompileInputMessages (CrMemory r), CrTools := cloneCompileInputMessages (CrTools r),
     CrPending := cloneCompileInputMessages (CrPending r), CrCurrentTurn := map_option CurrentTurn_clone (CrCurrentTurn r),
     CrArtifacts := mergeArtifacts (CrArtifacts r)\<rparr>"

fun validateArtifactIDs_from :: "string list \<Rightarrow> ContextArtifact list \<Rightarrow> unit result" where
  "validateArtifactIDs_from seen [] = Inr ()"
| "validateArtifactIDs_from seen (a # as) =
     (if ArtID a = [] then validateArtifactIDs_from seen as
      else if ArtID a \<in> set seen then Inl ErrDuplicateMessageID
      else validateArtifactIDs_from (ArtID a # seen) as)"

definition validateUniqueArtifactIDs :: "ContextArtifact list \<Rightarrow> unit result" where
  "validateUniqueArtifactIDs as = validateArtifactIDs_from [] as"

definition CompileRequest_Validate :: "CompileRequest \<Rightarrow> unit result" where
  "CompileRequest_Validate r =
     bind_res (validateMessageRoles (AllMessages r)) (\<lambda>_.
     if CrSourceRevision r < 0 then Inl ErrInvalidManifest
     else bind_res (case CrPreviousRecord r of None \<Rightarrow> Inr () | Some ref \<Rightarrow> ContentRef_Validate ref) (\<lambda>_.
     bind_res (case CrCurrentTurn r of None \<Rightarrow> Inr () | Some t \<Rightarrow> CurrentTurn_validate t) (\<lambda>_.
     bind_res (validateUniqueMessageIDs (AllMessages r)) (\<lambda>_.
     bind_res (validateUniqueArtifactIDs (CrArtifacts r)) (\<lambda>_. validateCompileTargets (CrTargets r))))))"

definition RequestFromSnapshot :: "ConversationState \<Rightarrow> CompileRequest" where
  "RequestFromSnapshot snap =
     (let seg = (\<lambda>name. if Segment snap name = [] then None else Some (Segment snap name)) in
     \<lparr>CrTurnID = [], CrSystem = seg SegmentSystem, CrHistory = seg SegmentHistory, CrMemory = seg SegmentMemory, CrTools = seg SegmentTools,
      CrPending = None, CrCurrentTurn = None, CrArtifacts = Artifacts snap, CrIdentityPolicy = None, CrRequireDurableIdentity = False,
      CrTargets = [], CrCompilationID = [], CrLineage = \<lparr>Records = [], Unresolved = []\<rparr>, CrOrigins = [], CrSourceRevision = Version snap,
      CrPreviousRecord = None\<rparr>)"

definition withNonempty :: "string \<Rightarrow> Message slice \<Rightarrow> ConversationState \<Rightarrow> ConversationState" where
  "withNonempty seg ms snap = (if elems ms = [] then snap else WithSegment snap seg (cloneMessageSlice (elems ms)))"

definition ToSnapshot :: "CompileRequest \<Rightarrow> ConversationState" where
  "ToSnapshot r =
     (let snap = withNonempty SegmentTools (CrTools r) (withNonempty SegmentMemory (CrMemory r)
        (withNonempty SegmentHistory (CrHistory r) (withNonempty SegmentSystem (CrSystem r) (WithVersion EmptyState (CrSourceRevision r)))))
      in if CrArtifacts r = [] then snap else WithArtifacts snap (CrArtifacts r))"

definition WritebackSnapshot :: "CompileRequest \<Rightarrow> ConversationState" where
  "WritebackSnapshot r =
     (let snap = ToSnapshot r;
          snap' = (case Option.bind (CrCurrentTurn r) persistedMessage of
             None \<Rightarrow> snap
           | Some m \<Rightarrow> WithSegment snap SegmentHistory (Segment snap SegmentHistory @ [m]))
      in WithArtifacts snap' (persistentArtifacts (CrArtifacts r)))"

definition mergeCompileRequest :: "ConversationState \<Rightarrow> CompileRequest \<Rightarrow> CompileRequest" where
  "mergeCompileRequest snap r =
     (let pick = (\<lambda>ms name. if Option.is_none ms then (if Segment snap name = [] then None else Some (Segment snap name)) else ms) in
     r\<lparr>CrSystem := pick (CrSystem r) SegmentSystem, CrHistory := pick (CrHistory r) SegmentHistory, CrMemory := pick (CrMemory r) SegmentMemory,
       CrArtifacts := Artifacts snap @ map ContextArtifact_Clone (CrArtifacts r)\<rparr>)"

definition compilePendingMessages :: "CompileRequest \<Rightarrow> Message list" where
  "compilePendingMessages r = cloneMessageSlice (elems (CrPending r)) @ (case Option.bind (CrCurrentTurn r) promptMessage of None \<Rightarrow> [] | Some m \<Rightarrow> [m])"

subsection \<open>Normalization assigns identities\<close>

definition fresh_wf :: "IdentityHost \<Rightarrow> bool" where
  "fresh_wf I \<longleftrightarrow> (\<forall>ic m. IhFresh I ic m \<noteq> [])"

text \<open>\<open>named m m'\<close>: a copy of the message with an identity, its own if it has one.\<close>

definition named :: "Message \<Rightarrow> Message \<Rightarrow> bool" where
  "named m m' \<longleftrightarrow> (\<exists>i. i \<noteq> [] \<and> m' = (Message_Clone m)\<lparr>MsgID := i\<rparr> \<and> (MsgID m \<noteq> [] \<longrightarrow> i = MsgID m))"

abbreviation wbKey :: "MessageIdentityWriteback \<Rightarrow> string \<times> int \<times> string \<times> bool" where
  "wbKey w \<equiv> (WbSegment w, WbIndex w, WbID w, WbCurrentTurn w)"

text \<open>The identities that were assigned to the messages of a segment, with their positions.\<close>

fun assigned :: "string \<Rightarrow> nat \<Rightarrow> Message list \<Rightarrow> Message list \<Rightarrow> (string \<times> int \<times> string \<times> bool) list" where
  "assigned seg n (m # ms) (m' # ms') = (if MsgID m = [] then [(seg, int n, MsgID m', False)] else []) @ assigned seg (Suc n) ms ms'"
| "assigned seg n _ _ = []"

lemma Message_Clone_ID: "(Message_Clone m)\<lparr>MsgID := MsgID m\<rparr> = Message_Clone m"
  by (simp add: Message_Clone_def)

lemma normalizeMessage_named:
  assumes "normalizeMessageForCompile I m ic policy durable = Inr (m', wb)" "fresh_wf I"
  shows "named m m' \<and> (case wb of None \<Rightarrow> MsgID m \<noteq> [] | Some w \<Rightarrow> MsgID m = [] \<and> wbKey w = (IcSegment ic, IcIndex ic, MsgID m', IcCurrentTurn ic))"
proof -
  from assms(1) obtain owned where o: "ownCompileMessage (IhEnv I) m = Inr owned" by (auto simp: normalizeMessageForCompile_def bind_res_Inr_iff)
  then have c: "owned = Message_Clone m" by (rule ownCompileMessage_Clone)
  show ?thesis
  proof (cases "MsgID m = []")
    case False
    then have "m' = Message_Clone m" "wb = None" using assms(1) o c by (auto simp: normalizeMessageForCompile_def)
    then show ?thesis using False Message_Clone_ID [of m] by (auto simp: named_def)
  next
    case True
    then obtain w where w: "wb = Some w" "wbKey w = (IcSegment ic, IcIndex ic, MsgID m', IcCurrentTurn ic)"
      using assms(1) o by (auto simp: normalizeMessageForCompile_def bind_res_Inr_iff)
    have "\<exists>i. i \<noteq> [] \<and> m' = (Message_Clone m)\<lparr>MsgID := i\<rparr>"
      using assms o c True
      by (auto simp: normalizeMessageForCompile_def bind_res_Inr_iff EnsureMessageID_def fresh_wf_def
          split: option.splits MessageIdentityPolicy.splits if_splits)
    then show ?thesis using True w by (auto simp: named_def)
  qed
qed

lemma normalizeMessages_from_named:
  assumes "normalizeMessages_from I seg offset turnID policy durable pending i ms = Inr (out, wbs)" "fresh_wf I"
  shows "list_all2 named ms out \<and> map wbKey wbs = assigned seg (offset + i) ms out"
  using assms(1)
proof (induction ms arbitrary: i out wbs)
  case (Cons m ms)
  then obtain m' wb rest wbs' where m: "normalizeMessageForCompile I m (positionContext seg offset turnID pending i) policy durable = Inr (m', wb)"
    and r: "normalizeMessages_from I seg offset turnID policy durable pending (Suc i) ms = Inr (rest, wbs')"
    and out: "out = m' # rest" "wbs = (case wb of None \<Rightarrow> [] | Some w \<Rightarrow> [w]) @ wbs'"
    by (auto simp: bind_res_Inr_iff)
  from Cons.IH [OF r] normalizeMessage_named [OF m assms(2)] show ?case
    by (auto simp: out positionContext_def split: option.splits)
qed simp

lemma normalizeMessagesForCompile_named:
  assumes "normalizeMessagesForCompile I msgs seg offset turnID policy durable pending wbs = Inr (out, wbs')" "fresh_wf I"
  shows "list_all2 named (elems msgs) (elems out) \<and> map wbKey wbs' = map wbKey wbs @ assigned seg offset (elems msgs) (elems out) \<and>
     (out = None) = (msgs = None)"
proof (cases msgs)
  case (Some ms)
  with assms(1) obtain ms' new where "normalizeMessages_from I seg offset turnID policy durable pending 0 ms = Inr (ms', new)"
    "out = Some ms'" "wbs' = wbs @ new" by (auto simp: normalizeMessagesForCompile_def bind_res_Inr_iff)
  with normalizeMessages_from_named [OF this(1) assms(2)] Some show ?thesis by simp
qed (use assms(1) in \<open>simp add: normalizeMessagesForCompile_def\<close>)

text \<open>The current turn that a request brings, as a list of at most one message.\<close>

definition turnRaw :: "CompileRequest \<Rightarrow> Message list" where
  "turnRaw r = (case CrCurrentTurn r of None \<Rightarrow> [] | Some t \<Rightarrow> if hasRaw t then [TurnRaw t] else [])"

lemma named_has_content: "named m m' \<Longrightarrow> messageHasContent m'"
  by (auto simp: named_def messageHasContent_def)

lemma normalizeCurrentTurn_Inr:
  assumes "normalizeCurrentTurnForCompile I (Some t) turnID index policy durable wbs = Inr (turn, wbs')" "hasRaw t"
  obtains raw wb prompt where "normalizeMessageForCompile I (TurnRaw t) (turnContext turnID index) policy durable = Inr (raw, wb)"
    "turn = Some \<lparr>TurnRaw = raw, TurnPromptSafe = prompt, TurnPersistence = TurnPersistence t\<rparr>"
    "wbs' = wbs @ (case wb of None \<Rightarrow> [] | Some w \<Rightarrow> [w])" "prompt = zeroMessage \<or> MsgID prompt = MsgID raw"
proof -
  from assms obtain raw wb where n: "normalizeMessageForCompile I (TurnRaw t) (turnContext turnID index) policy durable = Inr (raw, wb)"
    and rest: "(if hasPromptSafe t
            then bind_res (normalizePromptSafe I raw (TurnPromptSafe t)) (\<lambda>prompt.
              Inr (Some \<lparr>TurnRaw = raw, TurnPromptSafe = prompt, TurnPersistence = TurnPersistence t\<rparr>, wbs @ (case wb of None \<Rightarrow> [] | Some w \<Rightarrow> [w])))
            else Inr (Some \<lparr>TurnRaw = raw, TurnPromptSafe = zeroMessage, TurnPersistence = TurnPersistence t\<rparr>, wbs @ (case wb of None \<Rightarrow> [] | Some w \<Rightarrow> [w]))) =
          Inr (turn, wbs')"
    by (auto simp: normalizeCurrentTurnForCompile_def bind_res_Inr_iff Let_def)
  show thesis
  proof (cases "hasPromptSafe t")
    case True
    with rest obtain prompt where p: "normalizePromptSafe I raw (TurnPromptSafe t) = Inr prompt"
      "turn = Some \<lparr>TurnRaw = raw, TurnPromptSafe = prompt, TurnPersistence = TurnPersistence t\<rparr>"
      "wbs' = wbs @ (case wb of None \<Rightarrow> [] | Some w \<Rightarrow> [w])"
      by (auto simp: bind_res_Inr_iff)
    from p(1) have "MsgID prompt = MsgID raw" by (auto simp: normalizePromptSafe_def bind_res_Inr_iff Let_def split: if_splits)
    with that n p(2,3) show thesis by blast
  qed (use rest n that in auto)
qed

lemma not_hasPromptSafe_zero: "\<not> messageHasContent zeroMessage"
  by (simp add: messageHasContent_def zeroMessage_def)

lemma normalizeCurrentTurn_named:
  assumes "normalizeCurrentTurnForCompile I (CrCurrentTurn r) turnID index policy durable wbs = Inr (turn, wbs')" "fresh_wf I"
  shows "list_all2 named (turnRaw r) (turnRaw (r'\<lparr>CrCurrentTurn := turn\<rparr>)) \<and>
     map wbKey wbs' = map wbKey wbs @ map (\<lambda>(seg, n, i, _). (seg, n, i, True)) (assigned SegmentHistory index (turnRaw r) (turnRaw (r'\<lparr>CrCurrentTurn := turn\<rparr>))) \<and>
     (\<forall>t. turn = Some t \<longrightarrow> hasRaw t \<and> (hasPromptSafe t \<longrightarrow> MsgID (TurnPromptSafe t) = MsgID (TurnRaw t)))"
proof (cases "CrCurrentTurn r")
  case None
  then show ?thesis using assms(1) by (simp add: normalizeCurrentTurnForCompile_def turnRaw_def)
next
  case (Some t)
  show ?thesis
  proof (cases "hasRaw t")
    case False
    then show ?thesis using assms(1) Some by (auto simp: normalizeCurrentTurnForCompile_def turnRaw_def bind_res_Inr_iff)
  next
    case True
    obtain raw wb prompt where n: "normalizeMessageForCompile I (TurnRaw t) (turnContext turnID index) policy durable = Inr (raw, wb)"
      and t': "turn = Some \<lparr>TurnRaw = raw, TurnPromptSafe = prompt, TurnPersistence = TurnPersistence t\<rparr>"
        "wbs' = wbs @ (case wb of None \<Rightarrow> [] | Some w \<Rightarrow> [w])" "prompt = zeroMessage \<or> MsgID prompt = MsgID raw"
      using assms(1) [unfolded Some] True by (rule normalizeCurrentTurn_Inr)
    note m = normalizeMessage_named [OF n assms(2)]
    have "hasRaw (the turn)" using m named_has_content by (auto simp: hasRaw_def t'(1))
    moreover have "hasPromptSafe (the turn) \<longrightarrow> MsgID prompt = MsgID raw" using t'(3) not_hasPromptSafe_zero by (auto simp: hasPromptSafe_def t'(1))
    moreover have "turnRaw r = [TurnRaw t]" "turnRaw (r'\<lparr>CrCurrentTurn := turn\<rparr>) = [raw]" using True Some calculation(1) by (auto simp: turnRaw_def t'(1))
    ultimately show ?thesis using m by (auto simp: t'(1,2) turnContext_def split: option.splits)
  qed
qed

text \<open>All identities that a normalization assigned, in the order of its writebacks.\<close>

definition assignedAll :: "CompileRequest \<Rightarrow> CompileRequest \<Rightarrow> (string \<times> int \<times> string \<times> bool) list" where
  "assignedAll r r' =
     assigned SegmentSystem 0 (elems (CrSystem r)) (elems (CrSystem r')) @ assigned SegmentHistory 0 (elems (CrHistory r)) (elems (CrHistory r')) @
     assigned SegmentMemory 0 (elems (CrMemory r)) (elems (CrMemory r')) @ assigned SegmentTools 0 (elems (CrTools r)) (elems (CrTools r')) @
     assigned SegmentHistory (length (elems (CrHistory r'))) (elems (CrPending r)) (elems (CrPending r')) @
     map (\<lambda>(seg, n, i, _). (seg, n, i, True))
       (assigned SegmentHistory (length (elems (CrHistory r')) + length (elems (CrPending r'))) (turnRaw r) (turnRaw r'))"

definition messageSlices :: "(CompileRequest \<Rightarrow> Message slice) list" where
  "messageSlices = [CrSystem, CrHistory, CrMemory, CrTools, CrPending]"

lemma AllMessages_eq: "AllMessages r = concat (map (\<lambda>f. elems (f r)) messageSlices) @ turnRaw r"
  by (simp add: AllMessages_def messageSlices_def turnRaw_def)

lemma normalizeCompileRequest_named:
  assumes "normalizeCompileRequest I r = Inr (r', wbs)" "fresh_wf I"
  shows "(\<forall>f \<in> set messageSlices. list_all2 named (elems (f r)) (elems (f r')) \<and> (f r' = None) = (f r = None)) \<and>
     list_all2 named (turnRaw r) (turnRaw r') \<and> map wbKey wbs = assignedAll r r' \<and>
     (\<forall>t. CrCurrentTurn r' = Some t \<longrightarrow> hasRaw t \<and> (hasPromptSafe t \<longrightarrow> MsgID (TurnPromptSafe t) = MsgID (TurnRaw t)))"
proof -
  from assms(1) obtain system history memory tools pending turn w1 w2 w3 w4 w5 where
    n: "normalizeMessagesForCompile I (CrSystem r) SegmentSystem 0 (CrTurnID r) (CrIdentityPolicy r) (CrRequireDurableIdentity r) False [] = Inr (system, w1)"
      "normalizeMessagesForCompile I (CrHistory r) SegmentHistory 0 (CrTurnID r) (CrIdentityPolicy r) (CrRequireDurableIdentity r) False w1 = Inr (history, w2)"
      "normalizeMessagesForCompile I (CrMemory r) SegmentMemory 0 (CrTurnID r) (CrIdentityPolicy r) (CrRequireDurableIdentity r) False w2 = Inr (memory, w3)"
      "normalizeMessagesForCompile I (CrTools r) SegmentTools 0 (CrTurnID r) (CrIdentityPolicy r) (CrRequireDurableIdentity r) False w3 = Inr (tools, w4)"
      "normalizeMessagesForCompile I (CrPending r) SegmentHistory (length (elems history)) (CrTurnID r) (CrIdentityPolicy r) (CrRequireDurableIdentity r) True w4 = Inr (pending, w5)"
    and t: "normalizeCurrentTurnForCompile I (CrCurrentTurn r) (CrTurnID r) (length (elems history) + length (elems pending)) (CrIdentityPolicy r) (CrRequireDurableIdentity r) w5 = Inr (turn, wbs)"
    and r': "r' = r\<lparr>CrSystem := system, CrHistory := history, CrMemory := memory, CrTools := tools, CrPending := pending,
             CrCurrentTurn := turn, CrArtifacts := mergeArtifacts (CrArtifacts r),
             CrTargets := map (\<lambda>t. t\<lparr>TgName := TrimSpace (TgName t)\<rparr>) (CrTargets r)\<rparr>"
    by (auto simp: normalizeCompileRequest_def bind_res_Inr_iff Let_def)
  have fields: "CrSystem r' = system" "CrHistory r' = history" "CrMemory r' = memory" "CrTools r' = tools" "CrPending r' = pending" "CrCurrentTurn r' = turn"
    by (simp_all add: r')
  have raw: "turnRaw (r'\<lparr>CrCurrentTurn := turn\<rparr>) = turnRaw r'" by (simp add: turnRaw_def fields)
  note m = n [THEN normalizeMessagesForCompile_named, OF assms(2)] and c = normalizeCurrentTurn_named [OF t assms(2), of r', unfolded raw]
  show ?thesis using m c by (simp add: messageSlices_def assignedAll_def fields)
qed

lemma assigned_identified: "\<forall>m \<in> set ms. MsgID m \<noteq> [] \<Longrightarrow> assigned seg n ms out = []"
  by (induction seg n ms out rule: assigned.induct) auto

lemma named_identified: "list_all2 named ms out \<Longrightarrow> \<forall>m \<in> set out. MsgID m \<noteq> []"
  by (induction rule: list_all2_induct) (auto simp: named_def)

lemma named_again: "list_all2 named ms out \<Longrightarrow> \<forall>m \<in> set ms. MsgID m \<noteq> [] \<Longrightarrow> map MsgID out = map MsgID ms"
  by (induction rule: list_all2_induct) (auto simp: named_def)

lemma normalized_identified:
  assumes "normalizeCompileRequest I r = Inr (r', wbs)" "fresh_wf I"
  shows "list_all2 named (AllMessages r) (AllMessages r') \<and> (\<forall>m \<in> set (AllMessages r'). MsgID m \<noteq> [])"
proof -
  have "list_all2 named (AllMessages r) (AllMessages r')"
    using normalizeCompileRequest_named [OF assms] by (auto simp: AllMessages_eq messageSlices_def intro!: list_all2_appendI)
  then show ?thesis using named_identified by blast
qed

text \<open>
  C9. Normalization gives every message of a request an identity. A message that has one is copied with it; a message without
  one gets a nonempty identity and a writeback that names its segment, its position (pending messages and the current turn stand
  behind the history) and the identity. The prompt-safe form of the current turn shares the identity of its raw form. A
  request that also validates has pairwise distinct identities, and normalizing again assigns nothing and keeps them all.
\<close>

theorem normalize_identities:
  assumes "normalizeCompileRequest I r = Inr (r', wbs)" "fresh_wf I"
  shows "(\<forall>f \<in> set messageSlices. list_all2 named (elems (f r)) (elems (f r')) \<and> (f r' = None) = (f r = None)) \<and>
     list_all2 named (AllMessages r) (AllMessages r') \<and> map wbKey wbs = assignedAll r r' \<and>
     (\<forall>t. CrCurrentTurn r' = Some t \<and> hasPromptSafe t \<longrightarrow> MsgID (TurnPromptSafe t) = MsgID (TurnRaw t)) \<and>
     (CompileRequest_Validate r' = Inr () \<longrightarrow> distinct (map MsgID (AllMessages r'))) \<and>
     (\<forall>r'' wbs'. normalizeCompileRequest I r' = Inr (r'', wbs') \<longrightarrow> wbs' = [] \<and> map MsgID (AllMessages r'') = map MsgID (AllMessages r'))"
proof -
  note n = normalizeCompileRequest_named [OF assms] and a = normalized_identified [OF assms]
  have "distinct (map MsgID (AllMessages r'))" if "CompileRequest_Validate r' = Inr ()"
  proof -
    have "distinct (filter (\<lambda>i. i \<noteq> []) (map MsgID (AllMessages r')))"
      using that by (auto simp: CompileRequest_Validate_def bind_res_Inr_iff validateUniqueMessageIDs_def validateUniqueMessageIDs_from_Inr split: if_splits)
    moreover have "filter (\<lambda>i. i \<noteq> []) (map MsgID (AllMessages r')) = map MsgID (AllMessages r')" using a by (auto intro: filter_True)
    ultimately show ?thesis by simp
  qed
  moreover have "wbs' = [] \<and> map MsgID (AllMessages r'') = map MsgID (AllMessages r')" if again: "normalizeCompileRequest I r' = Inr (r'', wbs')" for r'' wbs'
  proof -
    have "assignedAll r' r'' = []" using a by (auto simp: assignedAll_def AllMessages_eq messageSlices_def intro!: assigned_identified)
    then have "wbs' = []" using normalizeCompileRequest_named [OF again assms(2)] by simp
    moreover have "map MsgID (AllMessages r'') = map MsgID (AllMessages r')"
      using normalized_identified [OF again assms(2)] a by (auto intro: named_again)
    ultimately show ?thesis by simp
  qed
  ultimately show ?thesis using n a by blast
qed

subsection \<open>Stable event identities\<close>

definition eventID :: "(string \<Rightarrow> string) \<Rightarrow> string \<Rightarrow> string \<Rightarrow> string \<Rightarrow> nat \<Rightarrow> string" where
  "eventID sha pre turnID kind k = ''event:'' @ sha (eventKey (if TrimSpace pre = [] then ''msg'' else TrimSpace pre) turnID kind (int k))"

definition eventIDs :: "CompileRequest \<Rightarrow> string list" where
  "eventIDs r = map MsgID (elems (CrPending r) @ turnRaw r)"

text \<open>The values whose SHA-256 names the events of a request: turn, kind and ordinal under the policy's prefix.\<close>

definition eventKeys :: "string \<Rightarrow> CompileRequest \<Rightarrow> string list" where
  "eventKeys pre r = (let key = (\<lambda>kind k. eventKey (if TrimSpace pre = [] then ''msg'' else TrimSpace pre) (CrTurnID r) kind (int k)) in
     map (key ''pending_event'') [0..<length (elems (CrPending r))] @ map (key ''current_turn'') [0..<length (turnRaw r)])"

lemma eventKey_inject: "eventKey p t k (int n) = eventKey p' t' k' (int n') \<longleftrightarrow> p = p' \<and> t = t' \<and> k = k' \<and> n = n'"
proof
  assume "eventKey p t k (int n) = eventKey p' t' k' (int n')"
  then have 1: "p = p'" and "jsonString t @ '','' @ jsonString k @ '','' @ FormatInt (int n) @ '']'' = jsonString t' @ '','' @ jsonString k' @ '','' @ FormatInt (int n') @ '']''"
    by (auto simp: eventKey_def dest: jsonString_inject)
  from jsonString_inject [OF this(2)] have 2: "t = t'" and "jsonString k @ '','' @ FormatInt (int n) @ '']'' = jsonString k' @ '','' @ FormatInt (int n') @ '']''" by auto
  from jsonString_inject [OF this(2)] have "k = k'" "dec n = dec n'" by (auto simp: FormatInt_def)
  with 1 2 show "p = p' \<and> t = t' \<and> k = k' \<and> n = n'" by simp
qed auto

lemma eventKeys_distinct: "distinct (eventKeys pre r)"
  by (auto simp: eventKeys_def Let_def distinct_map inj_on_def eventKey_inject)

lemma eventKeys_disjoint: "CrTurnID s \<noteq> CrTurnID r \<Longrightarrow> set (eventKeys pre s) \<inter> set (eventKeys pre r) = {}"
  by (auto simp: eventKeys_def Let_def eventKey_inject)

lemma stable_message:
  assumes "normalizeMessageForCompile I m ic (Some (NewStableMessageIdentityPolicy sha pre)) durable = Inr (m', wb)" "MsgID m = []" "IcOrdinal ic = int k"
  shows "MsgID m' = eventID sha pre (IcTurnID ic) (if IcCurrentTurn ic then ''current_turn'' else ''pending_event'') k"
  using assms
  by (auto simp: normalizeMessageForCompile_def NewStableMessageIdentityPolicy_def ResolveMessageID_def StableMessageIdentityPolicy_Resolve_def
      bind_res_Inr_iff eventID_def Let_def split: if_splits)

lemma stable_messages_from:
  assumes "normalizeMessages_from I seg offset turnID (Some (NewStableMessageIdentityPolicy sha pre)) durable pending i ms = Inr (out, wbs)"
    and "\<forall>m \<in> set ms. MsgID m = []"
  shows "map MsgID out = map (eventID sha pre turnID ''pending_event'') [i..<i + length ms]"
  using assms
proof (induction ms arbitrary: i out wbs)
  case (Cons m ms)
  from Cons.prems(1) obtain m' wb rest wbs' where m: "normalizeMessageForCompile I m (positionContext seg offset turnID pending i) (Some (NewStableMessageIdentityPolicy sha pre)) durable = Inr (m', wb)"
    and r: "normalizeMessages_from I seg offset turnID (Some (NewStableMessageIdentityPolicy sha pre)) durable pending (Suc i) ms = Inr (rest, wbs')"
    and out: "out = m' # rest"
    by (auto simp: bind_res_Inr_iff)
  have empty: "MsgID m = []" using Cons.prems(2) by simp
  have "MsgID m' = eventID sha pre turnID ''pending_event'' i"
    using stable_message [OF m, of i] by (simp add: positionContext_def empty)
  moreover have "map MsgID rest = map (eventID sha pre turnID ''pending_event'') [Suc i..<Suc i + length ms]"
    using Cons.prems(2) by (intro Cons.IH [OF r]) simp
  moreover have "[i..<i + length (m # ms)] = i # [Suc i..<Suc i + length ms]" by (subst upt_conv_Cons) simp_all
  ultimately show ?case by (simp only: out list.map)
qed simp

lemma stable_events:
  assumes "normalizeCompileRequest I r = Inr (r', wbs)" "CrIdentityPolicy r = Some (NewStableMessageIdentityPolicy sha pre)" "\<forall>i \<in> set (eventIDs r). i = []"
  shows "eventIDs r' = map (eventID sha pre (CrTurnID r) ''pending_event'') [0..<length (elems (CrPending r))] @
     map (eventID sha pre (CrTurnID r) ''current_turn'') [0..<length (turnRaw r)]"
proof -
  let ?p = "Some (NewStableMessageIdentityPolicy sha pre)"
  from assms(1,2) obtain pending turn w4 w5 offset index where
    n: "normalizeMessagesForCompile I (CrPending r) SegmentHistory offset (CrTurnID r) ?p (CrRequireDurableIdentity r) True w4 = Inr (pending, w5)"
    and t: "normalizeCurrentTurnForCompile I (CrCurrentTurn r) (CrTurnID r) index ?p (CrRequireDurableIdentity r) w5 = Inr (turn, wbs)"
    and r': "CrPending r' = pending" "CrCurrentTurn r' = turn"
    by (auto simp: normalizeCompileRequest_def bind_res_Inr_iff Let_def)
  have "map MsgID (elems pending) = map (eventID sha pre (CrTurnID r) ''pending_event'') [0..<length (elems (CrPending r))]"
  proof (cases "CrPending r")
    case (Some ms)
    then have "\<forall>m \<in> set ms. MsgID m = []" using assms(3) by (auto simp: eventIDs_def)
    from n Some obtain out new where "normalizeMessages_from I SegmentHistory offset (CrTurnID r) ?p (CrRequireDurableIdentity r) True 0 ms = Inr (out, new)" "pending = Some out"
      by (auto simp: normalizeMessagesForCompile_def bind_res_Inr_iff)
    from stable_messages_from [OF this(1)] this(2) Some \<open>\<forall>m \<in> set ms. MsgID m = []\<close> show ?thesis by simp
  qed (use n in \<open>simp add: normalizeMessagesForCompile_def\<close>)
  moreover have "map MsgID (turnRaw r') = map (eventID sha pre (CrTurnID r) ''current_turn'') [0..<length (turnRaw r)]"
  proof (cases "turnRaw r")
    case Nil
    then have "turn = None" using t by (auto simp: turnRaw_def normalizeCurrentTurnForCompile_def bind_res_Inr_iff split: option.splits if_splits)
    then show ?thesis using Nil r'(2) by (simp add: turnRaw_def)
  next
    case (Cons m ms)
    then obtain tn where tn: "CrCurrentTurn r = Some tn" "hasRaw tn" "TurnRaw tn = m" "ms = []" by (auto simp: turnRaw_def split: option.splits if_splits)
    then have "MsgID m = []" using assms(3) Cons by (simp add: eventIDs_def)
    obtain raw wb prompt where raw: "normalizeMessageForCompile I (TurnRaw tn) (turnContext (CrTurnID r) index) ?p (CrRequireDurableIdentity r) = Inr (raw, wb)"
      and t': "turn = Some \<lparr>TurnRaw = raw, TurnPromptSafe = prompt, TurnPersistence = TurnPersistence tn\<rparr>"
      using t [unfolded tn(1)] tn(2) by (rule normalizeCurrentTurn_Inr)
    have "MsgID raw = eventID sha pre (CrTurnID r) ''current_turn'' 0"
      using stable_message [OF raw, of 0] \<open>MsgID m = []\<close> tn(3) by (simp add: turnContext_def)
    moreover from this have "hasRaw (the turn)" using t' by (simp add: hasRaw_def messageHasContent_def eventID_def)
    ultimately show ?thesis using t' r'(2) Cons tn(4) by (simp add: turnRaw_def)
  qed
  ultimately show ?thesis by (simp add: eventIDs_def r'(1))
qed

lemma stable_event_keys:
  assumes "normalizeCompileRequest I r = Inr (r', wbs)" "CrIdentityPolicy r = Some (NewStableMessageIdentityPolicy sha pre)" "\<forall>i \<in> set (eventIDs r). i = []"
  shows "eventIDs r' = map (\<lambda>key. ''event:'' @ sha key) (eventKeys pre r)"
  using stable_events [OF assms] by (simp add: eventKeys_def eventID_def Let_def)

text \<open>Two keys of a list with one hash.\<close>

definition collides :: "(string \<Rightarrow> string) \<Rightarrow> string list \<Rightarrow> bool" where
  "collides sha keys = (\<exists>k \<in> set keys. \<exists>k' \<in> set keys. k \<noteq> k' \<and> sha k = sha k')"

lemma collides_inj: "collides sha keys \<longleftrightarrow> \<not> inj_on sha (set keys)"
  by (auto simp: collides_def inj_on_def)

lemma hashed_ids:
  assumes "\<not> collides sha (ks @ ks')"
  shows "distinct ks \<Longrightarrow> distinct (map (\<lambda>key. ''event:'' @ sha key) ks)"
    and "set ks' \<inter> set ks = {} \<Longrightarrow> set (map (\<lambda>key. ''event:'' @ sha key) ks') \<inter> set (map (\<lambda>key. ''event:'' @ sha key) ks) = {}"
  using assms by (auto simp: collides_inj distinct_map inj_on_def)

definition sampleIdentityHost :: IdentityHost where
  "sampleIdentityHost = \<lparr>IhEnv = sampleEnv, IhFresh = (\<lambda>ic m. ''fresh'')\<rparr>"

definition sampleTurnRequest :: "string \<Rightarrow> CompileRequest" where
  "sampleTurnRequest t = \<lparr>CrTurnID = t, CrSystem = Some [userText ''s'' ''rules''], CrHistory = Some [userText ''h'' ''hello''], CrMemory = None,
     CrTools = None, CrPending = Some [userText [] ''one'', userText [] ''two''], CrCurrentTurn = Some (NewCurrentTurn (userText [] ''now'')),
     CrArtifacts = [], CrIdentityPolicy = Some (NewStableMessageIdentityPolicy (\<lambda>x. x) []), CrRequireDurableIdentity = True,
     CrTargets = [], CrCompilationID = [], CrLineage = \<lparr>Records = [], Unresolved = []\<rparr>, CrOrigins = [], CrSourceRevision = 0, CrPreviousRecord = None\<rparr>"

lemma sampleTurn_resolves:
  assumes "IcTurnID ic \<in> {''t'', ''u''}" "0 \<le> IcOrdinal ic" "IcCurrentTurn ic \<or> IcPending ic"
  shows "StableMessageIdentityPolicy_Resolve (\<lambda>x. x) [] ic =
     Inr (''event:'' @ eventKey ''msg'' (IcTurnID ic) (if IcCurrentTurn ic then ''current_turn'' else ''pending_event'') (IcOrdinal ic))"
proof -
  have "ValidString ''t''" "ValidString ''u''" by code_simp+
  moreover have "TrimSpace [] = []" by (simp add: TrimSpace_def stripRunes.simps Let_def)
  moreover note assms
  ultimately show ?thesis by (auto simp: StableMessageIdentityPolicy_Resolve_def Let_def)
qed

lemma userText_owned: "ownCompileMessage sampleEnv (userText i t) = Inr (userText i t)" "Message_Clone (userText i t) = userText i t"
  by code_simp+

lemma userText_id: "MsgID (userText i t) = i" "(userText i t)\<lparr>MsgID := j\<rparr> = userText j t" "messageHasContent (userText i t)"
    "\<not> messageHasContent zeroMessage"
  by (simp_all add: userText_def sampleMessage_def messageHasContent_def zeroMessage_def)

lemma sampleTurn_message:
  "i \<noteq> [] \<Longrightarrow> normalizeMessageForCompile sampleIdentityHost (userText i x) ic p d = Inr (userText i x, None)"
  "IcTurnID ic \<in> {''t'', ''u''} \<Longrightarrow> 0 \<le> IcOrdinal ic \<Longrightarrow> IcCurrentTurn ic \<or> IcPending ic \<Longrightarrow>
     \<exists>i w. i \<noteq> [] \<and>
       normalizeMessageForCompile sampleIdentityHost (userText [] x) ic (Some (NewStableMessageIdentityPolicy (\<lambda>x. x) [])) d = Inr (userText i x, Some w)"
  by (auto simp: normalizeMessageForCompile_def sampleIdentityHost_def userText_owned userText_id ResolveMessageID_def
      NewStableMessageIdentityPolicy_def sampleTurn_resolves)

lemma sampleTurnRequest_normalizes:
  assumes "t \<in> {''t'', ''u''}"
  shows "\<exists>r' wbs. normalizeCompileRequest sampleIdentityHost (sampleTurnRequest t) = Inr (r', wbs) \<and> length (eventIDs r') = 3 \<and> length wbs = 3"
proof -
  let ?p = "Some (NewStableMessageIdentityPolicy (\<lambda>x. x) [])"
  have pending: "\<exists>i w. i \<noteq> [] \<and> normalizeMessageForCompile sampleIdentityHost (userText [] x) (positionContext SegmentHistory 1 t True n) ?p True = Inr (userText i x, Some w)"
    for x n using assms by (intro sampleTurn_message) (simp_all add: positionContext_def)
  have turn: "\<exists>i w. i \<noteq> [] \<and> normalizeMessageForCompile sampleIdentityHost (userText [] ''now'') (turnContext t 3) ?p True = Inr (userText i ''now'', Some w)"
    using assms by (intro sampleTurn_message) (simp_all add: turnContext_def)
  obtain i w i' w' j v where "normalizeMessageForCompile sampleIdentityHost (userText [] ''one'') (positionContext SegmentHistory 1 t True 0) ?p True = Inr (userText i ''one'', Some w)"
      "normalizeMessageForCompile sampleIdentityHost (userText [] ''two'') (positionContext SegmentHistory 1 t True (Suc 0)) ?p True = Inr (userText i' ''two'', Some w')"
      "normalizeMessageForCompile sampleIdentityHost (userText [] ''now'') (turnContext t 3) ?p True = Inr (userText j ''now'', Some v)"
    using pending [of "''one''" 0] pending [of "''two''" "Suc 0"] turn by blast
  then show ?thesis
    by (simp add: normalizeCompileRequest_def normalizeMessagesForCompile_def normalizeCurrentTurnForCompile_def CurrentTurn_validate_def
        sampleTurnRequest_def NewCurrentTurn_def sampleTurn_message(1) Let_def hasRaw_def hasPromptSafe_def userText_id eventIDs_def turnRaw_def numeral_3_eq_3)
qed

theorem normalize_identities_witness:
  "\<exists>r' wbs. normalizeCompileRequest sampleIdentityHost (sampleTurnRequest ''t'') = Inr (r', wbs) \<and> fresh_wf sampleIdentityHost \<and> length wbs = 3 \<and>
     map wbKey wbs = assignedAll (sampleTurnRequest ''t'') r' \<and> list_all2 named (AllMessages (sampleTurnRequest ''t'')) (AllMessages r')"
proof -
  have "fresh_wf sampleIdentityHost" by (simp add: fresh_wf_def sampleIdentityHost_def)
  with sampleTurnRequest_normalizes [of "''t''"] show ?thesis using normalize_identities [of sampleIdentityHost "sampleTurnRequest ''t''"] by blast
qed

text \<open>
  C35. Event identities are stable. Under the stable identity policy, when the events of two requests (pending messages and current turn)
  arrive without identities and both requests normalize: every event is named by the SHA-256 of its key; a retry of the same turn
  with the same number of events gets the same identities, whatever the history, the content and the prompt-safe form are; the keys
  of one request are pairwise distinct and those of different turns are disjoint. So a repeated identity within a request, or one
  shared by different turns, exhibits two different keys of these requests with the same SHA-256. Nothing is assumed of the hash.
\<close>

theorem stable_event_identities:
  assumes "normalizeCompileRequest I r = Inr (r', wbs)" "normalizeCompileRequest I2 s = Inr (s', wbs2)"
    and "CrIdentityPolicy r = Some (NewStableMessageIdentityPolicy sha pre)" "CrIdentityPolicy s = Some (NewStableMessageIdentityPolicy sha pre)"
    and "\<forall>i \<in> set (eventIDs r @ eventIDs s). i = []"
  shows "eventIDs r' = map (\<lambda>key. ''event:'' @ sha key) (eventKeys pre r) \<and>
     (CrTurnID s = CrTurnID r \<and> length (elems (CrPending s)) = length (elems (CrPending r)) \<and> length (turnRaw s) = length (turnRaw r) \<longrightarrow>
       eventIDs s' = eventIDs r') \<and>
     distinct (eventKeys pre r) \<and> (CrTurnID s \<noteq> CrTurnID r \<longrightarrow> set (eventKeys pre s) \<inter> set (eventKeys pre r) = {}) \<and>
     (collides sha (eventKeys pre r @ eventKeys pre s) \<or>
       distinct (eventIDs r') \<and> (CrTurnID s \<noteq> CrTurnID r \<longrightarrow> set (eventIDs s') \<inter> set (eventIDs r') = {}))"
proof -
  have ids: "eventIDs r' = map (\<lambda>key. ''event:'' @ sha key) (eventKeys pre r)" "eventIDs s' = map (\<lambda>key. ''event:'' @ sha key) (eventKeys pre s)"
    using stable_event_keys [OF assms(1,3)] stable_event_keys [OF assms(2,4)] assms(5) by simp_all
  have "map (\<lambda>key. ''event:'' @ sha key) (eventKeys pre s) = map (\<lambda>key. ''event:'' @ sha key) (eventKeys pre r)"
    if "CrTurnID s = CrTurnID r \<and> length (elems (CrPending s)) = length (elems (CrPending r)) \<and> length (turnRaw s) = length (turnRaw r)"
    using that by (simp add: eventKeys_def)
  moreover have "distinct (map (\<lambda>key. ''event:'' @ sha key) (eventKeys pre r)) \<and>
      (CrTurnID s \<noteq> CrTurnID r \<longrightarrow> set (map (\<lambda>key. ''event:'' @ sha key) (eventKeys pre s)) \<inter> set (map (\<lambda>key. ''event:'' @ sha key) (eventKeys pre r)) = {})"
    if "\<not> collides sha (eventKeys pre r @ eventKeys pre s)"
    using hashed_ids(1) [OF that eventKeys_distinct] hashed_ids(2) [OF that eventKeys_disjoint] by blast
  ultimately show ?thesis unfolding ids using eventKeys_distinct [of pre r] eventKeys_disjoint [of s r pre] by blast
qed

theorem stable_event_identities_witness:
  "\<exists>r' wbs s' wbs2. normalizeCompileRequest sampleIdentityHost (sampleTurnRequest ''t'') = Inr (r', wbs) \<and>
     normalizeCompileRequest sampleIdentityHost (sampleTurnRequest ''u'') = Inr (s', wbs2) \<and>
     (\<forall>i \<in> set (eventIDs (sampleTurnRequest ''t'') @ eventIDs (sampleTurnRequest ''u'')). i = []) \<and>
     eventIDs r' = map (\<lambda>key. ''event:'' @ key) (eventKeys [] (sampleTurnRequest ''t'')) \<and>
     distinct (eventIDs r') \<and> set (eventIDs s') \<inter> set (eventIDs r') = {} \<and> length (eventIDs r') = 3"
proof -
  obtain r' wbs s' wbs2 where n: "normalizeCompileRequest sampleIdentityHost (sampleTurnRequest ''t'') = Inr (r', wbs)"
      "normalizeCompileRequest sampleIdentityHost (sampleTurnRequest ''u'') = Inr (s', wbs2)" and l: "length (eventIDs r') = 3"
    using sampleTurnRequest_normalizes [of "''t''"] sampleTurnRequest_normalizes [of "''u''"] by blast
  have p: "CrIdentityPolicy (sampleTurnRequest t) = Some (NewStableMessageIdentityPolicy (\<lambda>x. x) [])" for t
    by (simp add: sampleTurnRequest_def)
  have e: "\<forall>i \<in> set (eventIDs (sampleTurnRequest ''t'') @ eventIDs (sampleTurnRequest ''u'')). i = []" by code_simp
  have u: "CrTurnID (sampleTurnRequest ''u'') \<noteq> CrTurnID (sampleTurnRequest ''t'')" by (simp add: sampleTurnRequest_def)
  have c: "\<not> collides (\<lambda>x. x) keys" for keys by (simp add: collides_def)
  note s = stable_event_identities [OF n p p e]
  from s c have "distinct (eventIDs r')" "set (eventIDs s') \<inter> set (eventIDs r') = {}" using u by blast+
  moreover from s have "eventIDs r' = map (\<lambda>key. ''event:'' @ key) (eventKeys [] (sampleTurnRequest ''t''))" by blast
  ultimately show ?thesis using n l e by blast
qed

end
