(* ===== verification/Transform_Log.thy ===== *)
theory Transform_Log
  imports Compile_Request
begin

text \<open>
  What happened to each message of a compile: transformation chains (transform_record.go), the recorder that collects them
  (transform_recorder.go), text replacements (compile_options.go), and the projection that restores the durable state from a compile result
  (persistence_projection.go).
\<close>

subsection \<open>Chains\<close>

datatype TransformAction = ActionEvicted | ActionTruncated | ActionFormatted | ActionPassed | ActionOther string

record TransformRecord =
  TrAction :: TransformAction
  TrReason :: string

type_synonym TransformChain = "TransformRecord list"

abbreviation ReasonProtectedPending :: string where "ReasonProtectedPending \<equiv> ''protected_pending''"
abbreviation ReasonCurrentTurnProjection :: string where "ReasonCurrentTurnProjection \<equiv> ''current_turn_projection''"
abbreviation ReasonRoleProjection :: string where "ReasonRoleProjection \<equiv> ''role_projection''"
abbreviation ReasonSegmentFormatter :: string where "ReasonSegmentFormatter \<equiv> ''segment_formatter''"
abbreviation ReasonReplacedByFormatter :: string where "ReasonReplacedByFormatter \<equiv> ''replaced_by_formatter''"
abbreviation ReasonTransformHook :: string where "ReasonTransformHook \<equiv> ''transform_hook''"
abbreviation ReasonReplacedByHook :: string where "ReasonReplacedByHook \<equiv> ''replaced_by_hook''"
abbreviation ReasonReplacedByDeferred :: string where "ReasonReplacedByDeferred \<equiv> ''replaced_by_deferred''"
abbreviation ReasonTextReplacement :: string where "ReasonTextReplacement \<equiv> ''text_replacement''"

definition isInPlaceFormatReason :: "string \<Rightarrow> bool" where
  "isInPlaceFormatReason reason = (reason \<notin> set [ReasonReplacedByFormatter, ReasonReplacedByHook, ReasonReplacedByDeferred])"

definition zeroRecord :: TransformRecord where
  "zeroRecord = \<lparr>TrAction = ActionOther [], TrReason = []\<rparr>"

definition finalStep :: "TransformRecord \<Rightarrow> TransformRecord \<Rightarrow> TransformRecord" where
  "finalStep final step =
     (case TrAction step of
        ActionEvicted \<Rightarrow> step
      | ActionTruncated \<Rightarrow> step
      | ActionOther _ \<Rightarrow> final
      | _ \<Rightarrow>
          if TrAction final = ActionEvicted \<or> TrAction final = ActionTruncated then final
          else if TrAction final = ActionFormatted \<and> \<not> isInPlaceFormatReason (TrReason final) then final
          else step)"

definition Final :: "TransformChain \<Rightarrow> TransformRecord" where
  "Final chain = foldl finalStep zeroRecord chain"

subsection \<open>The recorder\<close>

record transformRecorder =
  RecRecords :: "(string \<times> TransformChain) list"
  RecIntroduced :: "(string \<times> Message) list"

definition chainOf :: "transformRecorder \<Rightarrow> string \<Rightarrow> TransformChain" where
  "chainOf rec i = (case map_of (RecRecords rec) i of None \<Rightarrow> [] | Some c \<Rightarrow> c)"

definition introduceIfAbsent :: "transformRecorder \<Rightarrow> Message \<Rightarrow> transformRecorder" where
  "introduceIfAbsent rec m =
     (if MsgID m = [] \<or> map_of (RecIntroduced rec) (MsgID m) \<noteq> None then rec
      else rec\<lparr>RecIntroduced := (MsgID m, Message_Clone m) # RecIntroduced rec\<rparr>)"

definition introducedSnapshot :: "transformRecorder \<Rightarrow> (string \<times> Message) list" where
  "introducedSnapshot rec = map (\<lambda>(i, m). (i, Message_Clone m)) (RecIntroduced rec)"

definition newTransformRecorder :: "Message list \<Rightarrow> transformRecorder" where
  "newTransformRecorder msgs =
     \<lparr>RecRecords = fold (\<lambda>m recs. if MsgID m = [] then recs else AList.update (MsgID m) [\<lparr>TrAction = ActionPassed, TrReason = []\<rparr>] recs) msgs [],
      RecIntroduced = []\<rparr>"

definition setRecord :: "transformRecorder \<Rightarrow> string \<Rightarrow> TransformAction \<Rightarrow> string \<Rightarrow> transformRecorder" where
  "setRecord rec i action reason =
     (if i = [] then rec
      else rec\<lparr>RecRecords := AList.update i (chainOf rec i @ [\<lparr>TrAction = action, TrReason = reason\<rparr>]) (RecRecords rec)\<rparr>)"

definition recordMergeRemovals :: "transformRecorder \<Rightarrow> Message list \<Rightarrow> Message list \<Rightarrow> transformRecorder" where
  "recordMergeRemovals rec before after =
     fold (\<lambda>m rec. if MsgID m = [] \<or> MsgID m \<in> set (messageIDSet after) then rec else setRecord rec (MsgID m) ActionFormatted ReasonReplacedByDeferred) before rec"

definition markPending :: "string \<Rightarrow> transformRecorder \<Rightarrow> transformRecorder" where
  "markPending i rec =
     (if i = [] then rec
      else case map_of (RecRecords rec) i of
        None \<Rightarrow> setRecord rec i ActionPassed ReasonProtectedPending
      | Some chain \<Rightarrow> if TrAction (Final chain) = ActionPassed then setRecord rec i ActionPassed ReasonProtectedPending else rec)"

definition markProtectedPending :: "transformRecorder \<Rightarrow> string list \<Rightarrow> transformRecorder" where
  "markProtectedPending rec ids = fold markPending ids rec"

definition snapshotAllMessages :: "ConversationState \<Rightarrow> Message list" where
  "snapshotAllMessages snap = concat (map (Segment snap) snapshotSegmentOrder)"

definition registerMessage :: "Message \<Rightarrow> transformRecorder \<Rightarrow> transformRecorder" where
  "registerMessage m rec =
     (let rec' = introduceIfAbsent rec m in
      if map_of (RecRecords rec') (MsgID m) \<noteq> None then rec'
      else rec'\<lparr>RecRecords := (MsgID m, [\<lparr>TrAction = ActionPassed, TrReason = []\<rparr>]) # RecRecords rec'\<rparr>)"

definition registerDeferredMessageIDs :: "transformRecorder \<Rightarrow> ConversationState \<Rightarrow> ConversationState \<Rightarrow> transformRecorder" where
  "registerDeferredMessageIDs rec before after =
     fold (\<lambda>m rec. if MsgID m = [] \<or> MsgID m \<in> set (messageIDSet (snapshotAllMessages before)) then rec else registerMessage m rec)
       (snapshotAllMessages after) rec"

definition findMessageByID :: "Message list \<Rightarrow> string \<Rightarrow> Message" where
  "findMessageByID msgs i = (case filter (\<lambda>m. MsgID m = i) msgs of [] \<Rightarrow> zeroMessage | m # _ \<Rightarrow> m)"

text \<open>
  The two lists never share timestamp pointers: they are copies of each other's messages. The order in which the code visits the
  identities does not matter, each has its own chain.
\<close>

definition recordBefore :: "Message list \<Rightarrow> Message list \<Rightarrow> string \<Rightarrow> string \<Rightarrow> string \<Rightarrow> transformRecorder \<Rightarrow> transformRecorder" where
  "recordBefore before after sameIDReason replacedReason i rec =
     (if i \<notin> set (messageIDSet after) then setRecord rec i ActionFormatted replacedReason
      else if \<not> MessageEqual False (findMessageByID before i) (findMessageByID after i) then setRecord rec i ActionFormatted sameIDReason
      else rec)"

definition recordAfter :: "Message list \<Rightarrow> Message list \<Rightarrow> string \<Rightarrow> string \<Rightarrow> transformRecorder \<Rightarrow> transformRecorder" where
  "recordAfter before after introducedReason i rec =
     (if i \<in> set (messageIDSet before) then rec
      else let rec' = introduceIfAbsent rec (findMessageByID after i) in
        if introducedReason \<noteq> [] then setRecord rec' i ActionFormatted introducedReason else setRecord rec' i ActionPassed [])"

definition recordContentTransform ::
  "transformRecorder \<Rightarrow> Message list \<Rightarrow> Message list \<Rightarrow> string \<Rightarrow> string \<Rightarrow> string \<Rightarrow> transformRecorder" where
  "recordContentTransform rec before after sameIDReason replacedReason introducedReason =
     fold (recordAfter before after introducedReason) (remdups (messageIDSet after))
       (fold (recordBefore before after sameIDReason replacedReason) (remdups (messageIDSet before)) rec)"

definition recordFormatterTransform :: "transformRecorder \<Rightarrow> Message list \<Rightarrow> Message list \<Rightarrow> transformRecorder" where
  "recordFormatterTransform rec before after = recordContentTransform rec before after ReasonSegmentFormatter ReasonReplacedByFormatter []"

definition recordHookTransform :: "transformRecorder \<Rightarrow> Message list \<Rightarrow> Message list \<Rightarrow> transformRecorder" where
  "recordHookTransform rec before after = recordContentTransform rec before after ReasonTransformHook ReasonReplacedByHook ReasonTransformHook"

definition SegmentNames :: "ConversationState \<Rightarrow> string list" where
  "SegmentNames snap = map fst (Segments snap)"

definition recordSnapshotHookTransforms :: "transformRecorder \<Rightarrow> ConversationState \<Rightarrow> ConversationState \<Rightarrow> transformRecorder" where
  "recordSnapshotHookTransforms rec before after =
     fold (\<lambda>name rec. if name \<in> set (SegmentNames before) then rec else recordHookTransform rec [] (Segment after name)) (SegmentNames after)
       (fold (\<lambda>name rec. recordHookTransform rec (Segment before name) (Segment after name)) (SegmentNames before) rec)"

datatype EvictionReason = EvictionReasonTruncate | EvictionReasonBudget | EvictionReasonOther string

definition recordEvictions :: "transformRecorder \<Rightarrow> Message list \<Rightarrow> Message list \<Rightarrow> EvictionReason \<Rightarrow> transformRecorder" where
  "recordEvictions rec before after reason =
     fold (\<lambda>i rec. if i \<in> set (messageIDSet after) then rec
        else setRecord rec i (if reason = EvictionReasonTruncate then ActionTruncated else ActionEvicted) ReasonTokenBudgetExceeded)
       (remdups (messageIDSet before)) rec"

definition recordSummarizeReplace :: "transformRecorder \<Rightarrow> Message list \<Rightarrow> Message \<Rightarrow> transformRecorder" where
  "recordSummarizeReplace rec before summary =
     (let rec' = fold (\<lambda>m rec. setRecord rec (MsgID m) ActionTruncated ReasonTokenBudgetExceeded) before rec in
      if MsgID summary = [] then rec' else setRecord (introduceIfAbsent rec' summary) (MsgID summary) ActionPassed [])"

definition recordCurrentTurnProjection :: "transformRecorder \<Rightarrow> CurrentTurn \<Rightarrow> transformRecorder" where
  "recordCurrentTurnProjection rec turn =
     (case promptMessage turn of
        None \<Rightarrow> rec
      | Some prompt \<Rightarrow>
          if MsgID (TurnRaw turn) = [] \<or> MessageEqual False (TurnRaw turn) prompt then rec
          else setRecord rec (MsgID (TurnRaw turn)) ActionFormatted ReasonCurrentTurnProjection)"

subsection \<open>Text replacements\<close>

abbreviation ErrMissingReplacementTarget :: go_error where
  "ErrMissingReplacementTarget \<equiv> Sentinel ''ErrMissingReplacementTarget''"

record TextReplacement =
  RpSegment :: string
  RpMessageID :: string
  RpText :: string

datatype patchPhase = patchPhasePreBudget | patchPhasePostBudget

definition patchTextOnMessage :: "Message \<Rightarrow> string \<Rightarrow> Message" where
  "patchTextOnMessage m text =
     (let cloned = Message_Clone m in
      cloned\<lparr>MsgParts := PartValue (TextPart text) #
        filter (\<lambda>p. case canonicalPartValue p of Some (TextPart _) \<Rightarrow> False | _ \<Rightarrow> True) (MsgParts cloned)\<rparr>)"

definition recordTextReplacement :: "transformRecorder \<Rightarrow> Message \<Rightarrow> Message \<Rightarrow> transformRecorder" where
  "recordTextReplacement rec before after =
     (if MsgID before = [] \<or> MessageEqual False before after then rec
      else setRecord (introduceIfAbsent rec before) (MsgID before) ActionFormatted ReasonTextReplacement)"

definition firstIndex :: "(Message \<Rightarrow> bool) \<Rightarrow> Message list \<Rightarrow> nat option" where
  "firstIndex P ms = (let n = length (takeWhile (\<lambda>m. \<not> P m) ms) in if n < length ms then Some n else None)"

definition applyReplacement ::
  "patchPhase \<Rightarrow> TextReplacement \<Rightarrow> ConversationState \<times> transformRecorder \<Rightarrow> (ConversationState \<times> transformRecorder) result" where
  "applyReplacement phase rp = (\<lambda>(snap, rec).
     let seg = RpSegment rp in
     if (phase = patchPhasePreBudget \<and> seg = SegmentHistory) \<or> (phase = patchPhasePostBudget \<and> seg \<noteq> SegmentHistory) then Inr (snap, rec)
     else case firstIndex (\<lambda>m. MsgID m = RpMessageID rp) (Segment snap seg) of
       None \<Rightarrow> Inl ErrMissingReplacementTarget
     | Some k \<Rightarrow>
         let updated = cloneMessageSlice (Segment snap seg); cloned = patchTextOnMessage (updated ! k) (RpText rp) in
         Inr (WithSegment snap seg (updated[k := cloned]), recordTextReplacement rec (updated ! k) cloned))"

fun applyTextReplacements ::
  "patchPhase \<Rightarrow> TextReplacement list \<Rightarrow> ConversationState \<times> transformRecorder \<Rightarrow> (ConversationState \<times> transformRecorder) comp" where
  "applyTextReplacements phase [] st = ret st"
| "applyTextReplacements phase (rp # rps) st =
     bind poll (\<lambda>_. bind (lift_res (applyReplacement phase rp st)) (applyTextReplacements phase rps))"

definition outputOptions :: "TextReplacement list \<Rightarrow> ConversationState \<Rightarrow> TextReplacement list" where
  "outputOptions rps snap = filter (\<lambda>rp. \<exists>m \<in> set (Segment snap (RpSegment rp)). MsgID m = RpMessageID rp) rps"

subsection \<open>Persistence\<close>

text \<open>The parts of a compile result that the projection reads.\<close>

record CompileResult =
  ResSource :: CompileRequest
  ResPayload :: AbstractPayload
  ResTransformations :: "(string \<times> TransformChain) list"
  ResIntroduced :: "(string \<times> Message) list"
  ResArtifacts :: "ContextArtifact list"

definition shouldPersistSourceMessage :: "TransformRecord \<Rightarrow> bool" where
  "shouldPersistSourceMessage r =
     (case TrAction r of
        ActionPassed \<Rightarrow> True
      | ActionFormatted \<Rightarrow> isInPlaceFormatReason (TrReason r)
      | _ \<Rightarrow> False)"

definition shouldPersistPayloadAdd :: "TransformRecord \<Rightarrow> bool" where
  "shouldPersistPayloadAdd r =
     (case TrAction r of
        ActionPassed \<Rightarrow> True
      | ActionFormatted \<Rightarrow> isInPlaceFormatReason (TrReason r)
      | _ \<Rightarrow> False)"

definition sourceSegment :: "CompileResult \<Rightarrow> string \<Rightarrow> Message list" where
  "sourceSegment r seg =
     (if seg = SegmentSystem then elems (CrSystem (ResSource r)) else if seg = SegmentHistory then elems (CrHistory (ResSource r))
      else if seg = SegmentMemory then elems (CrMemory (ResSource r)) else if seg = SegmentTools then elems (CrTools (ResSource r)) else [])"

definition payloadSegment :: "CompileResult \<Rightarrow> string \<Rightarrow> Message list" where
  "payloadSegment r seg =
     (if seg = SegmentSystem then PlSystem (ResPayload r) else if seg = SegmentHistory then PlHistory (ResPayload r)
      else if seg = SegmentMemory then PlMemory (ResPayload r) else if seg = SegmentTools then PlTools (ResPayload r) else [])"

definition pendingIDSet :: "CompileResult \<Rightarrow> string list" where
  "pendingIDSet r = messageIDSet (elems (CrPending (ResSource r))) @
     (case CrCurrentTurn (ResSource r) of None \<Rightarrow> [] | Some t \<Rightarrow> if MsgID (TurnRaw t) = [] then [] else [MsgID (TurnRaw t)])"

definition isArtifactMessage :: "CompileResult \<Rightarrow> string \<Rightarrow> bool" where
  "isArtifactMessage r i = (\<exists>a \<in> set (ResArtifacts r). i = ''artifact:'' @ ArtID a)"

definition keptSource :: "CompileResult \<Rightarrow> string \<Rightarrow> Message list" where
  "keptSource r seg = map Message_Clone (filter (\<lambda>m. MsgID m \<noteq> [] \<and> \<not> (seg = SegmentHistory \<and> MsgID m \<in> set (pendingIDSet r)) \<and>
     (case map_of (ResTransformations r) (MsgID m) of None \<Rightarrow> True | Some chain \<Rightarrow> shouldPersistSourceMessage (Final chain))) (sourceSegment r seg))"

definition payloadAdd :: "CompileResult \<Rightarrow> string list \<Rightarrow> Message \<Rightarrow> Message option" where
  "payloadAdd r sourceIDs m =
     (if isArtifactMessage r (MsgID m) \<or> MsgID m = [] \<or> MsgID m \<in> set (pendingIDSet r) \<or> MsgID m \<in> set sourceIDs then None
      else case map_of (ResTransformations r) (MsgID m) of
        None \<Rightarrow> None
      | Some chain \<Rightarrow>
          if \<not> shouldPersistPayloadAdd (Final chain) then None
          else case map_of (ResIntroduced r) (MsgID m) of
            Some intro \<Rightarrow> Some (Message_Clone intro)
          | None \<Rightarrow>
              if TrAction (Final chain) = ActionFormatted \<and> isInPlaceFormatReason (TrReason (Final chain)) then None
              else Some (Message_Clone m))"

definition payloadAddsForSegment :: "CompileResult \<Rightarrow> string \<Rightarrow> Message list" where
  "payloadAddsForSegment r seg = List.map_filter (payloadAdd r (messageIDSet (sourceSegment r seg))) (payloadSegment r seg)"

text \<open>\<open>byID\<close> is consumed by the first loop, the second one appends what is left.\<close>

fun orderPayload :: "(string \<times> Message) list \<Rightarrow> Message list \<Rightarrow> Message list \<times> (string \<times> Message) list" where
  "orderPayload byID [] = ([], byID)"
| "orderPayload byID (m # ms) =
     (case map_of byID (MsgID m) of
        None \<Rightarrow> orderPayload byID ms
      | Some original \<Rightarrow> let (out, byID') = orderPayload (AList.delete (MsgID m) byID) ms in (original # out, byID'))"

fun orderRest :: "(string \<times> Message) list \<Rightarrow> Message list \<Rightarrow> Message list" where
  "orderRest byID [] = []"
| "orderRest byID (m # ms) =
     (if map_of byID (MsgID m) = None then orderRest byID ms else m # orderRest (AList.delete (MsgID m) byID) ms)"

definition orderPersistenceMessages :: "Message list \<Rightarrow> Message list \<Rightarrow> Message list" where
  "orderPersistenceMessages selected payload =
     (let (out, rest) = orderPayload (fold (\<lambda>m byID. AList.update (MsgID m) m byID) selected []) payload in out @ orderRest rest selected)"

definition currentTurnPersistenceMessages :: "CompileResult \<Rightarrow> string \<Rightarrow> Message list" where
  "currentTurnPersistenceMessages r seg =
     (if seg \<noteq> SegmentHistory then []
      else case Option.bind (CrCurrentTurn (ResSource r)) persistedMessage of
        None \<Rightarrow> []
      | Some m \<Rightarrow> if MsgID m = [] then [] else [m])"

definition derivePersistenceSegment :: "CompileResult \<Rightarrow> string \<Rightarrow> Message list" where
  "derivePersistenceSegment r seg =
     orderPersistenceMessages (keptSource r seg @ payloadAddsForSegment r seg) (payloadSegment r seg) @ currentTurnPersistenceMessages r seg"

definition FlattenMessages :: "AbstractPayload \<Rightarrow> Message list" where
  "FlattenMessages p = PlSystem p @ PlHistory p @ PlTools p @ PlMemory p"

definition snapshotPayload :: "ConversationState \<Rightarrow> AbstractPayload" where
  "snapshotPayload snap = \<lparr>PlSystem = Segment snap SegmentSystem, PlHistory = Segment snap SegmentHistory,
     PlTools = Segment snap SegmentTools, PlMemory = Segment snap SegmentMemory\<rparr>"

text \<open>\<open>validateOpaque\<close> is \<^verbatim>\<open>ValidateOpaqueState\<close> with the codec and the profile of the host.\<close>

definition DerivePersistenceState :: "(Message list \<Rightarrow> unit result) \<Rightarrow> CompileResult \<Rightarrow> ConversationState result" where
  "DerivePersistenceState validateOpaque r =
     (let state = WithArtifacts (fold (\<lambda>seg st. WithSegment st seg (derivePersistenceSegment r seg)) viewSegmentOrder EmptyState) (ResArtifacts r) in
      bind_res (validateOpaque (FlattenMessages (snapshotPayload state))) (\<lambda>_. Inr state))"

subsection \<open>The outcome of a chain\<close>

definition removal :: "TransformRecord \<Rightarrow> bool" where
  "removal t \<longleftrightarrow> TrAction t = ActionEvicted \<or> TrAction t = ActionTruncated"

definition replacing :: "TransformRecord \<Rightarrow> bool" where
  "replacing t \<longleftrightarrow> TrAction t = ActionFormatted \<and> \<not> isInPlaceFormatReason (TrReason t)"

definition retaining :: "TransformRecord \<Rightarrow> bool" where
  "retaining t \<longleftrightarrow> TrAction t = ActionPassed \<or> TrAction t = ActionFormatted \<and> isInPlaceFormatReason (TrReason t)"

lemma finalStep_cases:
  "removal t \<Longrightarrow> finalStep f t = t"
  "replacing t \<Longrightarrow> finalStep f t = (if removal f \<or> replacing f then f else t)"
  "retaining t \<Longrightarrow> finalStep f t = (if removal f \<or> replacing f then f else t)"
  "\<not> removal t \<Longrightarrow> \<not> replacing t \<Longrightarrow> \<not> retaining t \<Longrightarrow> finalStep f t = f"
  by (auto simp: finalStep_def removal_def replacing_def retaining_def split: TransformAction.splits)

lemma kinds_exclusive: "removal t \<Longrightarrow> \<not> replacing t" "removal t \<Longrightarrow> \<not> retaining t" "replacing t \<Longrightarrow> \<not> retaining t"
  by (auto simp: removal_def replacing_def retaining_def)

lemma kinds_zero [simp]: "\<not> removal zeroRecord" "\<not> replacing zeroRecord" "\<not> retaining zeroRecord"
  by (auto simp: removal_def replacing_def retaining_def zeroRecord_def)

lemma Final_Nil [simp]: "Final [] = zeroRecord"
  by (simp add: Final_def)

lemma Final_snoc: "Final (chain @ [t]) = finalStep (Final chain) t"
  by (simp add: Final_def)

lemma Final_kind:
  "(removal (Final chain) \<longleftrightarrow> (\<exists>t \<in> set chain. removal t)) \<and>
   (replacing (Final chain) \<longleftrightarrow> (\<exists>t \<in> set chain. replacing t) \<and> \<not> (\<exists>t \<in> set chain. removal t)) \<and>
   (retaining (Final chain) \<longleftrightarrow> (\<exists>t \<in> set chain. retaining t) \<and> \<not> (\<exists>t \<in> set chain. removal t \<or> replacing t))"
proof (induction chain rule: rev_induct)
  case (snoc t chain)
  consider "removal t" | "replacing t" | "retaining t" | "\<not> removal t" "\<not> replacing t" "\<not> retaining t" by blast
  then show ?case
    using snoc.IH kinds_exclusive [of t] kinds_exclusive [of "Final chain"] by cases (auto simp: Final_snoc finalStep_cases)
qed simp

text \<open>
  The outcome of a chain: the last removal if there is any, whatever happened later; otherwise the first replacement;
  otherwise the last step that retained the message. A source message is therefore persisted exactly when it was observed and
  never removed nor replaced.
\<close>

theorem Final_exact:
  "Final chain =
     (if \<exists>t \<in> set chain. removal t then last (filter removal chain)
      else if \<exists>t \<in> set chain. replacing t then hd (filter replacing chain)
      else if \<exists>t \<in> set chain. retaining t then last (filter retaining chain)
      else zeroRecord) \<and>
   (shouldPersistSourceMessage (Final chain) \<longleftrightarrow>
      (\<exists>t \<in> set chain. retaining t) \<and> \<not> (\<exists>t \<in> set chain. removal t \<or> replacing t))"
proof
  have p: "shouldPersistSourceMessage t \<longleftrightarrow> retaining t" for t
    by (auto simp: shouldPersistSourceMessage_def retaining_def split: TransformAction.splits)
  show "shouldPersistSourceMessage (Final chain) \<longleftrightarrow> (\<exists>t \<in> set chain. retaining t) \<and> \<not> (\<exists>t \<in> set chain. removal t \<or> replacing t)"
    using Final_kind [of chain] by (simp add: p)
  show "Final chain =
     (if \<exists>t \<in> set chain. removal t then last (filter removal chain)
      else if \<exists>t \<in> set chain. replacing t then hd (filter replacing chain)
      else if \<exists>t \<in> set chain. retaining t then last (filter retaining chain)
      else zeroRecord)"
  proof (induction chain rule: rev_induct)
    case (snoc t chain)
    have hd: "hd (filter replacing chain @ xs) = hd (filter replacing chain)" if "\<exists>t \<in> set chain. replacing t" for xs
      using that by (auto simp: filter_empty_conv hd_append)
    consider "removal t" | "replacing t" | "retaining t" | "\<not> removal t" "\<not> replacing t" "\<not> retaining t" by blast
    then show ?case
      using snoc.IH kinds_exclusive [of t] Final_kind [of chain] hd
      by cases (auto simp: Final_snoc finalStep_cases filter_empty_conv)
  qed simp
qed

subsection \<open>Recording only appends\<close>

text \<open>Baselines are stored under the identity of their message.\<close>

definition introduced_wf :: "transformRecorder \<Rightarrow> bool" where
  "introduced_wf rec \<longleftrightarrow> (\<forall>i m. map_of (RecIntroduced rec) i = Some m \<longrightarrow> MsgID m = i \<and> i \<noteq> [])"

definition grows :: "transformRecorder \<Rightarrow> transformRecorder \<Rightarrow> bool" where
  "grows rec rec' \<longleftrightarrow> (\<forall>i. prefix (chainOf rec i) (chainOf rec' i)) \<and> map_of (RecIntroduced rec) \<subseteq>\<^sub>m map_of (RecIntroduced rec') \<and>
     (introduced_wf rec \<longrightarrow> introduced_wf rec') \<and> (chainOf rec [] = [] \<longrightarrow> chainOf rec' [] = [])"

named_theorems grows_intros "every operation of the recorder grows it"

lemma grows_refl [grows_intros]: "grows rec rec"
  by (simp add: grows_def)

lemma grows_trans: "grows a b \<Longrightarrow> grows b c \<Longrightarrow> grows a c"
  unfolding grows_def by (meson map_le_trans prefix_order.order_trans)

lemma grows_fold [grows_intros]: "(\<And>x rec. x \<in> set xs \<Longrightarrow> grows rec (f x rec)) \<Longrightarrow> grows rec (fold f xs rec)"
proof (induction xs arbitrary: rec)
  case (Cons x xs)
  then have "grows rec (f x rec)" "grows (f x rec) (fold f xs (f x rec))" by simp_all
  then show ?case by (auto intro: grows_trans)
qed (simp add: grows_refl)

lemma chainOf_setRecord: "chainOf (setRecord rec i a r) j = (if j = i \<and> i \<noteq> [] then chainOf rec i @ [\<lparr>TrAction = a, TrReason = r\<rparr>] else chainOf rec j)"
  by (auto simp: setRecord_def chainOf_def update_conv')

lemma introduced_setRecord [simp]: "RecIntroduced (setRecord rec i a r) = RecIntroduced rec"
  by (simp add: setRecord_def)

lemma grows_setRecord [grows_intros]: "grows rec (setRecord rec i a r)"
  by (auto simp: grows_def chainOf_setRecord introduced_wf_def)

lemma records_introduce [simp]: "RecRecords (introduceIfAbsent rec m) = RecRecords rec"
  by (simp add: introduceIfAbsent_def)

lemma grows_introduceIfAbsent [grows_intros]: "grows rec (introduceIfAbsent rec m)"
proof -
  have "chainOf (introduceIfAbsent rec m) i = chainOf rec i" for i by (simp add: chainOf_def)
  moreover have "map_of (RecIntroduced rec) \<subseteq>\<^sub>m map_of (RecIntroduced (introduceIfAbsent rec m))"
    by (auto simp: introduceIfAbsent_def map_le_def)
  ultimately show ?thesis by (auto simp: grows_def introduced_wf_def introduceIfAbsent_def)
qed

lemma grows_registerMessage [grows_intros]: "MsgID m \<noteq> [] \<Longrightarrow> grows rec (registerMessage m rec)"
proof -
  assume m: "MsgID m \<noteq> []"
  let ?r = "introduceIfAbsent rec m"
  have "grows ?r (registerMessage m rec)"
    using m by (auto simp: registerMessage_def Let_def grows_def chainOf_def introduced_wf_def)
  then show ?thesis using grows_introduceIfAbsent grows_trans by blast
qed

lemma grows_if [grows_intros]: "(b \<Longrightarrow> grows rec x) \<Longrightarrow> (\<not> b \<Longrightarrow> grows rec y) \<Longrightarrow> grows rec (if b then x else y)"
  by simp

lemma grows_set_introduce [grows_intros]: "grows rec (setRecord (introduceIfAbsent rec m) i a r)"
  using grows_introduceIfAbsent grows_setRecord grows_trans by blast

lemma grows_recordContentTransform [grows_intros]: "grows rec (recordContentTransform rec before after a b c)"
proof -
  have "grows rec (recordBefore before after a b i rec)" "grows rec (recordAfter before after c i rec)" for i rec
    unfolding recordBefore_def recordAfter_def Let_def by (intro grows_intros)+
  then show ?thesis unfolding recordContentTransform_def by (intro grows_trans [OF grows_fold grows_fold])
qed

text \<open>The operations by which the stages of a compile report to the recorder.\<close>

inductive recording :: "transformRecorder \<Rightarrow> transformRecorder \<Rightarrow> bool" where
  merge: "recording rec (recordMergeRemovals rec before after)"
| deferred: "recording rec (registerDeferredMessageIDs rec before' after')"
| hooks: "recording rec (recordSnapshotHookTransforms rec before' after')"
| formatter: "recording rec (recordFormatterTransform rec before after)"
| role: "recording rec (recordContentTransform rec before after ReasonRoleProjection [] [])"
| turn: "recording rec (recordCurrentTurnProjection rec turn)"
| replacement: "recording rec (recordTextReplacement rec m m')"
| evictions: "recording rec (recordEvictions rec before after reason)"
| summary: "recording rec (recordSummarizeReplace rec before m)"
| pending: "recording rec (markProtectedPending rec ids)"

inductive_cases recordingE: "recording rec rec'"

lemma recording_grows: "recording rec rec' \<Longrightarrow> grows rec rec'"
proof (induction rule: recording.induct)
  case (hooks rec before' after')
  have "grows rec (recordHookTransform rec x y)" for rec x y unfolding recordHookTransform_def by (intro grows_intros)
  then show ?case unfolding recordSnapshotHookTransforms_def by (intro grows_trans [OF grows_fold grows_fold] grows_if grows_refl)
next
  case (summary rec before m)
  have "grows rec (fold (\<lambda>m rec. setRecord rec (MsgID m) ActionTruncated ReasonTokenBudgetExceeded) before rec)" by (intro grows_intros)
  then show ?case unfolding recordSummarizeReplace_def Let_def by (intro grows_if grows_trans [OF _ grows_set_introduce])
next
  case (pending rec ids)
  have "grows rec (markPending i rec)" for i rec unfolding markPending_def by (auto split: option.splits intro: grows_intros)
  then show ?case unfolding markProtectedPending_def by (intro grows_fold)
next
  case (turn rec turn)
  then show ?case unfolding recordCurrentTurnProjection_def by (auto split: option.splits intro: grows_intros)
next
  case (deferred rec before' after')
  then show ?case unfolding registerDeferredMessageIDs_def by (intro grows_fold grows_if grows_registerMessage grows_refl) auto
qed (auto simp: recordMergeRemovals_def recordFormatterTransform_def recordTextReplacement_def recordEvictions_def intro!: grows_intros)

lemma recordings_grow: "recording\<^sup>*\<^sup>* rec rec' \<Longrightarrow> grows rec rec'"
  by (induction rule: rtranclp_induct) (auto intro: grows_refl grows_trans recording_grows)

lemma newTransformRecorder_chain:
  "chainOf (newTransformRecorder ms) i = (if i \<noteq> [] \<and> i \<in> MsgID ` set ms then [\<lparr>TrAction = ActionPassed, TrReason = []\<rparr>] else [])"
proof -
  have "map_of (fold (\<lambda>m recs. if MsgID m = [] then recs else AList.update (MsgID m) [t] recs) ms recs) i =
      (if i \<noteq> [] \<and> i \<in> MsgID ` set ms then Some [t] else map_of recs i)" for recs and t :: TransformRecord
    by (induction ms arbitrary: recs) (auto simp: update_conv')
  then show ?thesis by (simp add: newTransformRecorder_def chainOf_def)
qed

text \<open>
  C36. The recorder keeps the whole history of a compile. From the recorder of the source messages, through any sequence of
  recordings by the stages: the chain of every source message starts with a pass; no later recording changes or drops
  an earlier entry of any chain or a baseline that was introduced; baselines stand under the identity of their message; and
  nothing is recorded for a message without identity.
\<close>

theorem recorder_keeps_history:
  assumes "recording\<^sup>*\<^sup>* (newTransformRecorder ms) rec" "recording\<^sup>*\<^sup>* rec rec'"
  shows "(\<forall>i. prefix (chainOf rec i) (chainOf rec' i)) \<and> map_of (RecIntroduced rec) \<subseteq>\<^sub>m map_of (RecIntroduced rec') \<and>
     (\<forall>m \<in> set ms. MsgID m \<noteq> [] \<longrightarrow> prefix [\<lparr>TrAction = ActionPassed, TrReason = []\<rparr>] (chainOf rec' (MsgID m))) \<and>
     introduced_wf rec' \<and> chainOf rec' [] = []"
proof -
  have g: "grows (newTransformRecorder ms) rec" "grows rec rec'" using assms recordings_grow by auto
  have new: "introduced_wf (newTransformRecorder ms)" "chainOf (newTransformRecorder ms) [] = []"
    by (simp add: introduced_wf_def newTransformRecorder_def) (simp add: newTransformRecorder_chain)
  have "prefix [\<lparr>TrAction = ActionPassed, TrReason = []\<rparr>] (chainOf rec' (MsgID m))" if "m \<in> set ms" "MsgID m \<noteq> []" for m
  proof -
    have "chainOf (newTransformRecorder ms) (MsgID m) = [\<lparr>TrAction = ActionPassed, TrReason = []\<rparr>]"
      using that by (simp add: newTransformRecorder_chain)
    moreover have "grows (newTransformRecorder ms) rec'" using g grows_trans by blast
    ultimately show ?thesis unfolding grows_def by metis
  qed
  then show ?thesis using g new unfolding grows_def by blast
qed

theorem recorder_keeps_history_witness:
  "let ms = [userText ''a'' ''one'', userText ''b'' ''two'']; start = newTransformRecorder ms;
       rec = recordEvictions start ms [userText ''b'' ''two''] EvictionReasonBudget;
       rec' = recordSummarizeReplace rec [userText ''b'' ''two''] (userText ''c'' ''summary'')
   in recording\<^sup>*\<^sup>* start rec \<and> recording\<^sup>*\<^sup>* rec rec' \<and> prefix (chainOf rec ''a'') (chainOf rec' ''a'') \<and>
     map TrAction (chainOf rec' ''a'') = [ActionPassed, ActionEvicted] \<and> chainOf rec' [] = []"
proof -
  define ms where "ms = [userText ''a'' ''one'', userText ''b'' ''two'']"
  define rec where "rec = recordEvictions (newTransformRecorder ms) ms [userText ''b'' ''two''] EvictionReasonBudget"
  define rec' where "rec' = recordSummarizeReplace rec [userText ''b'' ''two''] (userText ''c'' ''summary'')"
  have 1: "recording\<^sup>*\<^sup>* (newTransformRecorder ms) rec" unfolding rec_def by (rule r_into_rtranclp) (rule recording.evictions)
  have 2: "recording\<^sup>*\<^sup>* rec rec'" unfolding rec'_def by (rule r_into_rtranclp) (rule recording.summary)
  have "map TrAction (chainOf rec' ''a'') = [ActionPassed, ActionEvicted]" unfolding rec'_def rec_def ms_def by code_simp
  then show ?thesis using recorder_keeps_history [OF 1 2] 1 2 unfolding Let_def rec'_def rec_def ms_def by blast
qed

subsection \<open>What is persisted\<close>

lemma in_map_filter: "y \<in> set (List.map_filter f xs) \<longleftrightarrow> (\<exists>x \<in> set xs. f x = Some y)"
  by (induction xs) (auto simp: List.map_filter_simps split: option.splits)

lemma orderPayload_filter:
  assumes "distinct (map MsgID ms)"
  shows "orderPayload byID ms = (List.map_filter (\<lambda>m. map_of byID (MsgID m)) ms, filter (\<lambda>x. fst x \<notin> MsgID ` set ms) byID)"
  using assms
proof (induction ms arbitrary: byID)
  case (Cons m ms)
  have d: "map_of (AList.delete (MsgID m) byID) (MsgID m') = map_of byID (MsgID m')" if "m' \<in> set ms" for m'
    using that Cons.prems by (force simp: delete_conv' image_iff)
  have f: "filter (\<lambda>x. fst x \<notin> MsgID ` set ms) (AList.delete (MsgID m) byID) = filter (\<lambda>x. fst x \<notin> MsgID ` set (m # ms)) byID"
    by (auto simp: AList.delete_eq filter_filter intro!: filter_cong)
  have "List.map_filter (\<lambda>m'. map_of (AList.delete (MsgID m) byID) (MsgID m')) ms' = List.map_filter (\<lambda>m'. map_of byID (MsgID m')) ms'"
    if "set ms' \<subseteq> set ms" for ms'
    using that by (induction ms') (auto simp: List.map_filter_simps d split: option.splits)
  then have mf: "List.map_filter (\<lambda>m'. map_of (AList.delete (MsgID m) byID) (MsgID m')) ms = List.map_filter (\<lambda>m'. map_of byID (MsgID m')) ms"
    by simp
  show ?case
  proof (cases "map_of byID (MsgID m)")
    case None
    then have "filter (\<lambda>x. fst x \<notin> MsgID ` set ms) byID = filter (\<lambda>x. fst x \<notin> MsgID ` set (m # ms)) byID"
      by (intro filter_cong) (auto simp: map_of_eq_None_iff image_iff)
    then show ?thesis using None Cons.IH [of byID] Cons.prems by (simp add: List.map_filter_simps)
  next
    case (Some original)
    then show ?thesis using Cons.IH [of "AList.delete (MsgID m) byID"] Cons.prems f mf by (simp add: List.map_filter_simps)
  qed
qed (simp add: List.map_filter_def)

lemma orderRest_filter: "distinct (map MsgID ms) \<Longrightarrow> orderRest byID ms = filter (\<lambda>m. map_of byID (MsgID m) \<noteq> None) ms"
proof (induction ms arbitrary: byID)
  case (Cons m ms)
  have "filter (\<lambda>m'. map_of (AList.delete (MsgID m) byID) (MsgID m') \<noteq> None) ms = filter (\<lambda>m'. map_of byID (MsgID m') \<noteq> None) ms"
    using Cons.prems by (intro filter_cong) (force simp: delete_conv' image_iff)+
  then show ?case using Cons by auto
qed simp

lemma byID_map:
  assumes "distinct (map MsgID ms)"
  shows "map_of (fold (\<lambda>m byID. AList.update (MsgID m) m byID) ms []) i = map_of (map (\<lambda>m. (MsgID m, m)) ms) i"
proof -
  have "map_of (fold (\<lambda>m byID. AList.update (MsgID m) m byID) ms byID) i =
      (case map_of (map (\<lambda>m. (MsgID m, m)) ms) i of None \<Rightarrow> map_of byID i | Some m \<Rightarrow> Some m)" for byID
    using assms
  proof (induction ms arbitrary: byID)
    case (Cons m ms)
    then have "MsgID m \<notin> MsgID ` set ms" by auto
    then have "map_of (map (\<lambda>m. (MsgID m, m)) ms) (MsgID m) = None" by (simp add: map_of_eq_None_iff image_image)
    with Cons show ?case by (auto simp: update_conv' split: option.splits)
  qed simp
  then show ?thesis by (simp split: option.splits)
qed

text \<open>Selected messages in the order of the payload, then the others in their own order.\<close>

lemma orderPersistenceMessages_order:
  assumes "distinct (map MsgID selected)" "distinct (map MsgID payload)"
  shows "orderPersistenceMessages selected payload =
     List.map_filter (\<lambda>m. map_of (map (\<lambda>m. (MsgID m, m)) selected) (MsgID m)) payload @ filter (\<lambda>m. MsgID m \<notin> MsgID ` set payload) selected"
proof -
  let ?byID = "fold (\<lambda>m byID. AList.update (MsgID m) m byID) selected []"
  have "filter (\<lambda>m. map_of (filter (\<lambda>x. fst x \<notin> MsgID ` set payload) ?byID) (MsgID m) \<noteq> None) selected = filter (\<lambda>m. MsgID m \<notin> MsgID ` set payload) selected"
  proof (intro filter_cong refl)
    fix m assume "m \<in> set selected"
    then have "map_of ?byID (MsgID m) \<noteq> None" by (simp add: byID_map [OF assms(1)] map_of_eq_None_iff image_image)
    then have "MsgID m \<in> fst ` set ?byID" by (simp add: map_of_eq_None_iff)
    then show "map_of (filter (\<lambda>x. fst x \<notin> MsgID ` set payload) ?byID) (MsgID m) \<noteq> None \<longleftrightarrow> MsgID m \<notin> MsgID ` set payload"
      by (auto simp: map_of_eq_None_iff)
  qed
  then show ?thesis using assms byID_map [OF assms(1)] by (simp add: orderPersistenceMessages_def orderPayload_filter orderRest_filter)
qed

lemma orderPersistenceMessages_perm:
  assumes "distinct (map MsgID selected)" "distinct (map MsgID payload)"
  shows "set (orderPersistenceMessages selected payload) = set selected \<and> distinct (map MsgID (orderPersistenceMessages selected payload)) \<and>
     filter (\<lambda>i. i \<in> MsgID ` set payload) (map MsgID (orderPersistenceMessages selected payload)) =
       filter (\<lambda>i. i \<in> MsgID ` set selected) (map MsgID payload) \<and>
     filter (\<lambda>m. MsgID m \<notin> MsgID ` set payload) (orderPersistenceMessages selected payload) = filter (\<lambda>m. MsgID m \<notin> MsgID ` set payload) selected"
proof -
  let ?by = "map_of (map (\<lambda>m. (MsgID m, m)) selected)"
  let ?front = "List.map_filter (\<lambda>m. ?by (MsgID m)) payload"
  have look: "?by i = Some m \<longleftrightarrow> m \<in> set selected \<and> MsgID m = i" for i m
    using assms(1) by (subst map_of_eq_Some_iff) (auto simp: comp_def)
  have none': "?by i = None \<longleftrightarrow> i \<notin> MsgID ` set selected" for i by (simp add: map_of_eq_None_iff image_image)
  have front: "set ?front = {m \<in> set selected. MsgID m \<in> MsgID ` set payload}"
    by (auto simp: in_map_filter look image_iff)
  have ids: "map MsgID (List.map_filter (\<lambda>m. ?by (MsgID m)) ms) = filter (\<lambda>i. i \<in> MsgID ` set selected) (map MsgID ms)" for ms
    by (induction ms) (auto simp: List.map_filter_simps look none' split: option.splits intro: rev_image_eqI)
  have none: "filter (\<lambda>m. MsgID m \<notin> MsgID ` set payload) ?front = []" using front by (auto simp: filter_empty_conv)
  have all: "filter (\<lambda>i. i \<in> MsgID ` set payload) (map MsgID ?front) = map MsgID ?front" using front by (auto intro!: filter_True)
  have rest: "filter (\<lambda>i. i \<in> MsgID ` set payload) (map MsgID (filter (\<lambda>m. MsgID m \<notin> MsgID ` set payload) selected)) = []"
    by (auto simp: filter_empty_conv)
  have "distinct (map MsgID ?front)" unfolding ids using assms(2) by (rule distinct_filter)
  moreover have "distinct (map MsgID (filter (\<lambda>m. MsgID m \<notin> MsgID ` set payload) selected))" using assms(1) by (rule distinct_map_filter)
  moreover have "MsgID ` set ?front \<inter> MsgID ` set (filter (\<lambda>m. MsgID m \<notin> MsgID ` set payload) selected) = {}"
    unfolding front by (auto simp: image_iff)
  ultimately have "distinct (map MsgID (?front @ filter (\<lambda>m. MsgID m \<notin> MsgID ` set payload) selected))"
    unfolding map_append distinct_append set_map by blast
  moreover have "set (?front @ filter (\<lambda>m. MsgID m \<notin> MsgID ` set payload) selected) = set selected" using front by auto
  ultimately show ?thesis
    unfolding orderPersistenceMessages_order [OF assms] using none all rest ids [of payload] by (simp only: map_append filter_append filter_filter) simp
qed

lemma keptSource_ids: "distinct (map MsgID (sourceSegment r seg)) \<Longrightarrow> distinct (map MsgID (keptSource r seg))"
  by (simp add: keptSource_def comp_def distinct_map_filter)

definition result_wf :: "CompileResult \<Rightarrow> string \<Rightarrow> bool" where
  "result_wf r seg \<longleftrightarrow> distinct (map MsgID (sourceSegment r seg)) \<and> distinct (map MsgID (payloadSegment r seg)) \<and>
     (\<forall>i m. map_of (ResIntroduced r) i = Some m \<longrightarrow> MsgID m = i)"

lemma payloadAdd_id:
  assumes "payloadAdd r ids m = Some m'" "\<forall>i m. map_of (ResIntroduced r) i = Some m \<longrightarrow> MsgID m = i"
  shows "MsgID m' = MsgID m \<and> MsgID m \<notin> set ids \<and> MsgID m \<noteq> []"
  using assms by (auto simp: payloadAdd_def split: if_splits option.splits)

lemma payloadAdds_ids:
  assumes "result_wf r seg"
  shows "distinct (map MsgID (payloadAddsForSegment r seg)) \<and> MsgID ` set (payloadAddsForSegment r seg) \<inter> set (messageIDSet (sourceSegment r seg)) = {} \<and>
     [] \<notin> MsgID ` set (payloadAddsForSegment r seg)"
proof -
  let ?f = "payloadAdd r (messageIDSet (sourceSegment r seg))"
  have i: "\<forall>i m. map_of (ResIntroduced r) i = Some m \<longrightarrow> MsgID m = i" and d: "distinct (map MsgID (payloadSegment r seg))"
    using assms by (auto simp: result_wf_def)
  have "map MsgID (List.map_filter ?f ms) = map MsgID (filter (\<lambda>m. ?f m \<noteq> None) ms)" for ms
    by (induction ms) (auto simp: List.map_filter_simps dest: payloadAdd_id [OF _ i] split: option.splits)
  then have "distinct (map MsgID (List.map_filter ?f (payloadSegment r seg)))" using d by (simp add: distinct_map_filter)
  moreover have "MsgID m' \<notin> set (messageIDSet (sourceSegment r seg)) \<and> MsgID m' \<noteq> []" if "m' \<in> set (List.map_filter ?f (payloadSegment r seg))" for m'
    using that payloadAdd_id [OF _ i] by (fastforce simp: List.map_filter_def)
  ultimately show ?thesis unfolding payloadAddsForSegment_def by fastforce
qed

lemma payloadAdds_member:
  assumes "result_wf r seg" "m \<in> set (payloadSegment r seg)"
  shows "MsgID m \<in> MsgID ` set (payloadAddsForSegment r seg) \<longleftrightarrow> payloadAdd r (messageIDSet (sourceSegment r seg)) m \<noteq> None"
proof -
  have i: "\<forall>i m. map_of (ResIntroduced r) i = Some m \<longrightarrow> MsgID m = i" and d: "inj_on MsgID (set (payloadSegment r seg))"
    using assms(1) by (auto simp: result_wf_def distinct_map)
  have same: "MsgID m' = MsgID x" if "payloadAdd r (messageIDSet (sourceSegment r seg)) x = Some m'" for x m'
    using payloadAdd_id [OF that i] by simp
  show ?thesis
  proof
    assume "MsgID m \<in> MsgID ` set (payloadAddsForSegment r seg)"
    then obtain m' x where "MsgID m' = MsgID m" "x \<in> set (payloadSegment r seg)" "payloadAdd r (messageIDSet (sourceSegment r seg)) x = Some m'"
      by (auto simp: payloadAddsForSegment_def in_map_filter)
    with same inj_onD [OF d _ _ assms(2), of x] show "payloadAdd r (messageIDSet (sourceSegment r seg)) m \<noteq> None" by auto
  next
    assume "payloadAdd r (messageIDSet (sourceSegment r seg)) m \<noteq> None"
    then obtain m' where "payloadAdd r (messageIDSet (sourceSegment r seg)) m = Some m'" by blast
    with same assms(2) show "MsgID m \<in> MsgID ` set (payloadAddsForSegment r seg)"
      by (intro image_eqI [of _ _ m']) (auto simp: payloadAddsForSegment_def in_map_filter)
  qed
qed

lemma selected_ids:
  assumes "result_wf r seg"
  shows "distinct (map MsgID (keptSource r seg @ payloadAddsForSegment r seg))"
proof -
  have "MsgID m \<in> set (messageIDSet (sourceSegment r seg))" if "m \<in> set (keptSource r seg)" for m
    using that by (auto simp: keptSource_def messageIDSet_def)
  then have "MsgID ` set (keptSource r seg) \<inter> MsgID ` set (payloadAddsForSegment r seg) = {}" using payloadAdds_ids [OF assms] by blast
  then show ?thesis using assms payloadAdds_ids [OF assms] keptSource_ids [of r seg] by (simp add: result_wf_def)
qed

definition survives :: "CompileResult \<Rightarrow> string \<Rightarrow> bool" where
  "survives r i \<longleftrightarrow> (\<forall>chain. map_of (ResTransformations r) i = Some chain \<longrightarrow>
     (\<exists>t \<in> set chain. retaining t) \<and> \<not> (\<exists>t \<in> set chain. removal t \<or> replacing t))"

lemma Final_persists:
  "shouldPersistSourceMessage (Final chain) \<longleftrightarrow> (\<exists>t \<in> set chain. retaining t) \<and> \<not> (\<exists>t \<in> set chain. removal t \<or> replacing t)"
  "shouldPersistPayloadAdd (Final chain) \<longleftrightarrow> (\<exists>t \<in> set chain. retaining t) \<and> \<not> (\<exists>t \<in> set chain. removal t \<or> replacing t)"
proof -
  have "shouldPersistSourceMessage t \<longleftrightarrow> retaining t" "shouldPersistPayloadAdd t \<longleftrightarrow> retaining t" for t
    by (auto simp: shouldPersistSourceMessage_def shouldPersistPayloadAdd_def retaining_def split: TransformAction.splits)
  with Final_kind [of chain]
  show "shouldPersistSourceMessage (Final chain) \<longleftrightarrow> (\<exists>t \<in> set chain. retaining t) \<and> \<not> (\<exists>t \<in> set chain. removal t \<or> replacing t)"
    and "shouldPersistPayloadAdd (Final chain) \<longleftrightarrow> (\<exists>t \<in> set chain. retaining t) \<and> \<not> (\<exists>t \<in> set chain. removal t \<or> replacing t)"
    by simp_all
qed

lemma kept_iff:
  "m' \<in> set (keptSource r seg) \<longleftrightarrow> (\<exists>m \<in> set (sourceSegment r seg). m' = Message_Clone m \<and> MsgID m \<noteq> [] \<and>
     \<not> (seg = SegmentHistory \<and> MsgID m \<in> set (pendingIDSet r)) \<and> survives r (MsgID m))"
  by (auto simp: keptSource_def survives_def Final_persists split: option.splits)

lemma add_shape:
  assumes "payloadAdd r ids m = Some m'"
  shows "MsgID m \<notin> set ids \<and> MsgID m \<noteq> [] \<and> \<not> isArtifactMessage r (MsgID m) \<and> MsgID m \<notin> set (pendingIDSet r) \<and> survives r (MsgID m) \<and>
     map_of (ResTransformations r) (MsgID m) \<noteq> None \<and> m' = Message_Clone (case map_of (ResIntroduced r) (MsgID m) of Some b \<Rightarrow> b | None \<Rightarrow> m)"
  using assms by (auto simp: payloadAdd_def survives_def Final_persists split: if_splits option.splits)

lemma payloadAdd_defined:
  "payloadAdd r ids m \<noteq> None \<longleftrightarrow> MsgID m \<noteq> [] \<and> MsgID m \<notin> set ids \<and> \<not> isArtifactMessage r (MsgID m) \<and> MsgID m \<notin> set (pendingIDSet r) \<and>
     survives r (MsgID m) \<and> (\<exists>chain. map_of (ResTransformations r) (MsgID m) = Some chain \<and>
       (map_of (ResIntroduced r) (MsgID m) \<noteq> None \<or> TrAction (Final chain) = ActionPassed))"
proof (cases "map_of (ResTransformations r) (MsgID m)")
  case (Some chain)
  then have "survives r (MsgID m) \<longleftrightarrow> shouldPersistPayloadAdd (Final chain)" by (simp add: survives_def Final_persists)
  with Some show ?thesis by (cases "TrAction (Final chain)") (auto simp: payloadAdd_def shouldPersistPayloadAdd_def split: option.splits)
qed (simp add: payloadAdd_def)

text \<open>
  C8. What a compile result persists of a segment. The messages the compile derives, apart from the current turn that follows
  them, have distinct identities; a source message with an identity is among them, in its source form whatever the
  compile made of its text, exactly when it is not pending and no recorded transformation removed or replaced
  it; every other one is a message the compile introduced under a new identity, in the form it was introduced with, and of the
  messages with a new identity in the payload exactly those are persisted that are no artifact, are not pending, were recorded and neither removed nor
  replaced, and have an introduced form or were never reformatted; and the messages the payload holds stand in the payload's order.
\<close>

theorem persistence_exact:
  assumes "result_wf r seg"
  shows "\<exists>out. derivePersistenceSegment r seg = out @ currentTurnPersistenceMessages r seg \<and> distinct (map MsgID out) \<and>
     (\<forall>m \<in> set (sourceSegment r seg). MsgID m \<noteq> [] \<longrightarrow>
        (Message_Clone m \<in> set out \<longleftrightarrow> \<not> (seg = SegmentHistory \<and> MsgID m \<in> set (pendingIDSet r)) \<and> survives r (MsgID m))) \<and>
     (\<forall>m' \<in> set out. MsgID m' \<in> MsgID ` set (sourceSegment r seg) \<and> m' \<in> Message_Clone ` set (sourceSegment r seg) \<or>
        (\<exists>m \<in> set (payloadSegment r seg). MsgID m \<notin> MsgID ` set (sourceSegment r seg) \<and> \<not> isArtifactMessage r (MsgID m) \<and>
           MsgID m \<notin> set (pendingIDSet r) \<and> survives r (MsgID m) \<and> m' = Message_Clone (case map_of (ResIntroduced r) (MsgID m) of Some b \<Rightarrow> b | None \<Rightarrow> m))) \<and>
     (\<forall>m \<in> set (payloadSegment r seg). MsgID m \<noteq> [] \<and> MsgID m \<notin> MsgID ` set (sourceSegment r seg) \<longrightarrow>
        (MsgID m \<in> MsgID ` set out \<longleftrightarrow> \<not> isArtifactMessage r (MsgID m) \<and> MsgID m \<notin> set (pendingIDSet r) \<and> survives r (MsgID m) \<and>
           (\<exists>chain. map_of (ResTransformations r) (MsgID m) = Some chain \<and>
              (map_of (ResIntroduced r) (MsgID m) \<noteq> None \<or> TrAction (Final chain) = ActionPassed)))) \<and>
     filter (\<lambda>i. i \<in> MsgID ` set (payloadSegment r seg)) (map MsgID out) = filter (\<lambda>i. i \<in> MsgID ` set out) (map MsgID (payloadSegment r seg))"
proof (intro exI [of _ "orderPersistenceMessages (keptSource r seg @ payloadAddsForSegment r seg) (payloadSegment r seg)"] conjI)
  let ?sel = "keptSource r seg @ payloadAddsForSegment r seg" and ?pl = "payloadSegment r seg" and ?src = "sourceSegment r seg"
  let ?out = "orderPersistenceMessages ?sel ?pl"
  have d: "distinct (map MsgID ?src)" "distinct (map MsgID ?pl)" using assms by (auto simp: result_wf_def)
  note perm = orderPersistenceMessages_perm [OF selected_ids [OF assms] d(2)]
  show "derivePersistenceSegment r seg = ?out @ currentTurnPersistenceMessages r seg" by (simp add: derivePersistenceSegment_def)
  show "distinct (map MsgID ?out)" using perm by blast
  show "filter (\<lambda>i. i \<in> MsgID ` set ?pl) (map MsgID ?out) = filter (\<lambda>i. i \<in> MsgID ` set ?out) (map MsgID ?pl)" using perm by metis
  have adds: "\<exists>m \<in> set ?pl. payloadAdd r (messageIDSet ?src) m = Some m'" if "m' \<in> set (payloadAddsForSegment r seg)" for m'
    using that by (simp add: payloadAddsForSegment_def in_map_filter)
  show "\<forall>m' \<in> set ?out. MsgID m' \<in> MsgID ` set ?src \<and> m' \<in> Message_Clone ` set ?src \<or>
      (\<exists>m \<in> set ?pl. MsgID m \<notin> MsgID ` set ?src \<and> \<not> isArtifactMessage r (MsgID m) \<and> MsgID m \<notin> set (pendingIDSet r) \<and> survives r (MsgID m) \<and>
         m' = Message_Clone (case map_of (ResIntroduced r) (MsgID m) of Some b \<Rightarrow> b | None \<Rightarrow> m))"
  proof
    fix m' assume "m' \<in> set ?out"
    then consider "m' \<in> set (keptSource r seg)" | "m' \<in> set (payloadAddsForSegment r seg)" using perm by auto
    then show "MsgID m' \<in> MsgID ` set ?src \<and> m' \<in> Message_Clone ` set ?src \<or>
      (\<exists>m \<in> set ?pl. MsgID m \<notin> MsgID ` set ?src \<and> \<not> isArtifactMessage r (MsgID m) \<and> MsgID m \<notin> set (pendingIDSet r) \<and> survives r (MsgID m) \<and>
         m' = Message_Clone (case map_of (ResIntroduced r) (MsgID m) of Some b \<Rightarrow> b | None \<Rightarrow> m))"
    proof cases
      case 1
      then show ?thesis by (auto simp: kept_iff)
    next
      case 2
      with adds obtain m where "m \<in> set ?pl" "payloadAdd r (messageIDSet ?src) m = Some m'" by blast
      with add_shape [OF this(2)] show ?thesis by (auto simp: messageIDSet_def)
    qed
  qed
  show "\<forall>m \<in> set ?pl. MsgID m \<noteq> [] \<and> MsgID m \<notin> MsgID ` set ?src \<longrightarrow>
      (MsgID m \<in> MsgID ` set ?out \<longleftrightarrow> \<not> isArtifactMessage r (MsgID m) \<and> MsgID m \<notin> set (pendingIDSet r) \<and> survives r (MsgID m) \<and>
         (\<exists>chain. map_of (ResTransformations r) (MsgID m) = Some chain \<and>
            (map_of (ResIntroduced r) (MsgID m) \<noteq> None \<or> TrAction (Final chain) = ActionPassed)))"
  proof (intro ballI impI)
    fix m assume m: "m \<in> set ?pl" "MsgID m \<noteq> [] \<and> MsgID m \<notin> MsgID ` set ?src"
    have "MsgID m \<notin> MsgID ` set (keptSource r seg)" using m(2) by (auto simp: kept_iff)
    then have "MsgID m \<in> MsgID ` set ?out \<longleftrightarrow> MsgID m \<in> MsgID ` set (payloadAddsForSegment r seg)" using perm by (auto simp: image_Un)
    also have "\<dots> \<longleftrightarrow> payloadAdd r (messageIDSet ?src) m \<noteq> None" by (rule payloadAdds_member [OF assms m(1)])
    also have "\<dots> \<longleftrightarrow> \<not> isArtifactMessage r (MsgID m) \<and> MsgID m \<notin> set (pendingIDSet r) \<and> survives r (MsgID m) \<and>
         (\<exists>chain. map_of (ResTransformations r) (MsgID m) = Some chain \<and>
            (map_of (ResIntroduced r) (MsgID m) \<noteq> None \<or> TrAction (Final chain) = ActionPassed))"
      unfolding payloadAdd_defined using m(2) by (auto simp: messageIDSet_def)
    finally show "MsgID m \<in> MsgID ` set ?out \<longleftrightarrow> \<dots>" .
  qed
  show "\<forall>m \<in> set ?src. MsgID m \<noteq> [] \<longrightarrow>
      (Message_Clone m \<in> set ?out \<longleftrightarrow> \<not> (seg = SegmentHistory \<and> MsgID m \<in> set (pendingIDSet r)) \<and> survives r (MsgID m))"
  proof (intro ballI impI)
    fix m assume m: "m \<in> set ?src" "MsgID m \<noteq> []"
    have "Message_Clone m \<notin> set (payloadAddsForSegment r seg)" using payloadAdds_ids [OF assms] m by (auto simp: messageIDSet_def)
    then have "Message_Clone m \<in> set ?out \<longleftrightarrow> Message_Clone m \<in> set (keptSource r seg)" using perm by simp
    also have "\<dots> \<longleftrightarrow> \<not> (seg = SegmentHistory \<and> MsgID m \<in> set (pendingIDSet r)) \<and> survives r (MsgID m)"
      using m by (force simp: kept_iff dest: arg_cong [where f = MsgID])
    finally show "Message_Clone m \<in> set ?out \<longleftrightarrow> \<not> (seg = SegmentHistory \<and> MsgID m \<in> set (pendingIDSet r)) \<and> survives r (MsgID m)" .
  qed
qed

definition sampleResult :: CompileResult where
  "sampleResult = \<lparr>ResSource = (sampleTurnRequest ''t'')\<lparr>CrHistory := Some [userText ''a'' ''one'', userText ''b'' ''two'', userText ''c'' ''three''],
       CrPending := Some [userText ''c'' ''three'']\<rparr>,
     ResPayload = \<lparr>PlSystem = [], PlHistory = [userText ''n'' ''new'', userText ''b'' ''TWO'', userText ''c'' ''three''], PlTools = [], PlMemory = []\<rparr>,
     ResTransformations = [(''a'', [\<lparr>TrAction = ActionPassed, TrReason = []\<rparr>, \<lparr>TrAction = ActionEvicted, TrReason = ReasonTokenBudgetExceeded\<rparr>]),
       (''b'', [\<lparr>TrAction = ActionPassed, TrReason = []\<rparr>]), (''n'', [\<lparr>TrAction = ActionPassed, TrReason = []\<rparr>])],
     ResIntroduced = [(''n'', userText ''n'' ''new'')], ResArtifacts = []\<rparr>"

theorem persistence_exact_witness:
  "result_wf sampleResult SegmentHistory \<and>
     (\<exists>out. derivePersistenceSegment sampleResult SegmentHistory = out @ currentTurnPersistenceMessages sampleResult SegmentHistory \<and>
        distinct (map MsgID out)) \<and>
     map MsgID (derivePersistenceSegment sampleResult SegmentHistory) = [''n'', ''b'']"
proof -
  have "distinct (map MsgID (sourceSegment sampleResult SegmentHistory))" "distinct (map MsgID (payloadSegment sampleResult SegmentHistory))"
    by code_simp+
  then have "result_wf sampleResult SegmentHistory" by (simp add: result_wf_def sampleResult_def userText_id)
  moreover have "map MsgID (derivePersistenceSegment sampleResult SegmentHistory) = [''n'', ''b'']" by code_simp
  ultimately show ?thesis using persistence_exact [of sampleResult SegmentHistory] by blast
qed

end
