(* ===== verification/Opaque_State.thy ===== *)
theory Opaque_State
  imports Transform_Log
begin

text \<open>
  Opaque provider state (opaque_state.go, opaque_state_policy.go, opaque_manifest.go): an extension that carries state of an
  external model together with the context it depends on. A compile checks that every state still stands in the context
  it was bound to, and fails or drops the state otherwise; dropping one can invalidate another, so the check is repeated
  until it is stable.
\<close>

abbreviation ErrInvalidOpaqueState :: go_error where
  "ErrInvalidOpaqueState \<equiv> Sentinel ''ErrInvalidOpaqueState''"
abbreviation ErrMissingOpaqueStateCodec :: go_error where
  "ErrMissingOpaqueStateCodec \<equiv> Sentinel ''ErrMissingOpaqueStateCodec''"
abbreviation ErrMissingOpaqueStatePolicy :: go_error where
  "ErrMissingOpaqueStatePolicy \<equiv> Sentinel ''ErrMissingOpaqueStatePolicy''"
abbreviation ErrOpaqueStateInvalidated :: go_error where
  "ErrOpaqueStateInvalidated \<equiv> Sentinel ''ErrOpaqueStateInvalidated''"
abbreviation ErrInvalidOutputPolicy :: go_error where
  "ErrInvalidOutputPolicy \<equiv> Sentinel ''ErrInvalidOutputPolicy''"

subsection \<open>The envelope\<close>

record OpaqueBinding =
  BindProfile :: Descriptor
  BindRequired :: "ContentRef list"
  BindPrefix :: "ContentRef list"
  BindBoundary :: string

record OpaqueState =
  OsID :: string
  OsCodec :: Descriptor
  OsPayload :: Extension
  OsAfterPart :: int
  OsBinding :: OpaqueBinding

text \<open>
  Extensions are host interface values, so the type switch \<^verbatim>\<open>opaqueStateFromExtension\<close> on the Go type behind one is a function of the
  host, as is the JSON of a state (\<open>None\<close> when it cannot be marshalled). \<open>OhCodecs\<close> is \<^verbatim>\<open>registry.opaqueCodecs\<close>, with \<open>None\<close> a nil registry.
\<close>

record OpaqueHost =
  OhEnv :: env
  OhState :: "Extension \<Rightarrow> OpaqueState option"
  OhJSON :: "OpaqueState \<Rightarrow> string option"
  OhCodecs :: "(string \<times> Descriptor) list option"

definition validateOpaqueRefs :: "ContentRef list \<Rightarrow> bool" where
  "validateOpaqueRefs refs \<longleftrightarrow> (\<forall>ref \<in> set refs. ContentRef_Validate ref = Inr () \<and> RefOccurrence ref = []) \<and> distinct refs"

definition OpaqueState_validate :: "OpaqueState \<Rightarrow> unit result" where
  "OpaqueState_validate s =
     (let b = OsBinding s in
      if OsID s = [] \<or> nilExtension (OsPayload s) \<or> ext_type (OsPayload s) = [] \<or> ext_type (OsPayload s) = OpaqueStateExtensionType \<or>
         OsAfterPart s < -1
        then Inl ErrInvalidOpaqueState
      else if Descriptor_Validate (OsCodec s) \<noteq> Inr () \<or> Descriptor_Validate (BindProfile b) \<noteq> Inr () then Inl ErrInvalidOpaqueState
      else if (BindPrefix b = []) \<noteq> (BindBoundary b = []) then Inl ErrInvalidOpaqueState
      else if \<not> validateOpaqueRefs (BindRequired b) \<or> \<not> validateOpaqueRefs (BindPrefix b) then Inl ErrInvalidOpaqueState
      else if BindPrefix b \<noteq> [] \<and> RefID (last (BindPrefix b)) \<noteq> BindBoundary b then Inl ErrInvalidOpaqueState
      else Inr ())"

definition validateOpaquePayloadCodec :: "OpaqueHost \<Rightarrow> OpaqueState \<Rightarrow> unit result" where
  "validateOpaquePayloadCodec H s =
     (case OhCodecs H of None \<Rightarrow> Inl ErrMissingOpaqueStateCodec
      | Some codecs \<Rightarrow> if map_of codecs (ext_type (OsPayload s)) = Some (OsCodec s) then Inr () else Inl ErrMissingOpaqueStateCodec)"

text \<open>\<^verbatim>\<open>extensionEqual\<close> of two states: same type, and the same JSON when both have one.\<close>

definition opaqueEqual :: "OpaqueHost \<Rightarrow> OpaqueState \<Rightarrow> OpaqueState \<Rightarrow> bool" where
  "opaqueEqual H a b = (case (OhJSON H a, OhJSON H b) of (Some x, Some y) \<Rightarrow> x = y | _ \<Rightarrow> False)"

subsection \<open>Inventory\<close>

record opaqueStateOrigin =
  OrMessage :: Message
  OrState :: OpaqueState
  OrOrder :: nat

type_synonym inventory = "(string \<times> opaqueStateOrigin) list"

text \<open>\<open>cloneOpaqueState\<close> copies the payload through the host.\<close>

definition cloneOpaqueState :: "OpaqueState \<Rightarrow> OpaqueState" where
  "cloneOpaqueState s = s\<lparr>OsPayload := (if nilExtension (OsPayload s) then OsPayload s else CloneExtension (OsPayload s))\<rparr>"

fun inventoryMessage :: "OpaqueHost \<Rightarrow> Message \<Rightarrow> nat \<Rightarrow> inventory \<Rightarrow> Extension list \<Rightarrow> inventory result" where
  "inventoryMessage H m order states [] = Inr states"
| "inventoryMessage H m order states (e # es) =
     (case OhState H e of
        None \<Rightarrow> if \<not> nilExtension e \<and> ext_type e = OpaqueStateExtensionType then Inl ErrInvalidOpaqueState
                else inventoryMessage H m (Suc order) states es
      | Some s \<Rightarrow> bind_res (OpaqueState_validate s) (\<lambda>_.
          if map_of states (OsID s) \<noteq> None then Inl ErrInvalidOpaqueState
          else inventoryMessage H m (Suc order)
                 (states @ [(OsID s, \<lparr>OrMessage = Message_Clone m, OrState = cloneOpaqueState s, OrOrder = order\<rparr>)]) es))"

fun inventory_from :: "OpaqueHost \<Rightarrow> inventory \<Rightarrow> Message list \<Rightarrow> inventory result" where
  "inventory_from H states [] = Inr states"
| "inventory_from H states (m # ms) = bind_res (inventoryMessage H m 0 states (MsgExtensions m)) (\<lambda>states'. inventory_from H states' ms)"

definition opaqueStateInventory :: "OpaqueHost \<Rightarrow> Message list \<Rightarrow> inventory result" where
  "opaqueStateInventory H msgs = inventory_from H [] msgs"

definition hasOpaqueState :: "Message list \<Rightarrow> bool" where
  "hasOpaqueState msgs = (\<exists>m \<in> set msgs. \<exists>e \<in> set (MsgExtensions m). \<not> nilExtension e \<and> ext_type e = OpaqueStateExtensionType)"

subsection \<open>One state in its context\<close>

text \<open>The last message with the identity is the owner; every one of them must have the part that the state stands after.\<close>

definition opaqueContextRefs :: "OpaqueHost \<Rightarrow> Message list \<Rightarrow> string \<Rightarrow> int \<Rightarrow> (ContentRef list \<times> nat) result" where
  "opaqueContextRefs H msgs owner after =
     bind_res (map_res (\<lambda>m. bind_res (MessageContentRef (OhEnv H) m) (\<lambda>ref.
         if MsgID m = owner \<and> after \<ge> int (length (MsgParts m)) then Inl ErrInvalidOpaqueState else Inr ref)) msgs) (\<lambda>refs.
     case filter (\<lambda>i. MsgID (msgs ! i) = owner) [0..<length msgs] of
       [] \<Rightarrow> Inl ErrOpaqueStateInvalidated
     | is \<Rightarrow> Inr (refs, last is))"

text \<open>\<open>byID\<close> holds the last reference of each identity; the boundary is the first message before the owner with its identity.\<close>

definition validateOpaqueBinding :: "OpaqueBinding \<Rightarrow> nat \<Rightarrow> ContentRef list \<Rightarrow> unit result" where
  "validateOpaqueBinding b owner refs =
     (if \<exists>req \<in> set (BindRequired b). RefID req = RefID (refs ! owner) \<or> map_of (rev (map (\<lambda>r. (RefID r, r)) refs)) (RefID req) \<noteq> Some req
        then Inl ErrOpaqueStateInvalidated
      else if BindPrefix b = [] then Inr ()
      else case filter (\<lambda>i. RefID (refs ! i) = BindBoundary b) [0..<owner] of
        [] \<Rightarrow> Inl ErrOpaqueStateInvalidated
      | i # _ \<Rightarrow> if BindPrefix b = take (Suc i) refs then Inr () else Inl ErrOpaqueStateInvalidated)"

definition validateOneOpaqueState :: "OpaqueHost \<Rightarrow> Message list \<Rightarrow> string \<Rightarrow> OpaqueState \<Rightarrow> Descriptor \<Rightarrow> unit result" where
  "validateOneOpaqueState H msgs ownerID s profile =
     bind_res (OpaqueState_validate s) (\<lambda>_.
     bind_res (validateOpaquePayloadCodec H s) (\<lambda>_.
     if BindProfile (OsBinding s) \<noteq> profile then Inl ErrOpaqueStateInvalidated
     else bind_res (opaqueContextRefs H msgs ownerID (OsAfterPart s)) (\<lambda>(refs, owner).
          validateOpaqueBinding (OsBinding s) owner refs)))"

text \<open>The loop over the inventory, which is a Go map, is in the order of the messages here; only the choice among several errors depends on it.\<close>

definition ValidateOpaqueState :: "OpaqueHost \<Rightarrow> Descriptor \<Rightarrow> Message list \<Rightarrow> unit result" where
  "ValidateOpaqueState H profile msgs =
     (if \<not> hasOpaqueState msgs then Inr ()
      else if validateUniqueMessageIDs msgs \<noteq> Inr () then Inl ErrInvalidOpaqueState
      else bind_res (opaqueStateInventory H msgs) (\<lambda>states.
           bind_res (map_res (\<lambda>(i, origin). validateOneOpaqueState H msgs (MsgID (OrMessage origin)) (OrState origin) profile) states) (\<lambda>_. Inr ())))"

subsection \<open>The policy of a compile\<close>

datatype OpaqueInvalidationMode = OpaqueFailClosed | OpaqueDropInvalid | OpaqueModeOther string

record OpaqueStatePolicy =
  OpIdentity :: Descriptor
  OpProfile :: Descriptor
  OpInvalidated :: OpaqueInvalidationMode

definition OpaqueStatePolicy_validate :: "OpaqueStatePolicy \<Rightarrow> unit result" where
  "OpaqueStatePolicy_validate p =
     (if Descriptor_Validate (OpIdentity p) \<noteq> Inr () \<or> Descriptor_Validate (OpProfile p) \<noteq> Inr () then Inl ErrInvalidOpaqueState
      else if OpInvalidated p \<notin> {OpaqueModeOther [], OpaqueFailClosed, OpaqueDropInvalid} then Inl ErrInvalidOpaqueState
      else Inr ())"

definition WithOpaqueStatePolicy :: "OpaqueStatePolicy \<Rightarrow> OpaqueStatePolicy" where
  "WithOpaqueStatePolicy p = (if OpInvalidated p = OpaqueModeOther [] then p\<lparr>OpInvalidated := OpaqueFailClosed\<rparr> else p)"

text \<open>The inventory of the request, which the context of the compile carries.\<close>

definition initializeOpaqueStateContext :: "OpaqueHost \<Rightarrow> CompileRequest \<Rightarrow> OpaqueStatePolicy option \<Rightarrow> inventory result" where
  "initializeOpaqueStateContext H req policy =
     bind_res (case policy of None \<Rightarrow> Inr () | Some p \<Rightarrow> OpaqueStatePolicy_validate p) (\<lambda>_.
     bind_res (opaqueStateInventory H (AllMessages req)) (\<lambda>states.
     if states \<noteq> [] \<and> Option.is_none policy then Inl ErrMissingOpaqueStatePolicy else Inr states))"

fun registerStates :: "OpaqueHost \<Rightarrow> inventory \<Rightarrow> inventory \<Rightarrow> inventory result" where
  "registerStates H states [] = Inr states"
| "registerStates H states ((i, origin) # found) =
     (case map_of states i of
        None \<Rightarrow> registerStates H (states @ [(i, origin)]) found
      | Some prior \<Rightarrow>
          if \<not> opaqueEqual H (OrState prior) (OrState origin) \<or> MsgID (OrMessage prior) \<noteq> MsgID (OrMessage origin) then Inl ErrInvalidOpaqueState
          else registerStates H states found)"

definition registerPreparedOpaqueStates :: "OpaqueHost \<Rightarrow> inventory \<Rightarrow> Message list \<Rightarrow> OpaqueStatePolicy option \<Rightarrow> inventory result" where
  "registerPreparedOpaqueStates H states msgs policy =
     bind_res (opaqueStateInventory H msgs) (\<lambda>found.
     if found \<noteq> [] \<and> Option.is_none policy then Inl ErrMissingOpaqueStatePolicy else registerStates H states found)"

text \<open>States keep their message and their order in it; \<open>previous\<close> starts at -1.\<close>

fun orderedStates :: "OpaqueHost \<Rightarrow> inventory \<Rightarrow> Message \<Rightarrow> int \<Rightarrow> Extension list \<Rightarrow> unit result" where
  "orderedStates H original m previous [] = Inr ()"
| "orderedStates H original m previous (e # es) =
     (case OhState H e of
        None \<Rightarrow> orderedStates H original m previous es
      | Some s \<Rightarrow> (case map_of original (OsID s) of
          None \<Rightarrow> Inl ErrInvalidOpaqueState
        | Some origin \<Rightarrow>
            if MsgID (OrMessage origin) \<noteq> MsgID m \<or> int (OrOrder origin) \<le> previous then Inl ErrInvalidOpaqueState
            else orderedStates H original m (int (OrOrder origin)) es))"

definition validateOpaqueOrdering :: "OpaqueHost \<Rightarrow> Message list \<Rightarrow> inventory \<Rightarrow> unit result" where
  "validateOpaqueOrdering H msgs original =
     bind_res (map_res (\<lambda>m. orderedStates H original m (-1) (MsgExtensions m)) msgs) (\<lambda>_. Inr ())"

text \<open>
  A state of the request that is missing from the output must have been invalid there: it may only be gone when the policy drops,
  and not while its message still offers it the context it needs.
\<close>

fun stillValid :: "OpaqueHost \<Rightarrow> OpaqueStatePolicy \<Rightarrow> Message list \<Rightarrow> opaqueStateOrigin \<Rightarrow> Message list \<Rightarrow> unit result" where
  "stillValid H p msgs origin [] = Inr ()"
| "stillValid H p msgs origin (m # ms) =
     (if MsgID m \<noteq> MsgID (OrMessage origin) then stillValid H p msgs origin ms
      else case validateOneOpaqueState H msgs (MsgID (OrMessage origin)) (OrState origin) (OpProfile p) of
        Inr _ \<Rightarrow> Inl ErrInvalidOpaqueState
      | Inl e \<Rightarrow> if \<not> errors_Is e ErrOpaqueStateInvalidated then Inl e else stillValid H p msgs origin ms)"

definition validateMissingOpaque :: "OpaqueHost \<Rightarrow> OpaqueStatePolicy \<Rightarrow> Message list \<Rightarrow> opaqueStateOrigin \<Rightarrow> unit result" where
  "validateMissingOpaque H p msgs origin =
     (if BindProfile (OsBinding (OrState origin)) \<noteq> OpProfile p then Inl ErrOpaqueStateInvalidated
      else bind_res (validateOpaquePayloadCodec H (OrState origin)) (\<lambda>_.
      if OpInvalidated p \<noteq> OpaqueDropInvalid then Inl ErrOpaqueStateInvalidated
      else stillValid H p msgs origin msgs))"

record OpaqueStateDrop =
  DropMessage :: ContentRef
  DropStateID :: string

fun checkOriginals ::
  "OpaqueHost \<Rightarrow> OpaqueStatePolicy \<Rightarrow> Message list \<Rightarrow> inventory \<Rightarrow> inventory \<Rightarrow> OpaqueStateDrop list result" where
  "checkOriginals H p msgs current [] = Inr []"
| "checkOriginals H p msgs current ((i, origin) # rest) =
     (case map_of current i of
        Some actual \<Rightarrow>
          if \<not> opaqueEqual H (OrState origin) (OrState actual) \<or> MsgID (OrMessage origin) \<noteq> MsgID (OrMessage actual) then Inl ErrInvalidOpaqueState
          else checkOriginals H p msgs current rest
      | None \<Rightarrow>
          bind_res (validateMissingOpaque H p msgs origin) (\<lambda>_.
          bind_res (MessageContentRef (OhEnv H) (OrMessage origin)) (\<lambda>ref.
          bind_res (checkOriginals H p msgs current rest) (\<lambda>dropped.
          Inr (\<lparr>DropMessage = ref, DropStateID = i\<rparr> # dropped)))))"

definition checkOpaqueInventory ::
  "OpaqueHost \<Rightarrow> OpaqueStatePolicy \<Rightarrow> Message list \<Rightarrow> inventory \<Rightarrow> inventory \<Rightarrow> OpaqueStateDrop list result" where
  "checkOpaqueInventory H p msgs current original =
     bind_res (validateOpaqueOrdering H msgs original) (\<lambda>_.
     bind_res (checkOriginals H p msgs current original) (\<lambda>dropped.
     bind_res (map_res (\<lambda>(i, origin). if map_of original i = None then Inl ErrInvalidOpaqueState
         else if BindProfile (OsBinding (OrState origin)) \<noteq> OpProfile p then Inl ErrOpaqueStateInvalidated else Inr ()) current) (\<lambda>_.
     Inr dropped)))"

subsection \<open>Enforcement\<close>

definition payloadSnapshot :: "AbstractPayload \<Rightarrow> ConversationState" where
  "payloadSnapshot p = WithSegment (WithSegment (WithSegment (WithSegment EmptyState SegmentSystem (PlSystem p))
     SegmentHistory (PlHistory p)) SegmentTools (PlTools p)) SegmentMemory (PlMemory p)"

text \<open>\<open>main\<close> tells whether the output is the main one (\<^verbatim>\<open>finalBudgetChannel\<close>).\<close>

definition semanticOutputMessages :: "bool \<Rightarrow> AbstractPayload \<Rightarrow> Message list" where
  "semanticOutputMessages main p = (if main then FlattenMessages p else snapshotAllMessages (payloadSnapshot p))"

definition cloneOutputPolicyPayload :: "AbstractPayload \<Rightarrow> AbstractPayload" where
  "cloneOutputPolicyPayload p = \<lparr>PlSystem = cloneMessageSlice (PlSystem p), PlHistory = cloneMessageSlice (PlHistory p),
     PlTools = cloneMessageSlice (PlTools p), PlMemory = cloneMessageSlice (PlMemory p)\<rparr>"

text \<open>\<open>before\<close> is the inventory before the drops; a state it does not know has the zero message, which has no reference.\<close>

fun invalidStates ::
  "OpaqueHost \<Rightarrow> OpaqueStatePolicy \<Rightarrow> Message list \<Rightarrow> inventory \<Rightarrow> inventory \<Rightarrow> OpaqueStateDrop list result" where
  "invalidStates H p msgs before [] = Inr []"
| "invalidStates H p msgs before ((i, origin) # rest) =
     (case validateOneOpaqueState H msgs (MsgID (OrMessage origin)) (OrState origin) (OpProfile p) of
        Inr _ \<Rightarrow> invalidStates H p msgs before rest
      | Inl e \<Rightarrow>
          if \<not> errors_Is e ErrOpaqueStateInvalidated \<or> OpInvalidated p \<noteq> OpaqueDropInvalid then Inl e
          else bind_res (case map_of before i of Some prior \<Rightarrow> MessageContentRef (OhEnv H) (OrMessage prior)
                         | None \<Rightarrow> MessageContentRef (OhEnv H) zeroMessage) (\<lambda>ref.
               bind_res (invalidStates H p msgs before rest) (\<lambda>dropped.
               Inr (\<lparr>DropMessage = ref, DropStateID = i\<rparr> # dropped))))"

definition invalidOpaqueStates ::
  "OpaqueHost \<Rightarrow> OpaqueStatePolicy \<Rightarrow> bool \<Rightarrow> AbstractPayload \<Rightarrow> inventory \<Rightarrow> OpaqueStateDrop list result" where
  "invalidOpaqueStates H p main payload before =
     (let msgs = semanticOutputMessages main payload in
      bind_res (opaqueStateInventory H msgs) (invalidStates H p msgs before))"

definition keepsState :: "OpaqueHost \<Rightarrow> string list \<Rightarrow> Extension \<Rightarrow> bool" where
  "keepsState H ids e = (case OhState H e of None \<Rightarrow> True | Some s \<Rightarrow> OsID s \<notin> set ids)"

definition dropFromMessage :: "OpaqueHost \<Rightarrow> string list \<Rightarrow> Message \<Rightarrow> Message" where
  "dropFromMessage H ids m = m\<lparr>MsgExtensions := filter (keepsState H ids) (MsgExtensions m)\<rparr>"

definition dropOpaqueStates :: "OpaqueHost \<Rightarrow> AbstractPayload \<Rightarrow> OpaqueStateDrop list \<Rightarrow> AbstractPayload" where
  "dropOpaqueStates H p dropped =
     (let f = map (dropFromMessage H (map DropStateID dropped)) in
      \<lparr>PlSystem = f (PlSystem p), PlHistory = f (PlHistory p), PlTools = f (PlTools p), PlMemory = f (PlMemory p)\<rparr>)"

text \<open>The loop repeats until nothing is invalid; \<open>None\<close> is a run that does not end.\<close>

partial_function (option) enforceLoop ::
  "OpaqueHost \<Rightarrow> OpaqueStatePolicy \<Rightarrow> bool \<Rightarrow> inventory \<Rightarrow> AbstractPayload \<Rightarrow> OpaqueStateDrop list \<Rightarrow>
   (AbstractPayload \<times> OpaqueStateDrop list) result option" where
  "enforceLoop H p main before accepted dropped =
     (case invalidOpaqueStates H p main accepted before of
        Inl e \<Rightarrow> Some (Inl e)
      | Inr invalid \<Rightarrow>
          if invalid = [] then Some (Inr (accepted, dropped))
          else enforceLoop H p main before (dropOpaqueStates H accepted invalid) (dropped @ invalid))"

declare enforceLoop.simps [code]

definition sortDrops :: "OpaqueStateDrop list \<Rightarrow> OpaqueStateDrop list" where
  "sortDrops dropped = sort_key (\<lambda>d. RefID (DropMessage d)) (sort_key DropStateID dropped)"

definition enforceOpaqueState ::
  "OpaqueHost \<Rightarrow> OpaqueStatePolicy option \<Rightarrow> bool \<Rightarrow> inventory \<Rightarrow> AbstractPayload \<Rightarrow>
   (AbstractPayload \<times> OpaqueStateDrop list) result option" where
  "enforceOpaqueState H policy main original payload =
     (let msgs = semanticOutputMessages main payload in
      case opaqueStateInventory H msgs of
        Inl e \<Rightarrow> Some (Inl e)
      | Inr current \<Rightarrow>
          if current = [] \<and> original = [] then Some (Inr (payload, []))
          else (case policy of
            None \<Rightarrow> Some (Inl ErrMissingOpaqueStatePolicy)
          | Some p \<Rightarrow> (case checkOpaqueInventory H p msgs current original of
              Inl e \<Rightarrow> Some (Inl e)
            | Inr dropped \<Rightarrow>
                map_option (\<lambda>r. bind_res r (\<lambda>(accepted, drops). Inr (accepted, sortDrops drops)))
                  (enforceLoop H p main current (cloneOutputPolicyPayload payload) dropped))))"

subsection \<open>The recorded decision\<close>

record ManifestSegment =
  MsName :: string
  MsRefs :: "ContentRef list"

definition manifestSegment :: "env \<Rightarrow> string \<Rightarrow> Message list \<Rightarrow> ManifestSegment result" where
  "manifestSegment E name msgs = bind_res (map_res (MessageContentRef E) msgs) (\<lambda>refs. Inr \<lparr>MsName = name, MsRefs = refs\<rparr>)"

definition manifestSnapshotSegments :: "env \<Rightarrow> ConversationState \<Rightarrow> ManifestSegment list result" where
  "manifestSnapshotSegments E snap = map_res (\<lambda>name. manifestSegment E name (Segment snap name)) snapshotSegmentOrder"

fun validateManifestArtifactInputs_from :: "ContentRef list \<Rightarrow> ContentRef list \<Rightarrow> unit result" where
  "validateManifestArtifactInputs_from seen [] = Inr ()"
| "validateManifestArtifactInputs_from seen (ref # refs) =
     bind_res (ContentRef_Validate ref) (\<lambda>_.
     if RefOccurrence ref \<noteq> [] \<or> ref \<in> set seen then Inl (Sentinel ''ErrInvalidManifest'')
     else validateManifestArtifactInputs_from (ref # seen) refs)"

definition validateManifestArtifactInputs :: "ContentRef list \<Rightarrow> unit result" where
  "validateManifestArtifactInputs refs = validateManifestArtifactInputs_from [] refs"

definition manifestArtifactsSegment :: string where
  "manifestArtifactsSegment = ''artifacts''"

fun validateManifestSegments_from :: "string list \<Rightarrow> ManifestSegment list \<Rightarrow> unit result" where
  "validateManifestSegments_from seen [] = Inr ()"
| "validateManifestSegments_from seen (seg # segs) =
     (if MsName seg = [] \<or> MsName seg \<in> set seen then Inl (Sentinel ''ErrInvalidManifest'')
      else bind_res ((if MsName seg = manifestArtifactsSegment then validateManifestArtifactInputs else validateManifestSegmentRefs) (MsRefs seg)) (\<lambda>_.
           validateManifestSegments_from (MsName seg # seen) segs))"

definition validateManifestSegments :: "ManifestSegment list \<Rightarrow> unit result" where
  "validateManifestSegments segs = validateManifestSegments_from [] segs"

definition validatePolicySegments :: "ManifestSegment list \<Rightarrow> unit result" where
  "validatePolicySegments segs =
     (if length segs \<noteq> length snapshotSegmentOrder then Inl ErrInvalidOutputPolicy
      else bind_res (validateManifestSegments segs) (\<lambda>_.
      if \<exists>(seg, name) \<in> set (zip segs snapshotSegmentOrder). MsName seg \<noteq> name \<or> (\<exists>ref \<in> set (MsRefs seg). RefOccurrence ref \<noteq> [])
      then Inl ErrInvalidOutputPolicy else Inr ()))"

record OpaqueStateDecision =
  OdConfiguration :: OpaqueStatePolicy
  OdInputs :: "ManifestSegment list"
  OdOutputs :: "ManifestSegment list"
  OdDropped :: "OpaqueStateDrop list"

definition OpaqueStateConfiguration_Validate :: "OpaqueStatePolicy \<Rightarrow> unit result" where
  "OpaqueStateConfiguration_Validate c =
     (if OpInvalidated c \<noteq> OpaqueFailClosed \<and> OpInvalidated c \<noteq> OpaqueDropInvalid then Inl ErrInvalidOpaqueState else OpaqueStatePolicy_validate c)"

definition OpaqueStateDecision_Validate :: "OpaqueStateDecision \<Rightarrow> unit result" where
  "OpaqueStateDecision_Validate d =
     bind_res (OpaqueStateConfiguration_Validate (OdConfiguration d)) (\<lambda>_.
     bind_res (validatePolicySegments (OdInputs d)) (\<lambda>_.
     bind_res (validatePolicySegments (OdOutputs d)) (\<lambda>_.
     if \<exists>(i, out) \<in> set (zip (OdInputs d) (OdOutputs d)). map RefID (MsRefs i) \<noteq> map RefID (MsRefs out) then Inl ErrInvalidOpaqueState
     else if OdDropped d \<noteq> [] \<and> OpInvalidated (OdConfiguration d) \<noteq> OpaqueDropInvalid then Inl ErrInvalidOpaqueState
     else if (\<exists>drop \<in> set (OdDropped d). DropStateID drop = [] \<or> ContentRef_Validate (DropMessage drop) \<noteq> Inr () \<or> RefOccurrence (DropMessage drop) \<noteq> [])
        \<or> \<not> distinct (OdDropped d) then Inl ErrInvalidOpaqueState
     else Inr ())))"

definition recordOpaqueStateDecision ::
  "env \<Rightarrow> OpaqueStatePolicy \<Rightarrow> AbstractPayload \<Rightarrow> AbstractPayload \<Rightarrow> OpaqueStateDrop list \<Rightarrow> OpaqueStateDecision result" where
  "recordOpaqueStateDecision E p before after dropped =
     bind_res (manifestSnapshotSegments E (payloadSnapshot before)) (\<lambda>inputs.
     bind_res (manifestSnapshotSegments E (payloadSnapshot after)) (\<lambda>outputs.
     let decision = \<lparr>OdConfiguration = p, OdInputs = inputs, OdOutputs = outputs, OdDropped = dropped\<rparr> in
     bind_res (OpaqueStateDecision_Validate decision) (\<lambda>_. Inr decision)))"

definition acceptOpaqueState ::
  "OpaqueHost \<Rightarrow> OpaqueStatePolicy option \<Rightarrow> bool \<Rightarrow> inventory \<Rightarrow> AbstractPayload \<Rightarrow>
   (AbstractPayload \<times> OpaqueStateDecision option) result option" where
  "acceptOpaqueState H policy main original payload =
     map_option (\<lambda>r. bind_res r (\<lambda>(accepted, drops).
       case policy of
         None \<Rightarrow> Inr (accepted, None)
       | Some p \<Rightarrow> bind_res (recordOpaqueStateDecision (OhEnv H) p payload accepted drops) (\<lambda>d. Inr (accepted, Some d))))
     (enforceOpaqueState H policy main original payload)"

subsection \<open>Inventories are exact\<close>

definition stateIDs :: "OpaqueHost \<Rightarrow> Extension list \<Rightarrow> string list" where
  "stateIDs H es = List.map_filter (\<lambda>e. map_option OsID (OhState H e)) es"

definition payloadStates :: "OpaqueHost \<Rightarrow> Message list \<Rightarrow> string list" where
  "payloadStates H ms = concat (map (\<lambda>m. stateIDs H (MsgExtensions m)) ms)"

lemma stateIDs_simps [simp]:
  "stateIDs H [] = []"
  "stateIDs H (e # es) = (case OhState H e of None \<Rightarrow> stateIDs H es | Some s \<Rightarrow> OsID s # stateIDs H es)"
  by (simp_all add: stateIDs_def List.map_filter_simps split: option.splits)

lemma inventoryMessage_ids:
  "inventoryMessage H m k acc es = Inr acc' \<Longrightarrow> distinct (map fst acc) \<Longrightarrow>
     map fst acc' = map fst acc @ stateIDs H es \<and> distinct (map fst acc')"
proof (induction H m k acc es rule: inventoryMessage.induct)
  case (2 H m k acc e es)
  show ?case
  proof (cases "OhState H e")
    case None
    with "2.prems"(1) have "inventoryMessage H m (Suc k) acc es = Inr acc'" "\<not> (\<not> nilExtension e \<and> ext_type e = OpaqueStateExtensionType)"
      by (auto split: if_splits)
    with "2.IH"(1) [OF None] "2.prems"(2) have "map fst acc' = map fst acc @ stateIDs H es \<and> distinct (map fst acc')" by blast
    then show ?thesis unfolding stateIDs_simps None option.case .
  next
    case (Some s)
    let ?acc = "acc @ [(OsID s, \<lparr>OrMessage = Message_Clone m, OrState = cloneOpaqueState s, OrOrder = k\<rparr>)]"
    from Some "2.prems"(1) obtain u where u: "OpaqueState_validate s = Inr u" and "map_of acc (OsID s) = None"
        and step: "inventoryMessage H m (Suc k) ?acc es = Inr acc'"
      by (auto simp: bind_res_Inr_iff simp del: map_of_eq_None_iff split: if_splits)
    then have "OsID s \<notin> set (map fst acc)" by (simp add: map_of_eq_None_iff)
    then have d: "distinct (map fst ?acc)" using "2.prems"(2) by simp
    from \<open>map_of acc (OsID s) = None\<close> have "\<not> map_of acc (OsID s) \<noteq> None" by blast
    from "2.IH"(2) [OF Some this step d] have "map fst acc' = map fst ?acc @ stateIDs H es \<and> distinct (map fst acc')" .
    then show ?thesis unfolding stateIDs_simps Some option.case map_append list.map fst_conv append_assoc append.simps .
  qed
qed simp

lemma payloadStates_simps [simp]:
  "payloadStates H [] = []" "payloadStates H (m # ms) = stateIDs H (MsgExtensions m) @ payloadStates H ms"
  by (simp_all add: payloadStates_def)

lemma inventory_from_ids:
  "inventory_from H acc ms = Inr acc' \<Longrightarrow> distinct (map fst acc) \<Longrightarrow>
     map fst acc' = map fst acc @ payloadStates H ms \<and> distinct (map fst acc')"
proof (induction ms arbitrary: acc)
  case (Cons m ms)
  then obtain acc1 where a: "inventoryMessage H m 0 acc (MsgExtensions m) = Inr acc1" "inventory_from H acc1 ms = Inr acc'"
    by (auto simp: bind_res_Inr_iff)
  from inventoryMessage_ids [OF a(1) Cons.prems(2)] have "map fst acc1 = map fst acc @ stateIDs H (MsgExtensions m)" "distinct (map fst acc1)"
    by blast+
  then have "map fst acc' = map fst acc1 @ payloadStates H ms \<and> distinct (map fst acc')" using Cons.IH [OF a(2)] by blast
  then show ?case unfolding payloadStates_simps \<open>map fst acc1 = _\<close> append_assoc .
qed simp

lemma inventory_ids:
  "opaqueStateInventory H ms = Inr states \<Longrightarrow> map fst states = payloadStates H ms \<and> distinct (payloadStates H ms)"
  using inventory_from_ids [of H "[]" ms states] by (simp add: opaqueStateInventory_def) metis

lemma no_zero_ref: "MessageContentRef E zeroMessage \<noteq> Inr r"
  by (simp add: MessageContentRef_def zeroMessage_def)

lemma invalidStates_Inr:
  "invalidStates H p msgs before states = Inr invalid \<Longrightarrow>
     map DropStateID invalid = map fst (filter (\<lambda>(i, origin). validateOneOpaqueState H msgs (MsgID (OrMessage origin)) (OrState origin) (OpProfile p) \<noteq> Inr ()) states) \<and>
     (\<forall>d \<in> set invalid. OpInvalidated p = OpaqueDropInvalid \<and>
        (\<exists>prior. map_of before (DropStateID d) = Some prior \<and> MessageContentRef (OhEnv H) (OrMessage prior) = Inr (DropMessage d)))"
proof (induction states arbitrary: invalid)
  case (Cons x states)
  obtain i origin where x: "x = (i, origin)" by (cases x)
  show ?case
  proof (cases "validateOneOpaqueState H msgs (MsgID (OrMessage origin)) (OrState origin) (OpProfile p)")
    case (Inl e)
    with Cons.prems x obtain ref rest where r: "OpInvalidated p = OpaqueDropInvalid" "invalidStates H p msgs before states = Inr rest"
        "invalid = \<lparr>DropMessage = ref, DropStateID = i\<rparr> # rest"
        "(case map_of before i of Some prior \<Rightarrow> MessageContentRef (OhEnv H) (OrMessage prior) | None \<Rightarrow> MessageContentRef (OhEnv H) zeroMessage) = Inr ref"
      by (auto simp: bind_res_Inr_iff split: if_splits)
    from r(4) have "\<exists>prior. map_of before i = Some prior \<and> MessageContentRef (OhEnv H) (OrMessage prior) = Inr ref"
      by (auto simp: no_zero_ref split: option.splits)
    then show ?thesis using Inl r Cons.IH [OF r(2)] x by auto
  next
    case (Inr u)
    then show ?thesis using Cons x by auto
  qed
qed simp

lemma stateIDs_drop: "stateIDs H (filter (keepsState H ids) es) = filter (\<lambda>i. i \<notin> set ids) (stateIDs H es)"
  by (induction es) (auto simp: keepsState_def split: option.splits)

lemma payloadStates_drop: "payloadStates H (map (dropFromMessage H ids) ms) = filter (\<lambda>i. i \<notin> set ids) (payloadStates H ms)"
  by (induction ms) (simp_all add: payloadStates_def dropFromMessage_def stateIDs_drop)

lemma Flatten_drop: "FlattenMessages (dropOpaqueStates H p ds) = map (dropFromMessage H (map DropStateID ds)) (FlattenMessages p)"
  by (simp add: dropOpaqueStates_def FlattenMessages_def Let_def)

lemma dropFromMessage_append: "dropFromMessage H ids (dropFromMessage H ids' m) = dropFromMessage H (ids' @ ids) m"
  by (auto simp: dropFromMessage_def keepsState_def intro!: arg_cong [where f = "\<lambda>es. m\<lparr>MsgExtensions := es\<rparr>"] filter_cong split: option.splits)

lemma dropOpaqueStates_append: "dropOpaqueStates H (dropOpaqueStates H p ds) ds' = dropOpaqueStates H p (ds @ ds')"
  by (simp add: dropOpaqueStates_def Let_def dropFromMessage_append comp_def)

lemma dropOpaqueStates_Nil [simp]: "dropOpaqueStates H p [] = p"
proof -
  have "dropFromMessage H [] m = m" for m by (simp add: dropFromMessage_def keepsState_def option.case_eq_if)
  then have "dropFromMessage H [] = (\<lambda>m. m)" by blast
  then show ?thesis by (simp add: dropOpaqueStates_def Let_def)
qed

text \<open>A round of drops removes at least one state of the main output.\<close>

lemma invalid_shrinks:
  assumes "invalidOpaqueStates H p True acc before = Inr invalid" "invalid \<noteq> []"
  shows "length (payloadStates H (FlattenMessages (dropOpaqueStates H acc invalid))) < length (payloadStates H (FlattenMessages acc))"
proof -
  from assms(1) obtain states where s: "opaqueStateInventory H (FlattenMessages acc) = Inr states"
      "invalidStates H p (FlattenMessages acc) before states = Inr invalid"
    by (auto simp: invalidOpaqueStates_def semanticOutputMessages_def Let_def bind_res_Inr_iff)
  have "set (map DropStateID invalid) \<subseteq> set (payloadStates H (FlattenMessages acc))"
    using invalidStates_Inr [OF s(2)] inventory_ids [OF s(1)] by (metis (no_types, lifting) filter_is_subset image_mono list.set_map)
  moreover from assms(2) obtain d where "d \<in> set invalid" by (cases invalid) auto
  ultimately have "DropStateID d \<in> set (payloadStates H (FlattenMessages acc))" "DropStateID d \<in> set (map DropStateID invalid)" by auto
  then show ?thesis unfolding Flatten_drop payloadStates_drop by (intro length_filter_less) auto
qed

lemma enforceLoop_returns: "\<exists>r. enforceLoop H p True before acc dropped = Some r"
proof (induction "length (payloadStates H (FlattenMessages acc))" arbitrary: acc dropped rule: less_induct)
  case less
  show ?case
  proof (cases "invalidOpaqueStates H p True acc before")
    case (Inr invalid)
    show ?thesis
    proof (cases "invalid = []")
      case False
      with less [OF invalid_shrinks [OF Inr False]] Inr show ?thesis by (subst enforceLoop.simps) auto
    qed (use Inr in \<open>subst enforceLoop.simps, simp\<close>)
  qed (subst enforceLoop.simps, simp)
qed

definition dropped_for :: "OpaqueHost \<Rightarrow> OpaqueStatePolicy \<Rightarrow> inventory \<Rightarrow> OpaqueStateDrop \<Rightarrow> bool" where
  "dropped_for H p before d \<longleftrightarrow> OpInvalidated p = OpaqueDropInvalid \<and>
     (\<exists>prior. map_of before (DropStateID d) = Some prior \<and> MessageContentRef (OhEnv H) (OrMessage prior) = Inr (DropMessage d))"

definition loop_result ::
  "OpaqueHost \<Rightarrow> OpaqueStatePolicy \<Rightarrow> bool \<Rightarrow> inventory \<Rightarrow> AbstractPayload \<Rightarrow> OpaqueStateDrop list \<Rightarrow> AbstractPayload \<Rightarrow> OpaqueStateDrop list \<Rightarrow> bool" where
  "loop_result H p main before acc dropped accepted drops \<longleftrightarrow>
     (\<exists>new. drops = dropped @ new \<and> accepted = dropOpaqueStates H acc new \<and> invalidOpaqueStates H p main accepted before = Inr [] \<and>
        (\<forall>d \<in> set new. dropped_for H p before d))"

lemma enforceLoop_stable:
  assumes "enforceLoop H p main before acc dropped = Some (Inr (accepted, drops))"
  shows "loop_result H p main before acc dropped accepted drops"
proof -
  let ?P = "\<lambda>H p main before acc dropped (r :: (AbstractPayload \<times> OpaqueStateDrop list) result). \<forall>accepted drops. r = Inr (accepted, drops) \<longrightarrow> loop_result H p main before acc dropped accepted drops"
  have "?P H p main before acc dropped (Inr (accepted, drops))"
  proof (rule enforceLoop.raw_induct [where P = ?P, rotated])
    show "enforceLoop H p main before acc dropped = Some (Inr (accepted, drops))" by (rule assms)
    fix loop H p main before acc dropped r
    assume ih: "\<And>H p main before acc dropped r. loop H p main before acc dropped = Some r \<Longrightarrow> ?P H p main before acc dropped r"
      and body: "(case invalidOpaqueStates H p main acc before of Inl e \<Rightarrow> Some (Inl e)
          | Inr invalid \<Rightarrow> if invalid = [] then Some (Inr (acc, dropped)) else loop H p main before (dropOpaqueStates H acc invalid) (dropped @ invalid)) = Some r"
    show "?P H p main before acc dropped r"
    proof (intro allI impI)
    fix accepted drops assume r: "r = Inr (accepted, drops)"
    from body r obtain invalid where inv': "invalidOpaqueStates H p main acc before = Inr invalid" by (auto split: sum.splits)
    show "loop_result H p main before acc dropped accepted drops"
    proof (cases "invalid = []")
      case True
      then show ?thesis using body r inv' by (auto simp: loop_result_def)
    next
      case False
      with body r inv' have "loop H p main before (dropOpaqueStates H acc invalid) (dropped @ invalid) = Some (Inr (accepted, drops))" by simp
      with ih have "loop_result H p main before (dropOpaqueStates H acc invalid) (dropped @ invalid) accepted drops" by blast
      moreover have "\<forall>d \<in> set invalid. dropped_for H p before d"
        using inv' invalidStates_Inr by (fastforce simp: invalidOpaqueStates_def Let_def bind_res_Inr_iff dropped_for_def)
      ultimately show ?thesis unfolding loop_result_def dropOpaqueStates_append by (metis append_assoc set_append Un_iff)
    qed
    qed
  qed
  then show ?thesis by blast
qed

subsection \<open>What enforcement guarantees\<close>

lemma inventory_of_messages:
  "inventoryMessage H m k acc es = Inr acc' \<Longrightarrow> (j, origin) \<in> set acc' \<Longrightarrow> (j, origin) \<in> set acc \<or> MsgID (OrMessage origin) = MsgID m"
  by (induction H m k acc es rule: inventoryMessage.induct) (fastforce simp: bind_res_Inr_iff split: option.splits if_splits)+

lemma payloadStates_unchanged:
  assumes "set (payloadStates H ms) \<inter> set ids = {}"
  shows "map (dropFromMessage H ids) ms = ms"
proof -
  have same: "filter (keepsState H ids) es = es" if "set (stateIDs H es) \<inter> set ids = {}" for es
    using that by (induction es) (auto simp: keepsState_def split: option.splits)
  have "dropFromMessage H ids m = m" if "m \<in> set ms" for m
  proof -
    have "set (stateIDs H (MsgExtensions m)) \<inter> set ids = {}" using assms that by (auto simp: payloadStates_def)
    then show ?thesis by (simp add: dropFromMessage_def same)
  qed
  then show ?thesis by (simp add: map_idI)
qed

lemma dropFromMessage_cong:
  assumes "set ids = set ids'"
  shows "dropFromMessage H ids = dropFromMessage H ids'"
proof -
  have "keepsState H ids = keepsState H ids'" by (intro ext) (simp add: keepsState_def assms split: option.split)
  then show ?thesis by (intro ext) (simp add: dropFromMessage_def)
qed

lemma dropOpaqueStates_cong: "set ds = set ds' \<Longrightarrow> dropOpaqueStates H p ds = dropOpaqueStates H p ds'"
  using dropFromMessage_cong [of "map DropStateID ds" "map DropStateID ds'" H] by (simp add: dropOpaqueStates_def Let_def)

lemma dropOpaqueStates_unchanged:
  assumes "set (payloadStates H (FlattenMessages p)) \<inter> set (map DropStateID ds) = {}"
  shows "dropOpaqueStates H p ds = p"
proof -
  have "map (dropFromMessage H (map DropStateID ds)) ms = ms" if "set ms \<subseteq> set (FlattenMessages p)" for ms
    using that assms by (intro payloadStates_unchanged) (auto simp: payloadStates_def)
  moreover have "set (PlSystem p) \<subseteq> set (FlattenMessages p)" "set (PlHistory p) \<subseteq> set (FlattenMessages p)"
      "set (PlTools p) \<subseteq> set (FlattenMessages p)" "set (PlMemory p) \<subseteq> set (FlattenMessages p)"
    by (auto simp: FlattenMessages_def)
  ultimately show ?thesis by (simp add: dropOpaqueStates_def Let_def del: map_eq_conv)
qed

lemma set_sortDrops [simp]: "set (sortDrops ds) = set ds"
  by (simp add: sortDrops_def)

lemma sortDrops_Nil [simp]: "sortDrops ds = [] \<longleftrightarrow> ds = []"
  using set_sortDrops [of ds] by (metis set_empty)

definition clones_keep_states :: "OpaqueHost \<Rightarrow> AbstractPayload \<Rightarrow> bool" where
  "clones_keep_states H p \<longleftrightarrow> (\<forall>m \<in> set (FlattenMessages p). stateIDs H (cloneExtensions (MsgExtensions m)) = stateIDs H (MsgExtensions m))"

lemma payloadStates_clone:
  assumes "clones_keep_states H p"
  shows "payloadStates H (FlattenMessages (cloneOutputPolicyPayload p)) = payloadStates H (FlattenMessages p)"
proof -
  have "FlattenMessages (cloneOutputPolicyPayload p) = map Message_Clone (FlattenMessages p)"
    by (simp add: FlattenMessages_def cloneOutputPolicyPayload_def cloneMessageSlice_def)
  moreover have "map (\<lambda>m. stateIDs H (MsgExtensions (Message_Clone m))) (FlattenMessages p) = map (\<lambda>m. stateIDs H (MsgExtensions m)) (FlattenMessages p)"
    using assms by (simp add: clones_keep_states_def Message_Clone_def)
  ultimately show ?thesis unfolding payloadStates_def by (simp add: comp_def del: map_eq_conv)
qed

lemma checkOriginals_Inr:
  "checkOriginals H p msgs current original = Inr dropped \<Longrightarrow>
     map DropStateID dropped = filter (\<lambda>i. i \<notin> fst ` set current) (map fst original) \<and> (dropped \<noteq> [] \<longrightarrow> OpInvalidated p = OpaqueDropInvalid)"
proof (induction original arbitrary: dropped)
  case (Cons x original)
  obtain i origin where x: "x = (i, origin)" by (cases x)
  show ?case
  proof (cases "map_of current i")
    case None
    then have "i \<notin> fst ` set current" by (simp add: map_of_eq_None_iff)
    with None Cons x show ?thesis by (auto simp: bind_res_Inr_iff validateMissingOpaque_def split: if_splits)
  next
    case (Some actual)
    then have "i \<in> fst ` set current" by (metis domI dom_map_of_conv_image_fst)
    with Some Cons x show ?thesis by (auto split: if_splits)
  qed
qed simp

lemma checkOpaqueInventory_Inr:
  assumes "checkOpaqueInventory H p msgs current original = Inr dropped"
  shows "map DropStateID dropped = filter (\<lambda>i. i \<notin> fst ` set current) (map fst original)"
    and "dropped \<noteq> [] \<longrightarrow> OpInvalidated p = OpaqueDropInvalid" and "fst ` set current \<subseteq> fst ` set original"
proof -
  from assms obtain us where c: "checkOriginals H p msgs current original = Inr dropped"
      and a: "map_res (\<lambda>(i, origin). if map_of original i = None then Inl ErrInvalidOpaqueState
         else if BindProfile (OsBinding (OrState origin)) \<noteq> OpProfile p then Inl ErrOpaqueStateInvalidated else Inr ()) current = Inr us"
    by (auto simp: checkOpaqueInventory_def bind_res_Inr_iff)
  show "map DropStateID dropped = filter (\<lambda>i. i \<notin> fst ` set current) (map fst original)" "dropped \<noteq> [] \<longrightarrow> OpInvalidated p = OpaqueDropInvalid"
    using checkOriginals_Inr [OF c] by blast+
  have "map_of original i \<noteq> None" if "(i, origin) \<in> set current" for i origin
    using a that by (auto simp: map_res_Inr_iff list_all2_conv_all_nth in_set_conv_nth split: if_splits)
  then show "fst ` set current \<subseteq> fst ` set original" by (auto simp: map_of_eq_None_iff)
qed

lemma stable_valid:
  assumes "invalidOpaqueStates H p True acc before = Inr []" "validateUniqueMessageIDs (FlattenMessages acc) = Inr ()"
  shows "ValidateOpaqueState H (OpProfile p) (FlattenMessages acc) = Inr ()"
proof -
  from assms(1) obtain states where s: "opaqueStateInventory H (FlattenMessages acc) = Inr states"
      "invalidStates H p (FlattenMessages acc) before states = Inr []"
    by (auto simp: invalidOpaqueStates_def semanticOutputMessages_def Let_def bind_res_Inr_iff)
  have "\<forall>x \<in> set states. (case x of (i, origin) \<Rightarrow>
      validateOneOpaqueState H (FlattenMessages acc) (MsgID (OrMessage origin)) (OrState origin) (OpProfile p)) = Inr ()"
    using invalidStates_Inr [OF s(2)] by (auto simp: filter_empty_conv)
  then show ?thesis using s(1) assms(2) by (auto simp: ValidateOpaqueState_def bind_res_Inr_iff map_res_unit [symmetric])
qed

lemma drop_ids: "map MsgID (FlattenMessages (dropOpaqueStates H (cloneOutputPolicyPayload p) ds)) = map MsgID (FlattenMessages p)"
proof -
  have "map MsgID (map (dropFromMessage H ids) ms) = map MsgID ms" for ids ms by (simp add: dropFromMessage_def)
  then have "map MsgID (FlattenMessages (dropOpaqueStates H (cloneOutputPolicyPayload p) ds)) = map MsgID (FlattenMessages (cloneOutputPolicyPayload p))"
    unfolding Flatten_drop .
  then show ?thesis by (simp add: FlattenMessages_def cloneOutputPolicyPayload_def cloneMessageSlice_def)
qed

text \<open>
  C37. Enforcing the opaque-state policy on the main output always comes to an end, although one dropped state can invalidate another. When
  it succeeds, every state left in the output is valid there under the profile of the policy; a state of the request is
  either left in the output or reported as dropped, never both and never neither, and nothing else is left or reported; states are
  dropped only under the policy that allows it; and apart from the dropped states the output is the payload (or its copy).
\<close>

theorem opaque_state_enforced:
  assumes "validateUniqueMessageIDs (FlattenMessages payload) = Inr ()" "clones_keep_states H payload"
  shows "\<exists>r. enforceOpaqueState H (Some p) True original payload = Some r \<and>
     (\<forall>accepted drops. r = Inr (accepted, drops) \<longrightarrow>
        ValidateOpaqueState H (OpProfile p) (FlattenMessages accepted) = Inr () \<and>
        set (map fst original) = set (payloadStates H (FlattenMessages accepted)) \<union> set (map DropStateID drops) \<and>
        set (payloadStates H (FlattenMessages accepted)) \<inter> set (map DropStateID drops) = {} \<and>
        (drops \<noteq> [] \<longrightarrow> OpInvalidated p = OpaqueDropInvalid) \<and>
        accepted \<in> {payload, dropOpaqueStates H (cloneOutputPolicyPayload payload) drops})"
proof -
  let ?copy = "cloneOutputPolicyPayload payload"
  have unique: "validateUniqueMessageIDs (FlattenMessages (dropOpaqueStates H ?copy ds)) = Inr ()" for ds
    using assms(1) unfolding validateUniqueMessageIDs_Inr drop_ids .
  have main: "semanticOutputMessages True payload = FlattenMessages payload" by (simp add: semanticOutputMessages_def)
  show ?thesis
  proof (cases "opaqueStateInventory H (FlattenMessages payload)")
    case (Inr current)
    note cur = inventory_ids [OF Inr]
    show ?thesis
    proof (cases "current = [] \<and> original = []")
      case True
      with Inr cur assms(1) show ?thesis by (auto simp: enforceOpaqueState_def main Let_def ValidateOpaqueState_def)
    next
      case False
      show ?thesis
      proof (cases "checkOpaqueInventory H p (FlattenMessages payload) current original")
        case (Inr dropped)
        note ck = checkOpaqueInventory_Inr [OF Inr]
        obtain r where r: "enforceLoop H p True current ?copy dropped = Some r" using enforceLoop_returns by blast
        have "ValidateOpaqueState H (OpProfile p) (FlattenMessages accepted) = Inr () \<and>
            set (map fst original) = set (payloadStates H (FlattenMessages accepted)) \<union> set (map DropStateID drops) \<and>
            set (payloadStates H (FlattenMessages accepted)) \<inter> set (map DropStateID drops) = {} \<and>
            (drops \<noteq> [] \<longrightarrow> OpInvalidated p = OpaqueDropInvalid) \<and> accepted = dropOpaqueStates H ?copy (sortDrops drops)"
          if res: "r = Inr (accepted, drops)" for accepted drops
        proof -
          from enforceLoop_stable r res obtain new where new: "drops = dropped @ new" "accepted = dropOpaqueStates H ?copy new"
              "invalidOpaqueStates H p True accepted current = Inr []" "\<forall>d \<in> set new. dropped_for H p current d"
            unfolding loop_result_def by blast
          have left: "payloadStates H (FlattenMessages accepted) = filter (\<lambda>i. i \<notin> set (map DropStateID new)) (map fst current)"
            unfolding new(2) Flatten_drop payloadStates_drop payloadStates_clone [OF assms(2)] using cur by simp
          have sub: "set (map DropStateID new) \<subseteq> fst ` set current"
            using new(4) by (force simp: dropped_for_def dest!: map_of_SomeD)
          have "set (payloadStates H (FlattenMessages ?copy)) \<inter> set (map DropStateID dropped) = {}"
            unfolding payloadStates_clone [OF assms(2)] ck(1) using cur by (auto simp flip: set_map)
          then have "dropOpaqueStates H ?copy dropped = ?copy" by (rule dropOpaqueStates_unchanged)
          then have "accepted = dropOpaqueStates H ?copy (dropped @ new)"
            unfolding new(2) using dropOpaqueStates_append [of H ?copy dropped new] by simp
          also have "\<dots> = dropOpaqueStates H ?copy (sortDrops drops)" by (rule dropOpaqueStates_cong) (simp add: new(1))
          finally have acc: "accepted = dropOpaqueStates H ?copy (sortDrops drops)" .
          from sub ck(3) have sub': "set (map DropStateID new) \<subseteq> fst ` set original" by (rule order_trans)
          have dr: "set (map DropStateID drops) = {i \<in> fst ` set original. i \<notin> fst ` set current} \<union> set (map DropStateID new)"
            unfolding new(1) map_append set_append ck(1) by auto
          have "ValidateOpaqueState H (OpProfile p) (FlattenMessages accepted) = Inr ()"
            using stable_valid [OF new(3)] unique new(2) by simp
          moreover have "set (map fst original) = set (payloadStates H (FlattenMessages accepted)) \<union> set (map DropStateID drops)"
            unfolding dr left using ck(3) sub' by (simp add: set_filter) blast
          moreover have "set (payloadStates H (FlattenMessages accepted)) \<inter> set (map DropStateID drops) = {}"
            unfolding dr left by auto
          moreover have "drops \<noteq> [] \<longrightarrow> OpInvalidated p = OpaqueDropInvalid"
            using ck(2) new(1,4) by (cases new) (auto simp: dropped_for_def)
          ultimately show ?thesis using acc by blast
        qed
        note good = this
        have result: "enforceOpaqueState H (Some p) True original payload = Some (bind_res r (\<lambda>(accepted, drops). Inr (accepted, sortDrops drops)))"
          using Inr \<open>opaqueStateInventory _ _ = _\<close> False r by (auto simp add: enforceOpaqueState_def main Let_def)
        show ?thesis
        proof (cases r)
          case (Inr pair)
          obtain accepted drops where pair: "pair = (accepted, drops)" by (cases pair)
          have "set (map DropStateID (sortDrops drops)) = set (map DropStateID drops)" by simp
          then show ?thesis using good [OF Inr [unfolded pair]] unfolding result Inr pair by (elim conjE) simp
        qed (simp add: result)
      qed (use False Inr in \<open>auto simp: enforceOpaqueState_def main Let_def\<close>)
    qed
  qed (simp add: enforceOpaqueState_def main Let_def)
qed

text \<open>
  The state of message \<open>a\<close> needs a message that is gone. The state of \<open>b\<close> needs \<open>a\<close> as it was with its state, so it only becomes
  invalid once that one is dropped.
\<close>

definition opaqueSampleDigest :: "Message \<Rightarrow> string" where
  "opaqueSampleDigest m = bytesToHex (take 32 (MsgID m @ replicate (length (MsgExtensions m)) CHR ''e'' @ replicate 32 CHR ''0''))"

definition opaqueSampleRef :: "string \<Rightarrow> nat \<Rightarrow> ContentRef" where
  "opaqueSampleRef i n = \<lparr>RefID = i, RefDigest = bytesToHex (take 32 (i @ replicate n CHR ''e'' @ replicate 32 CHR ''0'')), RefOccurrence = []\<rparr>"

definition stateExtension :: "string \<Rightarrow> Extension" where
  "stateExtension i = Ext False OpaqueStateExtensionType (Some i) None"

definition opaqueSampleState :: "string \<Rightarrow> ContentRef \<Rightarrow> OpaqueState" where
  "opaqueSampleState i req = \<lparr>OsID = i, OsCodec = \<lparr>DescID = ''codec'', DescRevision = ''1''\<rparr>, OsPayload = Ext False ''raw'' (Some i) None, OsAfterPart = -1,
     OsBinding = \<lparr>BindProfile = \<lparr>DescID = ''model'', DescRevision = ''1''\<rparr>, BindRequired = [req], BindPrefix = [], BindBoundary = []\<rparr>\<rparr>"

definition opaqueSampleHost :: OpaqueHost where
  "opaqueSampleHost = \<lparr>OhEnv = sampleEnv\<lparr>MarshalDigest := \<lambda>m. Inr (opaqueSampleDigest m)\<rparr>,
     OhState = (\<lambda>e. if e = stateExtension ''p'' then Some (opaqueSampleState ''p'' (opaqueSampleRef ''gone'' 0))
                    else if e = stateExtension ''q'' then Some (opaqueSampleState ''q'' (opaqueSampleRef ''a'' 1)) else None),
     OhJSON = (\<lambda>s. Some (OsID s)), OhCodecs = Some [(''raw'', \<lparr>DescID = ''codec'', DescRevision = ''1''\<rparr>)]\<rparr>"

definition opaqueSamplePayload :: AbstractPayload where
  "opaqueSamplePayload = \<lparr>PlSystem = [], PlHistory = [(userText ''a'' ''one'')\<lparr>MsgExtensions := [stateExtension ''p'']\<rparr>,
     (userText ''b'' ''two'')\<lparr>MsgExtensions := [stateExtension ''q'']\<rparr>], PlTools = [], PlMemory = []\<rparr>"

definition sampleOpaquePolicy :: OpaqueStatePolicy where
  "sampleOpaquePolicy = \<lparr>OpIdentity = \<lparr>DescID = ''policy'', DescRevision = ''1''\<rparr>, OpProfile = \<lparr>DescID = ''model'', DescRevision = ''1''\<rparr>, OpInvalidated = OpaqueDropInvalid\<rparr>"

definition opaqueSampleInventory :: inventory where
  "opaqueSampleInventory = (case opaqueStateInventory opaqueSampleHost (FlattenMessages opaqueSamplePayload) of Inr states \<Rightarrow> states | Inl _ \<Rightarrow> [])"

definition runSampleOpaque :: "(string list \<times> nat) option" where
  "runSampleOpaque = (case enforceOpaqueState opaqueSampleHost (Some sampleOpaquePolicy) True opaqueSampleInventory opaqueSamplePayload of
     Some (Inr (accepted, drops)) \<Rightarrow> Some (map DropStateID drops, length (payloadStates opaqueSampleHost (FlattenMessages accepted))) | _ \<Rightarrow> None)"

theorem opaque_state_enforced_witness:
  "runSampleOpaque = Some ([''p'', ''q''], 0) \<and>
     (\<exists>accepted drops. enforceOpaqueState opaqueSampleHost (Some sampleOpaquePolicy) True opaqueSampleInventory opaqueSamplePayload = Some (Inr (accepted, drops)) \<and>
        ValidateOpaqueState opaqueSampleHost (OpProfile sampleOpaquePolicy) (FlattenMessages accepted) = Inr ())"
proof -
  have run: "runSampleOpaque = Some ([''p'', ''q''], 0)" by code_simp
  then obtain accepted drops where r: "enforceOpaqueState opaqueSampleHost (Some sampleOpaquePolicy) True opaqueSampleInventory opaqueSamplePayload = Some (Inr (accepted, drops))"
    unfolding runSampleOpaque_def by (auto split: option.splits sum.splits)
  have "validateUniqueMessageIDs (FlattenMessages opaqueSamplePayload) = Inr ()" by code_simp
  moreover have "clones_keep_states opaqueSampleHost opaqueSamplePayload" by code_simp
  ultimately show ?thesis using opaque_state_enforced [of opaqueSamplePayload opaqueSampleHost sampleOpaquePolicy opaqueSampleInventory] r run by auto
qed

end
