(* ===== verification/Output_Policy.thy ===== *)
theory Output_Policy
  imports Opaque_State
begin

text \<open>
  Output policies (output_policy.go): the host's last projection of the prompt. It may rewrite text, but the accepted payload must
  have the same messages in the same segments, and the same tool calls and results at the same places.
\<close>

abbreviation ErrMissingOutputPolicy :: go_error where
  "ErrMissingOutputPolicy \<equiv> Sentinel ''ErrMissingOutputPolicy''"

text \<open>The JSON codec of the output: encoding, decoding, and the canonical digest of an encoding.\<close>

record PolicyCodec =
  PcMarshal :: "Message \<Rightarrow> string result"
  PcUnmarshal :: "string \<Rightarrow> Message result"
  PcDigest :: "string \<Rightarrow> string result"

text \<open>\<open>OiMain\<close> distinguishes \<^verbatim>\<open>ManifestMainOutput\<close> from the output of a target.\<close>

record OutputPolicyInput =
  OiMain :: bool
  OiName :: string
  OiPayload :: AbstractPayload

record OutputPolicy =
  OtIdentity :: Descriptor
  OtProject :: "(OutputPolicyInput \<Rightarrow> AbstractPayload comp) option"

definition validateOutputPolicy :: "OutputPolicy option \<Rightarrow> unit result" where
  "validateOutputPolicy policy =
     (case policy of
        None \<Rightarrow> Inr ()
      | Some p \<Rightarrow> (case Descriptor_Validate (OtIdentity p) of
          Inl e \<Rightarrow> Inl (Wrap ErrInvalidOutputPolicy e)
        | Inr _ \<Rightarrow> if Option.is_none (OtProject p) then Inl ErrMissingOutputPolicy else Inr ()))"

definition outputPolicySegments :: "AbstractPayload \<Rightarrow> Message list list" where
  "outputPolicySegments p = [PlSystem p, PlHistory p, PlTools p, PlMemory p]"

definition validateOutputPolicyMessageCodec :: "PolicyCodec \<Rightarrow> Message \<Rightarrow> unit comp" where
  "validateOutputPolicyMessageCodec C m =
     bind poll (\<lambda>_.
      bind (settle (map_err (Wrap ErrInvalidOutputPolicy) (lift_res (PcMarshal C m)))) (\<lambda>wire.
      bind (settle (map_err (Wrap ErrInvalidOutputPolicy) (lift_res (PcUnmarshal C wire)))) (\<lambda>restored.
      bind (settle (map_err (Wrap ErrInvalidOutputPolicy) (lift_res (PcMarshal C restored)))) (\<lambda>restoredWire.
      bind (map_err (Wrap ErrInvalidOutputPolicy) (lift_res (PcDigest C wire))) (\<lambda>originalDigest.
      if PcDigest C restoredWire = Inr originalDigest then ret () else fail ErrInvalidOutputPolicy)))))"

fun validatePolicyMessages :: "PolicyCodec \<Rightarrow> Message list \<Rightarrow> unit comp" where
  "validatePolicyMessages C [] = ret ()"
| "validatePolicyMessages C (m # ms) =
     bind (map_err (Wrap ErrInvalidOutputPolicy) (lift_res (Role_Validate (MsgRole m)))) (\<lambda>_.
     if \<exists>p \<in> set (MsgParts m). canonicalPartValue p = None then fail ErrInvalidOutputPolicy
     else bind (validateOutputPolicyMessageCodec C m) (\<lambda>_. validatePolicyMessages C ms))"

definition validateOutputPolicyPayload :: "PolicyCodec \<Rightarrow> AbstractPayload \<Rightarrow> unit comp" where
  "validateOutputPolicyPayload C p = validatePolicyMessages C (concat (outputPolicySegments p))"

subsection \<open>The tool topology\<close>

definition isToolPartKind :: "part \<Rightarrow> bool" where
  "isToolPartKind p = (case canonicalPartValue p of Some (ToolCallPart _) \<Rightarrow> True | Some (ToolResultPart _) \<Rightarrow> True | _ \<Rightarrow> False)"

definition sameOutputPolicyToolIdentity :: "part \<Rightarrow> part \<Rightarrow> bool" where
  "sameOutputPolicyToolIdentity before after =
     (case canonicalPartValue before of
        Some (ToolCallPart c) \<Rightarrow> (case canonicalPartValue after of
            Some (ToolCallPart c') \<Rightarrow> CallID c = CallID c' \<and> CallName c = CallName c' | _ \<Rightarrow> False)
      | Some (ToolResultPart r) \<Rightarrow> (case canonicalPartValue after of
            Some (ToolResultPart r') \<Rightarrow> ResultCallID r = ResultCallID r' \<and> ResultName r = ResultName r' \<and> ResultIsError r = ResultIsError r'
          | _ \<Rightarrow> False)
      | _ \<Rightarrow> False)"

fun toolPartsBefore :: "Message \<Rightarrow> Message \<Rightarrow> nat \<Rightarrow> part list \<Rightarrow> unit result" where
  "toolPartsBefore before after i [] = Inr ()"
| "toolPartsBefore before after i (p # ps) =
     (if canonicalPartValue p = None then Inl ErrInvalidOutputPolicy
      else if \<not> isToolPartKind p then toolPartsBefore before after (Suc i) ps
      else if MsgRole before \<noteq> MsgRole after \<or> i \<ge> length (MsgParts after) then Inl ErrInvalidOutputPolicy
      else if \<not> sameOutputPolicyToolIdentity p (MsgParts after ! i) then Inl ErrInvalidOutputPolicy
      else toolPartsBefore before after (Suc i) ps)"

fun toolPartsAfter :: "Message \<Rightarrow> nat \<Rightarrow> part list \<Rightarrow> unit result" where
  "toolPartsAfter before i [] = Inr ()"
| "toolPartsAfter before i (p # ps) =
     (if canonicalPartValue p = None then Inl ErrInvalidOutputPolicy
      else if \<not> isToolPartKind p then toolPartsAfter before (Suc i) ps
      else if i \<ge> length (MsgParts before) \<or> \<not> sameOutputPolicyToolIdentity (MsgParts before ! i) p then Inl ErrInvalidOutputPolicy
      else toolPartsAfter before (Suc i) ps)"

definition validateOutputPolicyToolParts :: "Message \<Rightarrow> Message \<Rightarrow> unit result" where
  "validateOutputPolicyToolParts before after =
     bind_res (toolPartsBefore before after 0 (MsgParts before)) (\<lambda>_. toolPartsAfter before 0 (MsgParts after))"

fun validatePolicyPairs :: "Message list \<Rightarrow> Message list \<Rightarrow> unit result" where
  "validatePolicyPairs (m # ms) (m' # ms') =
     (if MsgID m \<noteq> MsgID m' then Inl ErrInvalidOutputPolicy
      else bind_res (validateOutputPolicyToolParts m m') (\<lambda>_. validatePolicyPairs ms ms'))"
| "validatePolicyPairs _ _ = Inr ()"

definition validateOutputPolicySegment :: "Message list \<Rightarrow> Message list \<Rightarrow> unit result" where
  "validateOutputPolicySegment before after =
     (if length before \<noteq> length after then Inl ErrInvalidOutputPolicy else validatePolicyPairs before after)"

definition applyOutputPolicy :: "PolicyCodec \<Rightarrow> OutputPolicy option \<Rightarrow> OutputPolicyInput \<Rightarrow> AbstractPayload comp" where
  "applyOutputPolicy C policy input =
     bind poll (\<lambda>_.
     bind (lift_res (validateOutputPolicy policy)) (\<lambda>_.
     case policy of
       None \<Rightarrow> ret (cloneOutputPolicyPayload (OiPayload input))
     | Some p \<Rightarrow>
         bind (validateOutputPolicyPayload C (OiPayload input)) (\<lambda>_.
         bind (settle (case OtProject p of None \<Rightarrow> fail ErrMissingOutputPolicy
                       | Some f \<Rightarrow> f (input\<lparr>OiPayload := cloneOutputPolicyPayload (OiPayload input)\<rparr>))) (\<lambda>out.
         bind (validateOutputPolicyPayload C out) (\<lambda>_.
         bind (lift_res (map_res (\<lambda>(b, a). validateOutputPolicySegment b a)
                (zip (outputPolicySegments (OiPayload input)) (outputPolicySegments out)))) (\<lambda>_.
         ret (cloneOutputPolicyPayload out)))))))"

subsection \<open>Recorded decisions\<close>

record OutputPolicyDecision =
  OpdPolicy :: Descriptor
  OpdInputs :: "ManifestSegment list"
  OpdOutputs :: "ManifestSegment list"

definition OutputPolicyDecision_Validate :: "OutputPolicyDecision \<Rightarrow> unit result" where
  "OutputPolicyDecision_Validate d =
     bind_res (Descriptor_Validate (OpdPolicy d)) (\<lambda>_.
     bind_res (validatePolicySegments (OpdInputs d)) (\<lambda>_.
     bind_res (validatePolicySegments (OpdOutputs d)) (\<lambda>_.
     if \<exists>(i, out) \<in> set (zip (OpdInputs d) (OpdOutputs d)). map RefID (MsRefs i) \<noteq> map RefID (MsRefs out) then Inl ErrInvalidOutputPolicy
     else Inr ())))"

text \<open>The decision that \<^verbatim>\<open>recordOutputPolicy\<close> stores for its output.\<close>

definition recordOutputPolicy :: "env \<Rightarrow> Descriptor \<Rightarrow> AbstractPayload \<Rightarrow> AbstractPayload \<Rightarrow> OutputPolicyDecision result" where
  "recordOutputPolicy E identity before after =
     bind_res (manifestSnapshotSegments E (payloadSnapshot before)) (\<lambda>inputs.
     bind_res (manifestSnapshotSegments E (payloadSnapshot after)) (\<lambda>outputs.
     Inr \<lparr>OpdPolicy = identity, OpdInputs = inputs, OpdOutputs = outputs\<rparr>))"

subsection \<open>Accepted payloads keep the topology\<close>

text \<open>What identifies a tool part; other parts have no identity.\<close>

datatype tool_identity = CallOf string string | ResultOf string string bool

definition identityOf :: "part \<Rightarrow> tool_identity option" where
  "identityOf p = (case canonicalPartValue p of
     Some (ToolCallPart c) \<Rightarrow> Some (CallOf (CallID c) (CallName c))
   | Some (ToolResultPart r) \<Rightarrow> Some (ResultOf (ResultCallID r) (ResultName r) (ResultIsError r))
   | _ \<Rightarrow> None)"

definition identity_at :: "Message \<Rightarrow> nat \<Rightarrow> tool_identity option" where
  "identity_at m i = (if i < length (MsgParts m) then identityOf (MsgParts m ! i) else None)"

definition same_topology :: "Message \<Rightarrow> Message \<Rightarrow> bool" where
  "same_topology m m' \<longleftrightarrow> MsgID m = MsgID m' \<and> (\<forall>i. identity_at m i = identity_at m' i) \<and>
     ((\<exists>i. identity_at m i \<noteq> None) \<longrightarrow> MsgRole m = MsgRole m') \<and> Role_Validate (MsgRole m') = Inr ()"

lemma isToolPartKind_iff: "isToolPartKind p \<longleftrightarrow> identityOf p \<noteq> None"
  by (auto simp: isToolPartKind_def identityOf_def split: option.splits ContentPart.splits)

lemma sameIdentity_iff: "sameOutputPolicyToolIdentity p q \<longleftrightarrow> identityOf p \<noteq> None \<and> identityOf p = identityOf q"
  by (auto simp: sameOutputPolicyToolIdentity_def identityOf_def split: option.splits ContentPart.splits)

lemma toolPartsBefore_Inr:
  "toolPartsBefore m m' k ps = Inr () \<Longrightarrow> j < length ps \<Longrightarrow> identityOf (ps ! j) \<noteq> None \<Longrightarrow>
     MsgRole m = MsgRole m' \<and> identity_at m' (k + j) = identityOf (ps ! j)"
proof (induction ps arbitrary: k j)
  case (Cons p ps)
  show ?case
  proof (cases j)
    case 0
    with Cons.prems show ?thesis by (auto simp: isToolPartKind_iff sameIdentity_iff identity_at_def split: if_splits)
  next
    case (Suc n)
    with Cons.prems Cons.IH [of "Suc k" n] show ?thesis by (auto split: if_splits)
  qed
qed simp

lemma toolPartsAfter_Inr:
  "toolPartsAfter m k ps = Inr () \<Longrightarrow> j < length ps \<Longrightarrow> identityOf (ps ! j) \<noteq> None \<Longrightarrow> identity_at m (k + j) = identityOf (ps ! j)"
proof (induction ps arbitrary: k j)
  case (Cons p ps)
  show ?case
  proof (cases j)
    case 0
    with Cons.prems show ?thesis by (auto simp: isToolPartKind_iff sameIdentity_iff identity_at_def split: if_splits)
  next
    case (Suc n)
    with Cons.prems Cons.IH [of "Suc k" n] show ?thesis by (auto split: if_splits)
  qed
qed simp

lemma toolParts_topology:
  assumes "validateOutputPolicyToolParts m m' = Inr ()"
  shows "identity_at m i = identity_at m' i" and "identity_at m i \<noteq> None \<Longrightarrow> MsgRole m = MsgRole m'"
proof -
  from assms have b: "toolPartsBefore m m' 0 (MsgParts m) = Inr ()" "toolPartsAfter m 0 (MsgParts m') = Inr ()"
    by (auto simp: validateOutputPolicyToolParts_def bind_res_Inr_iff)
  note fwd = toolPartsBefore_Inr [OF b(1), of i, simplified] and bwd = toolPartsAfter_Inr [OF b(2), of i, simplified]
  show "identity_at m i \<noteq> None \<Longrightarrow> MsgRole m = MsgRole m'" using fwd by (auto simp: identity_at_def split: if_splits)
  show "identity_at m i = identity_at m' i"
  proof (cases "identity_at m i")
    case (Some t)
    then have "i < length (MsgParts m)" "identityOf (MsgParts m ! i) = Some t" by (auto simp: identity_at_def split: if_splits)
    with fwd Some show ?thesis by simp
  next
    case None
    then show ?thesis using bwd by (cases "identity_at m' i") (auto simp: identity_at_def split: if_splits)
  qed
qed

lemma validatePolicyMessages_Inr:
  "validatePolicyMessages C ms c = (Inr (), c') \<Longrightarrow> \<forall>m \<in> set ms. Role_Validate (MsgRole m) = Inr ()"
proof (induction ms arbitrary: c)
  case (Cons m ms)
  then obtain c1 c2 where "map_err (Wrap ErrInvalidOutputPolicy) (lift_res (Role_Validate (MsgRole m))) c = (Inr (), c1)"
      "validatePolicyMessages C ms c2 = (Inr (), c')"
    by (auto simp: bind_Inr_iff split: if_splits)
  then show ?case using Cons.IH by (auto simp: map_err_def split: sum.splits)
qed simp

lemma validatePolicyPairs_Inr:
  "validatePolicyPairs ms ms' = Inr () \<Longrightarrow> length ms = length ms' \<Longrightarrow> \<forall>m' \<in> set ms'. Role_Validate (MsgRole m') = Inr () \<Longrightarrow>
     list_all2 same_topology ms ms'"
proof (induction ms ms' rule: validatePolicyPairs.induct)
  case (1 m ms m' ms')
  then have "validateOutputPolicyToolParts m m' = Inr ()" by (auto simp: bind_res_Inr_iff split: if_splits)
  from toolParts_topology [OF this] 1 show ?case by (auto simp: same_topology_def bind_res_Inr_iff split: if_splits)
qed auto

lemma validateOutputPolicySegment_Inr:
  assumes "validateOutputPolicySegment ms ms' = Inr ()" "\<forall>m' \<in> set ms'. Role_Validate (MsgRole m') = Inr ()"
  shows "list_all2 same_topology ms ms'"
  using assms validatePolicyPairs_Inr by (auto simp: validateOutputPolicySegment_def split: if_splits)

lemma identity_at_Clone [simp]: "identity_at (Message_Clone m) i = identity_at m i"
  by (auto simp: identity_at_def Message_Clone_def identityOf_def canonicalPartValue_def clonePart_def
      split: part.splits option.splits ContentPart.splits)

lemma same_topology_Clone [simp]: "same_topology m (Message_Clone m') = same_topology m m'"
  by (simp add: same_topology_def)

lemma clone_segments: "outputPolicySegments (cloneOutputPolicyPayload p) = map cloneMessageSlice (outputPolicySegments p)"
  by (simp add: outputPolicySegments_def cloneOutputPolicyPayload_def)

lemma topology_clone: "list_all2 same_topology ms (cloneMessageSlice ms') = list_all2 same_topology ms ms'"
  by (simp add: cloneMessageSlice_def list_all2_map2)

lemma map_res_member: "map_res f xs = Inr ys \<Longrightarrow> x \<in> set xs \<Longrightarrow> \<exists>y. f x = Inr y"
  by (induction xs arbitrary: ys) (auto simp: bind_res_Inr_iff)

lemma applyOutputPolicy_Inr:
  assumes "applyOutputPolicy C (Some p) input c = (Inr out, c')"
  obtains res c1 where "out = cloneOutputPolicyPayload res"
    "list_all2 (list_all2 same_topology) (outputPolicySegments (OiPayload input)) (outputPolicySegments res)"
proof -
  from assms obtain res c1 c2 us where out: "out = cloneOutputPolicyPayload res"
      and v: "validateOutputPolicyPayload C res c1 = (Inr (), c2)"
      and us: "map_res (\<lambda>(b, a). validateOutputPolicySegment b a) (zip (outputPolicySegments (OiPayload input)) (outputPolicySegments res)) = Inr us"
    by (auto simp: applyOutputPolicy_def bind_Inr_iff)
  from v have roles: "\<forall>m \<in> set (concat (outputPolicySegments res)). Role_Validate (MsgRole m) = Inr ()"
    unfolding validateOutputPolicyPayload_def by (rule validatePolicyMessages_Inr)
  have "list_all2 same_topology b a" if "(b, a) \<in> set (zip (outputPolicySegments (OiPayload input)) (outputPolicySegments res))" for b a
  proof (rule validateOutputPolicySegment_Inr)
    show "validateOutputPolicySegment b a = Inr ()" using map_res_member [OF us that] by simp
    show "\<forall>m' \<in> set a. Role_Validate (MsgRole m') = Inr ()" using roles that by (auto dest: set_zip_rightD)
  qed
  then have "\<forall>x \<in> set (zip (outputPolicySegments (OiPayload input)) (outputPolicySegments res)). case_prod (list_all2 same_topology) x"
    by blast
  moreover have "length (outputPolicySegments (OiPayload input)) = length (outputPolicySegments res)" by (simp add: outputPolicySegments_def)
  ultimately have "list_all2 (list_all2 same_topology) (outputPolicySegments (OiPayload input)) (outputPolicySegments res)" by (rule list_all2I)
  then show thesis using that out by blast
qed

subsection \<open>Recorded decisions validate\<close>

lemma validateManifestSegmentRefs_from_Inr:
  "validateManifestSegmentRefs_from seen refs = Inr () \<longleftrightarrow>
     (\<forall>ref \<in> set refs. ContentRef_Validate ref = Inr () \<and> RefID ref \<notin> set seen) \<and> distinct (map RefID refs)"
  by (induction seen refs rule: validateManifestSegmentRefs_from.induct) (auto simp: bind_res_Inr_iff, (metis imageI)+)

lemma manifestSegment_Inr:
  assumes "manifestSegment E name ms = Inr seg" "digest_wf E" "validateUniqueMessageIDs ms = Inr ()"
  shows "MsName seg = name \<and> map RefID (MsRefs seg) = map MsgID ms \<and> validateManifestSegmentRefs (MsRefs seg) = Inr () \<and>
     (\<forall>ref \<in> set (MsRefs seg). RefOccurrence ref = [])"
proof -
  from assms(1) have seg: "MsName seg = name" and refs: "list_all2 (\<lambda>m ref. MessageContentRef E m = Inr ref) ms (MsRefs seg)"
    by (auto simp: manifestSegment_def bind_res_Inr_iff map_res_Inr_iff)
  have ids: "map RefID (MsRefs seg) = map MsgID ms"
    using refs by (induction rule: list_all2_induct) (auto dest: MessageContentRef_ID)
  have each: "\<forall>ref \<in> set (MsRefs seg). RefID ref \<noteq> [] \<and> RefOccurrence ref = [] \<and> ContentRef_Validate ref = Inr ()"
    using refs
  proof (induction rule: list_all2_induct)
    case (Cons m ms ref refs)
    from Cons(1) have "RefID ref \<noteq> [] \<and> RefOccurrence ref = []" by (auto simp: MessageContentRef_def bind_res_Inr_iff split: if_splits)
    with Cons MessageContentRef_valid [OF assms(2)] show ?case by simp
  qed simp
  have "filter (\<lambda>i. i \<noteq> []) (map MsgID ms) = map MsgID ms"
    unfolding ids [symmetric] using each by (auto intro: filter_True)
  then have "distinct (map RefID (MsRefs seg))" using assms(3) by (simp add: validateUniqueMessageIDs_Inr ids)
  then show ?thesis using seg ids each by (simp add: validateManifestSegmentRefs_def validateManifestSegmentRefs_from_Inr)
qed

lemma Segment_payloadSnapshot:
  "Segment (payloadSnapshot p) SegmentSystem = map (Message_Clone \<circ> Message_Clone) (PlSystem p)"
  "Segment (payloadSnapshot p) SegmentHistory = map (Message_Clone \<circ> Message_Clone) (PlHistory p)"
  "Segment (payloadSnapshot p) SegmentTools = map (Message_Clone \<circ> Message_Clone) (PlTools p)"
  "Segment (payloadSnapshot p) SegmentMemory = map (Message_Clone \<circ> Message_Clone) (PlMemory p)"
  by (simp_all add: payloadSnapshot_def Segment_WithSegment comp_def)

lemma unique_sublist:
  assumes "validateUniqueMessageIDs (FlattenMessages p) = Inr ()" "seg \<in> set snapshotSegmentOrder"
  shows "validateUniqueMessageIDs (Segment (payloadSnapshot p) seg) = Inr ()"
  using assms by (auto simp: snapshotSegmentOrder_def Segment_payloadSnapshot validateUniqueMessageIDs_Inr FlattenMessages_def comp_def)

lemma recorded_segments_valid:
  assumes "manifestSnapshotSegments E (payloadSnapshot p) = Inr segs" "digest_wf E" "validateUniqueMessageIDs (FlattenMessages p) = Inr ()"
  shows "validatePolicySegments segs = Inr () \<and>
     map (\<lambda>s. map RefID (MsRefs s)) segs = map (\<lambda>name. map MsgID (Segment (payloadSnapshot p) name)) snapshotSegmentOrder"
proof -
  from assms(1) have f: "list_all2 (\<lambda>name s. manifestSegment E name (Segment (payloadSnapshot p) name) = Inr s) snapshotSegmentOrder segs"
    by (simp add: manifestSnapshotSegments_def map_res_Inr_iff)
  then have g: "list_all2 (\<lambda>name s. MsName s = name \<and> map RefID (MsRefs s) = map MsgID (Segment (payloadSnapshot p) name) \<and>
      validateManifestSegmentRefs (MsRefs s) = Inr () \<and> (\<forall>ref \<in> set (MsRefs s). RefOccurrence ref = [])) snapshotSegmentOrder segs"
    using manifestSegment_Inr [OF _ assms(2) unique_sublist [OF assms(3)]] by (auto simp: list_all2_conv_all_nth)
  have "length segs = 4" using list_all2_lengthD [OF g] by (simp add: snapshotSegmentOrder_def)
  then obtain a b c d where segs: "segs = [a, b, c, d]" by (auto simp: numeral_eq_Suc length_Suc_conv)
  show ?thesis using g unfolding segs
    by (simp add: snapshotSegmentOrder_def validatePolicySegments_def validateManifestSegments_def manifestArtifactsSegment_def)
qed

text \<open>
  C38. What an output policy may do. When a policy's payload is accepted, every segment still has the same messages in the same order under
  the same identities, every tool call and every tool result stands at the same part of the same message with the same call, name and outcome and
  none was added, a message with tool parts keeps its role, and every role is valid; the identities of the payload are still unique; and the recorded
  decision about it always validates.
\<close>

theorem output_policy_keeps_topology:
  assumes "applyOutputPolicy C (Some p) input c = (Inr out, c')" "validateUniqueMessageIDs (FlattenMessages (OiPayload input)) = Inr ()"
  shows "list_all2 (list_all2 same_topology) (outputPolicySegments (OiPayload input)) (outputPolicySegments out) \<and>
     validateUniqueMessageIDs (FlattenMessages out) = Inr () \<and> validateMessageRoles (FlattenMessages out) = Inr () \<and>
     (\<forall>E d. digest_wf E \<longrightarrow> recordOutputPolicy E (OtIdentity p) (OiPayload input) out = Inr d \<longrightarrow> OutputPolicyDecision_Validate d = Inr ())"
proof -
  obtain res where out: "out = cloneOutputPolicyPayload res"
      and top: "list_all2 (list_all2 same_topology) (outputPolicySegments (OiPayload input)) (outputPolicySegments res)"
    by (rule applyOutputPolicy_Inr [OF assms(1)])
  have same: "list_all2 (list_all2 same_topology) (outputPolicySegments (OiPayload input)) (outputPolicySegments out)"
    using top unfolding out clone_segments by (simp add: list_all2_map2 topology_clone)
  have ids: "map MsgID ms = map MsgID ms'" "validateMessageRoles ms' = Inr ()" if "list_all2 same_topology ms ms'" for ms ms'
    using that by (induction rule: list_all2_induct) (auto simp: same_topology_def bind_res_Inr_iff)
  have flat: "list_all2 same_topology (FlattenMessages (OiPayload input)) (FlattenMessages out)"
    using same by (simp add: outputPolicySegments_def FlattenMessages_def list_all2_appendI)
  have unique: "validateUniqueMessageIDs (FlattenMessages out) = Inr ()"
    using assms(2) unfolding validateUniqueMessageIDs_Inr ids(1) [OF flat] .
  have "Descriptor_Validate (OtIdentity p) = Inr ()"
    using assms(1) by (auto simp: applyOutputPolicy_def validateOutputPolicy_def bind_Inr_iff split: sum.splits)
  then have "OutputPolicyDecision_Validate d = Inr ()"
    if d: "digest_wf E" "recordOutputPolicy E (OtIdentity p) (OiPayload input) out = Inr d" for E d
  proof -
    from d(2) obtain inputs outputs where r: "manifestSnapshotSegments E (payloadSnapshot (OiPayload input)) = Inr inputs"
        "manifestSnapshotSegments E (payloadSnapshot out) = Inr outputs" "d = \<lparr>OpdPolicy = OtIdentity p, OpdInputs = inputs, OpdOutputs = outputs\<rparr>"
      by (auto simp: recordOutputPolicy_def bind_res_Inr_iff)
    note i = recorded_segments_valid [OF r(1) d(1) assms(2)] and o = recorded_segments_valid [OF r(2) d(1) unique]
    have "map (\<lambda>s. map RefID (MsRefs s)) inputs = map (\<lambda>s. map RefID (MsRefs s)) outputs"
      using i o same ids(1) by (auto simp: snapshotSegmentOrder_def Segment_payloadSnapshot outputPolicySegments_def comp_def)
    then have "\<forall>(i, out) \<in> set (zip inputs outputs). map RefID (MsRefs i) = map RefID (MsRefs out)"
      by (auto simp: list_eq_iff_nth_eq in_set_zip)
    then show ?thesis using i o \<open>Descriptor_Validate _ = _\<close> r(3) by (auto simp: OutputPolicyDecision_Validate_def)
  qed
  then show ?thesis using same unique ids(2) [OF flat] by blast
qed

text \<open>A policy that redacts every text.\<close>

definition sampleCodec :: PolicyCodec where
  "sampleCodec = \<lparr>PcMarshal = (\<lambda>m. Inr (MsgID m)), PcUnmarshal = (\<lambda>s. Inr (userText s [])), PcDigest = Inr\<rparr>"

definition redact :: "Message \<Rightarrow> Message" where
  "redact m = m\<lparr>MsgParts := map (\<lambda>p. case p of PartValue (TextPart _) \<Rightarrow> PartValue (TextPart ''***'') | _ \<Rightarrow> p) (MsgParts m)\<rparr>"

definition redactPolicy :: OutputPolicy where
  "redactPolicy = \<lparr>OtIdentity = \<lparr>DescID = ''redact'', DescRevision = ''1''\<rparr>,
     OtProject = Some (\<lambda>input. ret (let p = OiPayload input in
       \<lparr>PlSystem = map redact (PlSystem p), PlHistory = map redact (PlHistory p), PlTools = map redact (PlTools p), PlMemory = map redact (PlMemory p)\<rparr>))\<rparr>"

definition policySampleInput :: OutputPolicyInput where
  "policySampleInput = \<lparr>OiMain = True, OiName = ''main'',
     OiPayload = \<lparr>PlSystem = [], PlHistory = [userText ''u'' ''secret'', assistantCall ''a'' ''c'', toolReply ''t'' ''c''], PlTools = [], PlMemory = []\<rparr>\<rparr>"

theorem output_policy_keeps_topology_witness:
  "\<exists>out c. applyOutputPolicy sampleCodec (Some redactPolicy) policySampleInput None = (Inr out, c) \<and>
     hd (map MsgParts (PlHistory out)) = [PartValue (TextPart ''***'')] \<and>
     list_all2 same_topology (PlHistory (OiPayload policySampleInput)) (PlHistory out)"
proof -
  let ?run = "applyOutputPolicy sampleCodec (Some redactPolicy) policySampleInput None"
  have "case ?run of (Inr out, _) \<Rightarrow> hd (map MsgParts (PlHistory out)) = [PartValue (TextPart ''***'')] | _ \<Rightarrow> False"
    by code_simp
  then obtain out c where r: "?run = (Inr out, c)" "hd (map MsgParts (PlHistory out)) = [PartValue (TextPart ''***'')]"
    by (cases ?run) (auto split: sum.splits)
  have "validateUniqueMessageIDs (FlattenMessages (OiPayload policySampleInput)) = Inr ()" by code_simp
  from output_policy_keeps_topology [OF r(1) this] r show ?thesis by (auto simp: outputPolicySegments_def)
qed

end
