(* ===== verification/Views.thy ===== *)
theory Views
  imports Output_Policy
begin

text \<open>
  Role projection and read-only views (views.go, view_registry.go): the built-in XML and flat renderings and host-defined named views with
  their own budget and formatter.
\<close>

abbreviation ErrUnsupportedMediaRendering :: go_error where
  "ErrUnsupportedMediaRendering \<equiv> Sentinel ''ErrUnsupportedMediaRendering''"

subsection \<open>Text\<close>

definition roleText :: "Role \<Rightarrow> string" where
  "roleText r = (case r of RoleSystem \<Rightarrow> ''system'' | RoleDeveloper \<Rightarrow> ''developer'' | RoleUser \<Rightarrow> ''user'' | RoleAssistant \<Rightarrow> ''assistant''
     | RoleTool \<Rightarrow> ''tool'' | RoleUnknown s \<Rightarrow> s)"

definition partPlain :: "part \<Rightarrow> string" where
  "partPlain p = (case canonicalPartValue p of
     None \<Rightarrow> []
   | Some (TextPart t) \<Rightarrow> t
   | Some (ImagePart url _) \<Rightarrow> ''[image:'' @ url @ '']''
   | Some (MediaPart mime _) \<Rightarrow> ''[media:'' @ mime @ '']''
   | Some (ToolCallPart c) \<Rightarrow> ''[tool_call:'' @ CallName c @ '']''
   | Some (ToolResultPart r) \<Rightarrow> ''[tool_result:'' @ PlainText (ResultPayload r) @ '']'')"

definition formatPartsPlain :: "part list \<Rightarrow> string" where
  "formatPartsPlain ps = concat (map partPlain ps)"

definition isMedia :: "part \<Rightarrow> bool" where
  "isMedia p = (case canonicalPartValue p of Some (MediaPart _ _) \<Rightarrow> True | _ \<Rightarrow> False)"

definition rejectMediaMessage :: "env \<Rightarrow> Message \<Rightarrow> unit result" where
  "rejectMediaMessage E m =
     bind_res (validateContentParts E (MsgParts m)) (\<lambda>_.
     if \<exists>p \<in> set (MsgParts m). isMedia p then Inl ErrUnsupportedMediaRendering else Inr ())"

text \<open>\<^verbatim>\<open>ViewType\<close>: the two built-in renderings.\<close>

datatype ViewType = ViewLLMXML | ViewFlatClassifier

definition builtinViewFormatter :: "string \<Rightarrow> ViewType option" where
  "builtinViewFormatter name =
     (if name = ''llm_xml'' then Some ViewLLMXML else if name = ''flat_classifier'' then Some ViewFlatClassifier else None)"

definition viewLine :: "ViewType \<Rightarrow> Message \<Rightarrow> string" where
  "viewLine v m = (let role = roleText (MsgRole m); text = formatPartsPlain (MsgParts m) in
     case v of
       ViewLLMXML \<Rightarrow> ''<'' @ role @ ''>'' @ text @ ''</'' @ role @ ''>'' @ [CHR 0x0A]
     | ViewFlatClassifier \<Rightarrow> role @ '': '' @ text @ [CHR 0x0A])"

definition viewMessage :: "env \<Rightarrow> ViewType \<Rightarrow> Message \<Rightarrow> string result" where
  "viewMessage E v m = bind_res (rejectMediaMessage E m) (\<lambda>_. Inr (viewLine v m))"

definition ViewFormat :: "env \<Rightarrow> ViewType \<Rightarrow> ConversationState \<Rightarrow> string comp" where
  "ViewFormat E v snap =
     bind poll (\<lambda>_.
     bind (lift_res (map_res (viewMessage E v) (concat (map (Segment snap) viewSegmentOrder)))) (\<lambda>lines. ret (concat lines)))"

subsection \<open>Role projection\<close>

type_synonym role_policy = "Message \<Rightarrow> Role result"

fun projectMessages :: "role_policy \<Rightarrow> Message list \<Rightarrow> Message list comp" where
  "projectMessages f [] = ret []"
| "projectMessages f (m # ms) =
     bind poll (\<lambda>_.
     bind (settle (lift_res (f (Message_Clone m)))) (\<lambda>role.
     bind (lift_res (Role_Validate role)) (\<lambda>_.
     bind (projectMessages f ms) (\<lambda>rest. ret (m\<lparr>MsgRole := role\<rparr> # rest)))))"

definition projectMessageRoles :: "role_policy option \<Rightarrow> Message list \<Rightarrow> Message list comp" where
  "projectMessageRoles policy ms = (case policy of None \<Rightarrow> ret ms | Some f \<Rightarrow> projectMessages f ms)"

fun projectSegments :: "role_policy \<Rightarrow> string list \<Rightarrow> ConversationState \<Rightarrow> ConversationState comp" where
  "projectSegments f [] snap = ret snap"
| "projectSegments f (seg # segs) snap =
     (if Segment snap seg = [] then projectSegments f segs snap
      else bind (projectMessages f (cloneMessageSlice (Segment snap seg))) (\<lambda>projected.
           projectSegments f segs (WithSegment snap seg projected)))"

definition applyRoleProjection :: "role_policy option \<Rightarrow> ConversationState \<Rightarrow> ConversationState comp" where
  "applyRoleProjection policy snap =
     (case policy of None \<Rightarrow> ret snap
      | Some f \<Rightarrow> bind (projectSegments f snapshotSegmentOrder snap) (\<lambda>out. bind poll (\<lambda>_. ret out)))"

subsection \<open>Named views\<close>

type_synonym formatter = "Message list \<Rightarrow> Message list comp"

record ViewConfiguration =
  VcSourceSegment :: string
  VcBudget :: "BudgetPipeline option"
  VcFormatter :: "formatter option"

text \<open>The registry of an engine with its joined configuration error.\<close>

definition WithNamedView ::
  "string \<Rightarrow> ViewConfiguration \<Rightarrow> (string \<times> ViewConfiguration) list \<times> go_error option \<Rightarrow> (string \<times> ViewConfiguration) list \<times> go_error option" where
  "WithNamedView name cfg = (\<lambda>(views, err).
     if name = [] \<or> builtinViewFormatter name \<noteq> None \<or> name \<in> fst ` set views \<or>
        (VcSourceSegment cfg \<noteq> [] \<and> \<not> isKnownSegment (VcSourceSegment cfg))
     then (views, Some (case err of None \<Rightarrow> ErrInvalidCompileConfiguration | Some e \<Rightarrow> Wrap e ErrInvalidCompileConfiguration))
     else ((name, cfg) # views, err))"

definition formatViewMessages :: "env \<Rightarrow> Message list \<Rightarrow> formatter \<Rightarrow> Message list comp" where
  "formatViewMessages E ms f =
     bind poll (\<lambda>_. bind (settle (f (cloneMessageSlice ms))) (\<lambda>formatted. lift_res (ownCompileMessages E formatted)))"

definition renderNamedView :: "env \<Rightarrow> role_policy option \<Rightarrow> ConversationState \<Rightarrow> ViewConfiguration \<Rightarrow> string comp" where
  "renderNamedView E policy snap cfg =
     (let seg = (if VcSourceSegment cfg = [] then SegmentHistory else VcSourceSegment cfg) in
      bind (projectMessageRoles policy (cloneMessageSlice (Segment snap seg))) (\<lambda>working.
      bind (case VcBudget cfg of None \<Rightarrow> ret (working, [])
            | Some p \<Rightarrow> bind (Apply E p working) (\<lambda>(trimmed, d). ret (trimmed, Required d))) (\<lambda>(trimmed, required).
      bind (case VcFormatter cfg of None \<Rightarrow> ret trimmed | Some f \<Rightarrow> formatViewMessages E trimmed f) (\<lambda>final.
      bind (case VcBudget cfg of None \<Rightarrow> ret ()
            | Some p \<Rightarrow> bind (lift_res (validateRequiredOutput E final required)) (\<lambda>_. validateOutput E p final)) (\<lambda>_.
      bind poll (\<lambda>_. ret (concat (map (\<lambda>m. formatPartsPlain (MsgParts m)) final))))))))"

definition RenderView ::
  "env \<Rightarrow> role_policy option \<Rightarrow> (string \<times> ViewConfiguration) list \<Rightarrow> go_error option \<Rightarrow> ConversationState \<Rightarrow> string \<Rightarrow> string comp" where
  "RenderView E policy views configurationErr snap name =
     bind poll (\<lambda>_.
     bind (lift_res (validateSnapshotRoles snap)) (\<lambda>_.
     case configurationErr of Some e \<Rightarrow> fail e
     | None \<Rightarrow> (case builtinViewFormatter name of
         Some v \<Rightarrow> bind (applyRoleProjection policy snap) (ViewFormat E v)
       | None \<Rightarrow> (case map_of views name of
           None \<Rightarrow> fail (Errorf ''contexty: unknown view'')
         | Some cfg \<Rightarrow> renderNamedView E policy snap cfg))))"

subsection \<open>What a built-in view shows\<close>

text \<open>The message that a view shows for a message of the snapshot.\<close>

definition shown :: "role_policy option \<Rightarrow> Message \<Rightarrow> Message \<Rightarrow> bool" where
  "shown policy m m' \<longleftrightarrow> (case policy of
     None \<Rightarrow> m' = m
   | Some f \<Rightarrow> \<exists>r. f (Message_Clone (Message_Clone m)) = Inr r \<and> Role_Validate r = Inr () \<and>
       m' = Message_Clone (Message_Clone ((Message_Clone m)\<lparr>MsgRole := r\<rparr>)))"

lemma projectMessages_Inr:
  "projectMessages f ms c = (Inr out, c') \<Longrightarrow>
     list_all2 (\<lambda>m m'. \<exists>r. f (Message_Clone m) = Inr r \<and> Role_Validate r = Inr () \<and> m' = m\<lparr>MsgRole := r\<rparr>) ms out"
proof (induction ms arbitrary: c out)
  case (Cons m ms)
  then obtain role rest c1 c2 c3 where r: "settle (lift_res (f (Message_Clone m))) c1 = (Inr role, c2)" "Role_Validate role = Inr ()"
      "projectMessages f ms c3 = (Inr rest, c')" "out = m\<lparr>MsgRole := role\<rparr> # rest"
    by (auto simp: bind_Inr_iff)
  from settle_Inr [OF r(1)] have "f (Message_Clone m) = Inr role" by auto
  with r Cons.IH [OF r(3)] show ?case by auto
qed simp

lemma projectSegments_Inr:
  "projectSegments f segs snap c = (Inr out, c') \<Longrightarrow> distinct segs \<Longrightarrow>
     (\<forall>seg. if seg \<in> set segs then list_all2 (shown (Some f)) (Segment snap seg) (Segment out seg) else Segment out seg = Segment snap seg)"
proof (induction segs arbitrary: snap c)
  case (Cons s segs)
  show ?case
  proof (cases "Segment snap s = []")
    case True
    with Cons show ?thesis by (auto split: if_splits)
  next
    case False
    with Cons.prems obtain projected c1 where p: "projectMessages f (cloneMessageSlice (Segment snap s)) c = (Inr projected, c1)"
        "projectSegments f segs (WithSegment snap s projected) c1 = (Inr out, c')"
      by (auto simp: bind_Inr_iff)
    note ih = Cons.IH [OF p(2)]
    have "list_all2 (shown (Some f)) (Segment snap s) (map Message_Clone (map Message_Clone projected))"
      using projectMessages_Inr [OF p(1)] by (auto simp: cloneMessageSlice_def list_all2_map1 list_all2_map2 shown_def elim!: list_all2_mono)
    with ih Cons.prems(2) show ?thesis by (auto simp: Segment_WithSegment split: if_splits)
  qed
qed simp

lemma applyRoleProjection_Inr:
  assumes "applyRoleProjection policy snap c = (Inr out, c')" "seg \<in> set snapshotSegmentOrder"
  shows "list_all2 (shown policy) (Segment snap seg) (Segment out seg)"
proof (cases policy)
  case None
  with assms show ?thesis by (simp add: applyRoleProjection_def shown_def list_all2_refl)
next
  case (Some f)
  with assms(1) obtain c1 where "projectSegments f snapshotSegmentOrder snap c = (Inr out, c1)" by (auto simp: applyRoleProjection_def bind_Inr_iff)
  from projectSegments_Inr [OF this known_segments(2)] assms(2) Some show ?thesis by (auto dest: spec [of _ seg])
qed

lemma viewSegments: "set viewSegmentOrder = set snapshotSegmentOrder"
  by (auto simp: viewSegmentOrder_def snapshotSegmentOrder_def)

lemma viewMessage_Inr:
  "viewMessage E v m = Inr text \<Longrightarrow> text = viewLine v m \<and> (\<forall>p \<in> set (MsgParts m). \<not> isMedia p)"
  by (auto simp: viewMessage_def rejectMediaMessage_def bind_res_Inr_iff split: if_splits)

lemma snapshot_role:
  assumes "validateSnapshotRoles snap = Inr ()" "m \<in> set (Segment snap seg)"
  shows "Role_Validate (MsgRole m) = Inr ()"
proof -
  from assms(2) obtain ms m0 where m: "map_of (Segments snap) seg = Some ms" "m0 \<in> set ms" "m = Message_Clone m0"
    by (cases "map_of (Segments snap) seg") (auto simp: Segment_def segment_def cloneMessageSlice_def)
  from assms(1) obtain us where "map_res (\<lambda>(k, ms). validateMessageRoles ms) (Segments snap) = Inr us"
    by (auto simp: validateSnapshotRoles_def bind_res_Inr_iff)
  from map_res_member [OF this map_of_SomeD [OF m(1)]] have "validateMessageRoles ms = Inr ()" by simp
  then show ?thesis using m by (simp add: validateMessageRoles_Inr)
qed

text \<open>
  C39. A built-in view is a typed rendering. Its text is one line per message of the snapshot, in the fixed order of the segments; a line shows the role
  that the projection policy gives that message, or its own without a policy, and the role is always one of the five; apart from the role the message is
  shown as it is (as its copy); and no message with media is ever rendered.
\<close>

theorem builtin_view_typed:
  assumes "RenderView E policy views err snap name c = (Inr text, c')" "builtinViewFormatter name = Some v"
  shows "\<exists>ms. list_all2 (shown policy) (concat (map (Segment snap) viewSegmentOrder)) ms \<and> text = concat (map (viewLine v) ms) \<and>
     (\<forall>m \<in> set ms. MsgRole m \<in> {RoleSystem, RoleDeveloper, RoleUser, RoleAssistant, RoleTool} \<and> (\<forall>p \<in> set (MsgParts m). \<not> isMedia p))"
proof -
  from assms obtain out c1 c2 c3 lines where vr: "validateSnapshotRoles snap = Inr ()"
      and out: "applyRoleProjection policy snap c1 = (Inr out, c2)"
      and lines: "map_res (viewMessage E v) (concat (map (Segment out) viewSegmentOrder)) = Inr lines" "text = concat lines"
    by (auto simp: RenderView_def ViewFormat_def bind_Inr_iff split: option.splits)
  let ?ms = "concat (map (Segment out) viewSegmentOrder)"
  have seg: "list_all2 (shown policy) (Segment snap s) (Segment out s)" if "s \<in> set viewSegmentOrder" for s
    using applyRoleProjection_Inr [OF out] that by (simp add: viewSegments)
  then have all: "list_all2 (shown policy) (concat (map (Segment snap) viewSegmentOrder)) ?ms"
    by (simp add: viewSegmentOrder_def list_all2_appendI)
  have each: "list_all2 (\<lambda>m line. viewMessage E v m = Inr line) ?ms lines" using lines(1) by (simp add: map_res_Inr_iff)
  then have "lines = map (viewLine v) ?ms" and "\<forall>m \<in> set ?ms. \<forall>p \<in> set (MsgParts m). \<not> isMedia p"
    by (induction rule: list_all2_induct) (auto dest: viewMessage_Inr)
  moreover have "Role_Validate (MsgRole m') = Inr ()" if "m' \<in> set ?ms" for m'
  proof -
    from that obtain s where s: "s \<in> set viewSegmentOrder" "m' \<in> set (Segment out s)" by auto
    with seg obtain m where m: "m \<in> set (Segment snap s)" "shown policy m m'"
      by (metis in_set_conv_nth list_all2_conv_all_nth)
    then show ?thesis using snapshot_role [OF vr m(1)] by (auto simp: shown_def split: option.splits)
  qed
  then have "MsgRole m' \<in> {RoleSystem, RoleDeveloper, RoleUser, RoleAssistant, RoleTool}" if "m' \<in> set ?ms" for m'
    using that by (force simp: Role_Validate_def split: Role.splits)
  ultimately show ?thesis using all lines(2) by blast
qed

definition developerAsSystem :: role_policy where
  "developerAsSystem m = Inr (if MsgRole m = RoleDeveloper then RoleSystem else MsgRole m)"

definition viewSnapshot :: ConversationState where
  "viewSnapshot = WithSegment (WithSegment EmptyState SegmentSystem [sampleMessage ''d'' RoleDeveloper [PartValue (TextPart ''rules'')]])
     SegmentHistory [userText ''u'' ''hi'']"

theorem builtin_view_typed_witness:
  "\<exists>c ms. RenderView sampleEnv (Some developerAsSystem) [] None viewSnapshot ''llm_xml'' None = (Inr (concat (map (viewLine ViewLLMXML) ms)), c) \<and>
     length ms = 2 \<and> concat (map (viewLine ViewLLMXML) ms) = ''<system>rules</system>'' @ [CHR 0x0A] @ ''<user>hi</user>'' @ [CHR 0x0A]"
proof -
  have b: "builtinViewFormatter ''llm_xml'' = Some ViewLLMXML" by code_simp
  have n: "length (concat (map (Segment viewSnapshot) viewSegmentOrder)) = 2" by code_simp
  have "case RenderView sampleEnv (Some developerAsSystem) [] None viewSnapshot ''llm_xml'' None of
      (Inr text, _) \<Rightarrow> text = ''<system>rules</system>'' @ [CHR 0x0A] @ ''<user>hi</user>'' @ [CHR 0x0A] | _ \<Rightarrow> False"
    by code_simp
  then obtain t c where r: "RenderView sampleEnv (Some developerAsSystem) [] None viewSnapshot ''llm_xml'' None = (Inr t, c)"
      "t = ''<system>rules</system>'' @ [CHR 0x0A] @ ''<user>hi</user>'' @ [CHR 0x0A]"
    by (auto split: prod.splits sum.splits)
  from builtin_view_typed [OF r(1) b] obtain ms where "list_all2 (shown (Some developerAsSystem)) (concat (map (Segment viewSnapshot) viewSegmentOrder)) ms"
      "t = concat (map (viewLine ViewLLMXML) ms)"
    by blast
  then show ?thesis using r n by (metis list_all2_lengthD)
qed

end
