(* ===== verification/Engine.thy ===== *)
theory Engine
  imports Views
begin

text \<open>
  The compile engine (compile.go, transform.go, output_boundary.go, compile_configuration.go): a request is normalized, the shared context is
  prepared once (artifacts, deferred blocks), content is selected, hooks, role projection, formatters and the budget run over it, and
  the payload passes the output boundary. The model is the engine without a trace profile and without recording; then every stage
  of the trace returns its input. The recorder of transformations (\<open>Transform_Log\<close>) and the observers are write-only for these stages and
  are left out, as are declared resources, historical argument projections and the variables of deferred blocks.
\<close>

subsection \<open>The engine\<close>

type_synonym hook = "ConversationState \<Rightarrow> ConversationState comp"

record DeferredBlock =
  DbSegment :: string
  DbMergePolicy :: MergePolicy
  DbResolve :: "Message list comp option"

text \<open>\<open>EnHost\<close> holds the codecs, \<open>EnCodec\<close> the wire codec of the output boundary. Nil hooks are \<open>None\<close>, and so are nil formatters.\<close>

record Engine =
  EnHost :: CompileHost
  EnIdentity :: IdentityHost
  EnOpaqueHost :: OpaqueHost
  EnCodec :: PolicyCodec
  EnMaterialization :: "ArtifactMaterializationPolicy option"
  EnOutputPolicy :: "OutputPolicy option"
  EnOpaquePolicy :: "OpaqueStatePolicy option"
  EnSelection :: "SelectionPolicy option"
  EnHooks :: "hook option list"
  EnBudget :: "OutputBudget option"
  EnDeferred :: "DeferredBlock list"
  EnFormatters :: "(string \<times> formatter option) list"
  EnRoleProjection :: "role_policy option"
  EnConfigurationErr :: "go_error option"

definition retentionEnv :: "CompileHost \<Rightarrow> OutputBudget \<Rightarrow> env" where
  "retentionEnv H b = (case ObCounter b of PlainCounter _ \<Rightarrow> DefaultEnv H | ReportCounter D r \<Rightarrow> RpEnv r)"

definition blockSegment :: "DeferredBlock \<Rightarrow> string" where
  "blockSegment block = (if DbSegment block = [] then SegmentMemory else DbSegment block)"

definition deferredConfiguration :: "DeferredBlock list \<Rightarrow> unit result" where
  "deferredConfiguration blocks =
     (if \<exists>block \<in> set blocks. \<not> isKnownSegment (blockSegment block) \<or> (case DbMergePolicy block of PolicyOther _ \<Rightarrow> True | _ \<Rightarrow> False)
      then Inl ErrInvalidCompileConfiguration else Inr ())"

definition validateBaseCompileConfiguration :: "Engine \<Rightarrow> CompileRequest \<Rightarrow> unit result" where
  "validateBaseCompileConfiguration En req =
     (case EnConfigurationErr En of Some e \<Rightarrow> Inl e
      | None \<Rightarrow>
          bind_res (case CrCurrentTurn req of None \<Rightarrow> Inr () | Some t \<Rightarrow> CurrentTurn_validate t) (\<lambda>_.
          if \<exists>(seg, fn) \<in> set (EnFormatters En). \<not> isKnownSegment seg \<or> Option.is_none fn then Inl ErrInvalidCompileConfiguration
          else bind_res (deferredConfiguration (EnDeferred En)) (\<lambda>_.
            case CrIdentityPolicy req of Some NilPolicy \<Rightarrow> Inl ErrMissingIdentityPolicy | _ \<Rightarrow> Inr ())))"

definition validateCompactionPipeline :: "OutputBudget option \<Rightarrow> unit result" where
  "validateCompactionPipeline budget =
     (case budget of None \<Rightarrow> Inr ()
      | Some b \<Rightarrow> if PipeCompaction (ObPipe b) = None then Inr () else Inl (Sentinel ''ErrMissingRecordPolicy''))"

definition validateInputBudget :: "OutputBudget option \<Rightarrow> unit result" where
  "validateInputBudget budget =
     (case budget of None \<Rightarrow> Inr ()
      | Some b \<Rightarrow> bind_res (validateBudgetPolicy (ObPipe b)) (\<lambda>_. bind_res (Resolve (CfgBudget (ObPipe b))) (\<lambda>_. Inr ())))"

definition validateOutputPolicies :: "Engine \<Rightarrow> CompileRequest \<Rightarrow> unit result" where
  "validateOutputPolicies En req =
     bind_res (if EnMaterialization En \<noteq> None \<or> CrArtifacts req \<noteq> [] then validateMaterializationPolicy (EnMaterialization En) else Inr ()) (\<lambda>_.
     bind_res (validateOutputPolicy (EnOutputPolicy En)) (\<lambda>_.
     bind_res (case EnSelection En of None \<Rightarrow> Inr () | Some p \<Rightarrow> SelectionPolicy_validate p) (\<lambda>_.
     bind_res (map_res validateCompactionPipeline (EnBudget En # map TgBudget (CrTargets req))) (\<lambda>_.
     bind_res (map_res validateInputBudget (EnBudget En # map TgBudget (CrTargets req))) (\<lambda>_. Inr ())))))"

definition validateCompileConfiguration :: "Engine \<Rightarrow> CompileRequest \<Rightarrow> unit result" where
  "validateCompileConfiguration En req =
     bind_res (validateBaseCompileConfiguration En req) (\<lambda>_. validateOutputPolicies En req)"

subsection \<open>Identities during a compile\<close>

record compileIdentitySettings =
  IsPolicy :: "MessageIdentityPolicy option"
  IsRequireDurable :: bool
  IsTurnID :: string
  IsTargetName :: string

definition requestIdentity :: "CompileRequest \<Rightarrow> string \<Rightarrow> compileIdentitySettings" where
  "requestIdentity req target =
     \<lparr>IsPolicy = CrIdentityPolicy req, IsRequireDurable = CrRequireDurableIdentity req, IsTurnID = CrTurnID req, IsTargetName = target\<rparr>"

text \<open>
  Settings that are all empty are not installed by \<^verbatim>\<open>withCompileIdentity\<close>. A message is then completed by \<^verbatim>\<open>EnsureMessageID\<close>, which is what
  \<^verbatim>\<open>normalizeMessageForCompile\<close> does without a policy.
\<close>

definition identityInstalled :: "compileIdentitySettings \<Rightarrow> bool" where
  "identityInstalled s \<longleftrightarrow> \<not> (Option.is_none (IsPolicy s) \<and> \<not> IsRequireDurable s \<and> IsTurnID s = [] \<and> IsTargetName s = [])"

definition settingsContext :: "compileIdentitySettings \<Rightarrow> string \<Rightarrow> nat \<Rightarrow> MessageIdentityContext" where
  "settingsContext s seg index =
     \<lparr>IcPending = False, IcOrdinal = int index, IcSegment = seg, IcIndex = int index, IcTurnID = IsTurnID s, IcTargetName = IsTargetName s,
      IcCurrentTurn = False, IcPromptProjection = (IsTargetName s \<noteq> [])\<rparr>"

definition ensureMessageIDFromContext :: "IdentityHost \<Rightarrow> compileIdentitySettings \<Rightarrow> string \<Rightarrow> nat \<Rightarrow> Message \<Rightarrow> Message result" where
  "ensureMessageIDFromContext I s seg index m =
     bind_res (normalizeMessageForCompile I m (settingsContext s seg index) (IsPolicy s) (IsRequireDurable s)) (\<lambda>(normalized, _). Inr normalized)"

definition ensureMessageIDsFromContext ::
  "IdentityHost \<Rightarrow> compileIdentitySettings \<Rightarrow> string \<Rightarrow> nat \<Rightarrow> Message list \<Rightarrow> Message list result" where
  "ensureMessageIDsFromContext I s seg offset ms =
     map_res (\<lambda>(i, m). ensureMessageIDFromContext I s seg i m) (enumerate offset ms)"

text \<open>The identity of a summary that the budget of a compile draws or resolves.\<close>

definition summaryIdentity :: "IdentityHost \<Rightarrow> compileIdentitySettings \<Rightarrow> Message \<Rightarrow> string result" where
  "summaryIdentity I s m =
     (case IsPolicy s of
        None \<Rightarrow> if IsRequireDurable s then Inl ErrMissingIdentityPolicy else Inr (IhFresh I (settingsContext s SegmentHistory 0) (Message_Clone m))
      | Some NilPolicy \<Rightarrow> Inl ErrMissingIdentityPolicy
      | Some p \<Rightarrow> bind_res (ResolveMessageID p (settingsContext s SegmentHistory 0) (Message_Clone m)) (\<lambda>i.
          if i = [] then Inl ErrMissingIdentityPolicy else Inr i))"

fun normalizeSegments :: "IdentityHost \<Rightarrow> compileIdentitySettings \<Rightarrow> string list \<Rightarrow> ConversationState \<Rightarrow> ConversationState result" where
  "normalizeSegments I s [] snap = Inr snap"
| "normalizeSegments I s (seg # segs) snap =
     (if Segment snap seg = [] then normalizeSegments I s segs snap
      else bind_res (ensureMessageIDsFromContext I s seg 0 (Segment snap seg)) (\<lambda>ms. normalizeSegments I s segs (WithSegment snap seg ms)))"

definition normalizeSnapshotMessageIDs :: "IdentityHost \<Rightarrow> compileIdentitySettings \<Rightarrow> ConversationState \<Rightarrow> ConversationState result" where
  "normalizeSnapshotMessageIDs I s snap = normalizeSegments I s snapshotSegmentOrder snap"

definition validateSnapshotUniqueIDs :: "ConversationState \<Rightarrow> unit result" where
  "validateSnapshotUniqueIDs snap = validateUniqueMessageIDs (snapshotAllMessages snap)"

subsection \<open>Hooks, formatters and deferred blocks\<close>

fun runHooks :: "IdentityHost \<Rightarrow> compileIdentitySettings \<Rightarrow> hook option list \<Rightarrow> ConversationState \<Rightarrow> ConversationState comp" where
  "runHooks I s [] cur = ret cur"
| "runHooks I s (None # hs) cur = runHooks I s hs cur"
| "runHooks I s (Some h # hs) cur =
     bind poll (\<lambda>_.
     bind (settle (h cur)) (\<lambda>out.
     bind (if identityInstalled s then lift_res (normalizeSnapshotMessageIDs I s out) else ret out) (runHooks I s hs)))"

definition TransformPipeline :: "IdentityHost \<Rightarrow> compileIdentitySettings \<Rightarrow> hook option list \<Rightarrow> ConversationState \<Rightarrow> ConversationState comp" where
  "TransformPipeline I s hs snap = bind poll (\<lambda>_. runHooks I s hs snap)"

definition applyCompileHooks :: "Engine \<Rightarrow> compileIdentitySettings \<Rightarrow> ConversationState \<Rightarrow> ConversationState comp" where
  "applyCompileHooks En s snap = (if EnHooks En = [] then ret snap else TransformPipeline (EnIdentity En) s (EnHooks En) snap)"

definition segmentFormatter :: "Engine \<Rightarrow> string \<Rightarrow> formatter option" where
  "segmentFormatter En seg = Option.bind (map_of (EnFormatters En) seg) (\<lambda>fn. fn)"

fun formatSegments :: "Engine \<Rightarrow> compileIdentitySettings \<Rightarrow> string list \<Rightarrow> ConversationState \<Rightarrow> ConversationState comp" where
  "formatSegments En s [] snap = ret snap"
| "formatSegments En s (seg # segs) snap =
     (case segmentFormatter En seg of
        None \<Rightarrow> formatSegments En s segs snap
      | Some fn \<Rightarrow>
          if Segment snap seg = [] then formatSegments En s segs snap
          else bind poll (\<lambda>_.
               bind (settle (fn (cloneMessageSlice (Segment snap seg)))) (\<lambda>after.
               bind (lift_res (ensureMessageIDsFromContext (EnIdentity En) s seg 0 after)) (\<lambda>after'.
               formatSegments En s segs (WithSegment snap seg after')))))"

definition applySegmentFormatters :: "Engine \<Rightarrow> compileIdentitySettings \<Rightarrow> ConversationState \<Rightarrow> ConversationState comp" where
  "applySegmentFormatters En s snap = formatSegments En s snapshotSegmentOrder snap"

text \<open>\<^verbatim>\<open>resolvedDeferredMessages\<close> of a block without resources.\<close>

definition resolvedDeferredMessages :: "Engine \<Rightarrow> Message list \<Rightarrow> Message list comp" where
  "resolvedDeferredMessages En msgs =
     bind (lift_res (ownCompileMessages (DefaultEnv (EnHost En)) msgs)) (\<lambda>owned. bind poll (\<lambda>_. ret owned))"

definition applyDeferredBlock ::
  "Engine \<Rightarrow> compileIdentitySettings \<Rightarrow> DeferredBlock \<Rightarrow> Message list comp \<Rightarrow> ConversationState \<Rightarrow> ConversationState comp" where
  "applyDeferredBlock En s block resolve snap =
     bind (settle resolve) (\<lambda>resolved.
     bind (resolvedDeferredMessages En resolved) (\<lambda>msgs.
     let seg = blockSegment block; existing = Segment snap seg in
     bind (lift_res (ensureMessageIDsFromContext (EnIdentity En) s seg (length existing) msgs)) (\<lambda>msgs'.
     bind (lift_res (applyMergePolicy existing msgs' (DbMergePolicy block))) (\<lambda>combined.
     ret (WithSegment snap seg combined)))))"

fun applyDeferredBlocks :: "Engine \<Rightarrow> compileIdentitySettings \<Rightarrow> DeferredBlock list \<Rightarrow> ConversationState \<Rightarrow> ConversationState comp" where
  "applyDeferredBlocks En s [] snap = ret snap"
| "applyDeferredBlocks En s (block # blocks) snap =
     (case DbResolve block of
        None \<Rightarrow> applyDeferredBlocks En s blocks snap
      | Some resolve \<Rightarrow> bind (applyDeferredBlock En s block resolve snap) (applyDeferredBlocks En s blocks))"

subsection \<open>Preparation\<close>

record preparedCompile =
  PrSnapshot :: ConversationState
  PrArtifacts :: "ContextArtifact list"
  PrPending :: "Message list"
  PrEvidence :: Evidence
  PrStates :: inventory

definition prepareCompileOptions :: "TextReplacement list \<Rightarrow> unit result" where
  "prepareCompileOptions rps =
     (if \<exists>rp \<in> set rps. \<not> isKnownSegment (RpSegment rp) \<or> RpMessageID rp = [] then Inl (Sentinel ''ErrInvalidTextReplacement'') else Inr ())"

definition snapshotWithActiveArtifacts :: "Engine \<Rightarrow> CompileRequest \<Rightarrow> Evidence \<Rightarrow> (ConversationState \<times> ContextArtifact list \<times> Evidence) comp" where
  "snapshotWithActiveArtifacts En req ev =
     (let H = (EnHost En)\<lparr>SharedPreparation := True\<rparr> in
      bind (selectArtifacts H (map_option ObCounter (EnBudget En)) (CrTurnID req) (CrArtifacts req) ev) (\<lambda>(active, ev1).
      bind (artifactMessages H (EvMaterial ev1) active) (\<lambda>(msgs, st).
      let snap = WithArtifacts (ToSnapshot req) active in
      ret (if msgs = [] then snap else WithSegment snap SegmentMemory (Segment snap SegmentMemory @ msgs), active, ev1\<lparr>EvMaterial := st\<rparr>))))"

definition prepareCompile :: "Engine \<Rightarrow> TextReplacement list \<Rightarrow> CompileRequest \<Rightarrow> preparedCompile comp" where
  "prepareCompile En options req =
     bind (lift_res (initializeOpaqueStateContext (EnOpaqueHost En) req (EnOpaquePolicy En))) (\<lambda>states.
     bind (lift_res (initializeArtifactMaterializationContext (EnMaterialization En))) (\<lambda>st.
     bind (lift_res (prepareCompileOptions options)) (\<lambda>_.
     let pending = compilePendingMessages req in
     bind (snapshotWithActiveArtifacts En req \<lparr>EvMaterial = st, EvExclusions = [], EvEstimates = []\<rparr>) (\<lambda>(snap, active, ev).
     bind (applyDeferredBlocks En (requestIdentity req []) (EnDeferred En) (WithSegment snap SegmentHistory (Segment snap SegmentHistory))) (\<lambda>snap1.
     let snap2 = WithArtifacts snap1 active in
     bind (lift_res (validateSnapshotUniqueIDs snap2)) (\<lambda>_.
     bind (lift_res (registerPreparedOpaqueStates (EnOpaqueHost En) states (snapshotAllMessages snap2 @ pending) (EnOpaquePolicy En))) (\<lambda>states'.
     ret \<lparr>PrSnapshot = AllSegmentsSnapshot snap2, PrArtifacts = map ContextArtifact_Clone active, PrPending = pending,
          PrEvidence = ev, PrStates = states'\<rparr>)))))))"

subsection \<open>Transformations and the budget\<close>

text \<open>A handler for the error of a computation.\<close>

definition on_error :: "'a comp \<Rightarrow> (go_error \<Rightarrow> 'a comp) \<Rightarrow> 'a comp" where
  "on_error m h = (\<lambda>c. case m c of (Inl e, c1) \<Rightarrow> h e c1 | (Inr x, c1) \<Rightarrow> (Inr x, c1))"

definition classifyCompileBudgetError :: "env \<Rightarrow> TokenEstimator \<Rightarrow> Message list \<Rightarrow> int \<Rightarrow> go_error \<Rightarrow> 'a comp" where
  "classifyCompileBudgetError E est pending limit cause =
     (if pending = [] \<or> \<not> errors_Is cause ErrBudgetExceeded then fail cause
      else bind (estimateOwned E est pending) (\<lambda>cost. if cost > limit then fail ErrPendingExceedsBudget else fail cause))"

text \<open>The second component are the required references of the recorded budget decision.\<close>

definition applyBudgetHistory ::
  "Engine \<Rightarrow> OutputBudget option \<Rightarrow> compileIdentitySettings \<Rightarrow> ConversationState \<Rightarrow> Message list \<Rightarrow> (ConversationState \<times> ContentRef list) comp" where
  "applyBudgetHistory En budget s snap pending =
     (let history = Segment snap SegmentHistory in
      case budget of
        None \<Rightarrow> ret (if pending = [] then snap else WithSegment snap SegmentHistory (cloneMessageSlice history @ cloneMessageSlice pending), [])
      | Some b \<Rightarrow>
          bind (lift_res (Resolve (CfgBudget (ObPipe b)))) (\<lambda>limit.
          let payload = snapshotPayload (WithSegment snap SegmentHistory (cloneMessageSlice history @ cloneMessageSlice pending));
              fixed = map MsgID (PlSystem payload @ PlTools payload @ PlMemory payload @ pending);
              E = retentionEnv (EnHost En) b;
              pipe = (ObPipe b)\<lparr>FixedIDs := FixedIDs (ObPipe b) @ fixed, NewMessageID := summaryIdentity (EnIdentity En) s\<rparr> in
          bind (on_error (Apply E pipe (FlattenMessages payload)) (classifyCompileBudgetError E (PipeEstimator pipe) pending limit)) (\<lambda>(out, d).
          ret (WithSegment snap SegmentHistory (filter (\<lambda>m. MsgID m \<notin> set fixed) out @ cloneMessageSlice pending), Required d))))"

text \<open>Replacements are applied without the recorder, which does not influence them.\<close>

definition applyCompileReplacements :: "patchPhase \<Rightarrow> TextReplacement list \<Rightarrow> ConversationState \<Rightarrow> ConversationState comp" where
  "applyCompileReplacements phase options snap =
     bind (applyTextReplacements phase options (snap, \<lparr>RecRecords = [], RecIntroduced = []\<rparr>)) (\<lambda>(out, _). ret out)"

definition projectPending :: "Engine \<Rightarrow> Message list \<Rightarrow> Message list comp" where
  "projectPending En pending =
     (if pending = [] \<or> Option.is_none (EnRoleProjection En) then ret pending
      else bind (applyRoleProjection (EnRoleProjection En) (WithSegment EmptyState SegmentHistory pending)) (\<lambda>snap.
           ret (Segment snap SegmentHistory)))"

definition applyTransformsAndBudget ::
  "Engine \<Rightarrow> OutputBudget option \<Rightarrow> compileIdentitySettings \<Rightarrow> TextReplacement list \<Rightarrow> ConversationState \<Rightarrow> Message list \<Rightarrow>
   (ConversationState \<times> ContentRef list) comp" where
  "applyTransformsAndBudget En budget s options snap pending =
     bind (applyCompileHooks En s snap) (\<lambda>snap1.
     bind (lift_res (normalizeSnapshotMessageIDs (EnIdentity En) s snap1)) (\<lambda>snap2.
     bind (applyRoleProjection (EnRoleProjection En) snap2) (\<lambda>snap3.
     bind (applySegmentFormatters En s snap3) (\<lambda>snap4.
     bind (lift_res (validateSnapshotUniqueIDs snap4)) (\<lambda>_.
     bind (projectPending En pending) (\<lambda>pending'.
     bind (applyBudgetHistory En budget s snap4 pending') (\<lambda>(snap5, required).
     bind (applyCompileReplacements patchPhasePostBudget options snap5) (\<lambda>snap6.
     bind (lift_res (validateSnapshotUniqueIDs snap6)) (\<lambda>_.
     ret (snap6, required))))))))))"

subsection \<open>The output boundary\<close>

text \<open>The estimate of the final content; a reporter checks its own limit.\<close>

definition validateSegments :: "CompileHost \<Rightarrow> OutputBudget \<Rightarrow> EstimateSegment list \<Rightarrow> unit comp" where
  "validateSegments H b segs =
     (case ObCounter b of
        ReportCounter D r \<Rightarrow>
          bind (Report D r \<lparr>ErSegments = segs, ErBudget = CfgBudget (ObPipe b), ErManifestRef = None, ErWireRef = None\<rparr>) (\<lambda>report.
          if RepOverflowReason report \<noteq> [] then fail ErrBudgetExceeded else ret ())
      | PlainCounter _ \<Rightarrow> validateOutput (DefaultEnv H) (ObPipe b) (concat (map EsMessages segs)))"

definition outputSegments :: "bool \<Rightarrow> AbstractPayload \<Rightarrow> EstimateSegment list" where
  "outputSegments main payload =
     (if main then payloadEstimateSegments payload
      else [\<lparr>EsName = ''messages'', EsMessages = semanticOutputMessages main payload\<rparr>])"

definition validateOutputBeforePolicy ::
  "CompileHost \<Rightarrow> bool \<Rightarrow> AbstractPayload \<Rightarrow> OutputBudget option \<Rightarrow> ContentRef list \<Rightarrow> SelectionDecision option \<Rightarrow> SelectionPolicy option \<Rightarrow> unit comp" where
  "validateOutputBeforePolicy H main payload budget required selection policy =
     (let msgs = semanticOutputMessages main payload in
      bind (lift_res (validateMessageRoles msgs)) (\<lambda>_.
      bind (lift_res (validateUniqueMessageIDs msgs)) (\<lambda>_.
      bind (validateMandatorySelection H selection policy msgs) (\<lambda>_.
      bind (lift_res (validateFinalSelectionRounds (payloadSnapshot payload))) (\<lambda>_.
      case budget of None \<Rightarrow> ret () | Some b \<Rightarrow> lift_res (validateRequiredOutput (retentionEnv H b) msgs required))))))"

definition rebaseRef :: "(Message \<Rightarrow> ContentRef result) \<Rightarrow> Message list \<Rightarrow> ContentRef \<Rightarrow> ContentRef result" where
  "rebaseRef mk msgs ref = (case finalByID msgs (RefID ref) of None \<Rightarrow> Inr ref | Some m \<Rightarrow> mk m)"

definition acceptedSelection :: "CompileHost \<Rightarrow> SelectionDecision option \<Rightarrow> Message list \<Rightarrow> SelectionDecision option result" where
  "acceptedSelection H decision msgs =
     (case decision of
        None \<Rightarrow> Inr None
      | Some d \<Rightarrow>
          bind_res (map_res (\<lambda>cand.
            bind_res (map_res (rebaseRef (MessageContentRef (SelectionEnv H)) msgs) (CdMembers cand)) (\<lambda>members.
            bind_res (map_res (rebaseRef (roundSemanticRef H) msgs) (CdRoundMembers cand)) (\<lambda>rounds.
            Inr (cand\<lparr>CdMembers := members, CdRoundMembers := rounds\<rparr>)))) (SdCandidates d)) (\<lambda>cands.
          Inr (Some (d\<lparr>SdCandidates := cands\<rparr>))))"

definition validateAcceptedRetention :: "env \<Rightarrow> ContentRef list \<Rightarrow> Message list \<Rightarrow> unit result" where
  "validateAcceptedRetention E original after =
     bind_res (map_res (\<lambda>ref. case finalByID after (RefID ref) of None \<Rightarrow> Inl ErrInvalidRetention | Some m \<Rightarrow> MessageContentRef E m) original)
       (validateRequiredOutput E after)"

text \<open>A run of \<^verbatim>\<open>enforceOpaqueState\<close> that does not end has the outcome \<open>Diverged\<close>.\<close>

definition lift_run :: "'a result option \<Rightarrow> 'a comp" where
  "lift_run r = (case r of None \<Rightarrow> fail Diverged | Some x \<Rightarrow> lift_res x)"

definition policedPayload :: "Engine \<Rightarrow> bool \<Rightarrow> string \<Rightarrow> AbstractPayload \<Rightarrow> AbstractPayload comp" where
  "policedPayload En main name payload =
     (case EnOutputPolicy En of
        None \<Rightarrow> ret (cloneOutputPolicyPayload payload)
      | Some p \<Rightarrow>
          bind (applyOutputPolicy (EnCodec En) (Some p) \<lparr>OiMain = main, OiName = name, OiPayload = payload\<rparr>) (\<lambda>accepted.
          bind (lift_res (recordOutputPolicy (SelectionEnv (EnHost En)) (OtIdentity p) payload accepted)) (\<lambda>_. ret accepted)))"

text \<open>The checks after the policies.\<close>

definition checkAccepted ::
  "Engine \<Rightarrow> bool \<Rightarrow> OutputBudget option \<Rightarrow> ContentRef list \<Rightarrow> SelectionDecision option \<Rightarrow> SelectionPolicy option \<Rightarrow> AbstractPayload \<Rightarrow> unit comp" where
  "checkAccepted En main budget required selection policy accepted =
     (let H = EnHost En; after = semanticOutputMessages main accepted in
      bind (lift_res (acceptedSelection H selection after)) (\<lambda>rebased.
      bind (validateMandatorySelection H rebased policy after) (\<lambda>_.
      bind (lift_res (validateFinalSelectionRounds (payloadSnapshot accepted))) (\<lambda>_.
      case budget of None \<Rightarrow> ret ()
      | Some b \<Rightarrow> bind (lift_res (validateAcceptedRetention (retentionEnv H b) required after)) (\<lambda>_.
          validateSegments H b (outputSegments main accepted))))))"

definition acceptSemanticOutput ::
  "Engine \<Rightarrow> inventory \<Rightarrow> bool \<Rightarrow> string \<Rightarrow> AbstractPayload \<Rightarrow> OutputBudget option \<Rightarrow> ContentRef list \<Rightarrow> SelectionDecision option \<Rightarrow>
   SelectionPolicy option \<Rightarrow> AbstractPayload comp" where
  "acceptSemanticOutput En states main name payload budget required selection policy =
     bind (validateOutputBeforePolicy (EnHost En) main payload budget required selection policy) (\<lambda>_.
     bind (policedPayload En main name payload) (\<lambda>policed.
     bind (lift_run (acceptOpaqueState (EnOpaqueHost En) (EnOpaquePolicy En) main states policed)) (\<lambda>(accepted, _).
     bind (checkAccepted En main budget required selection policy accepted) (\<lambda>_. ret accepted))))"

subsection \<open>Compiling a request\<close>

text \<open>The channel of an output: whether it is the main one.\<close>

definition channelBudget :: "bool \<Rightarrow> OutputBudget option \<Rightarrow> OutputBudget option" where
  "channelBudget main = map_option (\<lambda>b. b\<lparr>MainOutput := main\<rparr>)"

text \<open>
  Without a trace no artifact is reached through the lineage, so the artifacts that take part in an output are the ones whose message is in it.
\<close>

definition finalParticipatingArtifacts :: "CompileHost \<Rightarrow> ContextArtifact list \<Rightarrow> Message list \<Rightarrow> ContextArtifact list result" where
  "finalParticipatingArtifacts H arts msgs =
     bind_res (manifestSegment (SelectionEnv H) ''messages'' msgs) (\<lambda>_.
     bind_res (map_res (ArtifactContentRef H) arts) (\<lambda>_.
     Inr (filterParticipatingArtifacts arts msgs)))"

record compilePipelineResult =
  CpSelection :: SelectionDecision
  CpPrepared :: preparedCompile
  CpSnapshot :: ConversationState
  CpPayload :: AbstractPayload
  CpArtifacts :: "ContextArtifact list"
  CpRequired :: "ContentRef list"
  CpEvidence :: Evidence

text \<open>\<open>CpRequired\<close> are the required references of the budget decision that the result reports, \<open>CpEvidence\<close> is the shared evidence after the selection.\<close>

definition runCompilePipeline :: "Engine \<Rightarrow> TextReplacement list \<Rightarrow> CompileRequest \<Rightarrow> compilePipelineResult comp" where
  "runCompilePipeline En options req =
     bind (prepareCompile En options req) (\<lambda>prepared.
     let H = EnHost En; s = requestIdentity req []; pending = PrPending prepared; active = map ContextArtifact_Clone (PrArtifacts prepared) in
     bind (selectOutput H (PrSnapshot prepared) pending (EnSelection En) (channelBudget True (EnBudget En)) (PrEvidence prepared)) (\<lambda>(snap, selection, ev).
     bind (lift_res (recordSelectionArtifactExclusions H selection active ev)) (\<lambda>_.
     let active1 = filterParticipatingArtifacts active (snapshotAllMessages snap) in
     bind (applyCompileReplacements patchPhasePreBudget options (WithArtifacts snap active1)) (\<lambda>snap1.
     bind (lift_res (validateSnapshotUniqueIDs snap1)) (\<lambda>_.
     bind (applyTransformsAndBudget En (EnBudget En) s options snap1 pending) (\<lambda>(snap2, required).
     bind (acceptSemanticOutput En (PrStates prepared) True ''main'' (snapshotPayload snap2) (EnBudget En) required (Some selection) (EnSelection En)) (\<lambda>payload.
     bind (lift_res (finalParticipatingArtifacts H active1 (FlattenMessages payload))) (\<lambda>active2.
     ret \<lparr>CpSelection = selection, CpPrepared = prepared,
          CpSnapshot = WithArtifacts (WithArtifacts (WithVersion (payloadSnapshot payload) (Version snap2)) active1) active2,
          CpPayload = payload, CpArtifacts = map ContextArtifact_Clone active2, CpRequired = required, CpEvidence = ev\<rparr>))))))))"

record CompileOutput =
  CoSource :: CompileRequest
  CoNormalized :: ConversationState
  CoWritebackSnapshot :: ConversationState
  CoWritebacks :: "MessageIdentityWriteback list"
  CoCompiled :: compilePipelineResult

text \<open>The part of \<^verbatim>\<open>compileRequest\<close> before the targets (\<open>Targets\<close>).\<close>

definition compileMain :: "Engine \<Rightarrow> TextReplacement list \<Rightarrow> CompileRequest \<Rightarrow> CompileOutput comp" where
  "compileMain En options req =
     bind (lift_res (validateCompileConfiguration En req)) (\<lambda>_.
     bind (lift_res (normalizeCompileRequest (EnIdentity En) req)) (\<lambda>(req', writebacks).
     bind (lift_res (CompileRequest_Validate req')) (\<lambda>_.
     bind (runCompilePipeline En options req') (\<lambda>compiled.
     ret \<lparr>CoSource = Freeze req', CoNormalized = ToSnapshot req', CoWritebackSnapshot = WritebackSnapshot req',
          CoWritebacks = writebacks, CoCompiled = compiled\<rparr>))))"

subsection \<open>Accepted outputs\<close>

lemma semantic_ids:
  assumes "map (map MsgID) (outputPolicySegments p) = map (map MsgID) (outputPolicySegments q)"
  shows "map MsgID (semanticOutputMessages main p) = map MsgID (semanticOutputMessages main q)"
  using assms
  by (simp add: outputPolicySegments_def semanticOutputMessages_def FlattenMessages_def snapshotAllMessages_def snapshotSegmentOrder_def
      Segment_payloadSnapshot comp_def)

lemma semantic_roles:
  "validateMessageRoles (semanticOutputMessages main p) = Inr () \<longleftrightarrow>
   (\<forall>ms \<in> set (outputPolicySegments p). \<forall>m \<in> set ms. Role_Validate (MsgRole m) = Inr ())"
  by (cases main) (simp_all add: validateMessageRoles_Inr outputPolicySegments_def semanticOutputMessages_def FlattenMessages_def
      snapshotAllMessages_def snapshotSegmentOrder_def Segment_payloadSnapshot ball_Un conj_ac)

abbreviation same_outline :: "AbstractPayload \<Rightarrow> AbstractPayload \<Rightarrow> bool" where
  "same_outline p q \<equiv>
     map (map (\<lambda>m. (MsgID m, MsgRole m))) (outputPolicySegments p) = map (map (\<lambda>m. (MsgID m, MsgRole m))) (outputPolicySegments q)"

lemma outline_clone: "same_outline (cloneOutputPolicyPayload p) p"
  by (simp add: outputPolicySegments_def cloneOutputPolicyPayload_def cloneMessageSlice_def comp_def)

lemma outline_drop: "same_outline (dropOpaqueStates H p ds) p"
  by (simp add: outputPolicySegments_def dropOpaqueStates_def dropFromMessage_def Let_def comp_def)

lemma outline_sound:
  assumes "same_outline p q"
  shows "map MsgID (semanticOutputMessages main p) = map MsgID (semanticOutputMessages main q) \<and>
     (validateMessageRoles (semanticOutputMessages main p) = Inr () \<longleftrightarrow> validateMessageRoles (semanticOutputMessages main q) = Inr ())"
proof
  have "map (map fst) (map (map (\<lambda>m. (MsgID m, MsgRole m))) (outputPolicySegments p)) =
      map (map fst) (map (map (\<lambda>m. (MsgID m, MsgRole m))) (outputPolicySegments q))" by (simp only: assms)
  then show "map MsgID (semanticOutputMessages main p) = map MsgID (semanticOutputMessages main q)"
    by (intro semantic_ids) (simp add: comp_def)
  have roles: "(\<forall>ms \<in> set (outputPolicySegments p). \<forall>m \<in> set ms. Role_Validate (MsgRole m) = Inr ()) \<longleftrightarrow>
      (\<forall>xs \<in> set (map (map (\<lambda>m. (MsgID m, MsgRole m))) (outputPolicySegments p)). \<forall>x \<in> set xs. Role_Validate (snd x) = Inr ())" for p
    by simp
  show "validateMessageRoles (semanticOutputMessages main p) = Inr () \<longleftrightarrow> validateMessageRoles (semanticOutputMessages main q) = Inr ()"
    unfolding semantic_roles roles assms ..
qed

lemma acceptOpaqueState_outline:
  assumes "acceptOpaqueState H policy main original payload = Some (Inr (accepted, d))"
  shows "same_outline accepted payload"
proof -
  obtain drops where r: "enforceOpaqueState H policy main original payload = Some (Inr (accepted, drops))"
    using assms by (auto simp: acceptOpaqueState_def bind_res_Inr_iff split: option.splits)
  show ?thesis
  proof (cases "accepted = payload")
    case False
    with r obtain p current dropped drops' where
      "enforceLoop H p main current (cloneOutputPolicyPayload payload) dropped = Some (Inr (accepted, drops'))"
      by (auto simp: enforceOpaqueState_def Let_def bind_res_Inr_iff split: sum.splits option.splits if_splits)
    from enforceLoop_stable [OF this] show ?thesis by (auto simp: loop_result_def outline_drop outline_clone)
  qed simp
qed

lemma policy_outline:
  assumes "applyOutputPolicy C (Some p) input c = (Inr out, c')"
  shows "map (map MsgID) (outputPolicySegments out) = map (map MsgID) (outputPolicySegments (OiPayload input)) \<and>
     (\<forall>ms \<in> set (outputPolicySegments out). \<forall>m \<in> set ms. Role_Validate (MsgRole m) = Inr ())"
proof -
  obtain res where out: "out = cloneOutputPolicyPayload res"
      and top: "list_all2 (list_all2 same_topology) (outputPolicySegments (OiPayload input)) (outputPolicySegments res)"
    by (rule applyOutputPolicy_Inr [OF assms])
  have ids: "map MsgID ms = map MsgID ms'" "\<forall>m \<in> set ms'. Role_Validate (MsgRole m) = Inr ()" if "list_all2 same_topology ms ms'" for ms ms'
    using that by (induction rule: list_all2_induct) (auto simp: same_topology_def)
  have segs: "map (map MsgID) xs = map (map MsgID) ys \<and> (\<forall>ms \<in> set ys. \<forall>m \<in> set ms. Role_Validate (MsgRole m) = Inr ())"
    if "list_all2 (list_all2 same_topology) xs ys" for xs ys
    using that by (induction rule: list_all2_induct) (auto dest: ids)
  show ?thesis using segs [OF top] unfolding out by (simp add: outputPolicySegments_def cloneOutputPolicyPayload_def cloneMessageSlice_def comp_def)
qed

lemma unit_at_sublist:
  assumes "unit_at R after k refs" "\<forall>m ref. R m ref \<longrightarrow> MsgID m = RefID ref"
  shows "sublist (map RefID refs) (map MsgID after)"
proof -
  have "list_all2 R (take (length refs) (drop k after)) refs" using assms(1) by (simp add: unit_at_def)
  then have "map MsgID (take (length refs) (drop k after)) = map RefID refs"
    using assms(2) by (induction rule: list_all2_induct) auto
  then have "map RefID refs = take (length refs) (drop k (map MsgID after))" by (simp add: take_map drop_map)
  moreover have "sublist (take (length refs) (drop k (map MsgID after))) (map MsgID after)"
    using sublist_take sublist_drop by (rule sublist_order.order_trans)
  ultimately show ?thesis by simp
qed

lemma mandatory_sublist:
  assumes "mandatory_from H exact after priors xs = Inr ()" "x \<in> set xs" "CdRequired x"
  shows "sublist (map RefID (CdMembers x)) (map MsgID after)"
proof -
  obtain f l where u: "validateMandatoryUnit H x after (CdRef x \<in> set exact) = Inr (f, l)"
    using assms by (induction xs arbitrary: priors) (auto simp: bind_res_Inr_iff split: if_splits option.splits)
  show ?thesis
  proof (cases "CdMembers x = []")
    case False
    with validateMandatoryUnit_at [OF u] have "unit_at (member_of H (CdRef x \<in> set exact)) after (unitStart after x) (CdMembers x)" by simp
    then show ?thesis by (rule unit_at_sublist) blast
  qed simp
qed

lemma finalByID_Some: "finalByID msgs i = Some m \<Longrightarrow> m \<in> set msgs \<and> MsgID m = i"
  unfolding finalByID_def by (drule map_of_SomeD) auto

lemma rebaseRef_ID:
  assumes "rebaseRef mk msgs ref = Inr ref'" "\<forall>m r. mk m = Inr r \<longrightarrow> RefID r = MsgID m"
  shows "RefID ref' = RefID ref"
  using assms by (auto simp: rebaseRef_def dest: finalByID_Some split: option.splits)

lemma list_all2_member: "list_all2 P xs ys \<Longrightarrow> x \<in> set xs \<Longrightarrow> \<exists>y \<in> set ys. P x y"
  by (induction rule: list_all2_induct) auto

lemma rebased_ids:
  assumes "list_all2 (\<lambda>r r'. rebaseRef (MessageContentRef E) msgs r = Inr r') refs refs'"
  shows "map RefID refs' = map RefID refs"
  using assms
proof (induction rule: list_all2_induct)
  case (Cons r rs r' rs')
  have "RefID r' = RefID r" using Cons(1) by (rule rebaseRef_ID) (blast dest: MessageContentRef_ID)
  then show ?case using Cons by simp
qed simp

lemma acceptedSelection_members:
  assumes "acceptedSelection H (Some d) msgs = Inr rebased" "x \<in> set (SdCandidates d)"
  obtains d' y where "rebased = Some d'" "y \<in> set (SdCandidates d')" "CdRequired y = CdRequired x" "map RefID (CdMembers y) = map RefID (CdMembers x)"
proof -
  let ?f = "\<lambda>cand. bind_res (map_res (rebaseRef (MessageContentRef (SelectionEnv H)) msgs) (CdMembers cand)) (\<lambda>members.
            bind_res (map_res (rebaseRef (roundSemanticRef H) msgs) (CdRoundMembers cand)) (\<lambda>rounds.
            Inr (cand\<lparr>CdMembers := members, CdRoundMembers := rounds\<rparr>)))"
  obtain ys where ys: "map_res ?f (SdCandidates d) = Inr ys" "rebased = Some (d\<lparr>SdCandidates := ys\<rparr>)"
    using assms(1) by (auto simp: acceptedSelection_def bind_res_Inr_iff)
  from list_all2_member [OF ys(1) [unfolded map_res_Inr_iff] assms(2)] obtain y where y: "y \<in> set ys" "?f x = Inr y" by blast
  then obtain members rounds where m: "map_res (rebaseRef (MessageContentRef (SelectionEnv H)) msgs) (CdMembers x) = Inr members"
      "y = x\<lparr>CdMembers := members, CdRoundMembers := rounds\<rparr>"
    by (auto simp: bind_res_Inr_iff)
  have "list_all2 (\<lambda>r r'. rebaseRef (MessageContentRef (SelectionEnv H)) msgs r = Inr r') (CdMembers x) members" using m(1) by (simp add: map_res_Inr_iff)
  then have "map RefID members = map RefID (CdMembers x)" by (rule rebased_ids)
  then show thesis using that [of "d\<lparr>SdCandidates := ys\<rparr>" y] ys(2) y(1) m(2) by simp
qed

lemma validateFinalRounds_from_Inr:
  "validateFinalRounds_from snap segs = Inr () \<longleftrightarrow>
   (\<forall>seg \<in> set segs. hasRoundParts (Segment snap seg) \<longrightarrow> (\<exists>rounds. segmentToolRounds seg (Segment snap seg) = Inr rounds))"
  by (induction segs) (auto simp: bind_res_Inr_iff)

lemma ordered_subseq:
  assumes "sorted_wrt (<) ks" "\<forall>k \<in> set ks. k < length xs"
  shows "subseq (map ((!) xs) ks) xs"
proof -
  have "subseq ks [0..<length xs]"
    using assms by (intro sorted_subset_imp_subseq) auto
  then have "subseq (map ((!) xs) ks) (map ((!) xs) [0..<length xs])" by (rule subseq_map)
  then show ?thesis by (simp add: map_nth)
qed

lemma required_in_order:
  assumes "validateRequiredOutput E after refs = Inr ()"
  shows "subseq (map RefID refs) (map MsgID after)"
proof -
  obtain ks where ks: "length ks = length refs" "sorted_wrt (<) ks"
      "\<forall>j < length refs. ks ! j < length after \<and> MessageContentRef E (after ! (ks ! j)) = Inr (refs ! j)"
    using validateRequiredOutput_from_Inr [of E "-1" after refs] assms by (auto simp: validateRequiredOutput_def)
  have "map RefID refs = map ((!) (map MsgID after)) ks"
  proof (rule nth_equalityI)
    fix j assume "j < length (map RefID refs)"
    then show "map RefID refs ! j = map ((!) (map MsgID after)) ks ! j" using ks(1,3) MessageContentRef_ID by fastforce
  qed (simp add: ks(1))
  moreover have "\<forall>k \<in> set ks. k < length (map MsgID after)" using ks(1,3) by (auto simp: in_set_conv_nth)
  ultimately show ?thesis using ordered_subseq [OF ks(2)] by metis
qed

lemma retention_in_order:
  assumes "validateAcceptedRetention E required after = Inr ()"
  shows "subseq (map RefID required) (map MsgID after)"
proof -
  let ?g = "\<lambda>ref. case finalByID after (RefID ref) of None \<Rightarrow> Inl ErrInvalidRetention | Some m \<Rightarrow> MessageContentRef E m"
  obtain refs where refs: "map_res ?g required = Inr refs" "validateRequiredOutput E after refs = Inr ()"
    using assms by (auto simp: validateAcceptedRetention_def bind_res_Inr_iff)
  have id: "RefID r' = RefID r" if "?g r = Inr r'" for r r'
    using that by (auto dest!: finalByID_Some MessageContentRef_ID split: option.splits)
  from refs(1) have "list_all2 (\<lambda>r r'. ?g r = Inr r') required refs" by (simp add: map_res_Inr_iff)
  then have "list_all2 (\<lambda>r r'. RefID r = RefID r') required refs" by (rule list_all2_mono) (metis id)
  then have "map RefID refs = map RefID required" by (induction rule: list_all2_induct) simp_all
  with required_in_order [OF refs(2)] show ?thesis by simp
qed

lemma Report_overflow:
  assumes "Report D r req c = (Inr rep, c')" "RepOverflowReason rep = []"
  shows "RepTotal rep \<le> RepEffectiveLimit rep \<and> Resolve (RepBudget rep) = Inr (RepEffectiveLimit rep)"
  using assms
  by (auto simp: Report_def bind_Inr_iff finalizeEstimateReport_def bind_res_Inr_iff Let_def EstimateReport_Validate_def
      validateEstimateSegments_def overflowReason_def ReasonTokenBudgetExceeded_def split: if_splits)

text \<open>The segments fit the budget: what its counter finds in them is within the limit it resolves to.\<close>

definition fits_budget :: "CompileHost \<Rightarrow> OutputBudget \<Rightarrow> EstimateSegment list \<Rightarrow> bool" where
  "fits_budget H b segs \<longleftrightarrow>
     (case ObCounter b of
        PlainCounter _ \<Rightarrow>
          \<exists>limit n c c'. Resolve (CfgBudget (ObPipe b)) = Inr limit \<and> n \<le> limit \<and>
            estimateOwned (DefaultEnv H) (PipeEstimator (ObPipe b)) (concat (map EsMessages segs)) c = (Inr n, c')
      | ReportCounter D r \<Rightarrow>
          \<exists>report c c'. Report D r \<lparr>ErSegments = segs, ErBudget = CfgBudget (ObPipe b), ErManifestRef = None, ErWireRef = None\<rparr> c = (Inr report, c') \<and>
            RepTotal report \<le> RepEffectiveLimit report)"

lemma validateSegments_fits:
  assumes "validateSegments H b segs c = (Inr (), c')"
  shows "fits_budget H b segs"
proof (cases "ObCounter b")
  case (PlainCounter x)
  with assms obtain limit n c1 c2 where "Resolve (CfgBudget (ObPipe b)) = Inr limit" "\<not> limit < n"
      and e: "settle (map_err (Wrap ErrTokenCountFailed) (estimateOwned (DefaultEnv H) (PipeEstimator (ObPipe b)) (concat (map EsMessages segs)))) c1 = (Inr n, c2)"
    by (auto simp: validateSegments_def validateOutput_def bind_Inr_iff split: if_splits)
  from e have "\<exists>c' c''. estimateOwned (DefaultEnv H) (PipeEstimator (ObPipe b)) (concat (map EsMessages segs)) c' = (Inr n, c'')"
    by (elim settle_InrE map_err_InrE) blast
  then show ?thesis using PlainCounter \<open>Resolve _ = _\<close> \<open>\<not> limit < n\<close> by (auto simp: fits_budget_def not_less)
next
  case (ReportCounter D r)
  with assms show ?thesis
    by (auto simp: validateSegments_def fits_budget_def bind_Inr_iff dest: Report_overflow split: if_splits)
qed

text \<open>
  What the boundary promises of an output: valid roles, unique identities, whole tool rounds, the required references of the budget in
  their order, every required candidate of the selection in one piece, and the budget.
\<close>

definition accepted_output :: "Engine \<Rightarrow> bool \<Rightarrow> OutputBudget option \<Rightarrow> ContentRef list \<Rightarrow> CandidateDecision list \<Rightarrow> AbstractPayload \<Rightarrow> bool" where
  "accepted_output En main budget required cands p \<longleftrightarrow>
     (let msgs = semanticOutputMessages main p; segments = Segment (payloadSnapshot p) in
      (\<forall>m \<in> set msgs. Role_Validate (MsgRole m) = Inr ()) \<and>
      distinct (filter (\<lambda>i. i \<noteq> []) (map MsgID msgs)) \<and>
      (\<forall>seg \<in> set snapshotSegmentOrder. hasRoundParts (segments seg) \<longrightarrow> (\<exists>rounds. segmentToolRounds seg (segments seg) = Inr rounds)) \<and>
      (\<forall>x \<in> set cands. CdRequired x \<longrightarrow> sublist (map RefID (CdMembers x)) (map MsgID msgs)) \<and>
      (\<forall>b. budget = Some b \<longrightarrow> subseq (map RefID required) (map MsgID msgs) \<and> fits_budget (EnHost En) b (outputSegments main p)))"

lemma lift_run_Inr: "lift_run r c = (Inr x, c') \<longleftrightarrow> r = Some (Inr x) \<and> c' = c"
  by (auto simp: lift_run_def split: option.splits)

lemma validateOutputBeforePolicy_Inr:
  assumes "validateOutputBeforePolicy H main payload budget required selection policy c = (Inr (), c')"
  shows "validateMessageRoles (semanticOutputMessages main payload) = Inr () \<and> validateUniqueMessageIDs (semanticOutputMessages main payload) = Inr ()"
  using assms by (auto simp: validateOutputBeforePolicy_def Let_def bind_Inr_iff)

lemma policedPayload_Inr:
  assumes "policedPayload En main name payload c = (Inr policed, c')" "validateMessageRoles (semanticOutputMessages main payload) = Inr ()"
  shows "map MsgID (semanticOutputMessages main policed) = map MsgID (semanticOutputMessages main payload) \<and>
     validateMessageRoles (semanticOutputMessages main policed) = Inr ()"
proof (cases "EnOutputPolicy En")
  case None
  with assms have "policed = cloneOutputPolicyPayload payload" by (simp add: policedPayload_def)
  with outline_sound [OF outline_clone, of main payload] assms(2) show ?thesis by simp
next
  case (Some p)
  with assms obtain c1 where "applyOutputPolicy (EnCodec En) (Some p) \<lparr>OiMain = main, OiName = name, OiPayload = payload\<rparr> c = (Inr policed, c1)"
    by (auto simp: policedPayload_def bind_Inr_iff)
  note outline = policy_outline [OF this, simplified]
  then have "map MsgID (semanticOutputMessages main policed) = map MsgID (semanticOutputMessages main payload)" by (intro semantic_ids) simp
  then show ?thesis using outline unfolding semantic_roles by simp
qed

lemma acceptSemanticOutput_sound:
  assumes "acceptSemanticOutput En states main name payload budget required selection policy c = (Inr accepted, c')"
  shows "accepted_output En main budget required (case selection of None \<Rightarrow> [] | Some d \<Rightarrow> SdCandidates d) accepted"
proof -
  let ?after = "semanticOutputMessages main accepted"
  from assms obtain policed d c1 c2 c3 where r:
    "validateOutputBeforePolicy (EnHost En) main payload budget required selection policy c = (Inr (), c1)"
    "policedPayload En main name payload c1 = (Inr policed, c2)"
    "acceptOpaqueState (EnOpaqueHost En) (EnOpaquePolicy En) main states policed = Some (Inr (accepted, d))"
    and check: "checkAccepted En main budget required selection policy accepted c2 = (Inr (), c3)"
    unfolding acceptSemanticOutput_def by (elim bind_InrE) (auto simp: lift_run_Inr bind_Inr_iff split: prod.splits)
  from check obtain rebased c4 c5 where k: "acceptedSelection (EnHost En) selection ?after = Inr rebased"
    "validateMandatorySelection (EnHost En) rebased policy ?after c4 = (Inr (), c5)"
    "validateFinalSelectionRounds (payloadSnapshot accepted) = Inr ()"
    and fits: "\<forall>b. budget = Some b \<longrightarrow> validateAcceptedRetention (retentionEnv (EnHost En) b) required ?after = Inr () \<and>
      validateSegments (EnHost En) b (outputSegments main accepted) c5 = (Inr (), c3)"
    by (auto simp: checkAccepted_def Let_def bind_Inr_iff split: option.splits)
  note before = validateOutputBeforePolicy_Inr [OF r(1)]
  note after = policedPayload_Inr [OF r(2) conjunct1 [OF before]] outline_sound [OF acceptOpaqueState_outline [OF r(3)], of main]
  have roles: "\<forall>m \<in> set ?after. Role_Validate (MsgRole m) = Inr ()" using after by (simp add: validateMessageRoles_Inr)
  have unique: "distinct (filter (\<lambda>i. i \<noteq> []) (map MsgID ?after))" using after before by (simp add: validateUniqueMessageIDs_Inr)
  have required: "sublist (map RefID (CdMembers x)) (map MsgID ?after)"
    if x: "x \<in> set (case selection of None \<Rightarrow> [] | Some d \<Rightarrow> SdCandidates d)" "CdRequired x" for x
  proof -
    from x(1) obtain d where d: "selection = Some d" "x \<in> set (SdCandidates d)" by (cases selection) auto
    from acceptedSelection_members [OF k(1) [unfolded d(1)] d(2)] obtain d' y where
      y: "rebased = Some d'" "y \<in> set (SdCandidates d')" "CdRequired y = CdRequired x" "map RefID (CdMembers y) = map RefID (CdMembers x)" by blast
    from k(2) y(1) have "mandatory_from (EnHost En) (case policy of None \<Rightarrow> [] | Some p \<Rightarrow> SpRequired p) ?after [] (SdCandidates d') = Inr ()"
      by (auto simp: validateMandatorySelection_def bind_Inr_iff)
    from mandatory_sublist [OF this y(2)] y(3,4) x(2) show ?thesis by simp
  qed
  have "subseq (map RefID required) (map MsgID ?after) \<and> fits_budget (EnHost En) b (outputSegments main accepted)" if "budget = Some b" for b
    using fits that retention_in_order validateSegments_fits by blast
  moreover have "hasRoundParts (Segment (payloadSnapshot accepted) seg) \<longrightarrow> (\<exists>rounds. segmentToolRounds seg (Segment (payloadSnapshot accepted) seg) = Inr rounds)"
    if "seg \<in> set snapshotSegmentOrder" for seg
    using k(3) that by (simp add: validateFinalSelectionRounds_def validateFinalRounds_from_Inr)
  ultimately show ?thesis using roles unique required unfolding accepted_output_def Let_def by blast
qed

lemma finalParticipatingArtifacts_present:
  assumes "finalParticipatingArtifacts H arts msgs = Inr out" "a \<in> set out"
  shows "artifactMessageID (ArtID a) \<in> MsgID ` set msgs"
  using assms by (auto simp: finalParticipatingArtifacts_def bind_res_Inr_iff filterParticipatingArtifacts_def participatingArtifactIDs_def) (metis imageI)

lemma runCompilePipeline_InrE:
  assumes "runCompilePipeline En options req c = (Inr r, c')"
  obtains states payload c1 c2 active active' where
    "acceptSemanticOutput En states True ''main'' payload (EnBudget En) (CpRequired r) (Some (CpSelection r)) (EnSelection En) c1 = (Inr (CpPayload r), c2)"
    "finalParticipatingArtifacts (EnHost En) active (FlattenMessages (CpPayload r)) = Inr active'" "CpArtifacts r = map ContextArtifact_Clone active'"
  using assms by (auto simp: runCompilePipeline_def Let_def bind_Inr_iff)

lemma compileMain_sound:
  assumes "compileMain En options req c = (Inr out, c')"
  shows "accepted_output En True (EnBudget En) (CpRequired (CoCompiled out)) (SdCandidates (CpSelection (CoCompiled out))) (CpPayload (CoCompiled out)) \<and>
     (\<forall>a \<in> set (CpArtifacts (CoCompiled out)). artifactMessageID (ArtID a) \<in> MsgID ` set (FlattenMessages (CpPayload (CoCompiled out))))"
proof -
  obtain r c1 c2 where run: "runCompilePipeline En options r c1 = (Inr (CoCompiled out), c2)"
    using assms by (auto simp: compileMain_def bind_Inr_iff)
  then obtain states payload c3 c4 active active' where
      acc: "acceptSemanticOutput En states True ''main'' payload (EnBudget En) (CpRequired (CoCompiled out))
        (Some (CpSelection (CoCompiled out))) (EnSelection En) c3 = (Inr (CpPayload (CoCompiled out)), c4)"
    and arts: "finalParticipatingArtifacts (EnHost En) active (FlattenMessages (CpPayload (CoCompiled out))) = Inr active'"
      "CpArtifacts (CoCompiled out) = map ContextArtifact_Clone active'"
    by (rule runCompilePipeline_InrE)
  from acceptSemanticOutput_sound [OF acc]
  have "accepted_output En True (EnBudget En) (CpRequired (CoCompiled out)) (SdCandidates (CpSelection (CoCompiled out))) (CpPayload (CoCompiled out))"
    by simp
  moreover have "artifactMessageID (ArtID a) \<in> MsgID ` set (FlattenMessages (CpPayload (CoCompiled out)))" if "a \<in> set (CpArtifacts (CoCompiled out))" for a
    using that finalParticipatingArtifacts_present [OF arts(1)] by (auto simp: arts(2))
  ultimately show ?thesis by blast
qed

end
