(* ===== verification/Targets.thy ===== *)
theory Targets
  imports Engine
begin

text \<open>
  The named outputs of a compile (compile_target.go) and the entry points of the engine (compile.go): every target scopes the prepared
  context, selects from it, runs the stages of the engine under its own budget and passes the same output boundary; a view target renders
  the whole prepared context. The transformations, the trace and the estimates of a projection are write-only and left out.
\<close>

subsection \<open>Scoping\<close>

fun takeRequested :: "CompileHost \<Rightarrow> ContentRef list \<Rightarrow> ContextArtifact list \<Rightarrow> ContextArtifact list result" where
  "takeRequested H requested [] = (if requested \<noteq> [] then Inl ErrUnavailableCandidate else Inr [])"
| "takeRequested H requested (a # as) =
     bind_res (ArtifactContentRef H a) (\<lambda>ref.
     if ref \<in> set requested
     then bind_res (takeRequested H (removeAll ref requested) as) (\<lambda>rest. Inr (ContextArtifact_Clone a # rest))
     else takeRequested H requested as)"

definition targetArtifacts :: "CompileHost \<Rightarrow> CompileTarget \<Rightarrow> ContextArtifact list \<Rightarrow> ContextArtifact list result" where
  "targetArtifacts H t artifacts =
     (if TgIncludeArtifacts t
      then (if TgArtifactRefs t \<noteq> [] then Inl ErrInvalidSelection else Inr (map ContextArtifact_Clone artifacts))
      else if \<not> distinct (TgArtifactRefs t) then Inl ErrDuplicateSelection
      else takeRequested H (TgArtifactRefs t) artifacts)"

definition scopedMessages :: "string list \<Rightarrow> string list \<Rightarrow> string list \<Rightarrow> string \<Rightarrow> Message list \<Rightarrow> Message list" where
  "scopedMessages selectedIDs allIDs segments seg =
     filter (\<lambda>m. MsgID m \<in> set selectedIDs \<or> (MsgID m \<notin> set allIDs \<and> seg \<in> set segments))"

definition scopeTargetSnapshot ::
  "CompileHost \<Rightarrow> ConversationState \<Rightarrow> CompileTarget \<Rightarrow> ContextArtifact list \<Rightarrow> (ConversationState \<times> ContextArtifact list) result" where
  "scopeTargetSnapshot H snap t artifacts =
     bind_res (targetArtifacts H t artifacts) (\<lambda>selected.
     let ids = map (\<lambda>a. artifactMessageID (ArtID a));
         start = WithArtifacts (WithVersion EmptyState (Version snap)) selected
     in Inr (fold (\<lambda>seg out. WithSegment out seg (scopedMessages (ids selected) (ids artifacts) (TgSegments t) seg (Segment snap seg)))
               snapshotSegmentOrder start, selected))"

definition initializeTargetArtifactExclusions :: "CompileHost \<Rightarrow> ContextArtifact list \<Rightarrow> (ContentRef \<times> string) list result" where
  "initializeTargetArtifactExclusions H artifacts =
     bind_res (map_res (ArtifactContentRef H) artifacts) (\<lambda>refs. Inr (fold (\<lambda>ref ex. AList.update ref ''not_selected'' ex) refs []))"

subsection \<open>Evidence about artifacts\<close>

definition artifactRevisionPresent :: "CompileHost \<Rightarrow> ContextArtifact list \<Rightarrow> ContextArtifact \<Rightarrow> bool result" where
  "artifactRevisionPresent H artifacts expected =
     bind_res (ArtifactContentRef H expected) (\<lambda>ref.
     case find (\<lambda>a. ArtID a = ArtID expected) artifacts of
       None \<Rightarrow> Inr False
     | Some a \<Rightarrow> bind_res (ArtifactContentRef H a) (\<lambda>actual. Inr (ref = actual)))"

fun exclusions_from ::
  "CompileHost \<Rightarrow> (ContentRef \<times> string) list \<Rightarrow> ContextArtifact list \<Rightarrow> ContentRef list \<Rightarrow> ContextArtifact list \<Rightarrow>
   (ContentRef \<times> string) list result" where
  "exclusions_from H decisions selected seen [] = Inr []"
| "exclusions_from H decisions selected seen (a # as) =
     bind_res (artifactRevisionPresent H selected a) (\<lambda>present.
     if present then exclusions_from H decisions selected seen as
     else bind_res (ArtifactContentRef H a) (\<lambda>ref.
       if ref \<in> set seen then exclusions_from H decisions selected seen as
       else let reason = (case map_of decisions ref of None \<Rightarrow> [] | Some r \<Rightarrow> r) in
            bind_res (exclusions_from H decisions selected (ref # seen) as) (\<lambda>rest.
            Inr ((ref, if reason = [] then ''artifact_merge'' else reason) # rest))))"

definition artifactExclusionsForOutput ::
  "CompileHost \<Rightarrow> (ContentRef \<times> string) list \<Rightarrow> ContextArtifact list \<Rightarrow> ContextArtifact list \<Rightarrow> (ContentRef \<times> string) list result" where
  "artifactExclusionsForOutput H decisions artifacts selected = exclusions_from H decisions selected [] artifacts"

definition artifactIDs :: "ContextArtifact list \<Rightarrow> string list" where
  "artifactIDs as = map ArtID as"

subsection \<open>One target\<close>

text \<open>\<open>PjRequired\<close> are the required references of the budget decision of the target.\<close>

record CompileProjection =
  PjName :: string
  PjText :: string
  PjMessages :: "Message list"
  PjSource :: CompileRequest
  PjInputSnapshot :: ConversationState
  PjArtifactIDs :: "string list"
  PjSnapshot :: ConversationState
  PjSelection :: "SelectionDecision option"
  PjArtifacts :: "ContextArtifact list"
  PjExcludedArtifacts :: "(ContentRef \<times> string) list"
  PjRequired :: "ContentRef list"

definition plainMessagesText :: "Message list \<Rightarrow> string" where
  "plainMessagesText ms = concat (map (\<lambda>m. formatPartsPlain (MsgParts m)) ms)"

definition formatTargetMessages :: "Engine \<Rightarrow> compileIdentitySettings \<Rightarrow> formatter \<Rightarrow> Message list \<Rightarrow> Message list comp" where
  "formatTargetMessages En s fn working =
     bind poll (\<lambda>_.
     bind (settle (fn (cloneMessageSlice working))) (\<lambda>formatted.
     lift_res (ensureMessageIDsFromContext (EnIdentity En) s SegmentHistory 0 formatted)))"

definition finishTargetMessages :: "Engine \<Rightarrow> CompileTarget \<Rightarrow> compileIdentitySettings \<Rightarrow> Message list \<Rightarrow> Message list comp" where
  "finishTargetMessages En t s working =
     (case TgFormatter t of None \<Rightarrow> ret working | Some fn \<Rightarrow> formatTargetMessages En s fn working)"

definition acceptTargetSemantic ::
  "Engine \<Rightarrow> inventory \<Rightarrow> string \<Rightarrow> ConversationState \<Rightarrow> CompileTarget \<Rightarrow> ContentRef list \<Rightarrow> SelectionDecision \<Rightarrow> Message list \<Rightarrow>
   (ConversationState \<times> Message list) comp" where
  "acceptTargetSemantic En states name scoped t required selection working =
     (let semantic = (if Option.is_none (TgFormatter t) then snapshotWithFinalMessages scoped working
                      else WithSegment EmptyState SegmentHistory working) in
      bind (acceptSemanticOutput En states False name (snapshotPayload semantic) (channelBudget False (TgBudget t)) required (Some selection) (TgSelection t))
        (\<lambda>accepted.
      let scoped' = WithArtifacts (WithVersion (payloadSnapshot accepted) (Version scoped)) (Artifacts scoped) in
      ret (scoped', snapshotAllMessages scoped')))"

definition finishTargetSnapshot ::
  "CompileHost \<Rightarrow> ConversationState \<Rightarrow> CompileTarget \<Rightarrow> ContextArtifact list \<Rightarrow> ContextArtifact list \<Rightarrow> Message list \<Rightarrow> (ContentRef \<times> string) list \<Rightarrow>
   (ConversationState \<times> ContextArtifact list \<times> (ContentRef \<times> string) list) result" where
  "finishTargetSnapshot H scoped t selected artifacts working decisions =
     bind_res (finalParticipatingArtifacts H selected working) (\<lambda>participating.
     bind_res (artifactExclusionsForOutput H decisions artifacts participating) (\<lambda>exclusions.
     let scoped' = (if Option.is_none (TgFormatter t) then WithArtifacts (snapshotWithFinalMessages scoped working) participating
                    else WithArtifacts (WithSegment (WithVersion EmptyState (Version scoped)) SegmentHistory working) participating) in
     bind_res (validateFinalSelectionRounds scoped') (\<lambda>_.
     bind_res (validateUniqueMessageIDs working) (\<lambda>_.
     Inr (scoped', participating, exclusions)))))"

text \<open>
  A target without a view. \<open>st\<close> is the shared state of the materializations; the evidence about exclusions and estimates is local.
\<close>

definition compileContentTarget ::
  "Engine \<Rightarrow> preparedCompile \<Rightarrow> TextReplacement list \<Rightarrow> CompileRequest \<Rightarrow> CompileTarget \<Rightarrow> materializationState option \<Rightarrow>
   (CompileProjection \<times> materializationState option) comp" where
  "compileContentTarget En pr options source t st =
     (let H = EnHost En; name = TrimSpace (TgName t); s = requestIdentity source name; snap = PrSnapshot pr; artifacts = PrArtifacts pr;
          pending = (if TgIncludeCurrentTurn t then cloneMessageSlice (PrPending pr) else []) in
      bind (lift_res (scopeTargetSnapshot H snap t artifacts)) (\<lambda>(scoped, selected).
      bind (lift_res (initializeTargetArtifactExclusions H artifacts)) (\<lambda>ex.
      bind (selectOutput H scoped pending (TgSelection t) (channelBudget False (TgBudget t)) \<lparr>EvMaterial = st, EvExclusions = ex, EvEstimates = []\<rparr>)
        (\<lambda>(scoped1, selection, ev).
      bind (lift_res (recordSelectionArtifactExclusions H selection selected ev)) (\<lambda>ev'.
      let selected' = filterParticipatingArtifacts selected (snapshotAllMessages scoped1); scoped2 = WithArtifacts scoped1 selected';
          options' = outputOptions options (WithSegment scoped2 SegmentHistory (Segment scoped2 SegmentHistory @ pending)) in
      bind (applyCompileReplacements patchPhasePreBudget options' scoped2) (\<lambda>scoped3.
      bind (applyTransformsAndBudget En (channelBudget False (TgBudget t)) s options' scoped3 pending) (\<lambda>(scoped4, required).
      bind (finishTargetMessages En t s (snapshotAllMessages scoped4)) (\<lambda>working.
      bind (acceptTargetSemantic En (PrStates pr) name scoped4 t required selection working) (\<lambda>(scoped5, working').
      bind (lift_res (finishTargetSnapshot H scoped5 t selected' artifacts working' (EvExclusions ev'))) (\<lambda>(scoped6, participating, exclusions).
      ret (\<lparr>PjName = name, PjText = plainMessagesText working', PjMessages = cloneMessageSlice working', PjSource = source, PjInputSnapshot = AllSegmentsSnapshot snap,
             PjArtifactIDs = artifactIDs participating, PjSnapshot = scoped6, PjSelection = Some selection, PjArtifacts = map ContextArtifact_Clone participating,
             PjExcludedArtifacts = exclusions, PjRequired = required\<rparr>, EvMaterial ev)))))))))))"

text \<open>The view of a validated target is one of the built-in ones.\<close>

definition compileTextViewTarget :: "Engine \<Rightarrow> preparedCompile \<Rightarrow> CompileRequest \<Rightarrow> CompileTarget \<Rightarrow> CompileProjection comp" where
  "compileTextViewTarget En pr source t =
     (let snap = PrSnapshot pr; name = TrimSpace (TgName t) in
      bind (acceptSemanticOutput En (PrStates pr) False name (snapshotPayload snap) None [] None None) (\<lambda>accepted.
      let snap' = WithArtifacts (WithVersion (payloadSnapshot accepted) (Version snap)) (Artifacts snap) in
      bind (case builtinViewFormatter (TgView t) of None \<Rightarrow> fail ErrUnknownCompileTargetView | Some v \<Rightarrow> ViewFormat (DefaultEnv (EnHost En)) v snap') (\<lambda>txt.
      ret \<lparr>PjName = name, PjText = txt, PjMessages = [], PjSource = source, PjInputSnapshot = AllSegmentsSnapshot snap,
           PjArtifactIDs = artifactIDs (Artifacts snap'), PjSnapshot = AllSegmentsSnapshot snap', PjSelection = None,
           PjArtifacts = map ContextArtifact_Clone (Artifacts snap'), PjExcludedArtifacts = [], PjRequired = []\<rparr>)))"

definition compileTarget ::
  "Engine \<Rightarrow> preparedCompile \<Rightarrow> TextReplacement list \<Rightarrow> CompileRequest \<Rightarrow> CompileTarget \<Rightarrow> materializationState option \<Rightarrow>
   (CompileProjection \<times> materializationState option) comp" where
  "compileTarget En pr options source t st =
     bind poll (\<lambda>_.
     if TgView t \<noteq> [] then bind (compileTextViewTarget En pr source t) (\<lambda>p. ret (p, st))
     else compileContentTarget En pr options source t st)"

fun compileTargets ::
  "Engine \<Rightarrow> preparedCompile \<Rightarrow> TextReplacement list \<Rightarrow> CompileRequest \<Rightarrow> CompileTarget list \<Rightarrow> materializationState option \<Rightarrow>
   (string \<times> CompileProjection) list \<Rightarrow> (string \<times> CompileProjection) list comp" where
  "compileTargets En pr options source [] st out = ret out"
| "compileTargets En pr options source (t # ts) st out =
     bind (compileTarget En pr options source t st) (\<lambda>(p, st').
     compileTargets En pr options source ts st' (AList.update (PjName p) (p\<lparr>PjSource := Freeze source\<rparr>) out))"

subsection \<open>Entry points\<close>

definition compileRequest :: "Engine \<Rightarrow> TextReplacement list \<Rightarrow> CompileRequest \<Rightarrow> (CompileOutput \<times> (string \<times> CompileProjection) list) comp" where
  "compileRequest En options req =
     bind (compileMain En options req) (\<lambda>out.
     let compiled = CoCompiled out in
     bind (compileTargets En (CpPrepared compiled) options (CoSource out) (CrTargets (CoSource out)) (EvMaterial (CpEvidence compiled)) []) (\<lambda>projections.
     ret (out, projections)))"

definition CompileSnapshot :: "Engine \<Rightarrow> TextReplacement list \<Rightarrow> CompileRequest \<Rightarrow> (CompileOutput \<times> (string \<times> CompileProjection) list) comp" where
  "CompileSnapshot En options req = bind poll (\<lambda>_. compileRequest En options req)"

text \<open>\<open>store\<close> is the load operation of a configured store, \<open>conversation\<close> the configured identity.\<close>

definition loadSnapshot :: "(string \<Rightarrow> ConversationState comp) option \<Rightarrow> string \<Rightarrow> ConversationState comp" where
  "loadSnapshot store conversation =
     (case store of
        Some load \<Rightarrow> if conversation \<noteq> [] then bind (load conversation) (\<lambda>state. ret (AllSegmentsSnapshot state)) else ret EmptyState
      | None \<Rightarrow> ret EmptyState)"

definition mergeWithStateStore :: "(string \<Rightarrow> ConversationState comp) option \<Rightarrow> string \<Rightarrow> CompileRequest \<Rightarrow> CompileRequest comp" where
  "mergeWithStateStore store conversation req =
     bind (loadSnapshot store conversation) (\<lambda>snap.
     ret (mergeCompileRequest snap (if Option.is_none store then req else req\<lparr>CrSourceRevision := Version snap\<rparr>)))"

definition Compile ::
  "Engine \<Rightarrow> (string \<Rightarrow> ConversationState comp) option \<Rightarrow> string \<Rightarrow> TextReplacement list \<Rightarrow> CompileRequest \<Rightarrow>
   (CompileOutput \<times> (string \<times> CompileProjection) list) comp" where
  "Compile En store conversation options req =
     bind poll (\<lambda>_.
     if \<not> Option.is_none store \<and> conversation = [] then fail ErrInvalidCompileConfiguration
     else bind (lift_res (validateCompileConfiguration En req)) (\<lambda>_.
          bind (mergeWithStateStore store conversation req) (\<lambda>merged.
          compileRequest En options merged)))"

subsection \<open>Active artifacts\<close>

lemma artifactVisibleInTurn_cong:
  "ArtLifecycle a = ArtLifecycle b \<Longrightarrow> ArtBoundTurnID a = ArtBoundTurnID b \<Longrightarrow> artifactVisibleInTurn turn a = artifactVisibleInTurn turn b"
  by (cases "ArtLifecycle b") (simp_all add: artifactVisibleInTurn_def)

lemma ContextArtifact_Clone_bound [simp]: "ArtBoundTurnID (ContextArtifact_Clone a) = ArtBoundTurnID a"
  by (simp add: ContextArtifact_Clone_def)

lemma artifactVisibleInTurn_Clone [simp]: "artifactVisibleInTurn turn (ContextArtifact_Clone a) = artifactVisibleInTurn turn a"
  by (rule artifactVisibleInTurn_cong) simp_all

lemma mergeArtifact_turn:
  "(ArtLifecycle (mergeArtifact a b), ArtBoundTurnID (mergeArtifact a b)) \<in> {(ArtLifecycle a, ArtBoundTurnID a), (ArtLifecycle b, ArtBoundTurnID b)}"
  by (cases "ArtMergePolicy b") (auto simp: mergeArtifact_def appendArtifactPayload_def deduplicateArtifactBySourceLayer_def Let_def)

lemma upsertArtifact_visible:
  assumes "\<forall>a \<in> set arts. artifactVisibleInTurn turn a" "artifactVisibleInTurn turn incoming"
  shows "\<forall>a \<in> set (upsertArtifact arts incoming). artifactVisibleInTurn turn a"
proof -
  have merge: "artifactVisibleInTurn turn (mergeArtifact a incoming)" if "artifactVisibleInTurn turn a" for a
    using that assms(2) mergeArtifact_turn [of a incoming] artifactVisibleInTurn_cong by (metis insertE prod.inject singletonD)
  have replace: "\<forall>a \<in> set arts. artifactVisibleInTurn turn a \<Longrightarrow> \<forall>a \<in> set (replaceFirst arts incoming). artifactVisibleInTurn turn a" for arts
    using assms(2) merge by (induction arts incoming rule: replaceFirst.induct) auto
  let ?kept = "filter (\<lambda>a. ArtID a = ArtID incoming \<or> artifactOriginKey a \<noteq> artifactOriginKey incoming) arts"
  have "\<forall>a \<in> set ?kept. artifactVisibleInTurn turn a" using assms(1) by simp
  then have "\<forall>a \<in> set (replaceFirst ?kept incoming). artifactVisibleInTurn turn a" by (rule replace)
  moreover have "\<forall>a \<in> set (replaceFirst arts incoming). artifactVisibleInTurn turn a" using assms(1) by (rule replace)
  ultimately show ?thesis using assms by (simp add: upsertArtifact_def Let_def)
qed

lemma selectArtifacts_visible:
  "selectArtifacts_from H k turn active ev as c = (Inr (out, ev'), c') \<Longrightarrow> \<forall>a \<in> set active. artifactVisibleInTurn turn a \<Longrightarrow>
   \<forall>a \<in> set out. artifactVisibleInTurn turn a"
proof (induction as arbitrary: active ev c)
  case (Cons a as)
  from Cons.prems(1) obtain c1 reason ev1 c2 where r: "artifactSelectionReason H k turn a ev c1 = (Inr (reason, ev1), c2)"
      and rest: "if reason = [] then selectArtifacts_from H k turn (upsertArtifact active a) ev1 as c2 = (Inr (out, ev'), c')
        else (\<exists>ev2 c3. selectArtifacts_from H k turn active ev2 as c3 = (Inr (out, ev'), c'))"
    by (fastforce simp: bind_Inr_iff split: if_splits)
  show ?case
  proof (cases "reason = []")
    case True
    with r have "artifactVisibleInTurn turn a" by (auto simp: artifactSelectionReason_def artifactInactiveReason_def split: if_splits)
    from upsertArtifact_visible [OF Cons.prems(2) this] Cons.IH True rest show ?thesis by auto
  next
    case False
    with rest Cons.IH Cons.prems(2) show ?thesis by auto
  qed
qed auto

lemma set_Artifacts: "set (Artifacts s) = ContextArtifact_Clone ` snd ` set (ArtifactMap s)"
  by (simp add: Artifacts_def artifactMapValues_def case_prod_unfold image_image)

lemma Artifacts_WithArtifacts:
  shows "ArtID ` set (Artifacts (WithArtifacts s as)) = ArtID ` set as"
    and "\<forall>a \<in> set as. artifactVisibleInTurn turn a \<Longrightarrow> \<forall>a \<in> set (Artifacts (WithArtifacts s as)). artifactVisibleInTurn turn a"
proof -
  let ?f = "\<lambda>as init. fold (\<lambda>a arts. AList.update (ArtID a) (ContextArtifact_Clone a) arts) as init"
  have keys: "fst ` set (?f as init) = fst ` set init \<union> ArtID ` set as" for init
    by (induction as arbitrary: init) (auto simp: dom_update)
  have entries: "\<forall>(k, b) \<in> set (?f as init). (k, b) \<in> set init \<or> (\<exists>a \<in> set as. k = ArtID a \<and> b = ContextArtifact_Clone a)" for init
  proof (induction as arbitrary: init)
    case (Cons a as)
    from Cons.IH [of "AList.update (ArtID a) (ContextArtifact_Clone a) init"] update_keys [of "ArtID a" "ContextArtifact_Clone a" init]
    show ?case by auto
  qed auto
  have arts: "\<forall>b \<in> set (Artifacts (WithArtifacts s as)). \<exists>a \<in> set as. b = ContextArtifact_Clone (ContextArtifact_Clone a)"
    using entries [of "[]"] by (fastforce simp: set_Artifacts WithArtifacts_def)
  have "ArtID ` set (Artifacts (WithArtifacts s as)) = (\<lambda>e. ArtID (snd e)) ` set (?f as [])"
    by (simp add: set_Artifacts WithArtifacts_def image_image)
  also have "\<dots> = fst ` set (?f as [])" using entries [of "[]"] by (intro image_cong) auto
  finally show "ArtID ` set (Artifacts (WithArtifacts s as)) = ArtID ` set as" using keys [of "[]"] by simp
  show "\<forall>a \<in> set as. artifactVisibleInTurn turn a \<Longrightarrow> \<forall>a \<in> set (Artifacts (WithArtifacts s as)). artifactVisibleInTurn turn a"
    using arts by fastforce
qed

lemma Artifacts_AllSegmentsSnapshot:
  "ArtID ` set (Artifacts (AllSegmentsSnapshot s)) = ArtID ` set (Artifacts s)"
  "(\<forall>a \<in> set (Artifacts (AllSegmentsSnapshot s)). artifactVisibleInTurn turn a) \<longleftrightarrow> (\<forall>a \<in> set (Artifacts s). artifactVisibleInTurn turn a)"
  by (simp_all add: set_Artifacts AllSegmentsSnapshot_def cloneArtifactMap_def image_image case_prod_unfold)

text \<open>The active artifacts of a preparation: the ones visible in the turn, and the snapshot names the same.\<close>

definition active_prepared :: "string \<Rightarrow> preparedCompile \<Rightarrow> bool" where
  "active_prepared turn pr \<longleftrightarrow> (\<forall>a \<in> set (PrArtifacts pr). artifactVisibleInTurn turn a) \<and>
     (\<forall>a \<in> set (Artifacts (PrSnapshot pr)). artifactVisibleInTurn turn a) \<and> ArtID ` set (Artifacts (PrSnapshot pr)) = ArtID ` set (PrArtifacts pr)"

lemma prepareCompile_active:
  assumes "prepareCompile En options req c = (Inr pr, c')"
  shows "active_prepared (CrTurnID req) pr"
proof -
  from assms obtain ev snap active ev' snap1 c1 c2 where
      sel: "snapshotWithActiveArtifacts En req ev c1 = (Inr (snap, active, ev'), c2)"
    and pr: "PrSnapshot pr = AllSegmentsSnapshot (WithArtifacts snap1 active)" "PrArtifacts pr = map ContextArtifact_Clone active"
    by (auto simp: prepareCompile_def Let_def bind_Inr_iff)
  from sel have active: "\<forall>a \<in> set active. artifactVisibleInTurn (CrTurnID req) a"
    by (auto simp: snapshotWithActiveArtifacts_def selectArtifacts_def Let_def bind_Inr_iff dest: selectArtifacts_visible)
  then show ?thesis using Artifacts_WithArtifacts [where s = snap1 and as = active]
    by (simp add: active_prepared_def pr Artifacts_AllSegmentsSnapshot image_image)
qed

lemma filterParticipatingArtifacts_visible:
  "\<forall>a \<in> set arts. artifactVisibleInTurn turn a \<Longrightarrow> \<forall>a \<in> set (filterParticipatingArtifacts arts msgs). artifactVisibleInTurn turn a"
  by (auto simp: filterParticipatingArtifacts_def)

lemma finalParticipatingArtifacts_visible:
  "finalParticipatingArtifacts H arts msgs = Inr out \<Longrightarrow> \<forall>a \<in> set arts. artifactVisibleInTurn turn a \<Longrightarrow> \<forall>a \<in> set out. artifactVisibleInTurn turn a"
  using filterParticipatingArtifacts_visible by (auto simp: finalParticipatingArtifacts_def bind_res_Inr_iff)

lemma runCompilePipeline_active:
  assumes "runCompilePipeline En options req c = (Inr r, c')"
  shows "active_prepared (CrTurnID req) (CpPrepared r) \<and> (\<forall>a \<in> set (CpArtifacts r). artifactVisibleInTurn (CrTurnID req) a)"
proof -
  from assms obtain c1 msgs active payload where pr: "prepareCompile En options req c = (Inr (CpPrepared r), c1)"
      and arts: "finalParticipatingArtifacts (EnHost En) (filterParticipatingArtifacts (map ContextArtifact_Clone (PrArtifacts (CpPrepared r))) msgs)
        (FlattenMessages payload) = Inr active" "CpArtifacts r = map ContextArtifact_Clone active"
    by (auto simp: runCompilePipeline_def Let_def bind_Inr_iff)
  note act = prepareCompile_active [OF pr]
  then have "\<forall>a \<in> set active. artifactVisibleInTurn (CrTurnID req) a"
    by (intro finalParticipatingArtifacts_visible [OF arts(1)] filterParticipatingArtifacts_visible) (simp add: active_prepared_def)
  with act arts(2) show ?thesis by simp
qed

lemma takeRequested_visible:
  "takeRequested H refs arts = Inr out \<Longrightarrow> \<forall>a \<in> set arts. artifactVisibleInTurn turn a \<Longrightarrow> \<forall>a \<in> set out. artifactVisibleInTurn turn a"
  by (induction arts arbitrary: refs out) (auto simp: bind_res_Inr_iff split: if_splits)

lemma scopeTargetSnapshot_visible:
  "scopeTargetSnapshot H snap t arts = Inr (scoped, out) \<Longrightarrow> \<forall>a \<in> set arts. artifactVisibleInTurn turn a \<Longrightarrow> \<forall>a \<in> set out. artifactVisibleInTurn turn a"
  by (auto simp: scopeTargetSnapshot_def targetArtifacts_def bind_res_Inr_iff Let_def dest: takeRequested_visible split: if_splits)

subsection \<open>What a target promises\<close>

definition target_output :: "Engine \<Rightarrow> string \<Rightarrow> preparedCompile \<Rightarrow> CompileTarget \<Rightarrow> CompileProjection \<Rightarrow> bool" where
  "target_output En turn pr t p \<longleftrightarrow> PjName p = TrimSpace (TgName t) \<and>
     PjArtifactIDs p = map ArtID (PjArtifacts p) \<and> (\<forall>a \<in> set (PjArtifacts p). artifactVisibleInTurn turn a) \<and>
     (\<exists>accepted.
        accepted_output En False (if TgView t = [] then channelBudget False (TgBudget t) else None) (PjRequired p)
          (case PjSelection p of None \<Rightarrow> [] | Some d \<Rightarrow> SdCandidates d) accepted \<and>
        (if TgView t = []
         then PjMessages p = cloneMessageSlice (semanticOutputMessages False accepted) \<and> PjText p = plainMessagesText (semanticOutputMessages False accepted) \<and>
              (\<forall>a \<in> set (PjArtifacts p). artifactMessageID (ArtID a) \<in> MsgID ` set (PjMessages p))
         else ArtID ` set (PjArtifacts p) = ArtID ` set (PrArtifacts pr) \<and>
           (\<exists>v. builtinViewFormatter (TgView t) = Some v \<and> PjMessages p = [] \<and>
              PjText p = concat (map (viewLine v) (concat (map (Segment (payloadSnapshot accepted)) viewSegmentOrder))))))"

lemma Segment_tagged [simp]: "Segment (WithArtifacts (WithVersion snap v) as) = Segment snap"
  by (simp add: fun_eq_iff WithArtifacts_def WithVersion_def Segment_def segment_def)

lemma all_tagged [simp]: "snapshotAllMessages (WithArtifacts (WithVersion (payloadSnapshot p) v) as) = semanticOutputMessages False p"
  by (simp add: snapshotAllMessages_def semanticOutputMessages_def comp_def)

lemma acceptTargetSemantic_Inr:
  assumes "acceptTargetSemantic En states name scoped t required selection working c = (Inr (scoped', working'), c')"
  obtains accepted where "accepted_output En False (channelBudget False (TgBudget t)) required (SdCandidates selection) accepted"
    "working' = semanticOutputMessages False accepted"
proof -
  from assms obtain payload accepted c1 where
    "acceptSemanticOutput En states False name payload (channelBudget False (TgBudget t)) required (Some selection) (TgSelection t) c = (Inr accepted, c1)"
    "working' = semanticOutputMessages False accepted"
    by (auto simp: acceptTargetSemantic_def Let_def bind_Inr_iff)
  with acceptSemanticOutput_sound [OF this(1)] that show thesis by simp
qed

lemma compileContentTarget_sound:
  assumes "compileContentTarget En pr options source t st c = (Inr (p, st'), c')" "TgView t = []" "active_prepared turn pr"
  shows "target_output En turn pr t p"
proof -
  from assms(1) obtain states scoped scoped0 scoped' selection selected0 selected' artifacts msgs decisions exclusions working working' c1 c2 where
      acc: "acceptTargetSemantic En states (TrimSpace (TgName t)) scoped t (PjRequired p) selection working c1 = (Inr (scoped', working'), c2)"
    and scope: "scopeTargetSnapshot (EnHost En) (PrSnapshot pr) t (PrArtifacts pr) = Inr (scoped0, selected0)"
    and fin: "finishTargetSnapshot (EnHost En) scoped' t (filterParticipatingArtifacts selected0 msgs) artifacts working' decisions = Inr (PjSnapshot p, selected', exclusions)"
    and p: "PjName p = TrimSpace (TgName t)" "PjText p = plainMessagesText working'" "PjMessages p = cloneMessageSlice working'"
      "PjSelection p = Some selection" "PjArtifacts p = map ContextArtifact_Clone selected'"
      "PjArtifactIDs p = map ArtID selected'"
    by (auto simp: compileContentTarget_def Let_def bind_Inr_iff artifactIDs_def)
  from acc obtain accepted where out: "accepted_output En False (channelBudget False (TgBudget t)) (PjRequired p) (SdCandidates selection) accepted"
      "working' = semanticOutputMessages False accepted"
    by (rule acceptTargetSemantic_Inr)
  from fin have final: "finalParticipatingArtifacts (EnHost En) (filterParticipatingArtifacts selected0 msgs) working' = Inr selected'" by (auto simp: finishTargetSnapshot_def bind_res_Inr_iff Let_def)
  note present = finalParticipatingArtifacts_present [OF final]
  have "\<forall>a \<in> set selected0. artifactVisibleInTurn turn a"
    using assms(3) by (intro scopeTargetSnapshot_visible [OF scope]) (simp add: active_prepared_def)
  then have visible: "\<forall>a \<in> set selected'. artifactVisibleInTurn turn a"
    by (intro finalParticipatingArtifacts_visible [OF final] filterParticipatingArtifacts_visible)
  have "MsgID ` set (PjMessages p) = MsgID ` set working'" by (simp add: p(3) cloneMessageSlice_def image_image)
  then have "\<forall>a \<in> set (PjArtifacts p). artifactMessageID (ArtID a) \<in> MsgID ` set (PjMessages p)" using present by (auto simp: p(5))
  then show ?thesis using assms(2) out p visible unfolding target_output_def by (intro conjI exI [of _ accepted]) (simp_all add: comp_def)
qed

lemma compileTextViewTarget_sound:
  assumes "compileTextViewTarget En pr source t c = (Inr p, c')" "TgView t \<noteq> []" "active_prepared turn pr"
  shows "target_output En turn pr t p"
proof -
  from assms(1) obtain payload accepted c1 c2 v where
      acc: "acceptSemanticOutput En (PrStates pr) False (TrimSpace (TgName t)) payload None [] None None c = (Inr accepted, c1)"
    and v: "builtinViewFormatter (TgView t) = Some v"
      "ViewFormat (DefaultEnv (EnHost En)) v (WithArtifacts (WithVersion (payloadSnapshot accepted) (Version (PrSnapshot pr))) (Artifacts (PrSnapshot pr))) c1 = (Inr (PjText p), c2)"
    and p: "PjName p = TrimSpace (TgName t)" "PjMessages p = []" "PjSelection p = None" "PjRequired p = []"
    and arts: "PjArtifacts p = map ContextArtifact_Clone
        (Artifacts (WithArtifacts (WithVersion (payloadSnapshot accepted) (Version (PrSnapshot pr))) (Artifacts (PrSnapshot pr))))"
      "PjArtifactIDs p = map ArtID (PjArtifacts p)"
    by (auto simp: compileTextViewTarget_def artifactIDs_def Let_def bind_Inr_iff split: option.splits)
  note named = Artifacts_WithArtifacts [where s = "WithVersion (payloadSnapshot accepted) (Version (PrSnapshot pr))" and as = "Artifacts (PrSnapshot pr)"]
  have active: "ArtID ` set (PjArtifacts p) = ArtID ` set (PrArtifacts pr)" "\<forall>a \<in> set (PjArtifacts p). artifactVisibleInTurn turn a"
    using named assms(3) by (simp_all add: arts(1) image_image active_prepared_def)
  from v(2) obtain lines where lines: "map_res (viewMessage (DefaultEnv (EnHost En)) v) (concat (map (Segment (payloadSnapshot accepted)) viewSegmentOrder)) = Inr lines"
      "PjText p = concat lines"
    by (auto simp: ViewFormat_def bind_Inr_iff cong: map_cong)
  from lines(1) have "list_all2 (\<lambda>m line. line = viewLine v m) (concat (map (Segment (payloadSnapshot accepted)) viewSegmentOrder)) lines"
    unfolding map_res_Inr_iff by (rule list_all2_mono) (simp add: viewMessage_Inr)
  then have "lines = map (viewLine v) (concat (map (Segment (payloadSnapshot accepted)) viewSegmentOrder))"
    by (induction rule: list_all2_induct) simp_all
  then show ?thesis using assms(2) acceptSemanticOutput_sound [OF acc] v(1) p lines(2) arts(2) active unfolding target_output_def
    by (intro conjI exI [of _ accepted]) (simp_all add: exI [of _ v])
qed

lemma target_output_source: "target_output En turn pr t (p\<lparr>PjSource := r\<rparr>) = target_output En turn pr t p"
  by (simp add: target_output_def)

lemma update_fresh: "k \<notin> fst ` set xs \<Longrightarrow> AList.update k v xs = xs @ [(k, v)]"
  by (induction xs) auto

lemma compileTargets_Inr:
  "compileTargets En pr options source ts st out0 c = (Inr out, c') \<Longrightarrow> active_prepared turn pr \<Longrightarrow> distinct (map (\<lambda>t. TrimSpace (TgName t)) ts) \<Longrightarrow>
   \<forall>t \<in> set ts. TrimSpace (TgName t) \<notin> fst ` set out0 \<Longrightarrow> \<exists>ps. out = out0 @ map (\<lambda>p. (PjName p, p)) ps \<and> list_all2 (target_output En turn pr) ts ps"
proof (induction ts arbitrary: st out0 c)
  case (Cons t ts)
  from Cons.prems(1) obtain p st1 c1 where p: "compileTarget En pr options source t st c = (Inr (p, st1), c1)"
      and rest: "compileTargets En pr options source ts st1 (AList.update (PjName p) (p\<lparr>PjSource := Freeze source\<rparr>) out0) c1 = (Inr out, c')"
    by (auto simp: bind_Inr_iff)
  from p Cons.prems(2) have "target_output En turn pr t p"
    by (auto simp: compileTarget_def bind_Inr_iff intro: compileContentTarget_sound compileTextViewTarget_sound split: if_splits)
  then have t: "target_output En turn pr t (p\<lparr>PjSource := Freeze source\<rparr>)" "PjName p = TrimSpace (TgName t)"
    by (simp_all only: target_output_source) (simp add: target_output_def)
  with Cons.prems(4) have "PjName p \<notin> fst ` set out0" by simp
  then have upd: "AList.update (PjName p) (p\<lparr>PjSource := Freeze source\<rparr>) out0 = out0 @ [(PjName p, p\<lparr>PjSource := Freeze source\<rparr>)]" by (rule update_fresh)
  have "\<forall>t' \<in> set ts. TrimSpace (TgName t') \<noteq> TrimSpace (TgName t)" using Cons.prems(3) by (auto intro: rev_image_eqI)
  with Cons.IH [OF rest Cons.prems(2)] Cons.prems(3,4) t(2) obtain ps where
    "out = (out0 @ [(PjName p, p\<lparr>PjSource := Freeze source\<rparr>)]) @ map (\<lambda>p. (PjName p, p)) ps" "list_all2 (target_output En turn pr) ts ps"
    unfolding upd by auto
  then show ?case using t(1) by (intro exI [of _ "p\<lparr>PjSource := Freeze source\<rparr> # ps"]) simp
qed simp

lemma validateTargets_distinct:
  "validateTargets_from seen ts = Inr () \<Longrightarrow> distinct (map (\<lambda>t. TrimSpace (TgName t)) ts) \<and> (\<forall>t \<in> set ts. TrimSpace (TgName t) \<notin> set seen)"
proof (induction ts arbitrary: seen)
  case (Cons t ts)
  then have "validateTargets_from (TrimSpace (TgName t) # seen) ts = Inr ()" "TrimSpace (TgName t) \<notin> set seen"
    by (auto simp: Let_def bind_res_Inr_iff split: if_splits)
  with Cons.IH [OF this(1)] show ?case by force
qed simp

text \<open>
  C1. What a compile promises of its outputs. When a request compiles, in the main payload and in the output of every target the roles are valid, the
  message identities are unique and every segment consists of whole tool rounds; the candidates that were required are there, each with its messages
  next to each other; with a budget, the references it recorded as required are there in their order and the content is within the limit by the counter of
  that budget. The artifacts that an output names are visible in the turn; in the main output and in the targets with messages each has its message in
  the output, and a view target names exactly the active artifacts of the preparation. There is one projection per target under its
  trimmed name, all names differ, and a view target is the rendering of an accepted output. Hooks, formatters, policies and replacements cannot break this.
\<close>

theorem compile_outputs_sound:
  assumes "compileRequest En options req c = (Inr (out, projections), c')"
  shows "accepted_output En True (EnBudget En) (CpRequired (CoCompiled out)) (SdCandidates (CpSelection (CoCompiled out))) (CpPayload (CoCompiled out)) \<and>
     (\<forall>a \<in> set (CpArtifacts (CoCompiled out)). artifactMessageID (ArtID a) \<in> MsgID ` set (FlattenMessages (CpPayload (CoCompiled out)))) \<and>
     (\<forall>a \<in> set (CpArtifacts (CoCompiled out)). artifactVisibleInTurn (CrTurnID (CoSource out)) a) \<and>
     map fst projections = map (\<lambda>t. TrimSpace (TgName t)) (CrTargets (CoSource out)) \<and> distinct (map fst projections) \<and>
     list_all2 (target_output En (CrTurnID (CoSource out)) (CpPrepared (CoCompiled out))) (CrTargets (CoSource out)) (map snd projections)"
proof -
  from assms obtain c1 where main: "compileMain En options req c = (Inr out, c1)"
    and targets: "compileTargets En (CpPrepared (CoCompiled out)) options (CoSource out) (CrTargets (CoSource out)) (EvMaterial (CpEvidence (CoCompiled out))) [] c1
      = (Inr projections, c')"
    by (auto simp: compileRequest_def Let_def bind_Inr_iff)
  have names: "distinct (map (\<lambda>t. TrimSpace (TgName t)) (CrTargets (CoSource out)))"
    using main by (auto simp: compileMain_def bind_Inr_iff CompileRequest_Validate_def bind_res_Inr_iff validateCompileTargets_def Freeze_def
        split: if_splits dest!: validateTargets_distinct)
  have active: "active_prepared (CrTurnID (CoSource out)) (CpPrepared (CoCompiled out))"
      "\<forall>a \<in> set (CpArtifacts (CoCompiled out)). artifactVisibleInTurn (CrTurnID (CoSource out)) a"
    using main by (auto simp: compileMain_def bind_Inr_iff Freeze_def dest!: runCompilePipeline_active)
  from compileTargets_Inr [OF targets active(1) names] obtain ps where
    ps: "projections = map (\<lambda>p. (PjName p, p)) ps" "list_all2 (target_output En (CrTurnID (CoSource out)) (CpPrepared (CoCompiled out))) (CrTargets (CoSource out)) ps" by auto
  from ps(2) have "map PjName ps = map (\<lambda>t. TrimSpace (TgName t)) (CrTargets (CoSource out))"
    by (induction rule: list_all2_induct) (auto simp: target_output_def)
  then show ?thesis using compileMain_sound [OF main] active(2) names ps by (simp add: comp_def)
qed

text \<open>Hints for the evaluation: sequencing by cases, and the white space as literals.\<close>

declare bind_def [code_unfold] bind_res_def [code_unfold]

lemma spaceRunes_code [code]:
  "spaceRunes =
    [[CHR 0x09], [CHR 0x0A], [CHR 0x0B], [CHR 0x0C], [CHR 0x0D], [CHR 0x20], [CHR 0xC2, CHR 0x85], [CHR 0xC2, CHR 0xA0], [CHR 0xE1, CHR
     0x9A, CHR 0x80], [CHR 0xE2, CHR 0x80, CHR 0xA8], [CHR 0xE2, CHR 0x80, CHR 0xA9], [CHR 0xE2, CHR 0x80, CHR 0xAF], [CHR 0xE2, CHR
     0x81, CHR 0x9F], [CHR 0xE3, CHR 0x80, CHR 0x80], [CHR 0xE2, CHR 0x80, CHR 0x80], [CHR 0xE2, CHR 0x80, CHR 0x81], [CHR 0xE2, CHR
     0x80, CHR 0x82], [CHR 0xE2, CHR 0x80, CHR 0x83], [CHR 0xE2, CHR 0x80, CHR 0x84], [CHR 0xE2, CHR 0x80, CHR 0x85], [CHR 0xE2, CHR
     0x80, CHR 0x86], [CHR 0xE2, CHR 0x80, CHR 0x87], [CHR 0xE2, CHR 0x80, CHR 0x88], [CHR 0xE2, CHR 0x80, CHR 0x89], [CHR 0xE2, CHR
     0x80, CHR 0x8A]]"
  by code_simp

subsection \<open>A concrete compile\<close>

definition compileSampleRequest :: CompileRequest where
  "compileSampleRequest = \<lparr>CrTurnID = ''t'', CrSystem = None,
     CrHistory = Some [userText ''m'' ''an old text that does not fit''], CrMemory = None,
     CrTools = None, CrPending = Some [userText ''p1'' ''go on''], CrCurrentTurn = None,
     CrArtifacts = [], CrIdentityPolicy = None, CrRequireDurableIdentity = False,
     CrTargets = [\<lparr>TgName = ''c'', TgView = [], TgSegments = [SegmentHistory], TgArtifactRefs = [], TgIncludeCurrentTurn = True,
       TgIncludeArtifacts = False, TgSelection = None, TgBudget = None, TgFormatter = None\<rparr>], CrCompilationID = [], CrLineage = \<lparr>Records = [], Unresolved = []\<rparr>, CrOrigins = [], CrSourceRevision = 0, CrPreviousRecord = None\<rparr>"

definition constantEnv :: env where
  "constantEnv = \<lparr>ParseMediaType = (\<lambda>s. None), MarshalDigest = (\<lambda>m. Inr (replicate 64 CHR ''0''))\<rparr>"

definition compileSampleHost :: CompileHost where
  "compileSampleHost = \<lparr>DefaultEnv = constantEnv, MaterialEnv = constantEnv, SelectionEnv = constantEnv,
     ArtifactDigest = (\<lambda>a. Inr (replicate 64 CHR ''0'')), HostPayloadDigest = (\<lambda>p. Inr (PlainText p)), SharedPreparation = False\<rparr>"

definition compileSampleEngine :: Engine where
  "compileSampleEngine = \<lparr>EnHost = compileSampleHost, EnIdentity = sampleIdentityHost, EnOpaqueHost = opaqueSampleHost, EnCodec = sampleCodec,
     EnMaterialization = None, EnOutputPolicy = Some redactPolicy, EnOpaquePolicy = None, EnSelection = None, EnHooks = [None],
     EnBudget = Some sampleBudget, EnDeferred = [\<lparr>DbSegment = [], DbMergePolicy = PolicyAppend, DbResolve = Some (ret [userText ''d'' ''note''])\<rparr>],
     EnFormatters = [], EnRoleProjection = None, EnConfigurationErr = None\<rparr>"

text \<open>The identities of the messages in the payload and in the projections.\<close>

definition compiledIDs :: "Engine \<Rightarrow> CompileRequest \<Rightarrow> (string list \<times> (string \<times> string list) list) option" where
  "compiledIDs En req = (case fst (compileRequest En [] req None) of Inl e \<Rightarrow> None
     | Inr (out, ps) \<Rightarrow> Some (map MsgID (FlattenMessages (CpPayload (CoCompiled out))), map (\<lambda>(name, p). (name, map MsgID (PjMessages p))) ps))"

theorem compile_outputs_sound_witness:
  "\<exists>out p c. compileRequest compileSampleEngine [] compileSampleRequest None = (Inr (out, [(''c'', p)]), c) \<and>
     map MsgID (FlattenMessages (CpPayload (CoCompiled out))) = [''p1'', ''d''] \<and> map MsgID (PjMessages p) = [''m'', ''p1''] \<and>
     fits_budget compileSampleHost sampleBudget (outputSegments True (CpPayload (CoCompiled out)))"
proof -
  have "compiledIDs compileSampleEngine compileSampleRequest = Some ([''p1'', ''d''], [(''c'', [''m'', ''p1''])])" by code_simp
  then obtain out ps c where r: "compileRequest compileSampleEngine [] compileSampleRequest None = (Inr (out, ps), c)"
      "map MsgID (FlattenMessages (CpPayload (CoCompiled out))) = [''p1'', ''d'']" "map (\<lambda>(name, p). (name, map MsgID (PjMessages p))) ps = [(''c'', [''m'', ''p1''])]"
    by (cases "compileRequest compileSampleEngine [] compileSampleRequest None") (auto simp: compiledIDs_def split: sum.splits)
  from r(3) obtain p where ps: "ps = [(''c'', p)]" "map MsgID (PjMessages p) = [''m'', ''p1'']" by (auto simp: map_eq_Cons_conv)
  have "EnBudget compileSampleEngine = Some sampleBudget" "EnHost compileSampleEngine = compileSampleHost" by (simp_all add: compileSampleEngine_def)
  then have "fits_budget compileSampleHost sampleBudget (outputSegments True (CpPayload (CoCompiled out)))"
    using compile_outputs_sound [OF r(1)] by (auto simp: accepted_output_def Let_def)
  then show ?thesis using r(1,2) ps by auto
qed

end
