(* ===== verification/Coverage.thy ===== *)
theory Coverage
  imports Output_Policy Lineage
begin

text \<open>
  The coverage ledger of a manifest (manifest_coverage.go): for every output and every input it says whether the input was kept, transformed,
  summarized or excluded, and into what, by following the lineage of the output backwards from its final content.
\<close>

abbreviation ErrInvalidCoverage :: go_error where
  "ErrInvalidCoverage \<equiv> Sentinel ''ErrInvalidCoverage''"

subsection \<open>Manifests\<close>

text \<open>The parts of a manifest and of its outputs that the ledger reads. \<open>CmResourceMerges\<close> has, for each resource,
  the artifact of its merge. Slices whose nil and empty encodings differ in the ledger keep that difference.\<close>

datatype ManifestOutputKind = ManifestMainOutput | ManifestTargetOutput

datatype CoverageStatus = CoverageIncluded | CoverageTransformed | CoverageSummarized | CoverageExcluded

record ArtifactExclusion =
  ExInput :: ContentRef
  ExReason :: string

record ManifestOutput =
  MoKind :: ManifestOutputKind
  MoName :: string
  MoSegments :: "ManifestSegment list"
  MoRendered :: "ContentRef option"
  MoLineage :: Lineage
  MoTransformations :: "(string \<times> TransformChain) list"
  MoSourceSegments :: "string list"
  MoArtifactRefs :: "ContentRef list"
  MoArtifactEstimates :: "ArtifactBudgetEstimate list"
  MoExcludedArtifacts :: "ArtifactExclusion list"

record ManifestCoverage =
  CvKind :: ManifestOutputKind
  CvOutputName :: string
  CvSegment :: string
  CvInput :: "ContentRef option"
  CvStatus :: CoverageStatus
  CvOutputs :: "ContentRef slice"
  CvReason :: string

record CompileManifest =
  CmInputs :: "ManifestSegment list"
  CmResolvedDependencies :: "ContentRef list"
  CmOutputs :: "ManifestOutput list"
  CmInheritedTransforms :: "string list"
  CmArtifacts :: "ContentRef list"
  CmExcludedArtifacts :: "ArtifactExclusion list"
  CmResourceMerges :: "ContentRef option list"
  CmCoverage :: "ManifestCoverage slice"

definition baseContentRef :: "ContentRef \<Rightarrow> ContentRef" where
  "baseContentRef ref = ref\<lparr>RefOccurrence := []\<rparr>"

definition uniqueContentRefs :: "ContentRef list \<Rightarrow> ContentRef list" where
  "uniqueContentRefs refs = foldl (\<lambda>acc ref. if ref \<in> set acc then acc else acc @ [ref]) [] refs"

subsection \<open>The walk through the lineage\<close>

text \<open>A visit is a revision with the flag whether a summary lies between it and the final content.\<close>

type_synonym coverageVisit = "ContentRef \<times> bool"

definition producersOf :: "LineageRecord list \<Rightarrow> ContentRef \<Rightarrow> LineageRecord list" where
  "producersOf rs ref = concat (map (\<lambda>r. map (\<lambda>_. r) (filter (\<lambda>out. out = ref) (LrOutputs r))) rs)"

definition summarizes :: "string list \<Rightarrow> LineageRecord \<Rightarrow> bool" where
  "summarizes inherited r \<longleftrightarrow> LrStage r = ''summarize'' \<and> LrID r \<notin> set inherited"

definition visitInputs :: "LineageRecord list \<Rightarrow> string list \<Rightarrow> coverageVisit \<Rightarrow> coverageVisit list" where
  "visitInputs rs inherited v =
     concat (map (\<lambda>r. map (\<lambda>input. (input, snd v \<or> summarizes inherited r)) (LrInputs r)) (producersOf rs (fst v)))"

definition lineageVisits :: "LineageRecord list \<Rightarrow> coverageVisit set" where
  "lineageVisits rs = (\<Union>r \<in> set rs. set (LrInputs r)) \<times> UNIV"

lemma visitInputs_subset: "set (visitInputs rs inherited v) \<subseteq> lineageVisits rs"
  by (auto simp: visitInputs_def producersOf_def lineageVisits_def)

lemma finite_lineageVisits [simp]: "finite (lineageVisits rs)"
  by (simp add: lineageVisits_def)

text \<open>The queue of \<^verbatim>\<open>walkCoverage\<close>; the result are the visits in their order. Every visit happens once, so it ends.\<close>

function walkQueue :: "LineageRecord list \<Rightarrow> string list \<Rightarrow> coverageVisit list \<Rightarrow> coverageVisit list \<Rightarrow> coverageVisit list" where
  "walkQueue rs inherited [] seen = seen"
| "walkQueue rs inherited (v # queue) seen =
     (if v \<in> set seen then walkQueue rs inherited queue seen
      else walkQueue rs inherited (queue @ visitInputs rs inherited v) (seen @ [v]))"
  by pat_completeness auto
termination
proof (relation "measures [\<lambda>(rs, inherited, queue, seen). card ((set queue \<union> lineageVisits rs) - set seen), \<lambda>(rs, inherited, queue, seen). length queue]")
  fix rs :: "LineageRecord list" and inherited v and queue seen :: "coverageVisit list"
  assume "v \<notin> set seen"
  moreover have "set (queue @ visitInputs rs inherited v) \<union> lineageVisits rs \<subseteq> set (v # queue) \<union> lineageVisits rs"
    using visitInputs_subset [of rs inherited v] by auto
  ultimately have "(set (queue @ visitInputs rs inherited v) \<union> lineageVisits rs) - set (seen @ [v]) \<subset> (set (v # queue) \<union> lineageVisits rs) - set seen"
    by auto
  then show "((rs, inherited, queue @ visitInputs rs inherited v, seen @ [v]), rs, inherited, v # queue, seen)
      \<in> measures [\<lambda>(rs, inherited, queue, seen). card ((set queue \<union> lineageVisits rs) - set seen), \<lambda>(rs, inherited, queue, seen). length queue]"
    by (simp del: set_append add: psubset_card_mono)
next
  fix rs :: "LineageRecord list" and inherited :: "string list" and v and queue seen :: "coverageVisit list"
  assume "v \<in> set seen"
  then have "(set (v # queue) \<union> lineageVisits rs) - set seen = (set queue \<union> lineageVisits rs) - set seen" by auto
  then show "((rs, inherited, queue, seen), rs, inherited, v # queue, seen)
      \<in> measures [\<lambda>(rs, inherited, queue, seen). card ((set queue \<union> lineageVisits rs) - set seen), \<lambda>(rs, inherited, queue, seen). length queue]"
    by simp
qed simp

text \<open>The reach of an output: for a revision, the final revisions it leads to, in the order in which they are found.\<close>

type_synonym coverageReach = "(ContentRef \<times> ContentRef \<times> bool) list"

definition walkCoverage :: "LineageRecord list \<Rightarrow> string list \<Rightarrow> ContentRef \<Rightarrow> ContentRef \<Rightarrow> coverageReach" where
  "walkCoverage rs inherited final root = map (\<lambda>(ref, summarized). (ref, final, summarized)) (walkQueue rs inherited [(root, False)] [])"

definition latestCoverageRef :: "Lineage \<Rightarrow> ContentRef \<Rightarrow> ContentRef" where
  "latestCoverageRef graph final =
     (if RefOccurrence final \<noteq> [] then final
      else case filter (\<lambda>ref. baseContentRef ref = final) (concat (map LrOutputs (rev (Records graph)))) of
        [] \<Rightarrow> final | ref # _ \<Rightarrow> ref)"

definition outputFinals :: "ManifestOutput \<Rightarrow> ContentRef list" where
  "outputFinals out = concat (map MsRefs (MoSegments out)) @ (case MoRendered out of None \<Rightarrow> [] | Some ref \<Rightarrow> [ref])"

definition coverageAncestry :: "ManifestOutput \<Rightarrow> string list \<Rightarrow> coverageReach" where
  "coverageAncestry out inherited =
     concat (map (\<lambda>final. walkCoverage (Records (MoLineage out)) inherited final (latestCoverageRef (MoLineage out) final)) (outputFinals out))"

definition reachedFrom :: "coverageReach \<Rightarrow> ContentRef \<Rightarrow> (ContentRef \<times> bool) list" where
  "reachedFrom reach anchor = map snd (filter (\<lambda>r. fst r = anchor) reach)"

subsection \<open>Anchors and reasons\<close>

definition materializes :: "string \<Rightarrow> LineageRecord \<Rightarrow> bool" where
  "materializes stage r \<longleftrightarrow> LrStage r = stage \<or>
     (stage = ''artifact'' \<and> LrStage r \<in> set [''resource-materialize'', ''resource-append-materialize''])"

definition coverageAnchors :: "Lineage \<Rightarrow> string list \<Rightarrow> string \<Rightarrow> ContentRef \<Rightarrow> ContentRef list" where
  "coverageAnchors graph inherited seg input =
     (if seg = ''resolved'' then [input]
      else let stage = (if seg = manifestArtifactsSegment then ''artifact'' else if seg = ''current/prompt'' then ''prompt-template'' else ''source'');
               recs = filter (\<lambda>r. materializes stage r \<and> LrID r \<notin> set inherited) (Records graph);
               candidates = concat (map (if stage = ''artifact'' then LrInputs else LrOutputs) recs)
           in uniqueContentRefs (filter (\<lambda>ref. baseContentRef ref = baseContentRef input) candidates))"

definition coverageRemovalStageReason :: "string \<Rightarrow> string" where
  "coverageRemovalStageReason stage =
     (if stage = ''budget'' then ReasonTokenBudgetExceeded else if stage = ''hook'' then ReasonReplacedByHook
      else if stage = ''format'' then ReasonReplacedByFormatter else if stage = ''merge'' then ''merge''
      else if stage = ''project'' then coverageNotSelected else stage)"

text \<open>One round over the records, and the rounds until nothing changes.\<close>

definition reachRecord :: "ContentRef list \<Rightarrow> LineageRecord \<Rightarrow> ContentRef list" where
  "reachRecord reach r =
     (if \<exists>ref \<in> set (LrInputs r). ref \<in> set reach
      then foldl (\<lambda>acc out. if out \<in> set acc then acc else acc @ [out]) reach (LrOutputs r) else reach)"

lemma foldl_new: "\<exists>new. foldl (\<lambda>acc out. if out \<in> set acc then acc else acc @ [out]) reach outs = reach @ new \<and> set new = set outs - set reach"
proof (induction outs arbitrary: reach)
  case (Cons out outs)
  obtain new where "foldl (\<lambda>acc out. if out \<in> set acc then acc else acc @ [out]) (if out \<in> set reach then reach else reach @ [out]) outs =
      (if out \<in> set reach then reach else reach @ [out]) @ new \<and> set new = set outs - set (if out \<in> set reach then reach else reach @ [out])"
    using Cons.IH by blast
  then show ?case by (intro exI [of _ "(if out \<in> set reach then [] else [out]) @ new"]) auto
qed simp

lemma reachRecord_new: "\<exists>new. reachRecord reach r = reach @ new \<and> set new \<subseteq> set (LrOutputs r) - set reach"
  using foldl_new [of reach "LrOutputs r"] by (auto simp: reachRecord_def)

lemma reachRound_new: "\<exists>new. foldl reachRecord reach rs = reach @ new \<and> set new \<subseteq> (\<Union>r \<in> set rs. set (LrOutputs r)) - set reach"
proof (induction rs arbitrary: reach)
  case (Cons r rs)
  obtain new where new: "reachRecord reach r = reach @ new" "set new \<subseteq> set (LrOutputs r) - set reach" using reachRecord_new by blast
  obtain new' where "foldl reachRecord (reach @ new) rs = (reach @ new) @ new'" "set new' \<subseteq> (\<Union>r \<in> set rs. set (LrOutputs r)) - set (reach @ new)"
    using Cons.IH by blast
  with new show ?case by (intro exI [of _ "new @ new'"]) auto
qed simp

function reachAll :: "LineageRecord list \<Rightarrow> ContentRef list \<Rightarrow> ContentRef list" where
  "reachAll rs reach = (let reach' = foldl reachRecord reach rs in if reach' = reach then reach else reachAll rs reach')"
  by pat_completeness auto
termination
proof (relation "measure (\<lambda>(rs, reach). card ((\<Union>r \<in> set rs. set (LrOutputs r)) - set reach))")
  fix rs reach reach'
  assume r: "reach' = foldl reachRecord reach rs" "reach' \<noteq> reach"
  obtain new where new: "reach' = reach @ new" "set new \<subseteq> (\<Union>r \<in> set rs. set (LrOutputs r)) - set reach" using reachRound_new r(1) by blast
  with r(2) have "new \<noteq> []" by auto
  with new have "(\<Union>r \<in> set rs. set (LrOutputs r)) - set reach' \<subset> (\<Union>r \<in> set rs. set (LrOutputs r)) - set reach"
    by (cases new) auto
  then show "((rs, reach'), rs, reach) \<in> measure (\<lambda>(rs, reach). card ((\<Union>r \<in> set rs. set (LrOutputs r)) - set reach))"
    by (simp add: psubset_card_mono)
qed simp

declare reachAll.simps [simp del]

definition coverageRemovalReason :: "Lineage \<Rightarrow> ContentRef list \<Rightarrow> string" where
  "coverageRemovalReason graph anchors =
     (let reach = reachAll (Records graph) anchors in
      case filter (\<lambda>r. LrOutputs r = [] \<and> (\<exists>ref \<in> set (LrInputs r). ref \<in> set reach)) (rev (Records graph)) of
        [] \<Rightarrow> [] | r # _ \<Rightarrow> coverageRemovalStageReason (LrStage r))"

definition removingStep :: "TransformRecord \<Rightarrow> bool" where
  "removingStep step \<longleftrightarrow> TrAction step = ActionEvicted \<or> TrAction step = ActionTruncated \<or>
     TrReason step = ReasonReplacedByFormatter \<or> TrReason step = ReasonReplacedByHook"

definition chainReason :: "TransformChain \<Rightarrow> string" where
  "chainReason chain = (case filter removingStep (rev chain) of [] \<Rightarrow> coverageNotSelected | step # _ \<Rightarrow> TrReason step)"

definition coverageExclusionReason :: "CompileManifest \<Rightarrow> ManifestOutput \<Rightarrow> string \<Rightarrow> ContentRef \<Rightarrow> string" where
  "coverageExclusionReason m out seg input =
     (let exclusions = (if MoKind out = ManifestTargetOutput then MoExcludedArtifacts out else CmExcludedArtifacts m);
          removal = coverageRemovalReason (MoLineage out) (coverageAnchors (MoLineage out) (CmInheritedTransforms m) seg input)
      in case (if seg = manifestArtifactsSegment then find (\<lambda>e. ExInput e = input) exclusions else None) of
           Some e \<Rightarrow> ExReason e
         | None \<Rightarrow>
             if removal \<noteq> [] then removal
             else if MoKind out = ManifestTargetOutput \<and> MoSourceSegments out \<noteq> [] \<and> isKnownSegment seg \<and> seg \<notin> set (MoSourceSegments out)
               then coverageNotSelected
             else chainReason (case map_of (MoTransformations out) (RefID input) of None \<Rightarrow> [] | Some chain \<Rightarrow> chain))"

subsection \<open>The ledger\<close>

definition coverageEntry :: "CompileManifest \<Rightarrow> ManifestOutput \<Rightarrow> string \<Rightarrow> ContentRef \<Rightarrow> coverageReach \<Rightarrow> ManifestCoverage" where
  "coverageEntry m out seg input reach =
     (let entry = \<lparr>CvKind = MoKind out, CvOutputName = MoName out, CvSegment = seg, CvInput = Some input,
                   CvStatus = CoverageExcluded, CvOutputs = None, CvReason = coverageNotSelected\<rparr>
      in if seg = ''current/persistence'' then entry\<lparr>CvReason := ''persistence_only''\<rparr>
         else
           let paths = concat (map (reachedFrom reach) (coverageAnchors (MoLineage out) (CmInheritedTransforms m) seg input));
               outs = uniqueContentRefs (map fst paths)
           in if outs = [] then entry\<lparr>CvOutputs := Some outs, CvReason := coverageExclusionReason m out seg input\<rparr>
              else if \<exists>path \<in> set paths. snd path
                then entry\<lparr>CvOutputs := Some outs, CvStatus := CoverageSummarized, CvReason := ''summarize''\<rparr>
              else if \<exists>ref \<in> set outs. baseContentRef ref = baseContentRef input
                then entry\<lparr>CvOutputs := Some outs, CvStatus := CoverageIncluded, CvReason := ''retained''\<rparr>
              else entry\<lparr>CvOutputs := Some outs, CvStatus := CoverageTransformed, CvReason := ''transform''\<rparr>)"

definition emptyCoverage :: "ManifestOutput \<Rightarrow> string \<Rightarrow> ManifestCoverage" where
  "emptyCoverage out seg =
     \<lparr>CvKind = MoKind out, CvOutputName = MoName out, CvSegment = seg, CvInput = None,
      CvStatus = CoverageExcluded, CvOutputs = None, CvReason = ''empty_segment''\<rparr>"

definition coverageInputs :: "CompileManifest \<Rightarrow> ManifestSegment list" where
  "coverageInputs m = CmInputs m @ [\<lparr>MsName = ''resolved'', MsRefs = CmResolvedDependencies m\<rparr>]"

definition segmentCoverage :: "CompileManifest \<Rightarrow> ManifestOutput \<Rightarrow> coverageReach \<Rightarrow> ManifestSegment \<Rightarrow> ManifestCoverage list" where
  "segmentCoverage m out reach sg =
     (if MsRefs sg = [] then [emptyCoverage out (MsName sg)]
      else map (\<lambda>ref. coverageEntry m out (MsName sg) ref reach) (MsRefs sg))"

definition outputCoverage :: "CompileManifest \<Rightarrow> ManifestOutput \<Rightarrow> ManifestCoverage list" where
  "outputCoverage m out =
     (let reach = coverageAncestry out (CmInheritedTransforms m) in concat (map (segmentCoverage m out reach) (coverageInputs m)))"

definition manifestCoverage :: "CompileManifest \<Rightarrow> ManifestCoverage slice" where
  "manifestCoverage m = (let ledger = concat (map (outputCoverage m) (CmOutputs m)) in if ledger = [] then None else Some ledger)"

subsection \<open>Validation\<close>

definition manifestDerivedArtifactRefs :: "CompileManifest \<Rightarrow> ContentRef list" where
  "manifestDerivedArtifactRefs m = uniqueContentRefs (concat (map (\<lambda>x. case x of None \<Rightarrow> [] | Some ref \<Rightarrow> [ref]) (CmResourceMerges m)))"

definition manifestArtifactInputs :: "CompileManifest \<Rightarrow> ContentRef list" where
  "manifestArtifactInputs m =
     foldl (\<lambda>inputs segment. if MsName segment = manifestArtifactsSegment then MsRefs segment else inputs) [] (CmInputs m) @
     manifestDerivedArtifactRefs m"

definition exclusionReasons :: "string list" where
  "exclusionReasons = [''artifact_merge'', artifactInactiveReason, ReasonTokenBudgetExceeded, coverageNotSelected,
     ReasonReplacedByFormatter, ReasonReplacedByHook]"

fun validateExclusions :: "ContentRef list \<Rightarrow> ContentRef list \<Rightarrow> ContentRef list \<Rightarrow> ArtifactExclusion list \<Rightarrow> unit result" where
  "validateExclusions inputs selected seen [] = Inr ()"
| "validateExclusions inputs selected seen (e # es) =
     (if ExReason e \<notin> set exclusionReasons \<or> ExInput e \<notin> set inputs \<or> ExInput e \<in> set selected \<or> ExInput e \<in> set seen
      then Inl ErrInvalidCoverage
      else bind_res (ContentRef_Validate (ExInput e)) (\<lambda>_. validateExclusions inputs selected (ExInput e # seen) es))"

definition validateOutputArtifactExclusions :: "ContentRef list \<Rightarrow> ContentRef list \<Rightarrow> ArtifactExclusion list \<Rightarrow> unit result" where
  "validateOutputArtifactExclusions inputs selected exclusions =
     bind_res (validateManifestRefs selected) (\<lambda>_.
     if \<not> set selected \<subseteq> set inputs then Inl ErrInvalidCoverage
     else validateExclusions inputs selected [] exclusions)"

fun validateOutputsExclusions :: "ContentRef list \<Rightarrow> ManifestOutput list \<Rightarrow> unit result" where
  "validateOutputsExclusions inputs [] = Inr ()"
| "validateOutputsExclusions inputs (out # outs) =
     bind_res
       (if MoKind out = ManifestMainOutput
        then if length (MoArtifactRefs out) + length (MoArtifactEstimates out) + length (MoExcludedArtifacts out) \<noteq> 0
          then Inl ErrInvalidCoverage else Inr ()
        else validateOutputArtifactExclusions inputs (MoArtifactRefs out) (MoExcludedArtifacts out))
       (\<lambda>_. validateOutputsExclusions inputs outs)"

definition validateArtifactExclusions :: "CompileManifest \<Rightarrow> unit result" where
  "validateArtifactExclusions m =
     (let inputs = manifestArtifactInputs m in
      bind_res (validateOutputArtifactExclusions inputs (CmArtifacts m) (CmExcludedArtifacts m)) (\<lambda>_.
      validateOutputsExclusions inputs (CmOutputs m)))"

text \<open>The code compares the JSON encodings; they are equal when the ledgers are, and the model compares the ledgers.\<close>

definition validateManifestCoverage :: "CompileManifest \<Rightarrow> unit result" where
  "validateManifestCoverage m =
     bind_res (validateArtifactExclusions m) (\<lambda>_. if CmCoverage m \<noteq> manifestCoverage m then Inl ErrInvalidCoverage else Inr ())"

subsection \<open>The ledger against the ancestry of the outputs\<close>

text \<open>\<open>ancestry rs inherited root ref s\<close>: the record chain \<open>rs\<close> derives \<open>root\<close> from \<open>ref\<close>, through a summary of this compile iff \<open>s\<close>.\<close>

inductive ancestry :: "LineageRecord list \<Rightarrow> string list \<Rightarrow> ContentRef \<Rightarrow> ContentRef \<Rightarrow> bool \<Rightarrow> bool"
  for rs :: "LineageRecord list" and inherited :: "string list" and root :: ContentRef where
  ancestry_root: "ancestry rs inherited root root False"
| ancestry_step: "ancestry rs inherited root ref s \<Longrightarrow> r \<in> set rs \<Longrightarrow> ref \<in> set (LrOutputs r) \<Longrightarrow> input \<in> set (LrInputs r) \<Longrightarrow>
    ancestry rs inherited root input (s \<or> summarizes inherited r)"

lemma in_visitInputs:
  "w \<in> set (visitInputs rs inherited v) \<longleftrightarrow>
     (\<exists>r \<in> set rs. fst v \<in> set (LrOutputs r) \<and> fst w \<in> set (LrInputs r) \<and> snd w = (snd v \<or> summarizes inherited r))"
  by (cases w) (auto simp: visitInputs_def producersOf_def)

lemma walkQueue_contains: "set queue \<union> set seen \<subseteq> set (walkQueue rs inherited queue seen)"
  by (induction rs inherited queue seen rule: walkQueue.induct) auto

lemma walkQueue_closed:
  assumes "\<forall>v \<in> set seen. set (visitInputs rs inherited v) \<subseteq> set seen \<union> set queue"
  shows "\<forall>v \<in> set (walkQueue rs inherited queue seen). set (visitInputs rs inherited v) \<subseteq> set (walkQueue rs inherited queue seen)"
  using assms
proof (induction rs inherited queue seen rule: walkQueue.induct)
  case (2 rs inherited v queue seen)
  show ?case
  proof (cases "v \<in> set seen")
    case True
    with 2 show ?thesis by (fastforce simp: subset_iff)
  next
    case False
    have "\<forall>w \<in> set (seen @ [v]). set (visitInputs rs inherited w) \<subseteq> set (seen @ [v]) \<union> set (queue @ visitInputs rs inherited v)"
      using "2.prems" by auto
    with 2(2) False show ?thesis by simp
  qed
qed simp

lemma walkQueue_within:
  assumes "set queue \<union> set seen \<subseteq> P" "\<And>v. v \<in> P \<Longrightarrow> set (visitInputs rs inherited v) \<subseteq> P"
  shows "set (walkQueue rs inherited queue seen) \<subseteq> P"
  using assms by (induction rs inherited queue seen rule: walkQueue.induct) auto

lemma set_walkQueue: "(ref, s) \<in> set (walkQueue rs inherited [(root, False)] []) \<longleftrightarrow> ancestry rs inherited root ref s"
proof
  assume "ancestry rs inherited root ref s"
  then show "(ref, s) \<in> set (walkQueue rs inherited [(root, False)] [])"
  proof induction
    case ancestry_root
    show ?case using walkQueue_contains [of "[(root, False)]" "[]"] by auto
  next
    case (ancestry_step ref s r input)
    then have "(input, s \<or> summarizes inherited r) \<in> set (visitInputs rs inherited (ref, s))" by (auto simp: in_visitInputs)
    with ancestry_step.IH walkQueue_closed [of "[]" rs inherited "[(root, False)]"] show ?case by fastforce
  qed
next
  have "set (walkQueue rs inherited [(root, False)] []) \<subseteq> {(ref, s). ancestry rs inherited root ref s}"
    by (rule walkQueue_within) (auto simp: in_visitInputs intro: ancestry.intros)
  moreover assume "(ref, s) \<in> set (walkQueue rs inherited [(root, False)] [])"
  ultimately show "ancestry rs inherited root ref s" by auto
qed

lemma set_uniqueContentRefs: "set (uniqueContentRefs refs) = set refs"
  using foldl_new [of "[]" refs] by (auto simp: uniqueContentRefs_def)

lemma distinct_uniqueContentRefs: "distinct (uniqueContentRefs refs)"
proof -
  have "distinct acc \<Longrightarrow> distinct (foldl (\<lambda>acc ref. if ref \<in> set acc then acc else acc @ [ref]) acc refs)" for acc
    by (induction refs arbitrary: acc) auto
  then show ?thesis by (simp add: uniqueContentRefs_def)
qed

text \<open>\<open>coverageFlow m out seg input f s\<close>: the input flows into the final content \<open>f\<close> of the output, through a summary iff \<open>s\<close>.\<close>

definition coverageFlow :: "CompileManifest \<Rightarrow> ManifestOutput \<Rightarrow> string \<Rightarrow> ContentRef \<Rightarrow> ContentRef \<Rightarrow> bool \<Rightarrow> bool" where
  "coverageFlow m out seg input f s \<longleftrightarrow> f \<in> set (outputFinals out) \<and>
     (\<exists>a \<in> set (coverageAnchors (MoLineage out) (CmInheritedTransforms m) seg input).
        ancestry (Records (MoLineage out)) (CmInheritedTransforms m) (latestCoverageRef (MoLineage out) f) a s)"

lemma coverage_paths:
  "(f, s) \<in> set (concat (map (reachedFrom (coverageAncestry out (CmInheritedTransforms m)))
       (coverageAnchors (MoLineage out) (CmInheritedTransforms m) seg input))) \<longleftrightarrow> coverageFlow m out seg input f s"
proof -
  have walk: "(a, f', s) \<in> set (walkCoverage rs inh final root) \<longleftrightarrow> f' = final \<and> ancestry rs inh root a s" for a f' rs inh final root
    by (force simp: walkCoverage_def simp flip: set_walkQueue simp del: walkQueue.simps)
  have "(f, s) \<in> set (reachedFrom reach a) \<longleftrightarrow> (a, f, s) \<in> set reach" for reach a
    by (force simp: reachedFrom_def)
  then show ?thesis by (auto simp: coverageFlow_def coverageAncestry_def walk)
qed

text \<open>What an entry has to say of its input.\<close>

definition tellsCoverage :: "CompileManifest \<Rightarrow> ManifestOutput \<Rightarrow> string \<Rightarrow> ContentRef \<Rightarrow> ManifestCoverage \<Rightarrow> bool" where
  "tellsCoverage m out seg input e \<longleftrightarrow>
     CvKind e = MoKind out \<and> CvOutputName e = MoName out \<and> CvSegment e = seg \<and> CvInput e = Some input \<and>
     (if seg = ''current/persistence'' then CvStatus e = CoverageExcluded \<and> CvOutputs e = None
      else distinct (elems (CvOutputs e)) \<and> set (elems (CvOutputs e)) = {f. \<exists>s. coverageFlow m out seg input f s} \<and>
        (CvStatus e = CoverageExcluded \<longleftrightarrow> \<not> (\<exists>f s. coverageFlow m out seg input f s)) \<and>
        (CvStatus e = CoverageSummarized \<longleftrightarrow> (\<exists>f. coverageFlow m out seg input f True)) \<and>
        (CvStatus e = CoverageIncluded \<longleftrightarrow> \<not> (\<exists>f. coverageFlow m out seg input f True) \<and>
           (\<exists>f. coverageFlow m out seg input f False \<and> baseContentRef f = baseContentRef input)))"

lemma coverageEntry_tells: "tellsCoverage m out seg input (coverageEntry m out seg input (coverageAncestry out (CmInheritedTransforms m)))"
proof (cases "seg = ''current/persistence''")
  case True
  then show ?thesis by (simp add: tellsCoverage_def coverageEntry_def Let_def)
next
  case False
  define paths where "paths = concat (map (reachedFrom (coverageAncestry out (CmInheritedTransforms m)))
       (coverageAnchors (MoLineage out) (CmInheritedTransforms m) seg input))"
  define outs where "outs = uniqueContentRefs (map fst paths)"
  have flow: "coverageFlow m out seg input f s \<longleftrightarrow> (f, s) \<in> set paths" for f s
    unfolding paths_def by (rule coverage_paths [symmetric])
  have entry: "coverageEntry m out seg input (coverageAncestry out (CmInheritedTransforms m)) =
      \<lparr>CvKind = MoKind out, CvOutputName = MoName out, CvSegment = seg, CvInput = Some input,
       CvStatus = (if outs = [] then CoverageExcluded else if \<exists>path \<in> set paths. snd path then CoverageSummarized
         else if \<exists>ref \<in> set outs. baseContentRef ref = baseContentRef input then CoverageIncluded else CoverageTransformed),
       CvOutputs = Some outs,
       CvReason = (if outs = [] then coverageExclusionReason m out seg input else if \<exists>path \<in> set paths. snd path then ''summarize''
         else if \<exists>ref \<in> set outs. baseContentRef ref = baseContentRef input then ''retained'' else ''transform'')\<rparr>"
    using False by (simp add: coverageEntry_def Let_def flip: paths_def outs_def)
  have set_outs: "set outs = {f. \<exists>s. (f, s) \<in> set paths}" by (force simp: outs_def set_uniqueContentRefs)
  have none: "outs = [] \<longleftrightarrow> \<not> (\<exists>f s. (f, s) \<in> set paths)" using set_outs by (auto simp flip: set_empty)
  have summary: "(\<exists>path \<in> set paths. snd path) \<longleftrightarrow> (\<exists>f. (f, True) \<in> set paths)" by force
  have plain: "(\<exists>ref \<in> set outs. baseContentRef ref = baseContentRef input) \<longleftrightarrow>
      (\<exists>f. (f, False) \<in> set paths \<and> baseContentRef f = baseContentRef input)" if "\<not> (\<exists>f. (f, True) \<in> set paths)"
  proof -
    have "(\<exists>s. (f, s) \<in> set paths) \<longleftrightarrow> (f, False) \<in> set paths" for f using that by (auto simp: ex_bool_eq)
    then show ?thesis by (auto simp: set_outs)
  qed
  have "distinct outs" by (simp add: outs_def distinct_uniqueContentRefs)
  then have shape: "tellsCoverage m out seg input \<lparr>CvKind = MoKind out, CvOutputName = MoName out, CvSegment = seg, CvInput = Some input,
       CvStatus = status, CvOutputs = Some outs, CvReason = reason\<rparr> \<longleftrightarrow>
       (status = CoverageExcluded \<longleftrightarrow> outs = []) \<and> (status = CoverageSummarized \<longleftrightarrow> (\<exists>path \<in> set paths. snd path)) \<and>
       (status = CoverageIncluded \<longleftrightarrow> \<not> (\<exists>path \<in> set paths. snd path) \<and>
          (\<exists>f. (f, False) \<in> set paths \<and> baseContentRef f = baseContentRef input))" for status reason
    unfolding tellsCoverage_def flow summary none using False set_outs by simp
  consider "outs = []" | "outs \<noteq> []" "\<exists>path \<in> set paths. snd path" | "outs \<noteq> []" "\<not> (\<exists>path \<in> set paths. snd path)" by blast
  then show ?thesis
  proof cases
    case 1
    then have "paths = []" by (cases paths) (use none in auto)
    with 1 show ?thesis unfolding entry shape by simp
  next
    case 2
    then show ?thesis unfolding entry shape by simp
  next
    case 3
    with plain summary show ?thesis unfolding entry shape by simp
  qed
qed


definition sampleCoverage :: "string \<Rightarrow> ContentRef \<Rightarrow> CoverageStatus \<Rightarrow> ContentRef list \<Rightarrow> string \<Rightarrow> ManifestCoverage" where
  "sampleCoverage seg input status outs reason = \<lparr>CvKind = ManifestMainOutput, CvOutputName = ''main'', CvSegment = seg,
     CvInput = Some input, CvStatus = status, CvOutputs = Some outs, CvReason = reason\<rparr>"

definition sampleManifest :: CompileManifest where
  "sampleManifest = \<lparr>CmInputs = [\<lparr>MsName = ''history'', MsRefs = [sampleRef ''a'', sampleRef ''b'', sampleRef ''c'']\<rparr>],
     CmResolvedDependencies = [sampleRef ''d''],
     CmOutputs = [\<lparr>MoKind = ManifestMainOutput, MoName = ''main'',
       MoSegments = [\<lparr>MsName = ''history'', MsRefs = [sampleRef ''s'', sampleRef ''b'']\<rparr>], MoRendered = None,
       MoLineage = \<lparr>Records =
         [\<lparr>LrID = ''r1'', LrTransform = \<lparr>DescID = ''t'', DescRevision = ''1''\<rparr>, LrInputs = [],
           LrOutputs = [sampleRef ''a'', sampleRef ''b'', sampleRef ''c''], LrDecisionRef = [], LrStage = ''source''\<rparr>,
          (sampleTransform ''r2'' ''a'' ''s'')\<lparr>LrStage := ''summarize''\<rparr>,
          (sampleTransform ''r3'' ''c'' ''x'')\<lparr>LrStage := ''budget'', LrOutputs := []\<rparr>], Unresolved = []\<rparr>,
       MoTransformations = [], MoSourceSegments = [], MoArtifactRefs = [], MoArtifactEstimates = [], MoExcludedArtifacts = []\<rparr>],
     CmInheritedTransforms = [], CmArtifacts = [], CmExcludedArtifacts = [], CmResourceMerges = [],
     CmCoverage = Some
       [sampleCoverage ''history'' (sampleRef ''a'') CoverageSummarized [sampleRef ''s''] ''summarize'',
        sampleCoverage ''history'' (sampleRef ''b'') CoverageIncluded [sampleRef ''b''] ''retained'',
        sampleCoverage ''history'' (sampleRef ''c'') CoverageExcluded [] ''token_budget_exceeded'',
        sampleCoverage ''resolved'' (sampleRef ''d'') CoverageExcluded [] ''not_selected'']\<rparr>"


end
