(* ===== verification/State_Codec.thy ===== *)
theory State_Codec
  imports Conversation
begin

text \<open>
  The conversation codec (\<^verbatim>\<open>serializer.go\<close>): the storage envelope, its encoding and its decoding with
  every check of the source. The JSON form of one message and of one artifact, the JSON of the
  envelope itself and \<^verbatim>\<open>ValidateOpaqueState\<close> with the codec's profile are fields of the codec, so
  what the round trip relies on is visible in its statement.
\<close>

record conversationWire =
  WireSchema :: string
  WireVersion :: int
  WireSegments :: "(string \<times> string) list"
  WireArtifacts :: "string list"

record ConversationCodec =
  CodecEnv :: env
  CodecPayloadDigest :: "ToolPayload \<Rightarrow> string result"
  CodecOpaque :: "Message list \<Rightarrow> unit result"
  CodecMarshalMessage :: "Message \<Rightarrow> string result"
  CodecUnmarshalMessage :: "string \<Rightarrow> Message result"
  CodecMarshalArtifact :: "ContextArtifact \<Rightarrow> string result"
  CodecUnmarshalArtifact :: "string \<Rightarrow> ContextArtifact result"
  CodecMarshalArray :: "string list \<Rightarrow> string result"
  CodecUnmarshalArray :: "string \<Rightarrow> string list result"
  CodecMarshalWire :: "conversationWire \<Rightarrow> string result"
  CodecUnmarshalWire :: "string \<Rightarrow> conversationWire result"

definition ConversationSchema :: string where
  "ConversationSchema = ''contexty/conversation/1''"

definition marshalMessagesWithRegistries :: "ConversationCodec \<Rightarrow> Message list \<Rightarrow> string result" where
  "marshalMessagesWithRegistries C msgs =
     bind_res (map_res (CodecMarshalMessage C) msgs) (CodecMarshalArray C)"

definition unmarshalMessagesWithRegistries :: "ConversationCodec \<Rightarrow> string \<Rightarrow> Message list result" where
  "unmarshalMessagesWithRegistries C data =
     (if data = [] \<or> data = ''null'' then Inr []
      else bind_res (CodecUnmarshalArray C data) (map_res (CodecUnmarshalMessage C)))"

definition marshalArtifactList :: "ConversationCodec \<Rightarrow> ContextArtifact list \<Rightarrow> string list result" where
  "marshalArtifactList C = map_res (CodecMarshalArtifact C)"

definition unmarshalArtifactList :: "ConversationCodec \<Rightarrow> string list \<Rightarrow> ContextArtifact list result" where
  "unmarshalArtifactList C = map_res (CodecUnmarshalArtifact C)"

definition validateArtifactBlobs :: "ConversationCodec \<Rightarrow> ContextArtifact list \<Rightarrow> unit result" where
  "validateArtifactBlobs C arts =
     bind_res (map_res (validateArtifactBlob (CodecEnv C) (CodecPayloadDigest C)) arts) (\<lambda>_. Inr ())"

definition Encode :: "ConversationCodec \<Rightarrow> ConversationState \<Rightarrow> string result" where
  "Encode C s =
     bind_res (CodecOpaque C (checkpointMessages s)) (\<lambda>_.
     bind_res (marshalArtifactList C (Artifacts s)) (\<lambda>arts.
     bind_res (map_res (\<lambda>(name, msgs). bind_res (marshalMessagesWithRegistries C msgs) (\<lambda>b. Inr (name, b))) (Segments s))
       (\<lambda>segs. CodecMarshalWire C
          \<lparr>WireSchema = ConversationSchema, WireVersion = Version s, WireSegments = segs, WireArtifacts = arts\<rparr>)))"

definition Decode :: "ConversationCodec \<Rightarrow> string \<Rightarrow> ConversationState result" where
  "Decode C data =
     bind_res (CodecUnmarshalWire C data) (\<lambda>wire.
     if WireSchema wire \<noteq> ConversationSchema then Inl ErrUnsupportedCheckpointSchema
     else bind_res (unmarshalArtifactList C (WireArtifacts wire)) (\<lambda>arts.
     if \<not> distinct (map ArtID arts) then Inl ErrInvalidCheckpoint
     else bind_res (map_res (\<lambda>(name, raw). bind_res (unmarshalMessagesWithRegistries C raw) (\<lambda>ms. Inr (name, ms)))
                     (WireSegments wire)) (\<lambda>segs.
     let snapshot = \<lparr>Segments = segs, ArtifactMap = [], Version = WireVersion wire\<rparr>;
         snapshot = (if arts \<noteq> [] then WithArtifacts snapshot arts else snapshot)
     in bind_res (validateArtifactBlobs C (Artifacts snapshot)) (\<lambda>_.
        bind_res (CodecOpaque C (checkpointMessages snapshot)) (\<lambda>_. Inr snapshot)))))"

lemma validateArtifactBlobs_iff:
  "validateArtifactBlobs C as = Inr () \<longleftrightarrow>
     (\<forall>a \<in> set as. validateArtifactBlob (CodecEnv C) (CodecPayloadDigest C) a = Inr ())"
  by (induction as) (auto simp: validateArtifactBlobs_def bind_res_Inr_iff)

subsection \<open>States as Go maps\<close>

text \<open>
  Two states that hold the same maps. The association lists of the model are Go maps, so this
  is equality of the program's states.
\<close>

definition same_state :: "ConversationState \<Rightarrow> ConversationState \<Rightarrow> bool" where
  "same_state s t \<longleftrightarrow> Version s = Version t \<and> map_of (Segments s) = map_of (Segments t) \<and>
     map_of (ArtifactMap s) = map_of (ArtifactMap t)"

lemma same_state_refl [simp]: "same_state s s"
  by (simp add: same_state_def)

lemma sorted_list_of_map: "distinct xs \<Longrightarrow> distinct ys \<Longrightarrow> set xs = set ys \<Longrightarrow> sort xs = sort (ys :: 'a :: linorder list)"
  by (metis sorted_list_of_set_sort_remdups distinct_remdups_id)

lemma checkpointMessages_map_of:
  assumes "distinct (map fst (Segments s))" "distinct (map fst (Segments t))" "map_of (Segments s) = map_of (Segments t)"
  shows "checkpointMessages s = checkpointMessages t"
proof -
  have "set (map fst (Segments s)) = set (map fst (Segments t))"
    using assms(3) by (metis dom_map_of_conv_image_fst list.set_map)
  then have "sort (map fst (Segments s)) = sort (map fst (Segments t))"
    by (rule sorted_list_of_map [OF assms(1,2)])
  moreover have "Segment s = Segment t" using assms(3) by (auto simp: Segment_def segment_def)
  ultimately show ?thesis by (simp add: checkpointMessages_def)
qed

text \<open>
  Encoding the values of a map and decoding them from any list of the same map restores the map.
\<close>

lemma map_res_fst: "map_res (\<lambda>(k, x). bind_res (f x) (\<lambda>y. Inr (k, y))) xs = Inr ys \<Longrightarrow> map fst ys = map fst xs"
  by (induction xs arbitrary: ys) (auto simp: bind_res_Inr_iff)

lemma alist_codec:
  assumes "map_res (\<lambda>(k, x). bind_res (f x) (\<lambda>y. Inr (k, y))) xs = Inr ys"
    and inv: "\<And>k x y. (k, x) \<in> set xs \<Longrightarrow> f x = Inr y \<Longrightarrow> g y = Inr x"
    and "distinct (map fst zs)" "map_of zs = map_of ys"
  shows "\<exists>us. map_res (\<lambda>(k, y). bind_res (g y) (\<lambda>x. Inr (k, x))) zs = Inr us \<and> map fst us = map fst zs \<and>
     map_of us = map_of xs"
proof -
  have keyed: "map_of ys k = Some y \<longleftrightarrow> (\<exists>x. map_of xs k = Some x \<and> f x = Inr y)" for k y
    using assms(1)
    by (induction xs arbitrary: ys) (auto simp: bind_res_Inr_iff split: if_splits)
  have gy: "g y = Inr x" if "(k, y) \<in> set zs" "map_of xs k = Some x" for k x y
  proof -
    have "map_of ys k = Some y" using that(1) assms(3,4) by (metis map_of_is_SomeI)
    then show ?thesis using keyed that(2) inv [OF map_of_SomeD] by fastforce
  qed
  have "\<exists>x. map_of xs k = Some x" if "(k, y) \<in> set zs" for k y
    using that assms(3,4) keyed by (metis map_of_is_SomeI)
  with gy have "map_res (\<lambda>(k, y). bind_res (g y) (\<lambda>x. Inr (k, x))) zs = Inr (map (\<lambda>(k, y). (k, the (map_of xs k))) zs)"
    by (intro map_res_total) fastforce
  moreover have "map_of (map (\<lambda>(k, y). (k, the (map_of xs k))) zs) = map_of xs"
  proof
    fix k
    have "map_of (map (\<lambda>(k, y). (k, the (map_of xs k))) zs) k = map_option (\<lambda>_. the (map_of xs k)) (map_of zs k)"
      by (induction zs) auto
    also have "\<dots> = map_of xs k"
    proof (cases "map_of xs k")
      case None
      then have "map_of ys k = None" using keyed [of k] by (cases "map_of ys k") auto
      then show ?thesis using None assms(4) by simp
    next
      case (Some x)
      from map_res_fst [OF assms(1)] Some have "map_of ys k \<noteq> None" by (metis map_of_eq_None_iff list.set_map option.distinct(1))
      then show ?thesis using Some assms(4) by auto
    qed
    finally show "map_of (map (\<lambda>(k, y). (k, the (map_of xs k))) zs) k = map_of xs k" .
  qed
  moreover have "map fst (map (\<lambda>(k, y). (k, the (map_of xs k))) zs) = map fst zs" by auto
  ultimately show ?thesis by blast
qed

lemma find_key: "distinct (map key xs) \<Longrightarrow> find (\<lambda>a. key a = k) xs = Some a \<longleftrightarrow> a \<in> set xs \<and> key a = k"
  by (induction xs) auto

text \<open>Artifacts whose copies are themselves: the copies the host's extensions make are stable.\<close>

definition clone_stable :: "artifacts \<Rightarrow> bool" where
  "clone_stable arts \<longleftrightarrow> (\<forall>(k, a) \<in> set arts. ContextArtifact_Clone a = a)"

lemma artifactMapValues_set:
  "clone_stable arts \<Longrightarrow> set (artifactMapValues arts) = snd ` set arts"
  by (force simp: artifactMapValues_def clone_stable_def)

lemma artifactMapValues_stable:
  "clone_stable arts \<Longrightarrow> a \<in> set (artifactMapValues arts) \<Longrightarrow> ContextArtifact_Clone a = a"
  unfolding artifactMapValues_set by (auto simp: clone_stable_def)

lemma artifactMapValues_distinct:
  assumes "artifacts_ok arts"
  shows "distinct (map ArtID (artifactMapValues arts))"
proof -
  have "map ArtID (map (\<lambda>(k, a). ContextArtifact_Clone a) arts) = map fst arts"
    using assms by (auto simp: artifacts_ok_def)
  then have "mset (map ArtID (artifactMapValues arts)) = mset (map fst arts)"
    unfolding artifactMapValues_def by (metis mset_map mset_sort)
  then show ?thesis using assms by (metis artifacts_ok_def mset_eq_imp_distinct_iff)
qed

lemma WithArtifacts_artifacts_ok:
  "artifacts_ok (fold (\<lambda>a arts. AList.update (ArtID a) (ContextArtifact_Clone a) arts) as [])"
proof -
  have "artifacts_ok init \<Longrightarrow> artifacts_ok (fold (\<lambda>a arts. AList.update (ArtID a) (ContextArtifact_Clone a) arts) as init)" for init
    by (induction as arbitrary: init) (simp_all add: artifacts_ok_update)
  from this [of "[]"] show ?thesis by (simp add: artifacts_ok_def [of "[]"])
qed

lemma artifactMapValues_map_of:
  assumes "artifacts_ok arts" "artifacts_ok arts'" "map_of arts = map_of arts'"
  shows "set (artifactMapValues arts) = set (artifactMapValues arts')"
proof -
  have "set arts = set arts'"
    using assms unfolding artifacts_ok_def by (metis map_of_is_SomeI map_of_SomeD prod.collapse subsetI subset_antisym)
  then show ?thesis by (simp add: artifactMapValues_def)
qed

lemma rebuild_artifacts:
  assumes "artifacts_ok arts" "clone_stable arts"
  shows "map_of (fold (\<lambda>a arts. AList.update (ArtID a) (ContextArtifact_Clone a) arts) (artifactMapValues arts) []) = map_of arts"
proof
  fix k
  have "find (\<lambda>a. ArtID a = k) (artifactMapValues arts) = Some a \<longleftrightarrow> map_of arts k = Some a" for a
    unfolding find_key [OF artifactMapValues_distinct [OF assms(1)]] artifactMapValues_set [OF assms(2)]
    using assms(1) by (force simp: artifacts_ok_def)
  then have "find (\<lambda>a. ArtID a = k) (artifactMapValues arts) = map_of arts k" by (metis not_None_eq)
  moreover have "map_of arts k = Some a \<Longrightarrow> ContextArtifact_Clone a = a" for a
    using assms(2) by (auto simp: clone_stable_def dest: map_of_SomeD)
  ultimately show "map_of (fold (\<lambda>a arts. AList.update (ArtID a) (ContextArtifact_Clone a) arts) (artifactMapValues arts) []) k = map_of arts k"
    unfolding fold_update_map_of [OF artifactMapValues_distinct [OF assms(1)]] by (auto split: option.split)
qed

subsection \<open>The round trip of a checkpoint\<close>

text \<open>
  What the encoding of a state relies on: the leaf codecs give back the messages and artifacts
  they were given, the JSON of an array gives back its elements (and is never empty or
  \<^verbatim>\<open>null\<close>), and the JSON of the envelope gives back its fields, the segments as a map.
\<close>

definition leaf_lossless :: "ConversationCodec \<Rightarrow> ConversationState \<Rightarrow> bool" where
  "leaf_lossless C s \<longleftrightarrow>
     (\<forall>(k, ms) \<in> set (Segments s). \<forall>m \<in> set ms. \<forall>w. CodecMarshalMessage C m = Inr w \<longrightarrow> CodecUnmarshalMessage C w = Inr m) \<and>
     (\<forall>(k, a) \<in> set (ArtifactMap s). \<forall>w. CodecMarshalArtifact C a = Inr w \<longrightarrow> CodecUnmarshalArtifact C w = Inr a)"

definition json_lossless :: "ConversationCodec \<Rightarrow> bool" where
  "json_lossless C \<longleftrightarrow>
     (\<forall>ws b. CodecMarshalArray C ws = Inr b \<longrightarrow> b \<noteq> [] \<and> b \<noteq> ''null'' \<and> CodecUnmarshalArray C b = Inr ws) \<and>
     (\<forall>w b. CodecMarshalWire C w = Inr b \<longrightarrow> distinct (map fst (WireSegments w)) \<longrightarrow>
        (\<exists>w'. CodecUnmarshalWire C b = Inr w' \<and> WireSchema w' = WireSchema w \<and> WireVersion w' = WireVersion w \<and>
           WireArtifacts w' = WireArtifacts w \<and> distinct (map fst (WireSegments w')) \<and>
           map_of (WireSegments w') = map_of (WireSegments w)))"

lemma json_wire:
  assumes "json_lossless C" "CodecMarshalWire C w = Inr b" "distinct (map fst (WireSegments w))"
  shows "\<exists>w'. CodecUnmarshalWire C b = Inr w' \<and> WireSchema w' = WireSchema w \<and> WireVersion w' = WireVersion w \<and>
     WireArtifacts w' = WireArtifacts w \<and> distinct (map fst (WireSegments w')) \<and> map_of (WireSegments w') = map_of (WireSegments w)"
  using assms unfolding json_lossless_def by blast

lemma marshalMessages_inverse:
  assumes "json_lossless C" "marshalMessagesWithRegistries C ms = Inr b"
    and "\<And>m w. m \<in> set ms \<Longrightarrow> CodecMarshalMessage C m = Inr w \<Longrightarrow> CodecUnmarshalMessage C w = Inr m"
  shows "unmarshalMessagesWithRegistries C b = Inr ms"
proof -
  from assms(2) obtain ws where ws: "map_res (CodecMarshalMessage C) ms = Inr ws" "CodecMarshalArray C ws = Inr b"
    by (auto simp: marshalMessagesWithRegistries_def bind_res_Inr_iff)
  have "map_res (CodecUnmarshalMessage C) ws = Inr ms"
    using ws(1) assms(3) unfolding map_res_Inr_iff by (auto simp: list_all2_conv_all_nth)
  then show ?thesis using ws(2) assms(1) by (auto simp: unmarshalMessagesWithRegistries_def json_lossless_def)
qed

lemma marshalArtifacts_inverse:
  assumes "marshalArtifactList C as = Inr ws"
    and "\<And>a w. a \<in> set as \<Longrightarrow> CodecMarshalArtifact C a = Inr w \<Longrightarrow> CodecUnmarshalArtifact C w = Inr a"
  shows "unmarshalArtifactList C ws = Inr as"
  using assms unfolding marshalArtifactList_def unmarshalArtifactList_def map_res_Inr_iff
  by (auto simp: list_all2_conv_all_nth)

lemma WithArtifacts_nonempty:
  "(if as \<noteq> [] then WithArtifacts \<lparr>Segments = us, ArtifactMap = [], Version = v\<rparr> as
    else \<lparr>Segments = us, ArtifactMap = [], Version = v\<rparr>) = WithArtifacts \<lparr>Segments = us, ArtifactMap = [], Version = v\<rparr> as"
  by (simp add: WithArtifacts_def)

lemma Encode_Decode:
  assumes enc: "Encode C s = Inr data" and ok: "conversation_ok s" and stable: "clone_stable (ArtifactMap s)"
    and leaf: "leaf_lossless C s" and json: "json_lossless C"
    and blobs: "validateArtifactBlobs C (Artifacts s) = Inr ()"
  shows "\<exists>s'. Decode C data = Inr s' \<and> same_state s' s"
proof -
  from ok have art: "artifacts_ok (ArtifactMap s)" and keys: "distinct (map fst (Segments s))"
    by (auto simp: conversation_ok_def artifacts_ok_def)
  let ?f = "marshalMessagesWithRegistries C" and ?g = "unmarshalMessagesWithRegistries C"
  from enc obtain arts segs where opq: "CodecOpaque C (checkpointMessages s) = Inr ()"
    and arts: "marshalArtifactList C (Artifacts s) = Inr arts"
    and segs: "map_res (\<lambda>(k, x). bind_res (?f x) (\<lambda>y. Inr (k, y))) (Segments s) = Inr segs"
    and wire: "CodecMarshalWire C \<lparr>WireSchema = ConversationSchema, WireVersion = Version s, WireSegments = segs, WireArtifacts = arts\<rparr> = Inr data"
    by (auto simp: Encode_def bind_res_Inr_iff)
  from json_wire [OF json wire] keys map_res_fst [OF segs] obtain w where w: "CodecUnmarshalWire C data = Inr w" "WireSchema w = ConversationSchema"
    "WireVersion w = Version s" "WireArtifacts w = arts" "distinct (map fst (WireSegments w))" "map_of (WireSegments w) = map_of segs"
    by auto
  have inv: "?g y = Inr x" if "(k, x) \<in> set (Segments s)" "?f x = Inr y" for k x y
    using marshalMessages_inverse [OF json that(2)] leaf that(1) by (fastforce simp: leaf_lossless_def)
  from alist_codec [where f = ?f and g = ?g, OF segs _ w(5,6)] inv obtain us where us:
    "map_res (\<lambda>(k, y). bind_res (?g y) (\<lambda>x. Inr (k, x))) (WireSegments w) = Inr us" "map fst us = map fst (WireSegments w)"
    "map_of us = map_of (Segments s)" by blast
  have "unmarshalArtifactList C arts = Inr (Artifacts s)"
    using leaf artifactMapValues_set [OF stable]
    by (intro marshalArtifacts_inverse [OF arts]) (fastforce simp: leaf_lossless_def Artifacts_def)
  moreover have "distinct (map ArtID (Artifacts s))" unfolding Artifacts_def by (rule artifactMapValues_distinct [OF art])
  moreover
  define t where "t = WithArtifacts \<lparr>Segments = us, ArtifactMap = [], Version = Version s\<rparr> (Artifacts s)"
  moreover have "same_state t s"
    using us(3) rebuild_artifacts [OF art stable] by (simp add: same_state_def t_def WithArtifacts_def Artifacts_def)
  moreover have "checkpointMessages t = checkpointMessages s"
    using us w(5) keys by (intro checkpointMessages_map_of) (simp_all add: t_def WithArtifacts_def)
  moreover have "validateArtifactBlobs C (Artifacts t) = Inr ()"
  proof -
    have "map_of (ArtifactMap t) = map_of (ArtifactMap s)" using \<open>same_state t s\<close> by (simp add: same_state_def)
    from artifactMapValues_map_of [OF _ art this] WithArtifacts_artifacts_ok
    have "set (Artifacts t) = set (Artifacts s)" by (simp add: t_def WithArtifacts_def Artifacts_def)
    then show ?thesis using blobs by (simp add: validateArtifactBlobs_iff)
  qed
  ultimately have "Decode C data = Inr t"
    using w us(1) opq by (simp only: Decode_def Let_def bind_res_simps WithArtifacts_nonempty t_def simp_thms if_False
        not_True_eq_False refl)
  with \<open>same_state t s\<close> show ?thesis by blast
qed

lemma clone_stable_checkpoint:
  assumes "clone_stable (ArtifactMap s)" "set as \<subseteq> set (Artifacts s)"
  shows "clone_stable (ArtifactMap (WithArtifacts t as))"
proof -
  have "\<forall>a \<in> set as. ContextArtifact_Clone a = a"
    using assms(2) artifactMapValues_stable [OF assms(1)] by (auto simp: Artifacts_def)
  moreover have "\<forall>a \<in> set as. ContextArtifact_Clone a = a \<Longrightarrow> clone_stable init \<Longrightarrow>
    clone_stable (fold (\<lambda>a arts. AList.update (ArtID a) (ContextArtifact_Clone a) arts) as init)" for init
  proof (induction as arbitrary: init)
    case (Cons a as)
    have "clone_stable (AList.update (ArtID a) (ContextArtifact_Clone a) init)"
      using Cons.prems update_keys [of "ArtID a" "ContextArtifact_Clone a" init] by (auto simp: clone_stable_def)
    then show ?case using Cons by simp
  qed simp
  moreover have "clone_stable []" by (simp add: clone_stable_def)
  ultimately show ?thesis unfolding WithArtifacts_def by simp
qed

lemma persistentArtifacts_stable:
  assumes "clone_stable (ArtifactMap s)"
  shows "persistentArtifacts (Artifacts s) = filter artifactShouldPersist (Artifacts s)"
proof -
  have "ContextArtifact_Clone a = a" if "a \<in> set (Artifacts s)" for a
    using that artifactMapValues_stable [OF assms] by (simp add: Artifacts_def)
  then show ?thesis by (auto simp: persistentArtifacts_def intro: map_idI)
qed

lemma WithArtifacts_lookup:
  assumes "distinct (map ArtID as)" "map_of (ArtifactMap (WithArtifacts t as)) k = Some a"
  shows "\<exists>b \<in> set as. a = ContextArtifact_Clone b"
proof -
  have "map_of (ArtifactMap (WithArtifacts t as)) k =
    (case find (\<lambda>a. ArtID a = k) as of Some a \<Rightarrow> Some (ContextArtifact_Clone a) | None \<Rightarrow> None)"
    by (simp add: WithArtifacts_def fold_update_map_of [OF assms(1)] cong: option.case_cong)
  with assms(2) obtain b where "find (\<lambda>a. ArtID a = k) as = Some b" "a = ContextArtifact_Clone b"
    by (auto split: option.splits)
  then show ?thesis using find_key [OF assms(1)] by blast
qed

lemma ProjectCheckpoint_ok:
  assumes proj: "ProjectCheckpoint (CodecEnv C) (CodecPayloadDigest C) (CodecOpaque C) s = Inr s'"
    and ok: "conversation_ok s" and stable: "clone_stable (ArtifactMap s)"
  shows "conversation_ok s' \<and> clone_stable (ArtifactMap s') \<and> validateArtifactBlobs C (Artifacts s') = Inr ()"
proof -
  let ?pers = "filter artifactShouldPersist (Artifacts s)"
  from proj obtain us where us: "map_res (validateArtifactBlob (CodecEnv C) (CodecPayloadDigest C)) (Artifacts s) = Inr us"
    and s': "s' = WithArtifacts (AllSegmentsSnapshot s) (persistentArtifacts (Artifacts s))"
    by (auto simp: ProjectCheckpoint_def Let_def bind_res_Inr_iff split: if_splits)
  then have s'': "s' = WithArtifacts (AllSegmentsSnapshot s) ?pers" by (simp add: persistentArtifacts_stable [OF stable])
  have stab': "clone_stable (ArtifactMap s')"
    unfolding s'' by (rule clone_stable_checkpoint [OF stable]) auto
  have art': "artifacts_ok (ArtifactMap s')"
    using WithArtifacts_artifacts_ok by (simp add: s'' WithArtifacts_def)
  have "conversation_ok s'"
    using ok art' unfolding conversation_ok_def artifacts_ok_def s''
    by (auto simp: WithArtifacts_def AllSegmentsSnapshot_def case_prod_unfold comp_def)
  moreover have "validateArtifactBlobs C (Artifacts s) = Inr ()" using us by (simp add: validateArtifactBlobs_def)
  moreover have "set (Artifacts s') \<subseteq> set (Artifacts s)"
  proof
    fix a assume "a \<in> set (Artifacts s')"
    then obtain k where "(k, a) \<in> set (ArtifactMap s')" using artifactMapValues_set [OF stab'] by (auto simp: Artifacts_def)
    then have look: "map_of (ArtifactMap s') k = Some a" using art' by (auto simp: artifacts_ok_def)
    have "distinct (map ArtID ?pers)"
      using artifactMapValues_distinct [of "ArtifactMap s"] ok
      by (auto simp: Artifacts_def conversation_ok_def artifacts_ok_def distinct_map_filter)
    from WithArtifacts_lookup [OF this look [unfolded s'']] obtain b where "b \<in> set ?pers" "a = ContextArtifact_Clone b"
      by blast
    then show "a \<in> set (Artifacts s)"
      using artifactMapValues_stable [OF stable, of b] by (simp add: Artifacts_def)
  qed
  ultimately show ?thesis using stab' by (auto simp: validateArtifactBlobs_iff)
qed

subsection \<open>A sample codec\<close>

text \<open>
  A codec for the witnesses: it knows the messages and the artifact of the sample conversation by
  their identities, and the one array and the one envelope they make.
\<close>

definition sampleWire :: conversationWire where
  "sampleWire = \<lparr>WireSchema = ConversationSchema, WireVersion = 0,
     WireSegments = [(''history'', ''[u1,a1,t1]'')], WireArtifacts = [''m1'']\<rparr>"

definition sampleCodec :: ConversationCodec where
  "sampleCodec = \<lparr>CodecEnv = sampleEnv, CodecPayloadDigest = (\<lambda>_. Inr []), CodecOpaque = (\<lambda>_. Inr ()),
     CodecMarshalMessage = (\<lambda>m. Inr (MsgID m)),
     CodecUnmarshalMessage = (\<lambda>w. if w = ''u1'' then Inr (userText ''u1'' ''hello'')
       else if w = ''a1'' then Inr (assistantCall ''a1'' ''c1'') else Inr (toolReply ''t1'' ''c1'')),
     CodecMarshalArtifact = (\<lambda>a. Inr (ArtID a)),
     CodecUnmarshalArtifact = (\<lambda>w. if w = ''m1'' then Inr (NewMemoryBlock ''m1'' (TextPayload ''note'')) else Inl (Errorf ''json'')),
     CodecMarshalArray = (\<lambda>ws. if ws = [''u1'', ''a1'', ''t1''] then Inr ''[u1,a1,t1]'' else Inl (Errorf ''json'')),
     CodecUnmarshalArray = (\<lambda>b. if b = ''[u1,a1,t1]'' then Inr [''u1'', ''a1'', ''t1''] else Inl (Errorf ''json'')),
     CodecMarshalWire = (\<lambda>w. if w = sampleWire then Inr ''{wire}'' else Inl (Errorf ''json'')),
     CodecUnmarshalWire = (\<lambda>b. if b = ''{wire}'' then Inr sampleWire else Inl (Errorf ''json''))\<rparr>"

lemma sampleCodec_lossless: "json_lossless sampleCodec" "leaf_lossless sampleCodec sampleState"
proof -
  show "json_lossless sampleCodec" by (auto simp: json_lossless_def sampleCodec_def sampleWire_def split: if_splits)
  show "leaf_lossless sampleCodec sampleState"
    by (auto simp: leaf_lossless_def sampleCodec_def sampleState_def userText_def assistantCall_def toolReply_def
        sampleMessage_def NewMemoryBlock_def NewArtifact_def)
qed

lemma sampleState_ok: "conversation_ok sampleState" "clone_stable (ArtifactMap sampleState)"
proof -
  show "conversation_ok sampleState"
    by (rule conjunct1 [OF ApplyDeltas_ok [OF sample_ApplyDeltas]]) (simp add: conversation_ok_def EmptyState_def)
  show "clone_stable (ArtifactMap sampleState)"
    by (simp add: clone_stable_def sampleState_def) code_simp
qed

end
