(* ===== verification/State_Store.thy ===== *)
theory State_Store
  imports State_Codec
begin

text \<open>
  Conversation stores with optimistic concurrency: the interface every
  \<^verbatim>\<open>ConversationStateStore\<close> implementation promises, as two locales, and the in-memory reference
  store (\<^verbatim>\<open>conversation.go\<close>) that implements it. The mutex of the store makes every operation one
  atomic step; concurrency is the interleaving of steps.
\<close>

subsection \<open>The interface\<close>

text \<open>
  A store shows, for every conversation, a version and a content (\<open>view\<close>). Events are the atomic
  steps of its clients and of its environment.
\<close>

locale versioned_store =
  fixes ok :: "'st \<Rightarrow> bool"
    and view :: "'st \<Rightarrow> string \<Rightarrow> int \<times> 'c"
    and step :: "'ev \<Rightarrow> 'st \<Rightarrow> unit result \<times> 'st"
  assumes ok_step: "ok st \<Longrightarrow> ok (snd (step e st))"
    and view_step: "ok st \<Longrightarrow>
      view (snd (step e st)) i = view st i \<or> fst (view st i) < fst (view (snd (step e st)) i)"
begin

abbreviation run_events :: "'ev list \<Rightarrow> 'st \<Rightarrow> 'st" where
  "run_events es st \<equiv> fold (\<lambda>e st. snd (step e st)) es st"

lemma ok_run: "ok st \<Longrightarrow> ok (run_events es st)"
  by (induction es arbitrary: st) (simp_all add: ok_step)

lemma versions_monotone: "ok st \<Longrightarrow> fst (view st i) \<le> fst (view (run_events es st) i)"
proof (induction es arbitrary: st)
  case (Cons e es)
  have "fst (view st i) \<le> fst (view (snd (step e st)) i)" using view_step [OF Cons.prems, of e i] by auto
  also have "\<dots> \<le> fst (view (run_events es (snd (step e st))) i)" by (rule Cons.IH [OF ok_step [OF Cons.prems]])
  finally show ?case by simp
qed simp

text \<open>A version never comes back with another content.\<close>

lemma no_aba:
  assumes "ok st" "fst (view (run_events es st) i) = fst (view st i)"
  shows "view (run_events es st) i = view st i"
  using assms
proof (induction es arbitrary: st)
  case (Cons e es)
  let ?st = "snd (step e st)"
  have mono: "fst (view ?st i) \<le> fst (view (run_events es ?st) i)"
    by (rule versions_monotone [OF ok_step [OF Cons.prems(1)]])
  then have same: "view ?st i = view st i"
    using view_step [OF Cons.prems(1), of e i] Cons.prems(2) by auto
  then show ?case using Cons.IH [OF ok_step [OF Cons.prems(1)], of e] Cons.prems(2) by simp
qed simp

end

text \<open>
  A compare-and-set event names its conversation and the version it expects. It succeeds only
  on that version, which it advances by one; it leaves every other conversation alone, and an
  event that fails shows nothing new to anyone.
\<close>

locale occ_store = versioned_store ok view step
  for ok :: "'st \<Rightarrow> bool" and view :: "'st \<Rightarrow> string \<Rightarrow> int \<times> 'c" and step :: "'ev \<Rightarrow> 'st \<Rightarrow> unit result \<times> 'st" +
  fixes cas :: "'ev \<Rightarrow> (string \<times> int) option"
  assumes cas_success: "ok st \<Longrightarrow> cas e = Some (i, v) \<Longrightarrow> step e st = (Inr (), st') \<Longrightarrow>
      fst (view st i) = v \<and> fst (view st' i) = v + 1"
    and cas_frame: "ok st \<Longrightarrow> cas e = Some (i, v) \<Longrightarrow> j \<noteq> i \<Longrightarrow> view (snd (step e st)) j = view st j"
    and cas_failure: "ok st \<Longrightarrow> step e st = (Inl err, st') \<Longrightarrow> view st' = view st"
begin

text \<open>What a successful client read earlier is what it replaces.\<close>

lemma cas_fresh:
  assumes "ok st" "cas e = Some (i, fst (view st i))" "step e (run_events es st) = (Inr (), st')"
  shows "view (run_events es st) i = view st i"
  using no_aba [OF assms(1)] cas_success [OF ok_run [OF assms(1)] assms(2,3)] by simp

text \<open>Of two clients that read the same version at most one succeeds, whatever happens in between.\<close>

lemma cas_exclusive:
  assumes "ok st" "cas e = Some (i, v)" "cas e' = Some (i, v)" "step e st = (Inr (), st')"
  shows "fst (step e' (run_events es st')) \<noteq> Inr ()"
proof
  assume succ: "fst (step e' (run_events es st')) = Inr ()"
  have ok': "ok st'" using ok_step [OF assms(1), of e] assms(4) by simp
  from succ obtain st'' where "step e' (run_events es st') = (Inr (), st'')"
    by (cases "step e' (run_events es st')") auto
  from cas_success [OF ok_run [OF ok'] assms(3) this] have "fst (view (run_events es st') i) = v" by simp
  moreover have "fst (view st' i) = v + 1" using cas_success [OF assms(1,2,4)] by simp
  moreover have "fst (view st' i) \<le> fst (view (run_events es st') i)" by (rule versions_monotone [OF ok'])
  ultimately show False by simp
qed

end

subsection \<open>The in-memory store\<close>

definition NextConversationVersion :: "int \<Rightarrow> int result" where
  "NextConversationVersion current =
     (if current < 0 \<or> current = MaxInt then Inl ErrConversationVersionExhausted else Inr (go_add current 1))"

type_synonym memory_store = "string \<rightharpoonup> ConversationState"

definition LoadState :: "memory_store \<Rightarrow> string \<Rightarrow> ConversationState comp" where
  "LoadState st i =
     bind poll (\<lambda>_. bind poll (\<lambda>_. ret (case st i of None \<Rightarrow> EmptyState | Some s \<Rightarrow> AllSegmentsSnapshot s)))"

text \<open>
  \<^verbatim>\<open>CommitState\<close> and \<^verbatim>\<open>ClearState\<close> return the store after their only assignment, which is their
  last statement; when they return an error nothing has been assigned.
\<close>

definition CommitState ::
  "ConversationCodec \<Rightarrow> string \<Rightarrow> int \<Rightarrow> ConversationDelta list \<Rightarrow> memory_store \<Rightarrow> memory_store comp" where
  "CommitState C i expectedVersion deltas st =
     (if deltas = [] then fail ErrEmptyCheckpointCommit
      else bind poll (\<lambda>_. bind poll (\<lambda>_.
      bind (case st i of
              None \<Rightarrow> if expectedVersion \<noteq> 0 then fail ErrConversationVersionConflict else ret EmptyState
            | Some cur \<Rightarrow> if Version cur \<noteq> expectedVersion then fail ErrConversationVersionConflict else ret cur) (\<lambda>cur.
      bind (lift_res (ApplyDeltas cur deltas)) (\<lambda>next.
      bind (lift_res (ProjectCheckpoint (CodecEnv C) (CodecPayloadDigest C) (CodecOpaque C) next)) (\<lambda>next.
      bind (lift_res (Encode C next)) (\<lambda>wire.
      bind (lift_res (Decode C wire)) (\<lambda>next.
      bind (lift_res (NextConversationVersion (Version cur))) (\<lambda>version.
      bind poll (\<lambda>_. ret (st(i \<mapsto> WithVersion next version))))))))))))"

definition ClearState :: "string \<Rightarrow> int \<Rightarrow> memory_store \<Rightarrow> memory_store comp" where
  "ClearState i expectedVersion st =
     bind poll (\<lambda>_. bind poll (\<lambda>_.
     bind (case st i of
             None \<Rightarrow> if expectedVersion \<noteq> 0 then fail ErrConversationVersionConflict else ret EmptyState
           | Some cur \<Rightarrow> ret cur) (\<lambda>cur.
     if Version cur \<noteq> expectedVersion then fail ErrConversationVersionConflict
     else bind (lift_res (NextConversationVersion (Version cur))) (\<lambda>nextVersion.
     bind poll (\<lambda>_. ret (st(i \<mapsto> WithVersion EmptyState nextVersion)))))))"

datatype store_op = OpCommit string int "ConversationDelta list" | OpClear string int

text \<open>One client call under a context, with the store it leaves behind.\<close>

fun memory_step :: "ConversationCodec \<Rightarrow> ctx \<times> store_op \<Rightarrow> memory_store \<Rightarrow> unit result \<times> memory_store" where
  "memory_step C (c, oper) st =
     (case fst ((case oper of OpCommit i v ds \<Rightarrow> CommitState C i v ds st | OpClear i v \<Rightarrow> ClearState i v st) c) of
        Inl e \<Rightarrow> (Inl e, st)
      | Inr st' \<Rightarrow> (Inr (), st'))"

fun store_cas :: "store_op \<Rightarrow> string \<times> int" where
  "store_cas (OpCommit i v ds) = (i, v)"
| "store_cas (OpClear i v) = (i, v)"

definition current :: "memory_store \<Rightarrow> string \<Rightarrow> ConversationState" where
  "current st i = (case st i of None \<Rightarrow> EmptyState | Some s \<Rightarrow> s)"

text \<open>What a client sees of a conversation: its version, and the whole stored state.\<close>

definition memory_view :: "memory_store \<Rightarrow> string \<Rightarrow> int \<times> ConversationState" where
  "memory_view st i = (Version (current st i), current st i)"

lemma NextConversationVersion_Inr: "NextConversationVersion v = Inr w \<longleftrightarrow> 0 \<le> v \<and> v \<noteq> MaxInt \<and> w = go_add v 1"
  by (auto simp: NextConversationVersion_def)

text \<open>Versions are 64-bit integers; that of a stored state is positive.\<close>

definition store_ok :: "memory_store \<Rightarrow> bool" where
  "store_ok st \<longleftrightarrow> (\<forall>i s. st i = Some s \<longrightarrow> 0 < Version s \<and> Version s \<le> MaxInt)"

lemma NextConversationVersion_le:
  assumes "NextConversationVersion v = Inr w" "v \<le> MaxInt"
  shows "w = v + 1 \<and> 0 < w \<and> w \<le> MaxInt"
proof -
  from assms have "0 \<le> v" "v < MaxInt" "w = go_add v 1" by (auto simp: NextConversationVersion_Inr)
  moreover from this have "go_int (v + 1)" by (simp add: go_int_def MaxInt_def)
  ultimately show ?thesis by (simp add: go_add_exact)
qed

lemma Version_WithVersion [simp]: "Version (WithVersion s v) = v"
  by (simp add: WithVersion_def)

lemma current_version:
  assumes "store_ok st"
  shows "0 \<le> Version (current st i)" "Version (current st i) \<le> MaxInt"
  using assms by (force simp: current_def store_ok_def EmptyState_def MaxInt_def split: option.split)+

lemma CommitState_Inr:
  assumes "CommitState C i v ds st c = (Inr st', c')" "store_ok st"
  shows "Version (current st i) = v \<and> v + 1 \<le> MaxInt \<and> (\<exists>next proj wire stored. ApplyDeltas (current st i) ds = Inr next \<and>
    ProjectCheckpoint (CodecEnv C) (CodecPayloadDigest C) (CodecOpaque C) next = Inr proj \<and> Encode C proj = Inr wire \<and>
    Decode C wire = Inr stored \<and> st' = st(i \<mapsto> WithVersion stored (v + 1)))"
proof -
  from assms(1) obtain nxt proj wire stored w where ver: "Version (current st i) = v"
    and chain: "ApplyDeltas (current st i) ds = Inr nxt"
    "ProjectCheckpoint (CodecEnv C) (CodecPayloadDigest C) (CodecOpaque C) nxt = Inr proj" "Encode C proj = Inr wire"
    "Decode C wire = Inr stored" "NextConversationVersion v = Inr w" "st' = st(i \<mapsto> WithVersion stored w)"
    unfolding CommitState_def current_def
    by (cases "st i") (auto elim!: comp_elims simp: EmptyState_def split: if_splits)
  then show ?thesis using NextConversationVersion_le [OF chain(5)] current_version(2) [OF assms(2), of i] by simp
qed

lemma ClearState_Inr:
  assumes "ClearState i v st c = (Inr st', c')" "store_ok st"
  shows "Version (current st i) = v \<and> v + 1 \<le> MaxInt \<and> st' = st(i \<mapsto> WithVersion EmptyState (v + 1))"
proof -
  from assms(1) obtain w where ver: "Version (current st i) = v"
    and chain: "NextConversationVersion v = Inr w" "st' = st(i \<mapsto> WithVersion EmptyState w)"
    unfolding ClearState_def current_def
    by (cases "st i") (auto elim!: comp_elims simp: EmptyState_def split: if_splits)
  then show ?thesis using NextConversationVersion_le [OF chain(1)] current_version(2) [OF assms(2), of i] by simp
qed

lemma memory_step_success:
  assumes "store_ok st" "memory_step C (c, oper) st = (Inr (), st')" "store_cas oper = (i, v)"
  shows "Version (current st i) = v \<and> v + 1 \<le> MaxInt \<and> st' = st(i := st' i) \<and> (\<exists>next. st' i = Some next \<and> Version next = v + 1)"
proof (cases oper)
  case (OpCommit j w ds)
  with assms(2,3) obtain c' where "CommitState C i v ds st c = (Inr st', c')"
    by (cases "CommitState C i v ds st c") (auto split: sum.splits)
  from CommitState_Inr [OF this assms(1)] show ?thesis by auto
next
  case (OpClear j w)
  with assms(2,3) obtain c' where "ClearState i v st c = (Inr st', c')"
    by (cases "ClearState i v st c") (auto split: sum.splits)
  from ClearState_Inr [OF this assms(1)] show ?thesis by auto
qed

lemma memory_step_failure: "memory_step C (c, oper) st = (Inl e, st') \<Longrightarrow> st' = st"
  by (auto split: sum.splits)

lemma memory_step_cases:
  obtains (failure) e where "memory_step C (c, oper) st = (Inl e, st)"
    | (success) st' where "memory_step C (c, oper) st = (Inr (), st')"
  by (cases "fst ((case oper of OpCommit i v ds \<Rightarrow> CommitState C i v ds st | OpClear i v \<Rightarrow> ClearState i v st) c)") auto

lemma current_update: "current (st(i \<mapsto> s)) j = (if j = i then s else current st j)"
  by (simp add: current_def)

lemma memory_step_current:
  assumes "store_ok st" "memory_step C (c, oper) st = (Inr (), st')" "store_cas oper = (i, v)"
  shows "Version (current st i) = v" "Version (current st' i) = v + 1" "j \<noteq> i \<Longrightarrow> current st' j = current st j" "store_ok st'"
proof -
  from memory_step_success [OF assms] obtain nxt where "Version (current st i) = v" "v + 1 \<le> MaxInt"
    and st': "st' = st(i \<mapsto> nxt)" and ver: "Version nxt = v + 1" by metis
  then show "Version (current st i) = v" "Version (current st' i) = v + 1" "j \<noteq> i \<Longrightarrow> current st' j = current st j"
    by (simp_all add: current_update)
  have "0 \<le> v" using current_version(1) [OF assms(1), of i] \<open>Version (current st i) = v\<close> by simp
  then show "store_ok st'" using assms(1) ver \<open>v + 1 \<le> MaxInt\<close> by (simp add: st' store_ok_def)
qed

interpretation memory: occ_store store_ok memory_view "memory_step C" "\<lambda>(c, oper). Some (store_cas oper)" for C
proof unfold_locales
  fix st :: memory_store and e :: "ctx \<times> store_op" and i
  assume ok: "store_ok st"
  obtain c oper where e: "e = (c, oper)" by force
  obtain j v where cas: "store_cas oper = (j, v)" by force
  show "store_ok (snd (memory_step C e st))"
    using memory_step_current(4) [OF ok _ cas] ok by (cases rule: memory_step_cases [of C c oper st]) (simp_all only: e snd_conv)
  show "memory_view (snd (memory_step C e st)) i = memory_view st i \<or>
    fst (memory_view st i) < fst (memory_view (snd (memory_step C e st)) i)"
  proof (cases rule: memory_step_cases [of C c oper st])
    case (success st')
    note cur = memory_step_current [OF ok this cas]
    show ?thesis using cur(1,2) cur(3) [of i] success by (cases "i = j") (simp_all del: memory_step.simps add: e memory_view_def)
  qed (simp del: memory_step.simps add: e)
next
  fix st st' :: memory_store and e :: "ctx \<times> store_op" and i v
  assume ok: "store_ok st" and cas: "(case e of (c, oper) \<Rightarrow> Some (store_cas oper)) = Some (i, v)"
    and st': "memory_step C e st = (Inr (), st')"
  obtain c oper where e: "e = (c, oper)" by force
  show "fst (memory_view st i) = v \<and> fst (memory_view st' i) = v + 1"
    using memory_step_current(1,2) [OF ok st' [unfolded e]] cas by (simp add: e memory_view_def)
next
  fix st :: memory_store and e :: "ctx \<times> store_op" and i v j
  assume ok: "store_ok st" and cas: "(case e of (c, oper) \<Rightarrow> Some (store_cas oper)) = Some (i, v)" and j: "j \<noteq> i"
  obtain c oper where e: "e = (c, oper)" by force
  show "memory_view (snd (memory_step C e st)) j = memory_view st j"
    using memory_step_current(3) [OF ok _ _ j] cas
    by (cases rule: memory_step_cases [of C c oper st]) (simp_all del: memory_step.simps add: e memory_view_def)
next
  fix st st' :: memory_store and e :: "ctx \<times> store_op" and err
  assume "memory_step C e st = (Inl err, st')"
  then have "st' = st" by (cases e) (simp del: memory_step.simps add: memory_step_failure)
  then show "memory_view st' = memory_view st" by simp
qed

subsection \<open>Properties\<close>

text \<open>
  C12. No update of the in-memory store is lost: a client that read version \<open>v\<close> of a conversation
  and succeeds later, after any interleaving of other clients' calls (failed, cancelled or
  successful, on any conversation), replaces exactly the state it read; and no other call made
  against \<open>v\<close> can succeed after it.
\<close>

theorem memory_no_lost_update:
  assumes "store_ok st" "store_cas oper = (i, Version (current st i))"
    and "memory_step C (c, oper) (fold (\<lambda>e st. snd (memory_step C e st)) es st) = (Inr (), st')"
  shows "current (fold (\<lambda>e st. snd (memory_step C e st)) es st) i = current st i \<and>
    (\<forall>c' oper' es'. store_cas oper' = store_cas oper \<longrightarrow>
       fst (memory_step C (c', oper') (fold (\<lambda>e st. snd (memory_step C e st)) es' st')) \<noteq> Inr ())"
proof (intro conjI allI impI)
  have ok: "store_ok (fold (\<lambda>e st. snd (memory_step C e st)) es st)" by (rule memory.ok_run [OF assms(1)])
  show "current (fold (\<lambda>e st. snd (memory_step C e st)) es st) i = current st i"
    using memory.cas_fresh [OF assms(1) _ assms(3), of i] assms(2) by (simp add: memory_view_def)
  fix c' oper' es'
  assume "store_cas oper' = store_cas oper"
  then show "fst (memory_step C (c', oper') (fold (\<lambda>e st. snd (memory_step C e st)) es' st')) \<noteq> Inr ()"
    using memory.cas_exclusive [OF ok _ _ assms(3), of i "Version (current st i)" "(c', oper')" es'] assms(2) by simp
qed

definition sampleStore :: memory_store where
  "sampleStore = [''c'' \<mapsto> WithVersion sampleState 1]"

theorem memory_no_lost_update_witness:
  "fst (memory_step sampleCodec (None, OpClear ''c'' 1)
     (snd (memory_step sampleCodec (None, OpClear ''c'' 1) sampleStore))) \<noteq> Inr ()"
proof -
  have ok: "store_ok sampleStore" and cas: "store_cas (OpClear ''c'' 1) = (''c'', Version (current sampleStore ''c''))"
    by (simp_all add: store_ok_def sampleStore_def current_def MaxInt_def)
  have step: "memory_step sampleCodec (None, OpClear ''c'' 1) sampleStore = (Inr (), [''c'' \<mapsto> WithVersion EmptyState 2])"
    by (simp add: sampleStore_def ClearState_def bind_def NextConversationVersion_def MaxInt_def go_add_exact go_int_def)
  have "fst (memory_step sampleCodec (None, OpClear ''c'' 1)
    (fold (\<lambda>e st. snd (memory_step sampleCodec e st)) [] [''c'' \<mapsto> WithVersion EmptyState 2])) \<noteq> Inr ()"
    by (rule conjunct2 [OF memory_no_lost_update [OF ok cas, where es = "[]" and C = sampleCodec and c = None],
          rule_format, where oper' = "OpClear ''c'' 1" and es' = "[]"])
      (use step in \<open>simp_all del: memory_step.simps\<close>)
  then show ?thesis unfolding step by simp
qed

text \<open>
  C20. A committed state is what the next load returns: the version is the expected one plus one, the
  segments and artifacts are copies of the checkpoint projection of the state after the deltas,
  and no other conversation changes. The hypotheses are those of the codec's round trip.
\<close>

theorem CommitState_LoadState:
  assumes commit: "fst (CommitState C i v ds st c) = Inr st'" and ok: "store_ok st" "conversation_ok (current st i)"
    and json: "json_lossless C"
    and leaf: "\<And>a p. ApplyDeltas (current st i) ds = Inr a \<Longrightarrow>
      ProjectCheckpoint (CodecEnv C) (CodecPayloadDigest C) (CodecOpaque C) a = Inr p \<Longrightarrow>
      clone_stable (ArtifactMap a) \<and> leaf_lossless C p"
  shows "\<exists>applied proj s. ApplyDeltas (current st i) ds = Inr applied \<and>
     ProjectCheckpoint (CodecEnv C) (CodecPayloadDigest C) (CodecOpaque C) applied = Inr proj \<and>
     run (LoadState st' i) = Inr s \<and> Version s = v + 1 \<and>
     map_of (Segments s) = map_option cloneMessageSlice \<circ> map_of (Segments proj) \<and>
     map_of (ArtifactMap s) = map_option ContextArtifact_Clone \<circ> map_of (ArtifactMap proj) \<and>
     (\<forall>j. j \<noteq> i \<longrightarrow> st' j = st j)"
proof -
  from commit obtain c' where c': "CommitState C i v ds st c = (Inr st', c')" by (cases "CommitState C i v ds st c") auto
  from CommitState_Inr [OF c' ok(1)] obtain applied proj wire stored where ap: "ApplyDeltas (current st i) ds = Inr applied"
    and pr: "ProjectCheckpoint (CodecEnv C) (CodecPayloadDigest C) (CodecOpaque C) applied = Inr proj"
    and enc: "Encode C proj = Inr wire" and dec: "Decode C wire = Inr stored" and st': "st' = st(i \<mapsto> WithVersion stored (v + 1))"
    by blast
  have ap_ok: "conversation_ok applied" using ApplyDeltas_ok [OF ap ok(2)] by simp
  note leaf' = leaf [OF ap pr]
  from ProjectCheckpoint_ok [OF pr ap_ok conjunct1 [OF leaf']] Encode_Decode [OF enc _ _ conjunct2 [OF leaf'] json] dec
  have same: "same_state stored proj" by auto
  have "run (LoadState st' i) = Inr (AllSegmentsSnapshot (WithVersion stored (v + 1)))"
    by (simp add: run_def LoadState_def bind_def st')
  moreover have "map_of (Segments (AllSegmentsSnapshot (WithVersion stored (v + 1)))) = map_option cloneMessageSlice \<circ> map_of (Segments proj)"
    using same by (auto simp: same_state_def AllSegmentsSnapshot_def WithVersion_def map_of_map)
  moreover have "map_of (ArtifactMap (AllSegmentsSnapshot (WithVersion stored (v + 1)))) = map_option ContextArtifact_Clone \<circ> map_of (ArtifactMap proj)"
    using same by (auto simp: same_state_def AllSegmentsSnapshot_def WithVersion_def map_of_cloneArtifactMap)
  ultimately show ?thesis using ap pr by (auto simp: st' AllSegmentsSnapshot_def WithVersion_def)
qed

theorem CommitState_LoadState_witness:
  "\<exists>s. run (LoadState [''c'' \<mapsto> WithVersion sampleState 1] ''c'') = Inr s \<and> Version s = 1"
proof -
  let ?st = "[''c'' \<mapsto> WithVersion sampleState 1]"
  have empty: "store_ok Map.empty" "current Map.empty ''c'' = EmptyState" "conversation_ok EmptyState"
    by (simp_all add: store_ok_def current_def conversation_ok_def EmptyState_def)
  have chain: "ProjectCheckpoint (CodecEnv sampleCodec) (CodecPayloadDigest sampleCodec) (CodecOpaque sampleCodec) sampleState = Inr sampleState"
    "Encode sampleCodec sampleState = Inr ''{wire}''" "Decode sampleCodec ''{wire}'' = Inr sampleState" by code_simp+
  have "sampleDeltas \<noteq> []" by (simp add: sampleDeltas_def)
  then have "fst (CommitState sampleCodec ''c'' 0 sampleDeltas Map.empty None) = Inr ?st"
    by (simp add: CommitState_def bind_def sample_ApplyDeltas chain NextConversationVersion_def MaxInt_def
        EmptyState_def [THEN arg_cong [of _ _ Version]] go_add_exact go_int_def)
  from CommitState_LoadState [OF this] empty chain sampleCodec_lossless sampleState_ok sample_ApplyDeltas
  show ?thesis by fastforce
qed

end
