(* ===== verification/Redis_Store.thy ===== *)
theory Redis_Store
  imports State_Store Decimal
begin

text \<open>
  The Redis conversation store (\<^verbatim>\<open>adapters/store/redis\<close>): key layout, the three Lua scripts with their
  decimal revision arithmetic, expiry and the Go operations around them. A script is one atomic
  step of the server; a write a script made before it returned an error stays. Redis itself is
  a map of strings with the set of keys that carry a time to live; that time running out is an
  event of the environment.
\<close>

subsection \<open>Revision arithmetic\<close>

definition maxRevision :: string where
  "maxRevision = ''9223372036854775807''"

text \<open>
  The loop of \<^verbatim>\<open>nextRevision\<close>: the digits that are left, last one first, and the suffix.
  \<^verbatim>\<open>tonumber\<close> of anything but a digit is nil, and comparing nil is a script error.
\<close>

fun carry :: "string \<Rightarrow> string \<Rightarrow> string + string" where
  "carry [] suff = Inr (CHR ''1'' # suff)"
| "carry (ch # cs) suff =
     (case digit_value ch of
        None \<Rightarrow> Inl ''attempt to compare nil with number''
      | Some d \<Rightarrow> if d < 9 then Inr (rev cs @ [char_of (48 + (d + 1))] @ suff) else carry cs (CHR ''0'' # suff))"

definition nextRevision :: "string \<Rightarrow> string + string" where
  "nextRevision value = (if value = maxRevision then Inl ''VERSION_EXHAUSTED'' else carry (rev value) [])"

subsection \<open>The server and its scripts\<close>

record redisDB =
  RVals :: "string \<rightharpoonup> string"
  RVolatile :: "string \<Rightarrow> bool"

definition MSET2 :: "string \<Rightarrow> string \<Rightarrow> string \<Rightarrow> string \<Rightarrow> redisDB \<Rightarrow> redisDB" where
  "MSET2 k1 v1 k2 v2 db = \<lparr>RVals = (RVals db)(k1 \<mapsto> v1, k2 \<mapsto> v2), RVolatile = (RVolatile db)(k1 := False, k2 := False)\<rparr>"

definition PEXPIRE :: "string \<Rightarrow> redisDB \<Rightarrow> redisDB" where
  "PEXPIRE k db = db\<lparr>RVolatile := (RVolatile db)(k := True)\<rparr>"

text \<open>\<open>acl\<close> says which commands \<^verbatim>\<open>redis.acl_check_cmd\<close> allows the caller on its keys.\<close>

definition checkWrites :: "(string \<Rightarrow> bool) \<Rightarrow> int \<Rightarrow> bool" where
  "checkWrites acl ttl \<longleftrightarrow> acl ''MSET'' \<and> (ttl > 0 \<longrightarrow> acl ''PEXPIRE'')"

definition luaState ::
  "(string \<Rightarrow> bool) \<Rightarrow> string \<Rightarrow> string \<Rightarrow> string \<Rightarrow> redisDB \<Rightarrow> (string + string \<times> string option) \<times> redisDB" where
  "luaState acl k1 k2 mode db =
     (let cur = (case RVals db k1 of None \<Rightarrow> ''0'' | Some v \<Rightarrow> v); data = RVals db k2 in
      if cur = ''0'' \<and> data \<noteq> None then (Inl ''MISSING_REVISION'', db)
      else if cur \<noteq> ''0'' \<and> data = None then
        if mode \<noteq> ''1'' then (Inl ''MISSING_PAYLOAD'', db)
        else if cur = maxRevision then (Inl ''VERSION_EXHAUSTED'', db)
        else if \<not> checkWrites acl 0 then (Inl ''CHECKPOINT_WRITE_DENIED'', db)
        else (case nextRevision cur of
                Inl e \<Rightarrow> (Inl e, db)
              | Inr n \<Rightarrow> (Inr (n, Some []), MSET2 k1 n k2 [] db))
      else (Inr (cur, data), db))"

definition luaLoad ::
  "(string \<Rightarrow> bool) \<Rightarrow> string \<Rightarrow> string \<Rightarrow> string \<Rightarrow> redisDB \<Rightarrow> (string + string \<times> string) \<times> redisDB" where
  "luaLoad acl k1 k2 mode db =
     (case luaState acl k1 k2 mode db of
        (Inl e, db') \<Rightarrow> (Inl e, db')
      | (Inr (cur, data), db') \<Rightarrow> (Inr (cur, case data of None \<Rightarrow> [] | Some d \<Rightarrow> d), db'))"

definition luaMutate ::
  "(string \<Rightarrow> bool) \<Rightarrow> string \<Rightarrow> string \<Rightarrow> string \<Rightarrow> string \<Rightarrow> string \<Rightarrow> int \<Rightarrow> redisDB \<Rightarrow> (string + unit) \<times> redisDB" where
  "luaMutate acl k1 k2 mode expected payload ttl db =
     (if \<not> checkWrites acl ttl then (Inl ''CHECKPOINT_WRITE_DENIED'', db)
      else case luaState acl k1 k2 mode db of
        (Inl e, db') \<Rightarrow> (Inl e, db')
      | (Inr (cur, data), db') \<Rightarrow>
          if cur \<noteq> expected then (Inl ''CONFLICT'', db')
          else if cur = maxRevision then (Inl ''VERSION_EXHAUSTED'', db')
          else (case nextRevision cur of
                  Inl e \<Rightarrow> (Inl e, db')
                | Inr n \<Rightarrow> (Inr (), if ttl > 0 then PEXPIRE k2 (MSET2 k1 n k2 payload db') else MSET2 k1 n k2 payload db')))"

definition luaClear ::
  "(string \<Rightarrow> bool) \<Rightarrow> string \<Rightarrow> string \<Rightarrow> string \<Rightarrow> string \<Rightarrow> redisDB \<Rightarrow> (string + unit) \<times> redisDB" where
  "luaClear acl k1 k2 mode expected db =
     (if \<not> checkWrites acl 0 then (Inl ''CHECKPOINT_WRITE_DENIED'', db)
      else case luaState acl k1 k2 mode db of
        (Inl e, db') \<Rightarrow> (Inl e, db')
      | (Inr (cur, data), db') \<Rightarrow>
          if cur \<noteq> expected then (Inl ''CONFLICT'', db')
          else if cur = maxRevision then (Inl ''VERSION_EXHAUSTED'', db')
          else (case nextRevision cur of
                  Inl e \<Rightarrow> (Inl e, db')
                | Inr n \<Rightarrow> (Inr (), MSET2 k1 n k2 [] db')))"

subsection \<open>The Go store\<close>

record RedisConfig =
  KeyPrefix :: string
  TTL :: int

definition conversationKey :: "string \<Rightarrow> string \<Rightarrow> string" where
  "conversationKey prefix i = ''contexty:checkpoint:'' @ bytesToHex prefix @ '':{c'' @ bytesToHex i @ ''}''"

definition verKey :: "string \<Rightarrow> string \<Rightarrow> string" where
  "verKey prefix i = conversationKey prefix i @ '':ver''"

definition dataKey :: "string \<Rightarrow> string \<Rightarrow> string" where
  "dataKey prefix i = conversationKey prefix i @ '':data''"

definition ttlMilliseconds :: "int \<Rightarrow> int" where
  "ttlMilliseconds ttl =
     (let milliseconds = go_div ttl 1000000 in if go_mod ttl 1000000 > 0 then go_add milliseconds 1 else milliseconds)"

definition expiryMode :: "int \<Rightarrow> string" where
  "expiryMode ttl = (if ttl > 0 then ''1'' else ''0'')"

definition HasSuffix :: "string \<Rightarrow> string \<Rightarrow> bool" where
  "HasSuffix s t \<longleftrightarrow> length t \<le> length s \<and> drop (length s - length t) s = t"

definition isRedisConflict :: "string \<Rightarrow> bool" where
  "isRedisConflict msg \<longleftrightarrow> msg = ''CONFLICT'' \<or> HasSuffix msg '' CONFLICT''"

text \<open>The error of a script, as the store reports it.\<close>

definition stateScriptError :: "string \<Rightarrow> go_error" where
  "stateScriptError msg =
     (if isRedisConflict msg then ErrConversationVersionConflict
      else if HasSuffix msg ''VERSION_EXHAUSTED'' then ErrConversationVersionExhausted
      else if HasSuffix msg ''MISSING_PAYLOAD'' \<or> HasSuffix msg ''MISSING_REVISION'' then ErrUnavailable
      else HostError msg)"

definition Redis_LoadState ::
  "ConversationCodec \<Rightarrow> RedisConfig \<Rightarrow> (string \<Rightarrow> bool) \<Rightarrow> string \<Rightarrow> redisDB \<Rightarrow> ConversationState result \<times> redisDB" where
  "Redis_LoadState C cfg acl i db =
     (case luaLoad acl (verKey (KeyPrefix cfg) i) (dataKey (KeyPrefix cfg) i) (expiryMode (TTL cfg)) db of
        (Inl msg, db') \<Rightarrow> (Inl (stateScriptError msg), db')
      | (Inr (vstr, raw), db') \<Rightarrow>
          (case ParseInt vstr of
             None \<Rightarrow> (Inl ErrUnavailable, db')
           | Some version \<Rightarrow>
               if version < 0 then (Inl ErrUnavailable, db')
               else if raw = [] then (Inr (WithVersion EmptyState version), db')
               else (bind_res (Decode C raw) (\<lambda>snap. Inr (WithVersion snap version)), db')))"

text \<open>What \<^verbatim>\<open>mutate\<close> computes between its two scripts.\<close>

definition Redis_prepare ::
  "ConversationCodec \<Rightarrow> int \<Rightarrow> ConversationDelta list \<Rightarrow> ConversationState \<Rightarrow> string result" where
  "Redis_prepare C expectedVersion deltas cur =
     (if Version cur \<noteq> expectedVersion then Inl ErrConversationVersionConflict
      else bind_res (ApplyDeltas cur deltas) (\<lambda>next.
      bind_res (ProjectCheckpoint (CodecEnv C) (CodecPayloadDigest C) (CodecOpaque C) next) (\<lambda>next.
      bind_res (NextConversationVersion expectedVersion) (\<lambda>nextVersion.
      Encode C (WithVersion next nextVersion)))))"

text \<open>
  \<open>others\<close> is what the other clients and the clock do to the server between the two scripts of
  a commit.
\<close>

definition Redis_CommitState ::
  "ConversationCodec \<Rightarrow> RedisConfig \<Rightarrow> (string \<Rightarrow> bool) \<Rightarrow> string \<Rightarrow> int \<Rightarrow> ConversationDelta list \<Rightarrow>
   (redisDB \<Rightarrow> redisDB) \<Rightarrow> redisDB \<Rightarrow> unit result \<times> redisDB" where
  "Redis_CommitState C cfg acl i expectedVersion deltas others db =
     (if deltas = [] then (Inl ErrEmptyCheckpointCommit, db)
      else case Redis_LoadState C cfg acl i db of
        (Inl e, db') \<Rightarrow> (Inl e, db')
      | (Inr cur, db') \<Rightarrow>
          (case Redis_prepare C expectedVersion deltas cur of
             Inl e \<Rightarrow> (Inl e, db')
           | Inr encoded \<Rightarrow>
               (case luaMutate acl (verKey (KeyPrefix cfg) i) (dataKey (KeyPrefix cfg) i) (expiryMode (TTL cfg))
                       (FormatInt expectedVersion) encoded (ttlMilliseconds (TTL cfg)) (others db') of
                  (Inl msg, db'') \<Rightarrow> (Inl (stateScriptError msg), db'')
                | (Inr _, db'') \<Rightarrow> (Inr (), db''))))"

definition Redis_ClearState ::
  "RedisConfig \<Rightarrow> (string \<Rightarrow> bool) \<Rightarrow> string \<Rightarrow> int \<Rightarrow> redisDB \<Rightarrow> unit result \<times> redisDB" where
  "Redis_ClearState cfg acl i expectedVersion db =
     (case luaClear acl (verKey (KeyPrefix cfg) i) (dataKey (KeyPrefix cfg) i) (expiryMode (TTL cfg))
             (FormatInt expectedVersion) db of
        (Inl msg, db') \<Rightarrow> (Inl (stateScriptError msg), db')
      | (Inr _, db') \<Rightarrow> (Inr (), db'))"

subsection \<open>The carry is the successor\<close>

lemma carry_dec: "carry (rev (dec n)) suff = Inr (dec (Suc n) @ suff)"
proof (induction n arbitrary: suff rule: dec.induct)
  case (1 n)
  show ?case
  proof (cases "n < 10")
    case True
    then show ?thesis
    proof (cases "n = 9")
      case True
      then show ?thesis
        using digit_value_char [of 9] by (simp add: dec.simps [of 9] dec.simps [of 10] dec.simps [of "Suc 0"] digit_chars)
    qed (simp add: dec.simps [of n] dec.simps [of "Suc n"])
  next
    case False
    have "dec (Suc n) = dec (Suc n div 10) @ [char_of (48 + Suc n mod 10)]" using False by (simp add: dec.simps [of "Suc n"])
    moreover have "Suc n div 10 = (if n mod 10 = 9 then Suc (n div 10) else n div 10)" "Suc n mod 10 = (if n mod 10 = 9 then 0 else Suc (n mod 10))"
      by (auto simp: mod_Suc div_Suc)
    moreover have "rev (dec n) = char_of (48 + n mod 10) # rev (dec (n div 10))" using False by (simp add: dec.simps [of n])
    moreover have "n mod 10 \<noteq> 9 \<Longrightarrow> n mod 10 < 9" using mod_less_divisor [of 10 n] by linarith
    ultimately show ?thesis using 1 [OF False] digit_value_char [of "n mod 10"] by (simp add: digit_chars)
  qed
qed

lemma dec_max: "dec n = maxRevision \<longleftrightarrow> int n = MaxInt"
proof -
  have "dec 9223372036854775807 = maxRevision"
    by (simp add: dec.simps maxRevision_def digit_chars)
  then have "dec n = maxRevision \<longleftrightarrow> n = 9223372036854775807" by (metis dec_inject)
  then show ?thesis by (simp add: MaxInt_def)
qed

lemma nextRevision_dec: "int n < MaxInt \<Longrightarrow> nextRevision (dec n) = Inr (dec (Suc n))"
  using carry_dec [of n "[]"] by (auto simp: nextRevision_def dec_max)

subsection \<open>Keys\<close>

lemma bytesToHex_inject [simp]: "bytesToHex a = bytesToHex b \<longleftrightarrow> a = b"
  by (metis hexPairs_bytesToHex option.inject)

lemma hex_digit_not_colon: "n < 16 \<Longrightarrow> hex_digit n \<noteq> CHR '':''"
proof
  assume "n < 16" "hex_digit n = CHR '':''"
  moreover have "hex_value (CHR '':'') = None" by code_simp
  ultimately show False using hex_value_hex_digit by fastforce
qed

lemma bytesToHex_no_colon: "CHR '':'' \<notin> set (bytesToHex bs)"
proof (induction bs)
  case (Cons b bs)
  have "of_char b div 16 < (16 :: nat)" "of_char b mod 16 < (16 :: nat)" by (rule less_mult_imp_div_less) simp_all
  from this [THEN hex_digit_not_colon] Cons.IH show ?case by auto
qed simp

lemma append_delim_inject:
  assumes "x \<notin> set as" "x \<notin> set bs" "as @ x # cs = bs @ x # ds"
  shows "as = bs \<and> cs = ds"
  using assms
proof (induction as arbitrary: bs)
  case Nil
  then show ?case by (cases bs) auto
next
  case (Cons a as)
  then show ?case by (cases bs) auto
qed

lemma conversationKey_inject [simp]: "conversationKey p i = conversationKey q j \<longleftrightarrow> p = q \<and> i = j"
proof
  assume "conversationKey p i = conversationKey q j"
  then have "bytesToHex p @ CHR '':'' # ''{c'' @ bytesToHex i @ ''}'' = bytesToHex q @ CHR '':'' # ''{c'' @ bytesToHex j @ ''}''"
    by (simp add: conversationKey_def)
  from append_delim_inject [OF bytesToHex_no_colon bytesToHex_no_colon this] show "p = q \<and> i = j" by simp
qed simp

lemma redis_key_inject [simp]:
  "verKey p i = verKey q j \<longleftrightarrow> p = q \<and> i = j" "dataKey p i = dataKey q j \<longleftrightarrow> p = q \<and> i = j"
  by (simp_all add: verKey_def dataKey_def)

lemma redis_key_distinct [simp]: "verKey p i \<noteq> dataKey q j" "dataKey q j \<noteq> verKey p i"
proof -
  have "last (verKey p i) \<noteq> last (dataKey q j)" by (simp add: verKey_def dataKey_def)
  then show "verKey p i \<noteq> dataKey q j" "dataKey q j \<noteq> verKey p i" by metis+
qed

subsection \<open>Events and what a client sees\<close>

datatype redis_event =
    EvLoad "string \<Rightarrow> bool" string string
  | EvMutate "string \<Rightarrow> bool" string string int string int
  | EvClear "string \<Rightarrow> bool" string string int
  | EvExpire string

definition reply :: "(string + 'a) \<times> redisDB \<Rightarrow> unit result \<times> redisDB" where
  "reply r = (case r of (Inl msg, db) \<Rightarrow> (Inl (stateScriptError msg), db) | (Inr _, db) \<Rightarrow> (Inr (), db))"

fun redis_step :: "string \<Rightarrow> redis_event \<Rightarrow> redisDB \<Rightarrow> unit result \<times> redisDB" where
  "redis_step P (EvLoad acl mode i) db = reply (luaLoad acl (verKey P i) (dataKey P i) mode db)"
| "redis_step P (EvMutate acl mode i expected payload ttl) db =
     reply (luaMutate acl (verKey P i) (dataKey P i) mode (FormatInt expected) payload ttl db)"
| "redis_step P (EvClear acl mode i expected) db =
     reply (luaClear acl (verKey P i) (dataKey P i) mode (FormatInt expected) db)"
| "redis_step P (EvExpire k) db =
     (Inr (), if RVolatile db k then db\<lparr>RVals := (RVals db)(k := None), RVolatile := (RVolatile db)(k := False)\<rparr> else db)"

fun redis_cas :: "redis_event \<Rightarrow> (string \<times> int) option" where
  "redis_cas (EvMutate acl mode i expected payload ttl) = Some (i, expected)"
| "redis_cas (EvClear acl mode i expected) = Some (i, expected)"
| "redis_cas _ = None"

text \<open>
  The version and payload of a conversation. A payload that expired counts as cleared: the next
  script that touches the conversation writes the advanced revision with an empty payload.
\<close>

definition redis_view :: "string \<Rightarrow> redisDB \<Rightarrow> string \<Rightarrow> int \<times> string" where
  "redis_view P db i =
     (case RVals db (verKey P i) of
        None \<Rightarrow> (0, [])
      | Some v \<Rightarrow> let r = (case ParseInt v of None \<Rightarrow> 0 | Some r \<Rightarrow> r) in
          (case RVals db (dataKey P i) of None \<Rightarrow> (r + 1, []) | Some d \<Rightarrow> (r, d)))"

definition redis_ok :: "string \<Rightarrow> redisDB \<Rightarrow> bool" where
  "redis_ok P db \<longleftrightarrow> (\<forall>i. \<not> RVolatile db (verKey P i) \<and>
     (case RVals db (verKey P i) of None \<Rightarrow> RVals db (dataKey P i) = None
      | Some v \<Rightarrow> \<exists>n. v = dec n \<and> 0 < n \<and> int n \<le> MaxInt))"

lemma redis_ok_cases:
  assumes "redis_ok P db"
  obtains (fresh) "RVals db (verKey P i) = None" "RVals db (dataKey P i) = None"
  | (stored) n where "RVals db (verKey P i) = Some (dec n)" "0 < n" "int n \<le> MaxInt"
  using assms by (cases "RVals db (verKey P i)") (auto simp: redis_ok_def dest: spec [of _ i] split: option.splits)

lemma redis_ok_MSET2:
  "redis_ok P db \<Longrightarrow> 0 < n \<Longrightarrow> int n \<le> MaxInt \<Longrightarrow> redis_ok P (MSET2 (verKey P i) (dec n) (dataKey P i) d db)"
  unfolding redis_ok_def MSET2_def by (auto cong: option.case_cong)

lemma redis_view_MSET2:
  "int n \<le> MaxInt \<Longrightarrow> redis_view P (MSET2 (verKey P i) (dec n) (dataKey P i) d db) j = (if j = i then (int n, d) else redis_view P db j)"
  by (simp add: redis_view_def MSET2_def ParseInt_dec cong: option.case_cong)

lemma redis_PEXPIRE [simp]:
  "redis_ok P (PEXPIRE (dataKey P i) db) = redis_ok P db" "redis_view P (PEXPIRE (dataKey P i) db) = redis_view P db"
  by (simp_all add: redis_ok_def redis_view_def PEXPIRE_def fun_eq_iff cong: option.case_cong)

lemma luaState_facts:
  assumes ok: "redis_ok P db" and run: "luaState acl (verKey P i) (dataKey P i) mode db = (r, db')"
  shows "redis_ok P db'" "redis_view P db' = redis_view P db"
    and "r = Inr (cur, data) \<Longrightarrow> \<exists>n. cur = dec n \<and> int n \<le> MaxInt \<and> redis_view P db i = (int n, case data of None \<Rightarrow> [] | Some d \<Rightarrow> d)"
proof -
  consider (fresh) "RVals db (verKey P i) = None" "RVals db (dataKey P i) = None"
    | (present) n d where "RVals db (verKey P i) = Some (dec n)" "0 < n" "int n \<le> MaxInt" "RVals db (dataKey P i) = Some d"
    | (expired) n where "RVals db (verKey P i) = Some (dec n)" "0 < n" "int n \<le> MaxInt" "RVals db (dataKey P i) = None"
    by (cases rule: redis_ok_cases [OF ok, of i]) (cases "RVals db (dataKey P i)", auto)
  then have "redis_ok P db' \<and> redis_view P db' = redis_view P db \<and> (r = Inr (cur, data) \<longrightarrow>
      (\<exists>n. cur = dec n \<and> int n \<le> MaxInt \<and> redis_view P db i = (int n, case data of None \<Rightarrow> [] | Some d \<Rightarrow> d)))"
  proof cases
    case fresh
    then have "db' = db" "r = Inr (''0'', None)" using run by (simp_all add: luaState_def Let_def)
    moreover have "dec 0 = ''0''" using dec_zero [of 0] by simp
    ultimately show ?thesis using fresh ok by (auto simp: redis_view_def MaxInt_def intro!: exI [of _ 0])
  next
    case present
    then have "db' = db" "r = Inr (dec n, Some d)" using run by (simp_all add: luaState_def Let_def dec_zero)
    then show ?thesis using present ok by (auto simp: redis_view_def ParseInt_dec)
  next
    case expired
    then have cur: "dec n \<noteq> ''0''" by (simp add: dec_zero)
    show ?thesis
    proof (cases "mode = ''1'' \<and> int n < MaxInt \<and> checkWrites acl 0")
      case True
      then have "db' = MSET2 (verKey P i) (dec (Suc n)) (dataKey P i) [] db" "r = Inr (dec (Suc n), Some [])"
        using run expired cur by (simp_all add: luaState_def Let_def dec_max nextRevision_dec)
      moreover have "redis_view P db i = (int (Suc n), [])" using expired by (simp add: redis_view_def ParseInt_dec)
      moreover have "int (Suc n) \<le> MaxInt" using True by simp
      ultimately show ?thesis using ok by (auto simp: redis_ok_MSET2 redis_view_MSET2 simp del: of_nat_Suc)
    next
      case False
      then have "db' = db" "\<forall>x. r \<noteq> Inr x"
        using run expired cur by (auto simp: luaState_def Let_def dec_max split: if_splits)
      then show ?thesis using ok by simp
    qed
  qed
  then show "redis_ok P db'" "redis_view P db' = redis_view P db"
    "r = Inr (cur, data) \<Longrightarrow> \<exists>n. cur = dec n \<and> int n \<le> MaxInt \<and> redis_view P db i = (int n, case data of None \<Rightarrow> [] | Some d \<Rightarrow> d)"
    by blast+
qed

text \<open>The compare-and-set scripts: nothing changes for anyone, or exactly this conversation advances.\<close>

lemma luaMutate_facts:
  assumes ok: "redis_ok P db" and run: "luaMutate acl (verKey P i) (dataKey P i) mode (FormatInt v) payload ttl db = (r, db')"
  shows "redis_ok P db' \<and> (case r of Inl _ \<Rightarrow> redis_view P db' = redis_view P db
    | Inr _ \<Rightarrow> fst (redis_view P db i) = v \<and> redis_view P db' = (redis_view P db)(i := (v + 1, payload)))"
proof (cases "checkWrites acl ttl")
  case True
  obtain r1 db1 where st: "luaState acl (verKey P i) (dataKey P i) mode db = (r1, db1)" by force
  note facts = luaState_facts [OF ok st]
  show ?thesis
  proof (cases r1)
    case (Inr cd)
    obtain cur data where cd: "cd = (cur, data)" by force
    from facts(3) [of cur data] obtain n where n: "cur = dec n" "int n \<le> MaxInt" "fst (redis_view P db i) = int n"
      by (auto simp: Inr cd)
    show ?thesis
    proof (cases "v = int n \<and> int n < MaxInt")
      case v: True
      then have "db' = (if ttl > 0 then PEXPIRE (dataKey P i) (MSET2 (verKey P i) (dec (Suc n)) (dataKey P i) payload db1)
          else MSET2 (verKey P i) (dec (Suc n)) (dataKey P i) payload db1)" "r = Inr ()"
        using run True st Inr cd n by (auto simp: luaMutate_def nextRevision_dec dec_max FormatInt_eq_dec [THEN iffD2] split: if_splits)
      moreover have "int (Suc n) \<le> MaxInt" using v by simp
      ultimately show ?thesis using facts(1,2) v n
        by (auto simp: redis_ok_MSET2 redis_view_MSET2 fun_eq_iff simp del: of_nat_Suc)
    next
      case False
      then have "db' = db1" "\<forall>x. r \<noteq> Inr x"
        using run True st Inr cd n FormatInt_eq_dec [of v n] dec_max [of n] by (auto simp: luaMutate_def split: if_splits)
      then show ?thesis using facts(1,2) by (cases r) auto
    qed
  qed (use run True st facts in \<open>auto simp: luaMutate_def\<close>)
qed (use assms in \<open>auto simp: luaMutate_def\<close>)

lemma luaClear_Mutate:
  "luaClear acl k1 k2 mode expected db = luaMutate acl k1 k2 mode expected [] 0 db"
  by (simp only: luaClear_def luaMutate_def less_irrefl if_False)

lemma luaLoad_facts:
  assumes "redis_ok P db" "luaLoad acl (verKey P i) (dataKey P i) mode db = (r, db')"
  shows "redis_ok P db' \<and> redis_view P db' = redis_view P db \<and>
    (\<forall>cur raw. r = Inr (cur, raw) \<longrightarrow> (\<exists>n. cur = dec n \<and> int n \<le> MaxInt \<and> redis_view P db i = (int n, raw)))"
proof -
  obtain r1 db1 where st: "luaState acl (verKey P i) (dataKey P i) mode db = (r1, db1)" by force
  note facts = luaState_facts [OF assms(1) st]
  show ?thesis
  proof (cases r1)
    case (Inr cd)
    then show ?thesis using facts(1,2) facts(3) [of "fst cd" "snd cd"] assms(2) st
      by (cases cd) (auto simp: luaLoad_def)
  qed (use facts(1,2) assms(2) st in \<open>auto simp: luaLoad_def\<close>)
qed

lemma redis_view_expire:
  assumes "redis_ok P db" "RVolatile db k"
  defines "db' \<equiv> db\<lparr>RVals := (RVals db)(k := None), RVolatile := (RVolatile db)(k := False)\<rparr>"
  shows "redis_ok P db'" "redis_view P db' i = redis_view P db i \<or> fst (redis_view P db i) < fst (redis_view P db' i)"
proof -
  have ver: "k \<noteq> verKey P j" for j using assms by (auto simp: redis_ok_def)
  have vals: "RVals db' (verKey P j) = RVals db (verKey P j)" for j using ver [of j] by (auto simp: db'_def)
  have vol: "RVolatile db' (verKey P j) = RVolatile db (verKey P j)" for j using ver [of j] by (auto simp: db'_def)
  have data: "RVals db (dataKey P j) = None \<Longrightarrow> RVals db' (dataKey P j) = None" for j by (simp add: db'_def)
  show "redis_ok P db'"
  proof (unfold redis_ok_def vals vol, rule allI)
    fix j
    show "\<not> RVolatile db (verKey P j) \<and> (case RVals db (verKey P j) of None \<Rightarrow> RVals db' (dataKey P j) = None
      | Some v \<Rightarrow> \<exists>n. v = dec n \<and> 0 < n \<and> int n \<le> MaxInt)"
      using spec [OF assms(1) [unfolded redis_ok_def], of j] data [of j] by (auto split: option.splits)
  qed
  show "redis_view P db' i = redis_view P db i \<or> fst (redis_view P db i) < fst (redis_view P db' i)"
    unfolding redis_view_def vals by (auto simp: db'_def Let_def split: option.splits)
qed

text \<open>Every event, as a step of the view.\<close>

lemma redis_step_cas:
  assumes "redis_ok P db" "redis_cas e = Some (i, v)" "redis_step P e db = (r, db')"
  shows "redis_ok P db' \<and> (case r of Inl _ \<Rightarrow> redis_view P db' = redis_view P db
    | Inr _ \<Rightarrow> fst (redis_view P db i) = v \<and> (\<exists>payload. redis_view P db' = (redis_view P db)(i := (v + 1, payload))))"
proof -
  from assms(2) obtain acl mode payload ttl where e: "redis_step P e db =
      reply (luaMutate acl (verKey P i) (dataKey P i) mode (FormatInt v) payload ttl db)"
    by (cases e) (auto simp: luaClear_Mutate)
  obtain r1 db1 where run: "luaMutate acl (verKey P i) (dataKey P i) mode (FormatInt v) payload ttl db = (r1, db1)" by force
  show ?thesis
    using luaMutate_facts [OF assms(1) run] assms(3) unfolding e run by (cases r1) (auto simp: reply_def)
qed

lemma redis_step_other:
  assumes "redis_ok P db" "redis_cas e = None" "redis_step P e db = (r, db')"
  shows "redis_ok P db' \<and> (redis_view P db' i = redis_view P db i \<or> fst (redis_view P db i) < fst (redis_view P db' i)) \<and>
    (\<forall>err. r = Inl err \<longrightarrow> redis_view P db' = redis_view P db)"
proof (cases e)
  case (EvLoad acl mode j)
  obtain r1 db1 where run: "luaLoad acl (verKey P j) (dataKey P j) mode db = (r1, db1)" by force
  show ?thesis
    using luaLoad_facts [OF assms(1) run] assms(3) unfolding EvLoad redis_step.simps run by (cases r1) (auto simp: reply_def)
next
  case (EvExpire k)
  then show ?thesis
    using assms(1,3) redis_view_expire [OF assms(1), where k = k] by (cases "RVolatile db k") auto
qed (use assms(2) in auto)

interpretation redis: occ_store "redis_ok P" "redis_view P" "redis_step P" redis_cas for P
proof unfold_locales
  fix db :: redisDB and e i
  assume ok: "redis_ok P db"
  obtain r db' where run: "redis_step P e db = (r, db')" by force
  have "redis_ok P db' \<and> (redis_view P db' i = redis_view P db i \<or> fst (redis_view P db i) < fst (redis_view P db' i))"
  proof (cases "redis_cas e")
    case None
    from redis_step_other [OF ok None run] show ?thesis by blast
  next
    case (Some iv)
    obtain j v where iv: "iv = (j, v)" by force
    show ?thesis using redis_step_cas [OF ok Some [unfolded iv] run] by (cases r; cases "i = j") auto
  qed
  then show "redis_ok P (snd (redis_step P e db))"
    "redis_view P (snd (redis_step P e db)) i = redis_view P db i \<or>
     fst (redis_view P db i) < fst (redis_view P (snd (redis_step P e db)) i)" by (simp_all add: run)
next
  fix db db' :: redisDB and e i v
  assume "redis_ok P db" "redis_cas e = Some (i, v)" "redis_step P e db = (Inr (), db')"
  from redis_step_cas [OF this] show "fst (redis_view P db i) = v \<and> fst (redis_view P db' i) = v + 1" by auto
next
  fix db :: redisDB and e i v j
  assume asm: "redis_ok P db" "redis_cas e = Some (i, v)" "j \<noteq> i"
  obtain r db' where run: "redis_step P e db = (r, db')" by force
  from redis_step_cas [OF asm(1,2) run] asm(3) show "redis_view P (snd (redis_step P e db)) j = redis_view P db j"
    by (cases r) (auto simp: run)
next
  fix db db' :: redisDB and e err
  assume asm: "redis_ok P db" "redis_step P e db = (Inl err, db')"
  show "redis_view P db' = redis_view P db"
  proof (cases "redis_cas e")
    case None
    from redis_step_other [OF asm(1) None asm(2)] show ?thesis by blast
  next
    case (Some iv)
    then show ?thesis using redis_step_cas [OF asm(1) _ asm(2)] by (cases iv) auto
  qed
qed

subsection \<open>The Go operations\<close>

lemma luaState_idem:
  assumes ok: "redis_ok P db" and run: "luaState acl (verKey P i) (dataKey P i) mode db = (Inr (cur, data), db')"
  shows "luaState acl (verKey P i) (dataKey P i) mode db' = (Inr (cur, data), db')"
  using ok
proof (cases rule: redis_ok_cases [where i = i])
  case (stored n)
  note n = this
  show ?thesis
  proof (cases "db' = db")
  case False
  with run n have "int n < MaxInt"
    by (auto simp: luaState_def Let_def dec_zero dec_max split: if_splits)
  then have "db' = MSET2 (verKey P i) (dec (Suc n)) (dataKey P i) [] db" "cur = dec (Suc n)" "data = Some []"
    using run False n by (auto simp: luaState_def Let_def dec_zero nextRevision_dec split: if_splits)
  then show ?thesis by (simp add: luaState_def Let_def MSET2_def dec_zero)
  qed (use run in simp)
qed (use run in \<open>simp_all add: luaState_def Let_def\<close>)

lemma Redis_LoadState_view:
  assumes ok: "redis_ok (KeyPrefix cfg) db" and run: "luaState acl (verKey (KeyPrefix cfg) i) (dataKey (KeyPrefix cfg) i) (expiryMode (TTL cfg)) db = (Inr cd, db')"
  shows "Redis_LoadState C cfg acl i db =
    (case redis_view (KeyPrefix cfg) db i of (v, raw) \<Rightarrow>
       if raw = [] then Inr (WithVersion EmptyState v) else bind_res (Decode C raw) (\<lambda>snap. Inr (WithVersion snap v)), db')"
proof -
  obtain cur data where cd: "cd = (cur, data)" by force
  from luaState_facts(3) [OF ok run] obtain n where n: "cur = dec n" "int n \<le> MaxInt"
    "redis_view (KeyPrefix cfg) db i = (int n, case data of None \<Rightarrow> [] | Some d \<Rightarrow> d)" by (auto simp: cd)
  then show ?thesis using run by (simp add: Redis_LoadState_def luaLoad_def cd ParseInt_dec split: option.split)
qed

lemma Redis_LoadState_Inr:
  assumes "redis_ok (KeyPrefix cfg) db" "Redis_LoadState C cfg acl i db = (Inr cur, db')"
  shows "\<exists>cd. luaState acl (verKey (KeyPrefix cfg) i) (dataKey (KeyPrefix cfg) i) (expiryMode (TTL cfg)) db = (Inr cd, db')"
  using assms(2) unfolding Redis_LoadState_def luaLoad_def
  by (cases "luaState acl (verKey (KeyPrefix cfg) i) (dataKey (KeyPrefix cfg) i) (expiryMode (TTL cfg)) db")
    (auto split: sum.splits prod.splits option.splits if_splits)

lemma luaMutate_luaState:
  assumes "luaMutate acl k1 k2 mode expected payload ttl db = (Inr u, db')"
  shows "\<exists>cur data db1. luaState acl k1 k2 mode db = (Inr (cur, data), db1) \<and>
    (luaState acl k1 k2 mode db1 = (Inr (cur, data), db1) \<longrightarrow> luaMutate acl k1 k2 mode expected payload ttl db1 = (Inr u, db'))"
  using assms unfolding luaMutate_def
  by (cases "luaState acl k1 k2 mode db") (auto split: sum.splits prod.splits if_splits)

lemma Version_load:
  "(case p of (v, raw) \<Rightarrow> if raw = [] then Inr (WithVersion EmptyState v) else bind_res (Decode C raw) (\<lambda>snap. Inr (WithVersion snap v))) = Inr cur
   \<Longrightarrow> Version cur = fst p"
  by (auto simp: bind_res_Inr_iff split: prod.splits if_splits)

subsection \<open>Properties\<close>

text \<open>
  C26. A Redis commit is atomic although it takes two round trips: whatever the other clients and the
  clock did between the load and the write (loads, commits, clears, expiry, on any conversation),
  a commit that succeeds has the result of a commit that loads and writes without interruption
  at the moment of its write.
\<close>

theorem redis_commit_linearizable:
  assumes ok: "redis_ok (KeyPrefix cfg) db"
    and commit: "Redis_CommitState C cfg acl i v ds (fold (\<lambda>e db. snd (redis_step (KeyPrefix cfg) e db)) es) db = (Inr (), db')"
  shows "Redis_CommitState C cfg acl i v ds (\<lambda>db. db)
    (fold (\<lambda>e db. snd (redis_step (KeyPrefix cfg) e db)) es (snd (Redis_LoadState C cfg acl i db))) = (Inr (), db')"
proof -
  let ?P = "KeyPrefix cfg" and ?k1 = "verKey (KeyPrefix cfg) i" and ?k2 = "dataKey (KeyPrefix cfg) i" and ?m = "expiryMode (TTL cfg)"
  let ?run = "fold (\<lambda>e db. snd (redis_step ?P e db)) es"
  let ?lua = "luaMutate acl ?k1 ?k2 ?m (FormatInt v)"
  from commit obtain cur db1 encoded where load: "Redis_LoadState C cfg acl i db = (Inr cur, db1)"
    and prep: "Redis_prepare C v ds cur = Inr encoded" and ds: "ds \<noteq> []"
    and mut: "?lua encoded (ttlMilliseconds (TTL cfg)) (?run db1) = (Inr (), db')"
    unfolding Redis_CommitState_def by (auto split: if_splits prod.splits sum.splits)
  from Redis_LoadState_Inr [OF ok load] obtain cd where st: "luaState acl ?k1 ?k2 ?m db = (Inr cd, db1)" by blast
  note facts = luaState_facts(1,2) [OF ok st]
  have cur: "(case redis_view ?P db i of (v, raw) \<Rightarrow> if raw = [] then Inr (WithVersion EmptyState v)
      else bind_res (Decode C raw) (\<lambda>snap. Inr (WithVersion snap v))) = Inr cur"
    using Redis_LoadState_view [OF ok st, of C] load by simp
  then have "Version cur = fst (redis_view ?P db i)" by (rule Version_load)
  then have v: "v = fst (redis_view ?P db1 i)"
    using prep facts(2) by (simp add: Redis_prepare_def split: if_splits)
  have step: "redis_step ?P (EvMutate acl ?m i v encoded (ttlMilliseconds (TTL cfg))) (?run db1) = (Inr (), db')"
    using mut by (simp add: reply_def)
  have same: "redis_view ?P (?run db1) i = redis_view ?P db i"
    using redis.cas_fresh [OF facts(1) _ step, of i] v facts(2) by simp
  have ok1: "redis_ok ?P (?run db1)" by (rule redis.ok_run [OF facts(1)])
  from luaMutate_luaState [OF mut] obtain c d mid where mid: "luaState acl ?k1 ?k2 ?m (?run db1) = (Inr (c, d), mid)"
    and again: "luaState acl ?k1 ?k2 ?m mid = (Inr (c, d), mid) \<Longrightarrow> ?lua encoded (ttlMilliseconds (TTL cfg)) mid = (Inr (), db')"
    by blast
  have "Redis_LoadState C cfg acl i (?run db1) = (Inr cur, mid)"
    using Redis_LoadState_view [OF ok1 mid, of C] cur same by simp
  then show ?thesis
    using ds prep again [OF luaState_idem [OF ok1 mid]] load by (simp add: Redis_CommitState_def)
qed

text \<open>
  C5. No version of a Redis conversation is committed or cleared twice: after a successful compare-and-set
  on version \<open>v\<close>, none with the same expectation succeeds again, although payloads expire and
  revisions survive as tombstones; the version is \<open>v + 1\<close> and never decreases.
\<close>

theorem redis_updates_exclusive:
  assumes "redis_ok P db" "redis_cas e = Some (i, v)" "redis_step P e db = (Inr (), db')" "redis_cas e' = Some (i, v)"
  shows "fst (redis_view P db' i) = v + 1 \<and>
    fst (redis_view P db' i) \<le> fst (redis_view P (fold (\<lambda>e db. snd (redis_step P e db)) es db') i) \<and>
    fst (redis_step P e' (fold (\<lambda>e db. snd (redis_step P e db)) es db')) \<noteq> Inr ()"
proof -
  have ok': "redis_ok P db'" using redis.ok_step [OF assms(1), of e] assms(3) by simp
  show ?thesis
    using redis.cas_success [OF assms(1-3)] redis.versions_monotone [OF ok', of i es]
      redis.cas_exclusive [OF assms(1,2,4,3), of es] by simp
qed

text \<open>
  C27. The decimal carry of the scripts is exact on every 64-bit revision: the successor of a
  non-negative revision below the maximum is the decimal form of the number plus one, and the
  maximum is refused instead of wrapping.
\<close>

theorem nextRevision_exact:
  assumes "0 \<le> v" "v \<le> MaxInt"
  shows "nextRevision (FormatInt v) = (if v = MaxInt then Inl ''VERSION_EXHAUSTED'' else Inr (FormatInt (v + 1)))"
proof -
  obtain n where n: "v = int n" using assms(1) nonneg_int_cases by blast
  have form: "FormatInt (int n) = dec n" "FormatInt (int n + 1) = dec (Suc n)" by (simp_all add: FormatInt_def nat_add_distrib)
  show ?thesis
  proof (cases "v = MaxInt")
    case True
    then have "FormatInt v = maxRevision" using dec_max [of n] form(1) n by simp
    then show ?thesis using True by (simp add: nextRevision_def)
  next
    case False
    then show ?thesis using assms(2) by (simp add: n form nextRevision_dec)
  qed
qed

text \<open>
  A time to live is rounded up to milliseconds: the result is the least number of milliseconds
  that covers the duration, so a positive duration never becomes zero, which would mean
  persistent, and the addition does not overflow.
\<close>

theorem ttlMilliseconds_ceiling:
  assumes "0 < ttl" "go_int ttl"
  shows "0 < ttlMilliseconds ttl \<and> ttl \<le> ttlMilliseconds ttl * 1000000 \<and> (ttlMilliseconds ttl - 1) * 1000000 < ttl"
proof -
  define q r where qr: "q = ttl div 1000000" "r = ttl mod 1000000"
  have ttl: "ttl = q * 1000000 + r" "0 \<le> r" "r < 1000000" by (simp_all add: qr)
  then have q: "0 \<le> q" using assms(1) by linarith
  have "go_int (q + 1)" using assms q ttl by (simp add: go_int_def MaxInt_def)
  moreover have "go_div ttl 1000000 = q" "go_mod ttl 1000000 = r"
    using assms by (simp_all add: go_div_nonneg go_mod_nonneg go_int_def qr)
  ultimately have "ttlMilliseconds ttl = (if r > 0 then q + 1 else q)" by (simp add: ttlMilliseconds_def go_add_exact)
  then show ?thesis using ttl assms(1) by (cases "r = 0") simp_all
qed

subsection \<open>Witnesses\<close>

definition sampleConfig :: RedisConfig where
  "sampleConfig = \<lparr>KeyPrefix = ''p'', TTL = 1500000\<rparr>"

definition sampleDB :: redisDB where
  "sampleDB = MSET2 (verKey ''p'' ''c'') (dec 1) (dataKey ''p'' ''c'') []  \<lparr>RVals = Map.empty, RVolatile = (\<lambda>_. False)\<rparr>"

lemma sampleDB_ok: "redis_ok ''p'' sampleDB"
  unfolding sampleDB_def by (rule redis_ok_MSET2) (simp_all add: redis_ok_def MaxInt_def)

theorem ttlMilliseconds_ceiling_witness: "0 < ttlMilliseconds 1500000"
  using ttlMilliseconds_ceiling [of 1500000] by (simp add: go_int_def MaxInt_def)

theorem nextRevision_exact_witness: "nextRevision (FormatInt 999) = Inr (FormatInt 1000)"
  using nextRevision_exact [of 999] by (simp add: MaxInt_def)

theorem redis_updates_exclusive_witness:
  "fst (redis_step ''p'' (EvClear (\<lambda>_. True) ''1'' ''c'' 1)
     (snd (redis_step ''p'' (EvClear (\<lambda>_. True) ''1'' ''c'' 1) sampleDB))) \<noteq> Inr ()"
proof -
  let ?e = "EvClear (\<lambda>_. True) ''1'' ''c'' 1"
  have "fst (redis_step ''p'' ?e sampleDB) = Inr ()"
    by code_simp
  then have "redis_step ''p'' ?e sampleDB = (Inr (), snd (redis_step ''p'' ?e sampleDB))" by (metis prod.collapse)
  from redis_updates_exclusive [OF sampleDB_ok _ this, of "''c''" 1 ?e "[]"] show ?thesis by simp
qed

definition sampleRedisCodec :: ConversationCodec where
  "sampleRedisCodec = sampleCodec\<lparr>CodecMarshalWire := (\<lambda>_. Inr ''{wire}'')\<rparr>"

theorem redis_commit_linearizable_witness:
  "fst (Redis_CommitState sampleRedisCodec sampleConfig (\<lambda>_. True) ''c'' 1 sampleDeltas (\<lambda>db. db)
     (fold (\<lambda>e db. snd (redis_step (KeyPrefix sampleConfig) e db)) [EvLoad (\<lambda>_. True) ''1'' ''other'']
        (snd (Redis_LoadState sampleRedisCodec sampleConfig (\<lambda>_. True) ''c'' sampleDB)))) = Inr ()"
proof -
  let ?run = "Redis_CommitState sampleRedisCodec sampleConfig (\<lambda>_. True) ''c'' 1 sampleDeltas
    (fold (\<lambda>e db. snd (redis_step (KeyPrefix sampleConfig) e db)) [EvLoad (\<lambda>_. True) ''1'' ''other'']) sampleDB"
  have "redis_ok (KeyPrefix sampleConfig) sampleDB" using sampleDB_ok by (simp add: sampleConfig_def)
  moreover have "fst ?run = Inr ()" by code_simp
  then have "?run = (Inr (), snd ?run)" by (metis prod.collapse)
  ultimately have "Redis_CommitState sampleRedisCodec sampleConfig (\<lambda>_. True) ''c'' 1 sampleDeltas (\<lambda>db. db)
     (fold (\<lambda>e db. snd (redis_step (KeyPrefix sampleConfig) e db)) [EvLoad (\<lambda>_. True) ''1'' ''other'']
        (snd (Redis_LoadState sampleRedisCodec sampleConfig (\<lambda>_. True) ''c'' sampleDB))) = (Inr (), snd ?run)"
    by (rule redis_commit_linearizable)
  then show ?thesis by simp
qed

end
