(* ===== verification/Postgres_Store.thy ===== *)
theory Postgres_Store
  imports State_Store
begin

text \<open>
  The PostgreSQL conversation store (\<^verbatim>\<open>adapters/store/postgres/store.go\<close>). A table is a map from
  conversation to version and encoded segments. A mutation reads the row, prepares the next
  snapshot and then inserts or updates with a guard in SQL; other transactions may commit
  between the read and the guarded write, so the proofs do not lean on the row lock that
  \<^verbatim>\<open>FOR UPDATE\<close> takes. Errors of the connection are not modelled.
\<close>

type_synonym pg_table = "string \<rightharpoonup> int \<times> string"

definition Postgres_LoadState :: "ConversationCodec \<Rightarrow> string \<Rightarrow> pg_table \<Rightarrow> ConversationState result" where
  "Postgres_LoadState C i db =
     (case db i of
        None \<Rightarrow> Inr EmptyState
      | Some (version, payload) \<Rightarrow> bind_res (Decode C payload) (\<lambda>snap. Inr (WithVersion snap version)))"

text \<open>The row for an update, or nothing when a row has to be inserted; \<open>clearOnly\<close> skips the payload.\<close>

definition loadLocked :: "ConversationCodec \<Rightarrow> string \<Rightarrow> int \<Rightarrow> bool \<Rightarrow> pg_table \<Rightarrow> (ConversationState \<times> bool) result" where
  "loadLocked C i expectedVersion clearOnly db =
     (let version = (case db i of None \<Rightarrow> 0 | Some (version, _) \<Rightarrow> version); isInsert = (db i = None) in
      if version \<noteq> expectedVersion then Inl ErrConversationVersionConflict
      else if \<not> clearOnly \<and> \<not> isInsert then
        (case db i of
           None \<Rightarrow> Inr (WithVersion EmptyState version, isInsert)
         | Some (_, payload) \<Rightarrow> bind_res (Decode C payload) (\<lambda>cur. Inr (WithVersion cur version, isInsert)))
      else Inr (WithVersion EmptyState version, isInsert))"

text \<open>
  \<open>D\<close> is the codec without registries that a clear uses for its empty snapshot; \<open>update = None\<close>
  is a clear.
\<close>

definition prepareMutation ::
  "ConversationCodec \<Rightarrow> ConversationCodec \<Rightarrow> ConversationState \<Rightarrow> ConversationDelta list option \<Rightarrow> (int \<times> string) result" where
  "prepareMutation C D cur update =
     bind_res (case update of
                 None \<Rightarrow> Inr (EmptyState, D)
               | Some deltas \<Rightarrow>
                   bind_res (ApplyDeltas cur deltas) (\<lambda>next.
                   bind_res (ProjectCheckpoint (CodecEnv C) (CodecPayloadDigest C) (CodecOpaque C) next) (\<lambda>next. Inr (next, C))))
       (\<lambda>(next, codec).
        bind_res (NextConversationVersion (Version cur)) (\<lambda>version.
        bind_res (Encode codec (WithVersion next version)) (\<lambda>encoded. Inr (version, encoded))))"

definition persistSnapshot :: "string \<Rightarrow> int \<Rightarrow> int \<Rightarrow> string \<Rightarrow> bool \<Rightarrow> pg_table \<Rightarrow> pg_table result" where
  "persistSnapshot i expectedVersion nextVersion encoded isInsert db =
     (if isInsert then
        (if db i \<noteq> None then Inl ErrConversationVersionConflict else Inr (db(i \<mapsto> (nextVersion, encoded))))
      else case db i of
        Some (version, _) \<Rightarrow>
          if version = expectedVersion then Inr (db(i \<mapsto> (nextVersion, encoded))) else Inl ErrConversationVersionConflict
      | None \<Rightarrow> Inl ErrConversationVersionConflict)"

definition Postgres_mutate ::
  "ConversationCodec \<Rightarrow> ConversationCodec \<Rightarrow> string \<Rightarrow> int \<Rightarrow> ConversationDelta list option \<Rightarrow> (pg_table \<Rightarrow> pg_table) \<Rightarrow>
   pg_table \<Rightarrow> pg_table result" where
  "Postgres_mutate C D i expectedVersion update others db =
     bind_res (loadLocked C i expectedVersion (update = None) db) (\<lambda>(cur, isInsert).
     bind_res (prepareMutation C D cur update) (\<lambda>(nextVersion, encoded).
     persistSnapshot i expectedVersion nextVersion encoded isInsert (others db)))"

definition Postgres_CommitState ::
  "ConversationCodec \<Rightarrow> ConversationCodec \<Rightarrow> string \<Rightarrow> int \<Rightarrow> ConversationDelta list \<Rightarrow> (pg_table \<Rightarrow> pg_table) \<Rightarrow>
   pg_table \<Rightarrow> pg_table result" where
  "Postgres_CommitState C D i expectedVersion deltas others db =
     (if deltas = [] then Inl ErrEmptyCheckpointCommit else Postgres_mutate C D i expectedVersion (Some deltas) others db)"

definition Postgres_ClearState ::
  "ConversationCodec \<Rightarrow> ConversationCodec \<Rightarrow> string \<Rightarrow> int \<Rightarrow> (pg_table \<Rightarrow> pg_table) \<Rightarrow> pg_table \<Rightarrow> pg_table result" where
  "Postgres_ClearState C D i expectedVersion others db = Postgres_mutate C D i expectedVersion None others db"

subsection \<open>Committed writes as events\<close>

text \<open>
  The write of a transaction: an insert, made when the row was missing, or an update guarded by
  the version that was read; the version written is the next one.
\<close>

datatype pg_event = PgInsert string string | PgUpdate string int string

fun pg_step :: "pg_event \<Rightarrow> pg_table \<Rightarrow> unit result \<times> pg_table" where
  "pg_step (PgInsert i encoded) db =
     (case persistSnapshot i 0 1 encoded True db of Inl e \<Rightarrow> (Inl e, db) | Inr db' \<Rightarrow> (Inr (), db'))"
| "pg_step (PgUpdate i v encoded) db =
     (case NextConversationVersion v of Inl e \<Rightarrow> (Inl e, db) | Inr n \<Rightarrow>
       (case persistSnapshot i v n encoded False db of Inl e \<Rightarrow> (Inl e, db) | Inr db' \<Rightarrow> (Inr (), db')))"

fun pg_cas :: "pg_event \<Rightarrow> (string \<times> int) option" where
  "pg_cas (PgInsert i encoded) = Some (i, 0)"
| "pg_cas (PgUpdate i v encoded) = Some (i, v)"

definition pg_view :: "pg_table \<Rightarrow> string \<Rightarrow> int \<times> string" where
  "pg_view db i = (case db i of None \<Rightarrow> (0, []) | Some r \<Rightarrow> r)"

definition pg_ok :: "pg_table \<Rightarrow> bool" where
  "pg_ok db \<longleftrightarrow> (\<forall>i v d. db i = Some (v, d) \<longrightarrow> 0 < v \<and> v \<le> MaxInt)"

lemma persistSnapshot_Inr:
  "persistSnapshot i v n encoded isInsert db = Inr db' \<longleftrightarrow>
     db' = db(i \<mapsto> (n, encoded)) \<and> (if isInsert then db i = None else \<exists>d. db i = Some (v, d))"
  by (auto simp: persistSnapshot_def split: option.splits)

lemma pg_ok_update: "pg_ok db \<Longrightarrow> 0 < v \<Longrightarrow> v \<le> MaxInt \<Longrightarrow> pg_ok (db(i \<mapsto> (v, d)))"
  by (simp add: pg_ok_def)

lemma one_le_MaxInt [simp]: "1 \<le> MaxInt"
  by (simp add: MaxInt_def)

lemma pg_step_facts:
  assumes "pg_ok db" "pg_cas e = Some (i, v)" "pg_step e db = (r, db')"
  shows "pg_ok db' \<and> (case r of Inl _ \<Rightarrow> db' = db
    | Inr _ \<Rightarrow> fst (pg_view db i) = v \<and> (\<exists>d. db' = db(i \<mapsto> (v + 1, d))))"
proof (cases e)
  case (PgInsert j encoded)
  then show ?thesis
    using assms by (auto simp: persistSnapshot_Inr pg_view_def pg_ok_update split: sum.splits if_splits)
next
  case (PgUpdate j w encoded)
  show ?thesis
  proof (cases "NextConversationVersion w")
    case (Inl err)
    then show ?thesis using assms PgUpdate by auto
  next
    case (Inr n)
    show ?thesis
    proof (cases "persistSnapshot j w n encoded False db")
      case (Inl err)
      then show ?thesis using assms PgUpdate \<open>NextConversationVersion w = Inr n\<close> by auto
    next
      case step: (Inr db1)
      then obtain d where d: "db j = Some (w, d)" "db1 = db(j \<mapsto> (n, encoded))" by (auto simp: persistSnapshot_Inr)
      then have "n = w + 1 \<and> 0 < n \<and> n \<le> MaxInt"
        using NextConversationVersion_le [OF Inr] assms(1) by (auto simp: pg_ok_def)
      then show ?thesis using assms PgUpdate step Inr d by (auto simp: pg_view_def pg_ok_update)
    qed
  qed
qed

lemma pg_view_update: "pg_view (db(i \<mapsto> r)) j = (if j = i then r else pg_view db j)"
  by (simp add: pg_view_def)

lemma pg_cas_Some: "\<exists>i v. pg_cas e = Some (i, v)"
  by (cases e) auto

interpretation postgres: occ_store pg_ok pg_view pg_step pg_cas
proof unfold_locales
  fix db :: pg_table and e i
  assume ok: "pg_ok db"
  obtain r db' where run: "pg_step e db = (r, db')" by force
  obtain j v where "pg_cas e = Some (j, v)" using pg_cas_Some by blast
  from pg_step_facts [OF ok this run]
  show "pg_ok (snd (pg_step e db))" "pg_view (snd (pg_step e db)) i = pg_view db i \<or> fst (pg_view db i) < fst (pg_view (snd (pg_step e db)) i)"
    by (cases r; auto simp: run pg_view_update)+
next
  fix db db' :: pg_table and e i v
  assume "pg_ok db" "pg_cas e = Some (i, v)" "pg_step e db = (Inr (), db')"
  from pg_step_facts [OF this] show "fst (pg_view db i) = v \<and> fst (pg_view db' i) = v + 1" by (auto simp: pg_view_update)
next
  fix db :: pg_table and e i v j
  assume asm: "pg_ok db" "pg_cas e = Some (i, v)" "j \<noteq> i"
  obtain r db' where run: "pg_step e db = (r, db')" by force
  from pg_step_facts [OF asm(1,2) run] asm(3) show "pg_view (snd (pg_step e db)) j = pg_view db j"
    by (cases r) (auto simp: run pg_view_update)
next
  fix db db' :: pg_table and e err
  assume asm: "pg_ok db" "pg_step e db = (Inl err, db')"
  obtain i v where "pg_cas e = Some (i, v)" using pg_cas_Some by blast
  from pg_step_facts [OF asm(1) this asm(2)] show "pg_view db' = pg_view db" by simp
qed

subsection \<open>Properties\<close>

text \<open>
  C28. A PostgreSQL commit or clear is atomic even without the row lock: after any other writes between
  its read and its write, a mutation that succeeds has the result of one that reads and writes
  without interruption at the moment of its write, and that write is a single guarded event
  that advances the version by one.
\<close>

theorem postgres_mutate_linearizable:
  assumes ok: "pg_ok db" and run: "Postgres_mutate C D i v update (fold (\<lambda>e db. snd (pg_step e db)) es) db = Inr db'"
  shows "Postgres_mutate C D i v update (\<lambda>db. db) (fold (\<lambda>e db. snd (pg_step e db)) es db) = Inr db' \<and>
    (\<exists>e. pg_cas e = Some (i, v) \<and> pg_step e (fold (\<lambda>e db. snd (pg_step e db)) es db) = (Inr (), db'))"
proof -
  let ?mid = "fold (\<lambda>e db. snd (pg_step e db)) es db"
  from run obtain cur isInsert next_v encoded where load: "loadLocked C i v (update = None) db = Inr (cur, isInsert)"
    and prep: "prepareMutation C D cur update = Inr (next_v, encoded)"
    and wr: "persistSnapshot i v next_v encoded isInsert ?mid = Inr db'"
    by (auto simp: Postgres_mutate_def bind_res_Inr_iff)
  have cur: "Version cur = v" and ins: "isInsert = (db i = None)" and ver: "v = (case db i of None \<Rightarrow> 0 | Some r \<Rightarrow> fst r)"
    using load by (auto simp: loadLocked_def Let_def bind_res_Inr_iff split: if_splits option.splits)
  have next_v: "NextConversationVersion v = Inr next_v" using prep cur by (auto simp: prepareMutation_def bind_res_Inr_iff)
  have "fst (pg_view ?mid i) = fst (pg_view db i)"
    using wr ver ins by (auto simp: persistSnapshot_Inr pg_view_def split: option.splits if_splits)
  from postgres.no_aba [OF ok this] have same: "pg_view ?mid i = pg_view db i" .
  have ok': "pg_ok ?mid" by (rule postgres.ok_run [OF ok])
  have row: "?mid i = db i"
    using same wr ins ok ok' by (auto simp: persistSnapshot_Inr pg_view_def split: option.splits if_splits)
  then have "loadLocked C i v (update = None) ?mid = Inr (cur, isInsert)"
    using load by (simp only: loadLocked_def row)
  then have "Postgres_mutate C D i v update (\<lambda>db. db) ?mid = Inr db'"
    using prep wr by (simp add: Postgres_mutate_def)
  moreover have "\<exists>e. pg_cas e = Some (i, v) \<and> pg_step e ?mid = (Inr (), db')"
  proof (cases isInsert)
    case True
    with ver ins next_v have "v = 0" "next_v = 1" by (auto simp: NextConversationVersion_def go_add_exact go_int_def MaxInt_def)
    then show ?thesis using wr True by (intro exI [of _ "PgInsert i encoded"]) simp
  next
    case False
    then show ?thesis using wr next_v by (intro exI [of _ "PgUpdate i v encoded"]) simp
  qed
  ultimately show ?thesis by blast
qed

definition sampleTable :: pg_table where
  "sampleTable = [''c'' \<mapsto> (1, ''{wire}'')]"

theorem postgres_mutate_linearizable_witness:
  "\<exists>db. Postgres_mutate sampleCodec (sampleCodec\<lparr>CodecMarshalWire := (\<lambda>_. Inr ''{}'')\<rparr>) ''c'' 1 None (\<lambda>db. db)
     (snd (pg_step (PgInsert ''d'' ''{}'') sampleTable)) = Inr db"
proof -
  let ?D = "sampleCodec\<lparr>CodecMarshalWire := (\<lambda>_. Inr ''{}'')\<rparr>"
  have "pg_ok sampleTable" by (simp add: pg_ok_def sampleTable_def MaxInt_def)
  moreover have enc: "Encode ?D (WithVersion EmptyState 2) = Inr ''{}''" by code_simp
  have "Postgres_mutate sampleCodec ?D ''c'' 1 None (fold (\<lambda>e db. snd (pg_step e db)) [PgInsert ''d'' ''{}'']) sampleTable =
    Inr [''c'' \<mapsto> (2, ''{}''), ''d'' \<mapsto> (1, ''{}'')]"
    by (simp add: Postgres_mutate_def loadLocked_def Let_def prepareMutation_def enc NextConversationVersion_def
        persistSnapshot_def sampleTable_def MaxInt_def go_add_exact go_int_def fun_eq_iff)
  ultimately have "Postgres_mutate sampleCodec ?D ''c'' 1 None (\<lambda>db. db)
    (fold (\<lambda>e db. snd (pg_step e db)) [PgInsert ''d'' ''{}''] sampleTable) = Inr [''c'' \<mapsto> (2, ''{}''), ''d'' \<mapsto> (1, ''{}'')]"
    by (rule conjunct1 [OF postgres_mutate_linearizable])
  then show ?thesis by auto
qed

end
