(* ===== verification/Blob_Store.thy ===== *)
theory Blob_Store
  imports Blobs Decimal "HOL-Library.AList" "HOL-Library.List_Lexorder" "HOL-Library.Char_ord"
begin

text \<open>
  The in-memory blob backend (\<^verbatim>\<open>adapters/blob/memory\<close>): objects, retention claims, checkpoints and
  retired sources. Its mutex makes the locked part of every operation one step; the host's
  authorization callback runs before, outside of the lock. Go maps are association lists with
  distinct keys, \<open>sha\<close> is the hexadecimal SHA-256.
\<close>

subsection \<open>Data\<close>

datatype Action = ActionPut | ActionGet | ActionCheck | ActionRetain | ActionCommit | ActionRelease |
  ActionRetireSource | ActionCleanup

record Access =
  AccAction :: Action
  AccScopeRef :: string
  AccObject :: Descriptor
  AccCheckpoint :: Descriptor
  AccClaimRef :: string
  AccSource :: ContentRef

record BlobStoreConfig =
  CfgNamespace :: string
  CfgMaxObjectBytes :: int
  CfgAuthorize :: "Access \<Rightarrow> unit result"
  CfgIncarnation :: string

datatype claimState = claimPending | claimCommitted | claimReleased

record blobClaim =
  ClObject :: Descriptor
  ClCheckpoint :: Descriptor
  ClScopeRef :: string
  ClState :: claimState

record blobObject =
  ObjDescriptor :: BlobDescriptor
  ObjContent :: BlobContent
  ObjRetiring :: bool

record blobCheckpoint =
  CpClaims :: "string list"
  CpReleased :: bool

record BlobMemory =
  BmSequence :: nat
  BmObjects :: "(Descriptor \<times> blobObject) list"
  BmClaims :: "(string \<times> blobClaim) list"
  BmCheckpoints :: "(Descriptor \<times> blobCheckpoint) list"
  BmDeletedSources :: "ContentRef list"

definition noDescriptor :: Descriptor where
  "noDescriptor = \<lparr>DescID = [], DescRevision = []\<rparr>"

definition noContentRef :: ContentRef where
  "noContentRef = \<lparr>RefID = [], RefDigest = [], RefOccurrence = []\<rparr>"

definition NewBlobMemory :: "BlobStoreConfig \<Rightarrow> BlobMemory result" where
  "NewBlobMemory cfg =
     (if CfgNamespace cfg = [] \<or> CfgMaxObjectBytes cfg < 0 then Inl ErrConfiguration
      else Inr \<lparr>BmSequence = 0, BmObjects = [], BmClaims = [], BmCheckpoints = [], BmDeletedSources = []\<rparr>)"

subsection \<open>Authorization and the locked section\<close>

definition authorize :: "BlobStoreConfig \<Rightarrow> Access \<Rightarrow> unit comp" where
  "authorize cfg access =
     bind poll (\<lambda>_. if AccScopeRef access = [] then fail ErrBlobDenied else settle (lift_res (CfgAuthorize cfg access)))"

definition retentionAccess :: "Action \<Rightarrow> string \<Rightarrow> Descriptor \<Rightarrow> Descriptor \<Rightarrow> string \<Rightarrow> Access" where
  "retentionAccess action scope objectID checkpointID claimRef =
     \<lparr>AccAction = action, AccScopeRef = scope, AccObject = objectID, AccCheckpoint = checkpointID,
      AccClaimRef = claimRef, AccSource = noContentRef\<rparr>"

text \<open>
  \<^verbatim>\<open>s.mu.Lock(); if err := ctx.Err(); err != nil { return err }\<close> and the rest of the function,
  after the authorization \<open>auth\<close>.
\<close>

definition locked :: "unit comp \<Rightarrow> (BlobMemory \<Rightarrow> 'a result \<times> BlobMemory) \<Rightarrow> ctx \<Rightarrow> BlobMemory \<Rightarrow> 'a result \<times> BlobMemory" where
  "locked auth body c s =
     (case bind auth (\<lambda>_. poll) c of (Inl e, _) \<Rightarrow> (Inl e, s) | (Inr _, _) \<Rightarrow> body s)"

subsection \<open>Objects\<close>

definition objectIdentity :: "BlobStoreConfig \<Rightarrow> nat \<Rightarrow> Descriptor" where
  "objectIdentity cfg n =
     \<lparr>DescID = CfgNamespace cfg @ ''/'' @ CfgIncarnation cfg @ ''/'' @ dec n, DescRevision = ''immutable''\<rparr>"

definition putLocked :: "BlobStoreConfig \<Rightarrow> BlobPutRequest \<Rightarrow> BlobDescriptor \<Rightarrow> BlobMemory \<Rightarrow> BlobDescriptor result \<times> BlobMemory" where
  "putLocked cfg request descriptor s =
     (if BlobLength descriptor > CfgMaxObjectBytes cfg then (Inl ErrBlobSizeLimit, s)
      else if map_of (BmClaims s) (PutRetentionRef request) \<noteq> None \<or> int (BmSequence s) = 2 ^ 64 - 1 then (Inl ErrClaimConflict, s)
      else if \<exists>source \<in> set (elems (BlobSources descriptor)). source \<in> set (BmDeletedSources s) then (Inl ErrRetiring, s)
      else let n = BmSequence s + 1; ident = objectIdentity cfg n; d = descriptor\<lparr>BlobObject := ident\<rparr> in
        (Inr d, s\<lparr>BmSequence := n,
           BmObjects := AList.update ident \<lparr>ObjDescriptor = d, ObjContent = PutContent request, ObjRetiring = False\<rparr> (BmObjects s),
           BmClaims := AList.update (PutRetentionRef request)
             \<lparr>ClObject = ident, ClCheckpoint = noDescriptor, ClScopeRef = BlobScopeRef d, ClState = claimPending\<rparr> (BmClaims s)\<rparr>))"

definition Blob_Put ::
  "env \<Rightarrow> (string \<Rightarrow> string) \<Rightarrow> BlobStoreConfig \<Rightarrow> BlobPutRequest \<Rightarrow> ctx \<Rightarrow> BlobMemory \<Rightarrow> BlobDescriptor result \<times> BlobMemory" where
  "Blob_Put E sha cfg request c s =
     (let descriptor = expectedBlob sha request \<lparr>DescID = ''candidate'', DescRevision = ''immutable''\<rparr> in
      locked (bind poll (\<lambda>_.
                if int (length (BlobBytes (PutContent request))) > CfgMaxObjectBytes cfg then fail ErrBlobSizeLimit
                else bind (lift_res (BlobDescriptor_Validate E descriptor)) (\<lambda>_.
                authorize cfg \<lparr>AccAction = ActionPut, AccScopeRef = PutScopeRef request, AccObject = noDescriptor,
                  AccCheckpoint = noDescriptor, AccClaimRef = PutRetentionRef request, AccSource = noContentRef\<rparr>)))
        (putLocked cfg request descriptor) c s)"

definition Blob_Get :: "BlobStoreConfig \<Rightarrow> BlobGetRequest \<Rightarrow> ctx \<Rightarrow> BlobMemory \<Rightarrow> BlobContent result \<times> BlobMemory" where
  "Blob_Get cfg request c s =
     (if Descriptor_Validate (GetObject request) \<noteq> Inr () \<or> GetMaxBytes request < 0 then (Inl ErrInvalidBlob, s)
      else locked (authorize cfg (retentionAccess ActionGet (GetScopeRef request) (GetObject request) noDescriptor []))
        (\<lambda>s. (case map_of (BmObjects s) (GetObject request) of
                None \<Rightarrow> Inl ErrBlobMissing
              | Some v \<Rightarrow> if BlobLength (ObjDescriptor v) > GetMaxBytes request then Inl ErrBlobSizeLimit else Inr (ObjContent v), s)) c s)"

definition CheckBlob ::
  "env \<Rightarrow> BlobStoreConfig \<Rightarrow> string \<Rightarrow> BlobDescriptor \<Rightarrow> ctx \<Rightarrow> BlobMemory \<Rightarrow> unit result \<times> BlobMemory" where
  "CheckBlob E cfg scope blob c s =
     (case BlobDescriptor_Validate E blob of
        Inl e \<Rightarrow> (Inl e, s)
      | Inr _ \<Rightarrow> locked (authorize cfg (retentionAccess ActionCheck scope (BlobObject blob) noDescriptor (BlobRetentionRef blob)))
          (\<lambda>s. (case map_of (BmObjects s) (BlobObject blob) of
                  None \<Rightarrow> Inl ErrBlobMissing
                | Some v \<Rightarrow>
                    (case map_of (BmClaims s) (BlobRetentionRef blob) of
                       None \<Rightarrow> Inl ErrBlobDigestMismatch
                     | Some retained \<Rightarrow>
                         if ClObject retained \<noteq> BlobObject blob \<or> ClScopeRef retained \<noteq> BlobScopeRef blob
                           then Inl ErrBlobDigestMismatch
                         else if BlobDigest (ObjDescriptor v) \<noteq> BlobDigest blob \<or> BlobLength (ObjDescriptor v) \<noteq> BlobLength blob \<or>
                            BlobMIMEType (ObjDescriptor v) \<noteq> BlobMIMEType blob \<or>
                            BlobScopeRef (ObjDescriptor v) \<noteq> BlobScopeRef blob \<or>
                            elems (BlobSources (ObjDescriptor v)) \<noteq> elems (BlobSources blob)
                           then Inl ErrBlobDigestMismatch
                         else Inr ()), s)) c s)"

subsection \<open>Claims and checkpoints\<close>

definition Retain :: "BlobStoreConfig \<Rightarrow> string \<Rightarrow> Descriptor \<Rightarrow> string \<Rightarrow> ctx \<Rightarrow> BlobMemory \<Rightarrow> unit result \<times> BlobMemory" where
  "Retain cfg scope ident claimRef c s =
     (if Descriptor_Validate ident \<noteq> Inr () \<or> claimRef = [] then (Inl ErrClaimConflict, s)
      else locked (authorize cfg (retentionAccess ActionRetain scope ident noDescriptor claimRef))
        (\<lambda>s. case map_of (BmObjects s) ident of
               None \<Rightarrow> (Inl ErrBlobMissing, s)
             | Some v \<Rightarrow>
                 if ObjRetiring v then (Inl ErrRetiring, s)
                 else if map_of (BmClaims s) claimRef \<noteq> None then (Inl ErrClaimConflict, s)
                 else (Inr (), s\<lparr>BmClaims := AList.update claimRef
                        \<lparr>ClObject = ident, ClCheckpoint = noDescriptor, ClScopeRef = BlobScopeRef (ObjDescriptor v),
                         ClState = claimPending\<rparr> (BmClaims s)\<rparr>)) c s)"

definition normalizeClaims :: "Descriptor \<Rightarrow> string list \<Rightarrow> string list result" where
  "normalizeClaims ident claimRefs =
     (if Descriptor_Validate ident \<noteq> Inr () \<or> claimRefs = [] then Inl ErrClaimConflict
      else let refs = sort claimRefs in
        if [] \<in> set refs \<or> \<not> distinct refs then Inl ErrClaimConflict else Inr refs)"

text \<open>
  Every object behind the claims is authorized as well: the claims are read at \<open>s\<close>, under the
  lock, and the callbacks run after it has been released.
\<close>

definition authorizeClaims :: "BlobStoreConfig \<Rightarrow> Action \<Rightarrow> string \<Rightarrow> Descriptor \<Rightarrow> string list \<Rightarrow> BlobMemory \<Rightarrow> unit comp" where
  "authorizeClaims cfg action scope ident refs s =
     bind (authorize cfg (retentionAccess action scope noDescriptor ident [])) (\<lambda>_.
     bind (lift_res (map_res (\<lambda>ref. case map_of (BmClaims s) ref of
                                      None \<Rightarrow> Inl ErrClaimConflict
                                    | Some v \<Rightarrow> Inr (retentionAccess action scope (ClObject v) ident ref)) refs)) (\<lambda>accesses.
     fold (\<lambda>access m. bind m (\<lambda>_. authorize cfg access)) accesses (ret ())))"

fun setClaims :: "(blobClaim \<Rightarrow> blobClaim) \<Rightarrow> string list \<Rightarrow> (string \<times> blobClaim) list \<Rightarrow> (string \<times> blobClaim) list" where
  "setClaims f [] claims = claims"
| "setClaims f (ref # refs) claims =
     setClaims f refs (case map_of claims ref of None \<Rightarrow> claims | Some v \<Rightarrow> AList.update ref (f v) claims)"

fun commitCheck :: "BlobMemory \<Rightarrow> string list \<Rightarrow> unit result" where
  "commitCheck s [] = Inr ()"
| "commitCheck s (ref # refs) =
     (case map_of (BmClaims s) ref of
        None \<Rightarrow> Inl ErrClaimConflict
      | Some v \<Rightarrow>
          if ClState v \<noteq> claimPending then Inl ErrClaimConflict
          else (case map_of (BmObjects s) (ClObject v) of
                  None \<Rightarrow> Inl ErrBlobMissing
                | Some stored \<Rightarrow> if ObjRetiring stored then Inl ErrRetiring else commitCheck s refs))"

definition commitLocked :: "Descriptor \<Rightarrow> string list \<Rightarrow> BlobMemory \<Rightarrow> unit result \<times> BlobMemory" where
  "commitLocked ident refs s =
     (case map_of (BmCheckpoints s) ident of
        Some saved \<Rightarrow> (if CpReleased saved \<or> CpClaims saved \<noteq> refs then Inl ErrClaimConflict else Inr (), s)
      | None \<Rightarrow>
          (case commitCheck s refs of
             Inl e \<Rightarrow> (Inl e, s)
           | Inr _ \<Rightarrow> (Inr (), s\<lparr>
               BmClaims := setClaims (\<lambda>v. v\<lparr>ClState := claimCommitted, ClCheckpoint := ident\<rparr>) refs (BmClaims s),
               BmCheckpoints := AList.update ident \<lparr>CpClaims = refs, CpReleased = False\<rparr> (BmCheckpoints s)\<rparr>)))"

text \<open>\<open>others\<close> is what happens between the authorization of the claims and the lock.\<close>

definition CommitCheckpoint ::
  "BlobStoreConfig \<Rightarrow> string \<Rightarrow> Descriptor \<Rightarrow> string list \<Rightarrow> (BlobMemory \<Rightarrow> BlobMemory) \<Rightarrow> ctx \<Rightarrow> BlobMemory \<Rightarrow> unit result \<times> BlobMemory" where
  "CommitCheckpoint cfg scope ident claimRefs others c s =
     (case normalizeClaims ident claimRefs of
        Inl e \<Rightarrow> (Inl e, s)
      | Inr refs \<Rightarrow> locked (authorizeClaims cfg ActionCommit scope ident refs s) (commitLocked ident refs) c (others s))"

definition releaseLocked :: "Descriptor \<Rightarrow> BlobMemory \<Rightarrow> unit result \<times> BlobMemory" where
  "releaseLocked ident s =
     (let value = (case map_of (BmCheckpoints s) ident of None \<Rightarrow> \<lparr>CpClaims = [], CpReleased = False\<rparr> | Some v \<Rightarrow> v) in
      (Inr (), s\<lparr>BmClaims := setClaims (\<lambda>v. v\<lparr>ClState := claimReleased\<rparr>) (CpClaims value) (BmClaims s),
         BmCheckpoints := AList.update ident (value\<lparr>CpReleased := True\<rparr>) (BmCheckpoints s)\<rparr>))"

definition ReleaseCheckpoint ::
  "BlobStoreConfig \<Rightarrow> string \<Rightarrow> Descriptor \<Rightarrow> (BlobMemory \<Rightarrow> BlobMemory) \<Rightarrow> ctx \<Rightarrow> BlobMemory \<Rightarrow> unit result \<times> BlobMemory" where
  "ReleaseCheckpoint cfg scope ident others c s =
     (if Descriptor_Validate ident \<noteq> Inr () then (Inl ErrClaimConflict, s)
      else locked (bind (authorize cfg (retentionAccess ActionRelease scope noDescriptor ident [])) (\<lambda>_.
                   case map_of (BmCheckpoints s) ident of
                     None \<Rightarrow> fail ErrClaimConflict
                   | Some v \<Rightarrow> authorizeClaims cfg ActionRelease scope ident (CpClaims v) s))
             (releaseLocked ident) c (others s))"

subsection \<open>Source retirement and cleanup\<close>

definition RetireSource ::
  "BlobStoreConfig \<Rightarrow> string \<Rightarrow> ContentRef \<Rightarrow> ctx \<Rightarrow> BlobMemory \<Rightarrow> Descriptor list result \<times> BlobMemory" where
  "RetireSource cfg scope source c s =
     (case ContentRef_Validate source of
        Inl e \<Rightarrow> (Inl e, s)
      | Inr _ \<Rightarrow> locked (authorize cfg ((retentionAccess ActionRetireSource scope noDescriptor noDescriptor [])\<lparr>AccSource := source\<rparr>))
          (\<lambda>s. (Inr (sort_key DescID (map fst (filter (\<lambda>(k, v). source \<in> set (elems (BlobSources (ObjDescriptor v)))) (BmObjects s)))),
             s\<lparr>BmDeletedSources := List.insert source (BmDeletedSources s),
               BmObjects := map (\<lambda>(k, v). (k, if source \<in> set (elems (BlobSources (ObjDescriptor v)))
                 then v\<lparr>ObjRetiring := True\<rparr> else v)) (BmObjects s)\<rparr>)) c s)"

definition collectLocked :: "Descriptor \<Rightarrow> BlobMemory \<Rightarrow> bool result \<times> BlobMemory" where
  "collectLocked ident s =
     (case map_of (BmObjects s) ident of
        None \<Rightarrow> (Inr False, s)
      | Some v \<Rightarrow>
          if \<not> ObjRetiring v then (Inl ErrRetiring, s)
          else if \<exists>(k, retained) \<in> set (BmClaims s). ClObject retained = ident \<and> ClState retained \<noteq> claimReleased
            then (Inl ErrActiveClaim, s)
          else (Inr True, s\<lparr>BmObjects := AList.delete ident (BmObjects s)\<rparr>))"

definition Blob_Collect :: "BlobStoreConfig \<Rightarrow> string \<Rightarrow> Descriptor \<Rightarrow> ctx \<Rightarrow> BlobMemory \<Rightarrow> bool result \<times> BlobMemory" where
  "Blob_Collect cfg scope ident c s =
     (case Descriptor_Validate ident of
        Inl e \<Rightarrow> (Inl e, s)
      | Inr _ \<Rightarrow> locked (authorize cfg (retentionAccess ActionCleanup scope ident noDescriptor [])) (collectLocked ident) c s)"

definition reconcileLocked :: "BlobCleanupIntent \<Rightarrow> BlobMemory \<Rightarrow> bool result \<times> BlobMemory" where
  "reconcileLocked intent s =
     (case map_of (BmClaims s) (CleanRetentionRef intent) of
        None \<Rightarrow> (Inl ErrClaimConflict, s)
      | Some v \<Rightarrow>
          if ClObject v \<noteq> CleanObject intent \<or> ClScopeRef v \<noteq> CleanScopeRef intent then (Inl ErrClaimConflict, s)
          else if ClState v = claimCommitted then (Inl ErrActiveClaim, s)
          else collectLocked (CleanObject intent)
            (s\<lparr>BmClaims := AList.update (CleanRetentionRef intent) (v\<lparr>ClState := claimReleased\<rparr>) (BmClaims s),
               BmObjects := (case map_of (BmObjects s) (CleanObject intent) of
                  None \<Rightarrow> BmObjects s
                | Some stored \<Rightarrow> AList.update (CleanObject intent) (stored\<lparr>ObjRetiring := True\<rparr>) (BmObjects s))\<rparr>))"

definition ReconcileCleanup ::
  "BlobStoreConfig \<Rightarrow> string \<Rightarrow> BlobCleanupIntent \<Rightarrow> ctx \<Rightarrow> BlobMemory \<Rightarrow> bool result \<times> BlobMemory" where
  "ReconcileCleanup cfg scope intent c s =
     (if Descriptor_Validate (CleanObject intent) \<noteq> Inr () \<or> CleanRetentionRef intent = [] \<or> CleanScopeRef intent = []
        then (Inl ErrInvalidBlob, s)
      else locked (authorize cfg (retentionAccess ActionCleanup scope (CleanObject intent) noDescriptor (CleanRetentionRef intent)))
        (reconcileLocked intent) c s)"

subsection \<open>Maps\<close>

lemma map_of_update [simp]: "map_of (AList.update k v xs) = (map_of xs)(k \<mapsto> v)"
  by (rule update_conv')

lemma map_of_delete [simp]: "map_of (AList.delete k xs) = (map_of xs)(k := None)"
  by (rule delete_conv')

lemma map_of_setClaims:
  assumes "\<And>v. f (f v) = f v"
  shows "map_of (setClaims f refs claims) = (\<lambda>k. if k \<in> set refs then map_option f (map_of claims k) else map_of claims k)"
proof (induction refs arbitrary: claims)
  case (Cons ref refs)
  then show ?case using assms by (cases "map_of claims ref") (auto simp: fun_eq_iff)
qed simp

lemma distinct_setClaims: "distinct (map fst claims) \<Longrightarrow> distinct (map fst (setClaims f refs claims))"
  by (induction refs arbitrary: claims) (auto simp: distinct_update split: option.split)

lemma map_of_map_values: "map_of (map (\<lambda>(k, v). (k, g k v)) xs) = (\<lambda>k. map_option (g k) (map_of xs k))"
  by (induction xs) auto

lemma locked_cases:
  assumes "locked auth body c s = (r, s')"
  obtains (early) "s' = s" | (run) "body s = (r, s')"
  using assms by (auto simp: locked_def split: prod.splits sum.splits)

subsection \<open>The invariant of the backend\<close>

text \<open>An object is stored under its own identity with the digest, length and type of its bytes.\<close>

definition object_ok :: "(string \<Rightarrow> string) \<Rightarrow> Descriptor \<Rightarrow> blobObject \<Rightarrow> bool" where
  "object_ok sha ident v \<longleftrightarrow> BlobObject (ObjDescriptor v) = ident \<and>
     BlobDigest (ObjDescriptor v) = sha (BlobBytes (ObjContent v)) \<and>
     BlobLength (ObjDescriptor v) = int (length (BlobBytes (ObjContent v))) \<and>
     BlobMIMEType (ObjDescriptor v) = BlobMIME (ObjContent v)"

text \<open>Active claims have their object, identities come from the counter.\<close>

definition objects_inv :: "(string \<Rightarrow> string) \<Rightarrow> BlobStoreConfig \<Rightarrow> nat \<Rightarrow> (Descriptor \<rightharpoonup> blobObject) \<Rightarrow> (string \<rightharpoonup> blobClaim) \<Rightarrow> bool" where
  "objects_inv sha cfg n objs claims \<longleftrightarrow>
     (\<forall>k v. objs k = Some v \<longrightarrow> object_ok sha k v) \<and>
     (\<forall>k v. objs k = Some v \<longrightarrow> (\<exists>m \<le> n. k = objectIdentity cfg m)) \<and>
     (\<forall>ref cl. claims ref = Some cl \<longrightarrow> (\<exists>m \<le> n. ClObject cl = objectIdentity cfg m)) \<and>
     (\<forall>ref cl. claims ref = Some cl \<longrightarrow> ClState cl \<noteq> claimReleased \<longrightarrow> objs (ClObject cl) \<noteq> None)"

text \<open>
  The claims of a live checkpoint are committed to it and to no other, those of a released
  checkpoint are released, and every committed claim belongs to a live checkpoint.
\<close>

definition checkpoints_inv :: "(string \<rightharpoonup> blobClaim) \<Rightarrow> (Descriptor \<rightharpoonup> blobCheckpoint) \<Rightarrow> bool" where
  "checkpoints_inv claims cps \<longleftrightarrow>
     (\<forall>i cp. cps i = Some cp \<longrightarrow> (\<forall>ref \<in> set (CpClaims cp). \<exists>cl. claims ref = Some cl \<and>
        (if CpReleased cp then ClState cl = claimReleased else ClState cl = claimCommitted \<and> ClCheckpoint cl = i))) \<and>
     (\<forall>ref cl. claims ref = Some cl \<longrightarrow> ClState cl = claimCommitted \<longrightarrow>
        (\<exists>cp. cps (ClCheckpoint cl) = Some cp \<and> ref \<in> set (CpClaims cp) \<and> \<not> CpReleased cp))"

definition blob_inv :: "(string \<Rightarrow> string) \<Rightarrow> BlobStoreConfig \<Rightarrow> BlobMemory \<Rightarrow> bool" where
  "blob_inv sha cfg s \<longleftrightarrow>
     objects_inv sha cfg (BmSequence s) (map_of (BmObjects s)) (map_of (BmClaims s)) \<and>
     checkpoints_inv (map_of (BmClaims s)) (map_of (BmCheckpoints s)) \<and> distinct (map fst (BmClaims s))"

lemma objectIdentity_inject [simp]: "objectIdentity cfg m = objectIdentity cfg n \<longleftrightarrow> m = n"
  by (simp add: objectIdentity_def)

lemma checkpoints_inv_fresh_claim:
  "checkpoints_inv claims cps \<Longrightarrow> claims ref = None \<Longrightarrow> ClState cl \<noteq> claimCommitted \<Longrightarrow> checkpoints_inv (claims(ref \<mapsto> cl)) cps"
  unfolding checkpoints_inv_def by (auto split: if_splits) (metis option.distinct(1))+

lemma objects_inv_fresh_claim:
  "objects_inv sha cfg n objs claims \<Longrightarrow> objs (ClObject cl) = Some v \<Longrightarrow> objects_inv sha cfg n objs (claims(ref \<mapsto> cl))"
  unfolding objects_inv_def by auto

lemma objects_inv_new_object:
  assumes "objects_inv sha cfg n objs claims" "object_ok sha (objectIdentity cfg (Suc n)) v"
  shows "objects_inv sha cfg (Suc n) (objs(objectIdentity cfg (Suc n) \<mapsto> v)) claims"
  using assms unfolding objects_inv_def by (auto 0 4 intro: le_SucI)

lemma putLocked_inv:
  assumes "blob_inv sha cfg s" "putLocked cfg request (expectedBlob sha request d0) s = (r, s')"
  shows "blob_inv sha cfg s'"
proof (cases "s' = s")
  case False
  let ?i = "objectIdentity cfg (Suc (BmSequence s))"
  let ?d = "expectedBlob sha request d0\<lparr>BlobObject := ?i\<rparr>"
  let ?v = "\<lparr>ObjDescriptor = ?d, ObjContent = PutContent request, ObjRetiring = False\<rparr>"
  let ?cl = "\<lparr>ClObject = ?i, ClCheckpoint = noDescriptor, ClScopeRef = PutScopeRef request, ClState = claimPending\<rparr>"
  from assms(2) False have fresh: "map_of (BmClaims s) (PutRetentionRef request) = None"
    and s': "s' = s\<lparr>BmSequence := Suc (BmSequence s), BmObjects := AList.update ?i ?v (BmObjects s),
      BmClaims := AList.update (PutRetentionRef request) ?cl (BmClaims s)\<rparr>"
    by (auto simp: putLocked_def Let_def expectedBlob_def split: if_splits)
  have "object_ok sha ?i ?v" by (simp add: object_ok_def expectedBlob_def)
  with assms(1) have "objects_inv sha cfg (Suc (BmSequence s)) ((map_of (BmObjects s))(?i \<mapsto> ?v)) (map_of (BmClaims s))"
    unfolding blob_inv_def by (intro objects_inv_new_object) auto
  from objects_inv_fresh_claim [OF this, of ?cl ?v] assms(1) fresh show ?thesis
    by (simp add: s' blob_inv_def checkpoints_inv_fresh_claim distinct_update)
qed (use assms(1) in simp)

lemma Retain_inv:
  assumes "blob_inv sha cfg s" "Retain cfg scope ident ref c s = (r, s')"
  shows "blob_inv sha cfg s'"
proof (cases "s' = s")
  case False
  with assms(2) obtain v where v: "map_of (BmObjects s) ident = Some v" "map_of (BmClaims s) ref = None"
    and s': "s' = s\<lparr>BmClaims := AList.update ref \<lparr>ClObject = ident, ClCheckpoint = noDescriptor,
      ClScopeRef = BlobScopeRef (ObjDescriptor v), ClState = claimPending\<rparr> (BmClaims s)\<rparr>"
    unfolding Retain_def
    by (auto split: if_splits option.splits elim!: locked_cases)
  then show ?thesis
    using assms(1) by (auto simp: s' blob_inv_def checkpoints_inv_fresh_claim objects_inv_fresh_claim distinct_update)
qed (use assms(1) in simp)

lemma commitCheck_Inr:
  "commitCheck s refs = Inr () \<longleftrightarrow> (\<forall>ref \<in> set refs. \<exists>cl v. map_of (BmClaims s) ref = Some cl \<and> ClState cl = claimPending \<and>
     map_of (BmObjects s) (ClObject cl) = Some v \<and> \<not> ObjRetiring v)"
  by (induction refs) (auto split: option.splits)

lemma objects_inv_claim_states:
  assumes "objects_inv sha cfg n objs claims"
    and "\<And>ref cl'. claims' ref = Some cl' \<Longrightarrow> \<exists>cl. claims ref = Some cl \<and> ClObject cl' = ClObject cl \<and>
      (ClState cl' \<noteq> claimReleased \<longrightarrow> ClState cl \<noteq> claimReleased)"
  shows "objects_inv sha cfg n objs claims'"
proof -
  have "(\<exists>m \<le> n. ClObject cl' = objectIdentity cfg m) \<and> (ClState cl' \<noteq> claimReleased \<longrightarrow> objs (ClObject cl') \<noteq> None)"
    if upd: "claims' ref = Some cl'" for ref cl'
  proof -
    obtain cl where "claims ref = Some cl" "ClObject cl' = ClObject cl" "ClState cl' \<noteq> claimReleased \<longrightarrow> ClState cl \<noteq> claimReleased"
      using assms(2) [OF upd] by blast
    then show ?thesis using assms(1) by (simp add: objects_inv_def)
  qed
  then show ?thesis using assms(1) unfolding objects_inv_def by blast
qed

lemma objects_inv_set_claims:
  assumes "objects_inv sha cfg n objs claims" "\<And>v. ClObject (f v) = ClObject v"
    and "\<And>ref cl. ref \<in> A \<Longrightarrow> claims ref = Some cl \<Longrightarrow> ClState (f cl) \<noteq> claimReleased \<Longrightarrow> ClState cl \<noteq> claimReleased"
  shows "objects_inv sha cfg n objs (\<lambda>k. if k \<in> A then map_option f (claims k) else claims k)"
proof (rule objects_inv_claim_states [OF assms(1)])
  fix ref cl'
  assume "(if ref \<in> A then map_option f (claims ref) else claims ref) = Some cl'"
  then show "\<exists>cl. claims ref = Some cl \<and> ClObject cl' = ClObject cl \<and> (ClState cl' \<noteq> claimReleased \<longrightarrow> ClState cl \<noteq> claimReleased)"
    using assms(2,3) by (cases "claims ref") (auto split: if_splits)
qed

lemma checkpoints_invD:
  assumes "checkpoints_inv claims cps"
  shows "cps i = Some cp \<Longrightarrow> ref \<in> set (CpClaims cp) \<Longrightarrow> \<exists>cl. claims ref = Some cl \<and>
      (if CpReleased cp then ClState cl = claimReleased else ClState cl = claimCommitted \<and> ClCheckpoint cl = i)"
    and "claims ref = Some cl \<Longrightarrow> ClState cl = claimCommitted \<Longrightarrow>
      \<exists>cp. cps (ClCheckpoint cl) = Some cp \<and> ref \<in> set (CpClaims cp) \<and> \<not> CpReleased cp"
  using assms unfolding checkpoints_inv_def by blast+

lemma checkpoints_invI:
  assumes "\<And>i cp ref. cps i = Some cp \<Longrightarrow> ref \<in> set (CpClaims cp) \<Longrightarrow> \<exists>cl. claims ref = Some cl \<and>
      (if CpReleased cp then ClState cl = claimReleased else ClState cl = claimCommitted \<and> ClCheckpoint cl = i)"
    and "\<And>ref cl. claims ref = Some cl \<Longrightarrow> ClState cl = claimCommitted \<Longrightarrow>
      \<exists>cp. cps (ClCheckpoint cl) = Some cp \<and> ref \<in> set (CpClaims cp) \<and> \<not> CpReleased cp"
  shows "checkpoints_inv claims cps"
  using assms unfolding checkpoints_inv_def by blast

lemma checkpoints_inv_commit:
  assumes inv: "checkpoints_inv claims cps" and new: "cps i = None"
    and pend: "\<And>ref. ref \<in> set refs \<Longrightarrow> \<exists>cl. claims ref = Some cl \<and> ClState cl = claimPending"
  shows "checkpoints_inv (\<lambda>k. if k \<in> set refs then map_option (\<lambda>v. v\<lparr>ClState := claimCommitted, ClCheckpoint := i\<rparr>) (claims k) else claims k)
    (cps(i \<mapsto> \<lparr>CpClaims = refs, CpReleased = False\<rparr>))"
proof (rule checkpoints_invI, goal_cases)
  case (1 j cp ref)
  show ?case
  proof (cases "j = i")
    case True
    with 1 pend [of ref] show ?thesis by auto
  next
    case False
    with 1 checkpoints_invD(1) [OF inv, of j cp ref] obtain cl where cl: "claims ref = Some cl"
      "if CpReleased cp then ClState cl = claimReleased else ClState cl = claimCommitted \<and> ClCheckpoint cl = j" by auto
    then have "ref \<notin> set refs" using pend [of ref] by (auto split: if_splits)
    then show ?thesis using cl by simp
  qed
next
  case (2 ref cl)
  show ?case
  proof (cases "ref \<in> set refs")
    case True
    with 2 show ?thesis by auto
  next
    case False
    with 2 checkpoints_invD(2) [OF inv, of ref cl] new show ?thesis by auto
  qed
qed

lemma checkpoints_inv_abort:
  assumes inv: "checkpoints_inv claims cps" and v: "claims ref0 = Some v" "ClState v \<noteq> claimCommitted"
  shows "checkpoints_inv (claims(ref0 \<mapsto> v\<lparr>ClState := claimReleased\<rparr>)) cps"
proof (rule checkpoints_invI, goal_cases)
  case (1 j cp ref)
  from checkpoints_invD(1) [OF inv this] v show ?case by (cases "ref = ref0") (auto split: if_splits)
next
  case (2 ref cl)
  then show ?case using checkpoints_invD(2) [OF inv, of ref cl] by (auto split: if_splits)
qed

lemma checkpoints_inv_release:
  assumes inv: "checkpoints_inv claims cps" and old: "cps i = Some cp0"
  shows "checkpoints_inv (\<lambda>k. if k \<in> set (CpClaims cp0) then map_option (\<lambda>v. v\<lparr>ClState := claimReleased\<rparr>) (claims k) else claims k)
    (cps(i \<mapsto> cp0\<lparr>CpReleased := True\<rparr>))"
proof (rule checkpoints_invI, goal_cases)
  case (1 j cp ref)
  show ?case
  proof (cases "j = i")
    case True
    with 1 checkpoints_invD(1) [OF inv old, of ref] show ?thesis by auto
  next
    case False
    with 1 checkpoints_invD(1) [OF inv, of j cp ref] obtain cl where cl: "claims ref = Some cl"
      "if CpReleased cp then ClState cl = claimReleased else ClState cl = claimCommitted \<and> ClCheckpoint cl = j" by auto
    then have "CpReleased cp \<or> ref \<notin> set (CpClaims cp0)"
      using checkpoints_invD(1) [OF inv old, of ref] False by (auto split: if_splits)
    then show ?thesis using cl by auto
  qed
next
  case (2 ref cl)
  then have "ref \<notin> set (CpClaims cp0)" by (auto split: if_splits)
  with 2 checkpoints_invD(2) [OF inv, of ref cl] old show ?case by auto
qed

lemma commitLocked_inv:
  assumes inv: "blob_inv sha cfg s" and run: "commitLocked ident refs s = (r, s')"
  shows "blob_inv sha cfg s'"
proof (cases "map_of (BmCheckpoints s) ident = None \<and> commitCheck s refs = Inr ()")
  case True
  let ?f = "\<lambda>v. v\<lparr>ClState := claimCommitted, ClCheckpoint := ident\<rparr>"
  let ?C = "\<lambda>k. if k \<in> set refs then map_option ?f (map_of (BmClaims s) k) else map_of (BmClaims s) k"
  have claims: "map_of (setClaims ?f refs (BmClaims s)) = ?C" by (rule map_of_setClaims) simp
  have s': "s' = s\<lparr>BmClaims := setClaims ?f refs (BmClaims s),
      BmCheckpoints := AList.update ident \<lparr>CpClaims = refs, CpReleased = False\<rparr> (BmCheckpoints s)\<rparr>"
    using run True by (auto simp: commitLocked_def)
  have pend: "\<exists>cl. map_of (BmClaims s) ref = Some cl \<and> ClState cl = claimPending" if "ref \<in> set refs" for ref
    using True that by (auto simp: commitCheck_Inr)
  have "objects_inv sha cfg (BmSequence s) (map_of (BmObjects s)) ?C"
    using inv by (intro objects_inv_set_claims) (auto simp: blob_inv_def dest: pend)
  moreover have "checkpoints_inv ?C ((map_of (BmCheckpoints s))(ident \<mapsto> \<lparr>CpClaims = refs, CpReleased = False\<rparr>))"
    using inv pend True by (intro checkpoints_inv_commit) (auto simp: blob_inv_def)
  ultimately show ?thesis using inv by (simp add: s' blob_inv_def claims distinct_setClaims)
next
  case False
  then show ?thesis using assms by (auto simp: commitLocked_def split: option.splits sum.splits)
qed

lemma releaseLocked_inv:
  assumes inv: "blob_inv sha cfg s" and run: "releaseLocked ident s = (r, s')" and known: "map_of (BmCheckpoints s) ident = Some cp"
  shows "blob_inv sha cfg s'"
proof -
  let ?f = "\<lambda>v. v\<lparr>ClState := claimReleased\<rparr>"
  let ?C = "\<lambda>k. if k \<in> set (CpClaims cp) then map_option ?f (map_of (BmClaims s) k) else map_of (BmClaims s) k"
  have claims: "map_of (setClaims ?f (CpClaims cp) (BmClaims s)) = ?C" by (rule map_of_setClaims) simp
  have s': "s' = s\<lparr>BmClaims := setClaims ?f (CpClaims cp) (BmClaims s),
      BmCheckpoints := AList.update ident (cp\<lparr>CpReleased := True\<rparr>) (BmCheckpoints s)\<rparr>"
    using run known by (simp add: releaseLocked_def)
  have "objects_inv sha cfg (BmSequence s) (map_of (BmObjects s)) ?C"
    using inv by (intro objects_inv_set_claims) (auto simp: blob_inv_def)
  moreover have "checkpoints_inv ?C ((map_of (BmCheckpoints s))(ident \<mapsto> cp\<lparr>CpReleased := True\<rparr>))"
    using inv known by (intro checkpoints_inv_release) (auto simp: blob_inv_def)
  ultimately show ?thesis using inv by (simp add: s' blob_inv_def claims distinct_setClaims)
qed

lemma objects_inv_map:
  assumes "objects_inv sha cfg n objs claims" "\<And>k v. objs k = Some v \<Longrightarrow> object_ok sha k v \<Longrightarrow> object_ok sha k (g k v)"
  shows "objects_inv sha cfg n (\<lambda>k. map_option (g k) (objs k)) claims"
  using assms unfolding objects_inv_def by auto

lemma RetireSource_inv:
  assumes "blob_inv sha cfg s" "RetireSource cfg scope source c s = (r, s')"
  shows "blob_inv sha cfg s'"
proof (cases "s' = s")
  case False
  let ?g = "\<lambda>k v. if source \<in> set (elems (BlobSources (ObjDescriptor v))) then v\<lparr>ObjRetiring := True\<rparr> else v"
  from assms(2) False have "s' = s\<lparr>BmDeletedSources := List.insert source (BmDeletedSources s),
      BmObjects := map (\<lambda>(k, v). (k, ?g k v)) (BmObjects s)\<rparr>"
    unfolding RetireSource_def by (auto split: sum.splits elim!: locked_cases)
  moreover have "objects_inv sha cfg (BmSequence s) (\<lambda>k. map_option (?g k) (map_of (BmObjects s) k)) (map_of (BmClaims s))"
    using assms(1) by (intro objects_inv_map) (auto simp: blob_inv_def object_ok_def)
  ultimately show ?thesis using assms(1) by (simp add: blob_inv_def map_of_map_values)
qed (use assms(1) in simp)

lemma collectLocked_inv:
  assumes "blob_inv sha cfg s" "collectLocked ident s = (r, s')"
  shows "blob_inv sha cfg s'"
proof (cases "s' = s")
  case False
  with assms(2) have idle: "\<forall>(k, cl) \<in> set (BmClaims s). ClObject cl = ident \<longrightarrow> ClState cl = claimReleased"
    and s': "s' = s\<lparr>BmObjects := AList.delete ident (BmObjects s)\<rparr>"
    by (auto simp: collectLocked_def split: option.splits if_splits)
  have "ClObject cl \<noteq> ident" if "map_of (BmClaims s) ref = Some cl" "ClState cl \<noteq> claimReleased" for ref cl
    using idle map_of_SomeD [OF that(1)] that(2) by auto
  then have "objects_inv sha cfg (BmSequence s) ((map_of (BmObjects s))(ident := None)) (map_of (BmClaims s))"
    using assms(1) unfolding blob_inv_def objects_inv_def by auto
  then show ?thesis using assms(1) by (simp add: s' blob_inv_def)
qed (use assms(1) in simp)

lemma reconcileLocked_inv:
  assumes inv: "blob_inv sha cfg s" and run: "reconcileLocked intent s = (r, s')"
  shows "blob_inv sha cfg s'"
proof (cases "s' = s")
  case False
  with run obtain v where v: "map_of (BmClaims s) (CleanRetentionRef intent) = Some v" "ClState v \<noteq> claimCommitted"
    and col: "collectLocked (CleanObject intent)
      (s\<lparr>BmClaims := AList.update (CleanRetentionRef intent) (v\<lparr>ClState := claimReleased\<rparr>) (BmClaims s),
         BmObjects := (case map_of (BmObjects s) (CleanObject intent) of None \<Rightarrow> BmObjects s
           | Some stored \<Rightarrow> AList.update (CleanObject intent) (stored\<lparr>ObjRetiring := True\<rparr>) (BmObjects s))\<rparr>) = (r, s')"
    by (auto simp: reconcileLocked_def split: option.splits if_splits)
  let ?C = "(map_of (BmClaims s))(CleanRetentionRef intent \<mapsto> v\<lparr>ClState := claimReleased\<rparr>)"
  let ?g = "\<lambda>k w. if k = CleanObject intent then w\<lparr>ObjRetiring := True\<rparr> else w"
  have objs: "map_of (case map_of (BmObjects s) (CleanObject intent) of None \<Rightarrow> BmObjects s
      | Some stored \<Rightarrow> AList.update (CleanObject intent) (stored\<lparr>ObjRetiring := True\<rparr>) (BmObjects s)) =
      (\<lambda>k. map_option (?g k) (map_of (BmObjects s) k))"
  proof
    fix k
    show "map_of (case map_of (BmObjects s) (CleanObject intent) of None \<Rightarrow> BmObjects s
      | Some stored \<Rightarrow> AList.update (CleanObject intent) (stored\<lparr>ObjRetiring := True\<rparr>) (BmObjects s)) k =
      map_option (?g k) (map_of (BmObjects s) k)"
      by (cases "k = CleanObject intent") (simp_all add: option.map_ident split: option.split)
  qed
  have "objects_inv sha cfg (BmSequence s) (map_of (BmObjects s)) ?C"
  proof -
    have "?C = (\<lambda>k. if k \<in> {CleanRetentionRef intent} then map_option (\<lambda>v. v\<lparr>ClState := claimReleased\<rparr>) (map_of (BmClaims s) k)
      else map_of (BmClaims s) k)" using v by (simp add: fun_eq_iff)
    then show ?thesis using inv by (simp only:) (intro objects_inv_set_claims, auto simp: blob_inv_def)
  qed
  then have "objects_inv sha cfg (BmSequence s) (\<lambda>k. map_option (?g k) (map_of (BmObjects s) k)) ?C"
    by (rule objects_inv_map) (simp add: object_ok_def)
  moreover have "checkpoints_inv ?C (map_of (BmCheckpoints s))"
    using inv v by (intro checkpoints_inv_abort) (auto simp: blob_inv_def)
  ultimately show ?thesis
    using inv by (intro collectLocked_inv [OF _ col]) (simp add: blob_inv_def objs distinct_update)
qed (use inv in simp)

subsection \<open>Reachable states\<close>

text \<open>
  Every operation as one step of the backend. A commit or release enters with claims it has
  read before, in any earlier state; the locked section is the step.
\<close>

inductive blob_step :: "env \<Rightarrow> (string \<Rightarrow> string) \<Rightarrow> BlobStoreConfig \<Rightarrow> BlobMemory \<Rightarrow> BlobMemory \<Rightarrow> bool"
  for E sha cfg where
  put: "Blob_Put E sha cfg request c s = (r, s') \<Longrightarrow> blob_step E sha cfg s s'"
| retain: "Retain cfg scope ident ref c s = (u, s') \<Longrightarrow> blob_step E sha cfg s s'"
| commit: "normalizeClaims ident claimRefs = Inr refs \<Longrightarrow> commitLocked ident refs s = (u, s') \<Longrightarrow> blob_step E sha cfg s s'"
| release: "map_of (BmCheckpoints s) ident = Some cp \<Longrightarrow> releaseLocked ident s = (u, s') \<Longrightarrow> blob_step E sha cfg s s'"
| retire: "RetireSource cfg scope source c s = (ds, s') \<Longrightarrow> blob_step E sha cfg s s'"
| collect: "Blob_Collect cfg scope ident c s = (b, s') \<Longrightarrow> blob_step E sha cfg s s'"
| reconcile: "ReconcileCleanup cfg scope intent c s = (b, s') \<Longrightarrow> blob_step E sha cfg s s'"

inductive blob_reachable :: "env \<Rightarrow> (string \<Rightarrow> string) \<Rightarrow> BlobStoreConfig \<Rightarrow> BlobMemory \<Rightarrow> bool"
  for E sha cfg where
  new: "NewBlobMemory cfg = Inr s \<Longrightarrow> blob_reachable E sha cfg s"
| step: "blob_reachable E sha cfg s \<Longrightarrow> blob_step E sha cfg s s' \<Longrightarrow> blob_reachable E sha cfg s'"

lemma Blob_Put_cases:
  assumes "Blob_Put E sha cfg request c s = (r, s')"
  obtains (early) "s' = s"
  | (run) d0 where "putLocked cfg request (expectedBlob sha request d0) s = (r, s')"
  using assms unfolding Blob_Put_def Let_def by (elim locked_cases) auto

lemma Blob_Collect_cases:
  assumes "Blob_Collect cfg scope ident c s = (r, s')"
  obtains (early) "s' = s" | (run) "collectLocked ident s = (r, s')"
  using assms unfolding Blob_Collect_def by (auto split: sum.splits elim!: locked_cases)

lemma ReconcileCleanup_cases:
  assumes "ReconcileCleanup cfg scope intent c s = (r, s')"
  obtains (early) "s' = s" | (run) "reconcileLocked intent s = (r, s')"
  using assms unfolding ReconcileCleanup_def by (auto split: if_splits elim!: locked_cases)

lemma blob_step_inv: "blob_step E sha cfg s s' \<Longrightarrow> blob_inv sha cfg s \<Longrightarrow> blob_inv sha cfg s'"
proof (induction rule: blob_step.induct)
  case put
  then show ?case using putLocked_inv by (elim Blob_Put_cases) auto
next
  case collect
  then show ?case using collectLocked_inv by (elim Blob_Collect_cases) auto
next
  case reconcile
  then show ?case using reconcileLocked_inv by (elim ReconcileCleanup_cases) auto
qed (auto intro: Retain_inv commitLocked_inv releaseLocked_inv RetireSource_inv)

lemma blob_reachable_inv: "blob_reachable E sha cfg s \<Longrightarrow> blob_inv sha cfg s"
proof (induction rule: blob_reachable.induct)
  case (new s)
  then show ?case
    by (auto simp: NewBlobMemory_def blob_inv_def objects_inv_def checkpoints_inv_def split: if_splits)
qed (rule blob_step_inv)

subsection \<open>What never changes\<close>

text \<open>A claim is never removed, never bound to another object or scope, and never revived.\<close>

definition claims_extend :: "(string \<rightharpoonup> blobClaim) \<Rightarrow> (string \<rightharpoonup> blobClaim) \<Rightarrow> bool" where
  "claims_extend C C' \<longleftrightarrow> (\<forall>ref cl. C ref = Some cl \<longrightarrow> (\<exists>cl'. C' ref = Some cl' \<and> ClObject cl' = ClObject cl \<and>
     ClScopeRef cl' = ClScopeRef cl \<and> (ClState cl = claimReleased \<longrightarrow> ClState cl' = claimReleased)))"

text \<open>The bytes and the description of a stored object never change.\<close>

definition objects_extend :: "(Descriptor \<rightharpoonup> blobObject) \<Rightarrow> (Descriptor \<rightharpoonup> blobObject) \<Rightarrow> bool" where
  "objects_extend Q Q' \<longleftrightarrow> (\<forall>k v v'. Q k = Some v \<longrightarrow> Q' k = Some v' \<longrightarrow>
     ObjDescriptor v' = ObjDescriptor v \<and> ObjContent v' = ObjContent v)"

definition blob_extends :: "BlobMemory \<Rightarrow> BlobMemory \<Rightarrow> bool" where
  "blob_extends s s' \<longleftrightarrow> claims_extend (map_of (BmClaims s)) (map_of (BmClaims s')) \<and>
     objects_extend (map_of (BmObjects s)) (map_of (BmObjects s'))"

lemma claims_extend_refl [simp]: "claims_extend C C"
  by (simp add: claims_extend_def)

lemma objects_extend_refl [simp]: "objects_extend Q Q"
  by (simp add: objects_extend_def)

lemma claims_extend_new: "C ref = None \<Longrightarrow> claims_extend C (C(ref \<mapsto> cl))"
  by (auto simp: claims_extend_def)

lemma claims_extend_set:
  assumes "\<And>v. ClObject (f v) = ClObject v" "\<And>v. ClScopeRef (f v) = ClScopeRef v"
    and "\<And>ref cl. ref \<in> A \<Longrightarrow> C ref = Some cl \<Longrightarrow> ClState cl = claimReleased \<Longrightarrow> ClState (f cl) = claimReleased"
  shows "claims_extend C (\<lambda>k. if k \<in> A then map_option f (C k) else C k)"
  using assms by (auto simp: claims_extend_def)

lemma objects_extend_set: "Q k = Some v \<Longrightarrow> objects_extend Q (Q(k \<mapsto> v\<lparr>ObjRetiring := b\<rparr>))"
  by (auto simp: objects_extend_def)

lemma objects_extend_new: "Q k = None \<Longrightarrow> objects_extend Q (Q(k \<mapsto> v))"
  by (auto simp: objects_extend_def)

lemma objects_extendD:
  "objects_extend Q Q' \<Longrightarrow> Q k = Some v \<Longrightarrow> Q' k = Some v' \<Longrightarrow> ObjDescriptor v' = ObjDescriptor v \<and> ObjContent v' = ObjContent v"
  unfolding objects_extend_def by blast

lemma objects_extend_delete:
  assumes "objects_extend Q Q'"
  shows "objects_extend Q (Q'(k := None))"
proof (unfold objects_extend_def, intro allI impI)
  fix j v v'
  assume "Q j = Some v" "(Q'(k := None)) j = Some v'"
  then show "ObjDescriptor v' = ObjDescriptor v \<and> ObjContent v' = ObjContent v"
    using objects_extendD [OF assms, of j v v'] by (simp split: if_splits)
qed

lemma objects_inv_next_free: "objects_inv sha cfg n objs claims \<Longrightarrow> objs (objectIdentity cfg (Suc n)) = None"
  unfolding objects_inv_def by (metis (no_types) not_less_eq_eq not_None_eq objectIdentity_inject order_refl)

lemma putLocked_extends:
  assumes "blob_inv sha cfg s" "putLocked cfg request descriptor s = (r, s')"
  shows "blob_extends s s'"
proof -
  have "map_of (BmObjects s) (objectIdentity cfg (Suc (BmSequence s))) = None"
    using assms(1) objects_inv_next_free by (auto simp: blob_inv_def)
  then show ?thesis
    using assms(2)
    by (auto simp: putLocked_def blob_extends_def Let_def claims_extend_new objects_extend_new split: if_splits)
qed

lemma Retain_extends: "Retain cfg scope ident ref c s = (r, s') \<Longrightarrow> blob_extends s s'"
  unfolding Retain_def
  by (auto split: if_splits option.splits elim!: locked_cases simp: blob_extends_def claims_extend_new)

lemma commitLocked_extends: "commitLocked ident refs s = (r, s') \<Longrightarrow> blob_extends s s'"
  unfolding commitLocked_def blob_extends_def
  by (auto split: option.splits sum.splits simp: map_of_setClaims commitCheck_Inr intro!: claims_extend_set)
    (metis claimState.distinct(3) option.inject)

lemma releaseLocked_extends: "releaseLocked ident s = (r, s') \<Longrightarrow> blob_extends s s'"
  unfolding releaseLocked_def blob_extends_def Let_def
  by (auto simp: map_of_setClaims intro!: claims_extend_set)

lemma RetireSource_extends: "RetireSource cfg scope source c s = (r, s') \<Longrightarrow> blob_extends s s'"
  unfolding RetireSource_def
  by (auto split: sum.splits elim!: locked_cases simp: blob_extends_def map_of_map_values objects_extend_def)

lemma collectLocked_extends: "collectLocked ident s = (r, s') \<Longrightarrow> blob_extends s s'"
  by (auto simp: collectLocked_def blob_extends_def objects_extend_delete split: option.splits if_splits)

lemma reconcileLocked_extends:
  assumes "reconcileLocked intent s = (r, s')"
  shows "blob_extends s s'"
proof (cases "s' = s")
  case False
  with assms obtain v where v: "map_of (BmClaims s) (CleanRetentionRef intent) = Some v"
    and col: "collectLocked (CleanObject intent)
      (s\<lparr>BmClaims := AList.update (CleanRetentionRef intent) (v\<lparr>ClState := claimReleased\<rparr>) (BmClaims s),
         BmObjects := (case map_of (BmObjects s) (CleanObject intent) of None \<Rightarrow> BmObjects s
           | Some stored \<Rightarrow> AList.update (CleanObject intent) (stored\<lparr>ObjRetiring := True\<rparr>) (BmObjects s))\<rparr>) = (r, s')"
    by (auto simp: reconcileLocked_def split: option.splits if_splits)
  let ?objs = "map_of (case map_of (BmObjects s) (CleanObject intent) of None \<Rightarrow> BmObjects s
           | Some stored \<Rightarrow> AList.update (CleanObject intent) (stored\<lparr>ObjRetiring := True\<rparr>) (BmObjects s))"
  have "claims_extend (map_of (BmClaims s)) ((map_of (BmClaims s))(CleanRetentionRef intent \<mapsto> v\<lparr>ClState := claimReleased\<rparr>))"
    using v by (simp add: claims_extend_def)
  moreover have objs: "objects_extend (map_of (BmObjects s)) ?objs"
    by (simp add: objects_extend_set split: option.split)
  then have "objects_extend (map_of (BmObjects s)) (?objs(CleanObject intent := None))" by (rule objects_extend_delete)
  ultimately show ?thesis
    using col objs by (auto simp: collectLocked_def blob_extends_def split: option.splits if_splits)
qed (simp add: blob_extends_def)

lemma blob_step_extends: "blob_step E sha cfg s s' \<Longrightarrow> blob_inv sha cfg s \<Longrightarrow> blob_extends s s'"
proof (induction rule: blob_step.induct)
  case put
  then show ?case using putLocked_extends by (elim Blob_Put_cases) (auto simp: blob_extends_def)
next
  case collect
  then show ?case using collectLocked_extends by (elim Blob_Collect_cases) (auto simp: blob_extends_def)
next
  case reconcile
  then show ?case using reconcileLocked_extends by (elim ReconcileCleanup_cases) (auto simp: blob_extends_def)
qed (auto intro: Retain_extends commitLocked_extends releaseLocked_extends RetireSource_extends)

lemma claims_extendD:
  assumes "claims_extend C C'" "C ref = Some cl"
  obtains cl' where "C' ref = Some cl'" "ClObject cl' = ClObject cl" "ClScopeRef cl' = ClScopeRef cl"
    "ClState cl' \<noteq> claimReleased \<Longrightarrow> ClState cl \<noteq> claimReleased"
  using assms unfolding claims_extend_def by blast

lemma claims_extend_trans: "claims_extend A B \<Longrightarrow> claims_extend B C \<Longrightarrow> claims_extend A C"
  unfolding claims_extend_def by metis

lemma blob_steps_inv: "(blob_step E sha cfg)\<^sup>*\<^sup>* s s' \<Longrightarrow> blob_inv sha cfg s \<Longrightarrow> blob_inv sha cfg s'"
  by (induction rule: rtranclp_induct) (auto intro: blob_step_inv)

lemma blob_steps_claims:
  "(blob_step E sha cfg)\<^sup>*\<^sup>* s s' \<Longrightarrow> blob_inv sha cfg s \<Longrightarrow> claims_extend (map_of (BmClaims s)) (map_of (BmClaims s'))"
proof (induction rule: rtranclp_induct)
  case (step t u)
  then have "claims_extend (map_of (BmClaims t)) (map_of (BmClaims u))"
    using blob_step_extends [OF step(2)] blob_steps_inv [OF step(1)] by (auto simp: blob_extends_def)
  then show ?case using step claims_extend_trans by blast
qed simp

text \<open>
  A descriptor is kept for some content: its claim is bound to its object, and as long as the
  claim is active the object is there with this content.
\<close>

definition blob_keeps :: "BlobMemory \<Rightarrow> BlobDescriptor \<Rightarrow> BlobContent \<Rightarrow> bool" where
  "blob_keeps s d content \<longleftrightarrow> (\<exists>cl. map_of (BmClaims s) (BlobRetentionRef d) = Some cl \<and> ClObject cl = BlobObject d \<and>
     (ClState cl \<noteq> claimReleased \<longrightarrow> (\<exists>v. map_of (BmObjects s) (BlobObject d) = Some v \<and> ObjContent v = content)))"

definition blob_active :: "BlobMemory \<Rightarrow> BlobDescriptor \<Rightarrow> bool" where
  "blob_active s d \<longleftrightarrow> (\<exists>cl. map_of (BmClaims s) (BlobRetentionRef d) = Some cl \<and> ClState cl \<noteq> claimReleased)"

lemma blob_keeps_step:
  assumes inv: "blob_inv sha cfg s" and step: "blob_step E sha cfg s s'" and keeps: "blob_keeps s d content"
  shows "blob_keeps s' d content"
proof -
  note ext = blob_step_extends [OF step inv, unfolded blob_extends_def]
  from keeps obtain cl where cl: "map_of (BmClaims s) (BlobRetentionRef d) = Some cl" "ClObject cl = BlobObject d"
    "ClState cl \<noteq> claimReleased \<Longrightarrow> \<exists>v. map_of (BmObjects s) (BlobObject d) = Some v \<and> ObjContent v = content"
    by (auto simp: blob_keeps_def)
  from claims_extendD [OF conjunct1 [OF ext] cl(1)] obtain cl' where cl': "map_of (BmClaims s') (BlobRetentionRef d) = Some cl'"
    "ClObject cl' = ClObject cl" "ClState cl' \<noteq> claimReleased \<Longrightarrow> ClState cl \<noteq> claimReleased" by blast
  have "\<exists>v. map_of (BmObjects s') (BlobObject d) = Some v \<and> ObjContent v = content" if act: "ClState cl' \<noteq> claimReleased"
  proof -
    obtain v' where v': "map_of (BmObjects s') (BlobObject d) = Some v'"
      using blob_step_inv [OF step inv] cl' cl(2) act unfolding blob_inv_def objects_inv_def by fastforce
    moreover obtain v where v: "map_of (BmObjects s) (BlobObject d) = Some v" "ObjContent v = content"
      using cl(3) cl'(3) act by blast
    ultimately show ?thesis using objects_extendD [OF conjunct2 [OF ext] v(1) v'] by simp
  qed
  then show ?thesis using cl' cl(2) by (auto simp: blob_keeps_def)
qed

subsection \<open>Backends behind the blob contract\<close>

text \<open>
  What \<^verbatim>\<open>PutBlob\<close> and \<^verbatim>\<open>ResolveBlob\<close> need of a backend: a published object is kept, keeping
  survives every step, and a kept object with an active claim can be read by an allowed request.
\<close>

locale blob_backend =
  fixes E :: env and sha :: "string \<Rightarrow> string"
    and inv :: "'s \<Rightarrow> bool" and put :: "'s put_op" and get :: "'s get_op" and step :: "'s \<Rightarrow> 's \<Rightarrow> bool"
    and keeps :: "'s \<Rightarrow> BlobDescriptor \<Rightarrow> BlobContent \<Rightarrow> bool" and active :: "'s \<Rightarrow> BlobDescriptor \<Rightarrow> bool"
    and allowed :: "BlobGetRequest \<Rightarrow> bool"
  assumes put_keeps: "inv s \<Longrightarrow> put request s = (Some d, None, s') \<Longrightarrow> inv s' \<and> keeps s' d (PutContent request)"
    and step_keeps: "inv s \<Longrightarrow> step s s' \<Longrightarrow> inv s' \<and> (keeps s d content \<longrightarrow> keeps s' d content)"
    and get_kept: "inv s \<Longrightarrow> keeps s d content \<Longrightarrow> active s d \<Longrightarrow> Descriptor_Validate (BlobObject d) = Inr () \<Longrightarrow>
      allowed \<lparr>GetScopeRef = scope, GetObject = BlobObject d, GetMaxBytes = m\<rparr> \<Longrightarrow> int (length (BlobBytes content)) \<le> m \<Longrightarrow>
      get \<lparr>GetScopeRef = scope, GetObject = BlobObject d, GetMaxBytes = m\<rparr> s = Inr content"
begin

lemma steps_keep: "step\<^sup>*\<^sup>* s s' \<Longrightarrow> inv s \<Longrightarrow> keeps s d content \<Longrightarrow> inv s' \<and> keeps s' d content"
  by (induction rule: rtranclp_induct) (auto dest: step_keeps)

lemma put_resolve:
  assumes "inv s" and put: "PutBlob E sha put request c s = (Published d, err, s1)" and "step\<^sup>*\<^sup>* s1 s2" "active s2 d"
    and "allowed \<lparr>GetScopeRef = scope, GetObject = BlobObject d, GetMaxBytes = LimMaxBytes limits\<rparr>" "scope \<noteq> []"
    and "int (length (BlobBytes (PutContent request))) \<le> LimMaxBytes limits"
    and "BlobMIME (PutContent request) \<in> set (LimAllowedMediaTypes limits)"
  shows "run (ResolveBlob E sha get scope d limits s2) = Inr (PutContent request)"
proof -
  from PutBlob_published [OF put] have pub: "put request s = (Some d, None, s1)" "BlobDescriptor_Validate E d = Inr ()"
    and eq: "equalBlobReceipt d (expectedBlob sha request (BlobObject d))" by auto
  from put_keeps [OF assms(1) pub(1)] steps_keep [OF assms(3)] have s2: "inv s2" "keeps s2 d (PutContent request)" by auto
  have get: "get \<lparr>GetScopeRef = scope, GetObject = BlobObject d, GetMaxBytes = LimMaxBytes limits\<rparr> s2 = Inr (PutContent request)"
    using get_kept [OF s2 assms(4)] BlobDescriptor_Validate_fields [OF pub(2)] assms(5,7) by blast
  show ?thesis
    using assms(6-8) eq pub(2) get
    by (simp add: run_def ResolveBlob_def bind_def settle_def equalBlobReceipt_def expectedBlob_def)
qed

end

definition memory_put :: "env \<Rightarrow> (string \<Rightarrow> string) \<Rightarrow> BlobStoreConfig \<Rightarrow> ctx \<Rightarrow> BlobMemory put_op" where
  "memory_put E sha cfg c request s =
     (case Blob_Put E sha cfg request c s of (Inl e, s') \<Rightarrow> (None, Some e, s') | (Inr d, s') \<Rightarrow> (Some d, None, s'))"

definition memory_get :: "BlobStoreConfig \<Rightarrow> BlobMemory get_op" where
  "memory_get cfg request s = fst (Blob_Get cfg request None s)"

definition get_allowed :: "BlobStoreConfig \<Rightarrow> BlobGetRequest \<Rightarrow> bool" where
  "get_allowed cfg request \<longleftrightarrow> GetScopeRef request \<noteq> [] \<and>
     CfgAuthorize cfg (retentionAccess ActionGet (GetScopeRef request) (GetObject request) noDescriptor []) = Inr ()"

lemma memory_put_keeps:
  assumes "blob_inv sha cfg s" "memory_put E sha cfg c request s = (Some d, None, s')"
  shows "blob_inv sha cfg s' \<and> blob_keeps s' d (PutContent request)"
proof -
  from assms(2) have put: "Blob_Put E sha cfg request c s = (Inr d, s')"
    by (auto simp: memory_put_def split: prod.splits sum.splits)
  then obtain d0 where "putLocked cfg request (expectedBlob sha request d0) s = (Inr d, s')"
    unfolding Blob_Put_def Let_def locked_def by (auto split: prod.splits sum.splits)
  then have "blob_keeps s' d (PutContent request)"
    by (auto simp: putLocked_def Let_def blob_keeps_def expectedBlob_def split: if_splits)
  then show ?thesis using blob_step_inv [OF blob_step.put [OF put]] assms(1) by blast
qed

interpretation memory_blobs: blob_backend E sha "blob_inv sha cfg" "memory_put E sha cfg c" "memory_get cfg"
  "blob_step E sha cfg" blob_keeps blob_active "get_allowed cfg" for E sha cfg c
proof
  fix s s' :: BlobMemory and d content
  assume "blob_inv sha cfg s" "blob_step E sha cfg s s'"
  then show "blob_inv sha cfg s' \<and> (blob_keeps s d content \<longrightarrow> blob_keeps s' d content)"
    using blob_step_inv blob_keeps_step by blast
next
  fix s d content scope m
  assume inv: "blob_inv sha cfg s" and keeps: "blob_keeps s d content" "blob_active s d"
    and valid: "Descriptor_Validate (BlobObject d) = Inr ()"
    and allowed: "get_allowed cfg \<lparr>GetScopeRef = scope, GetObject = BlobObject d, GetMaxBytes = m\<rparr>"
    and size: "int (length (BlobBytes content)) \<le> m"
  from keeps obtain v where v: "map_of (BmObjects s) (BlobObject d) = Some v" "ObjContent v = content"
    by (auto simp: blob_keeps_def blob_active_def)
  then have "BlobLength (ObjDescriptor v) = int (length (BlobBytes content))"
    using inv by (auto simp: blob_inv_def objects_inv_def object_ok_def)
  then show "memory_get cfg \<lparr>GetScopeRef = scope, GetObject = BlobObject d, GetMaxBytes = m\<rparr> s = Inr content"
    using valid allowed size v
    by (simp add: memory_get_def Blob_Get_def locked_def authorize_def bind_def settle_def get_allowed_def retentionAccess_def)
qed (rule memory_put_keeps)

subsection \<open>Properties\<close>

text \<open>
  C11. Retained bytes are never deleted: in every state the backend can reach, an active claim (pending
  or committed) has its object in the store, with the digest, length and type of its bytes; and
  every claim of a checkpoint that was committed and not released is active.
\<close>

theorem blob_retention_safety:
  assumes "blob_reachable E sha cfg s"
  shows "(\<forall>ref cl. map_of (BmClaims s) ref = Some cl \<longrightarrow> ClState cl \<noteq> claimReleased \<longrightarrow>
       (\<exists>v. map_of (BmObjects s) (ClObject cl) = Some v \<and> object_ok sha (ClObject cl) v)) \<and>
     (\<forall>ident cp ref. map_of (BmCheckpoints s) ident = Some cp \<longrightarrow> \<not> CpReleased cp \<longrightarrow> ref \<in> set (CpClaims cp) \<longrightarrow>
       (\<exists>cl. map_of (BmClaims s) ref = Some cl \<and> ClState cl = claimCommitted \<and> ClCheckpoint cl = ident))"
proof (intro conjI allI impI)
  note inv = blob_reachable_inv [OF assms, unfolded blob_inv_def]
  fix ref cl
  assume "map_of (BmClaims s) ref = Some cl" "ClState cl \<noteq> claimReleased"
  then show "\<exists>v. map_of (BmObjects s) (ClObject cl) = Some v \<and> object_ok sha (ClObject cl) v"
    using inv unfolding objects_inv_def by (metis not_None_eq)
next
  note inv = blob_reachable_inv [OF assms, unfolded blob_inv_def]
  fix ident cp ref
  assume "map_of (BmCheckpoints s) ident = Some cp" "\<not> CpReleased cp" "ref \<in> set (CpClaims cp)"
  then show "\<exists>cl. map_of (BmClaims s) ref = Some cl \<and> ClState cl = claimCommitted \<and> ClCheckpoint cl = ident"
    using checkpoints_invD(1) [of "map_of (BmClaims s)" "map_of (BmCheckpoints s)" ident cp ref] inv by simp
qed

text \<open>
  C29. What was published can be read back as long as it is claimed: after \<^verbatim>\<open>PutBlob\<close> on the memory backend
  has published a descriptor, and after any further operations by anyone (writes, claims, commits,
  releases, source retirement, collection, cleanup), a checked read in an allowed scope and
  within its limits returns exactly the bytes that were put, unless the claim was released.
\<close>

theorem blob_put_resolve:
  assumes "blob_reachable E sha cfg s"
    and "PutBlob E sha (memory_put E sha cfg c') request c s = (Published d, err, s1)"
    and "(blob_step E sha cfg)\<^sup>*\<^sup>* s1 s2" "blob_active s2 d" "scope \<noteq> []"
    and "get_allowed cfg \<lparr>GetScopeRef = scope, GetObject = BlobObject d, GetMaxBytes = LimMaxBytes limits\<rparr>"
    and "int (length (BlobBytes (PutContent request))) \<le> LimMaxBytes limits"
    and "BlobMIME (PutContent request) \<in> set (LimAllowedMediaTypes limits)"
  shows "run (ResolveBlob E sha (memory_get cfg) scope d limits s2) = Inr (PutContent request)"
  using memory_blobs.put_resolve [OF blob_reachable_inv [OF assms(1)] assms(2,3,4,6,5,7,8)] .

lemma authorize_Inr: "authorize cfg access c = (Inr (), c') \<Longrightarrow> CfgAuthorize cfg access = Inr ()"
  by (auto simp: authorize_def bind_Inr_iff split: if_splits elim!: settle_InrE)

lemma authorize_fold:
  assumes "fold (\<lambda>access m. bind m (\<lambda>_. authorize cfg access)) accesses m c = (Inr (), c')"
  shows "(\<exists>c1. m c = (Inr (), c1)) \<and> (\<forall>access \<in> set accesses. CfgAuthorize cfg access = Inr ())"
  using assms
proof (induction accesses arbitrary: m)
  case (Cons access accesses)
  from Cons.IH [of "bind m (\<lambda>_. authorize cfg access)"] Cons.prems
  show ?case by (auto simp: bind_Inr_iff dest: authorize_Inr)
qed auto

lemma authorizeClaims_Inr:
  assumes "authorizeClaims cfg action scope ident refs s c = (Inr (), c')" "ref \<in> set refs"
  shows "\<exists>cl. map_of (BmClaims s) ref = Some cl \<and> CfgAuthorize cfg (retentionAccess action scope (ClObject cl) ident ref) = Inr ()"
proof -
  from assms(1) obtain accesses c1 where acc: "map_res (\<lambda>ref. case map_of (BmClaims s) ref of None \<Rightarrow> Inl ErrClaimConflict
      | Some v \<Rightarrow> Inr (retentionAccess action scope (ClObject v) ident ref)) refs = Inr accesses"
    and "fold (\<lambda>access m. bind m (\<lambda>_. authorize cfg access)) accesses (ret ()) c1 = (Inr (), c')"
    by (auto simp: authorizeClaims_def bind_Inr_iff)
  from authorize_fold [OF this(2)] have all: "\<forall>access \<in> set accesses. CfgAuthorize cfg access = Inr ()" by simp
  from assms(2) obtain k where k: "k < length refs" "refs ! k = ref" by (auto simp: in_set_conv_nth)
  from map_res_nth [OF acc k(1)] map_res_length [OF acc] k all show ?thesis by (auto split: option.splits)
qed

lemma normalizeClaims_Inr:
  "normalizeClaims ident claimRefs = Inr refs \<Longrightarrow> refs = sort claimRefs \<and> distinct refs \<and> set refs = set claimRefs"
  by (auto simp: normalizeClaims_def Let_def split: if_splits)

text \<open>
  C30. Committing a checkpoint is all or nothing and authorized for what it really retains: an error leaves
  the state as it is at the lock; a success has every given claim bound to the checkpoint, the host
  having authorized the very object each claim holds (although the claims were read before the
  lock, with other operations in between), and the exact same commit can be repeated
  without any effect.
\<close>

theorem CommitCheckpoint_atomic_authorized:
  assumes reach: "blob_reachable E sha cfg s" and others: "(blob_step E sha cfg)\<^sup>*\<^sup>* s (others s)"
    and run: "CommitCheckpoint cfg scope ident claimRefs others c s = (r, s')"
  shows "case r of
      Inl _ \<Rightarrow> s' = s \<or> s' = others s
    | Inr _ \<Rightarrow> (\<forall>ref \<in> set claimRefs. \<exists>cl. map_of (BmClaims s') ref = Some cl \<and> ClState cl = claimCommitted \<and>
         ClCheckpoint cl = ident \<and> CfgAuthorize cfg (retentionAccess ActionCommit scope (ClObject cl) ident ref) = Inr ()) \<and>
         commitLocked ident (sort claimRefs) s' = (Inr (), s')"
proof (cases r)
  case (Inl e)
  then show ?thesis
    using run by (auto simp: CommitCheckpoint_def locked_def commitLocked_def split: sum.splits prod.splits option.splits if_splits)
next
  case (Inr u)
  from run Inr obtain refs c1 c2 where norm: "normalizeClaims ident claimRefs = Inr refs"
    and auth: "authorizeClaims cfg ActionCommit scope ident refs s c = (Inr (), c1)" and com: "commitLocked ident refs (others s) = (Inr (), s')"
    by (auto simp: CommitCheckpoint_def locked_def bind_Inr_iff split: sum.splits prod.splits)
  have step: "blob_step E sha cfg (others s) s'" by (rule blob_step.commit [OF norm com])
  note inv = blob_reachable_inv [OF reach]
  have inv': "blob_inv sha cfg s'" by (rule blob_step_inv [OF step blob_steps_inv [OF others inv]])
  have ext: "claims_extend (map_of (BmClaims s)) (map_of (BmClaims s'))"
    by (rule blob_steps_claims [OF rtranclp.rtrancl_into_rtrancl [OF others step] inv])
  have "\<exists>cp. map_of (BmCheckpoints s') ident = Some cp \<and> CpClaims cp = refs \<and> \<not> CpReleased cp"
  proof (cases "map_of (BmCheckpoints (others s)) ident")
    case None
    then have "map_of (BmCheckpoints s') ident = Some \<lparr>CpClaims = refs, CpReleased = False\<rparr>"
      using com by (auto simp: commitLocked_def split: sum.splits)
    then show ?thesis by simp
  qed (use com in \<open>auto simp: commitLocked_def split: if_splits\<close>)
  then obtain cp where cp: "map_of (BmCheckpoints s') ident = Some cp" "CpClaims cp = refs" "\<not> CpReleased cp" by blast
  have "\<exists>cl. map_of (BmClaims s') ref = Some cl \<and> ClState cl = claimCommitted \<and> ClCheckpoint cl = ident \<and>
      CfgAuthorize cfg (retentionAccess ActionCommit scope (ClObject cl) ident ref) = Inr ()" if ref: "ref \<in> set claimRefs" for ref
  proof -
    have ref': "ref \<in> set refs" using ref normalizeClaims_Inr [OF norm] by simp
    from authorizeClaims_Inr [OF auth ref'] obtain cl0 where cl0: "map_of (BmClaims s) ref = Some cl0"
      "CfgAuthorize cfg (retentionAccess ActionCommit scope (ClObject cl0) ident ref) = Inr ()" by blast
    from claims_extendD [OF ext cl0(1)] obtain cl where cl: "map_of (BmClaims s') ref = Some cl" "ClObject cl = ClObject cl0" by metis
    then show ?thesis
      using checkpoints_invD(1) [of "map_of (BmClaims s')" "map_of (BmCheckpoints s')" ident cp ref] inv' cp ref' cl0(2)
      by (simp add: blob_inv_def)
  qed
  moreover have "commitLocked ident (sort claimRefs) s' = (Inr (), s')"
    using cp normalizeClaims_Inr [OF norm] by (simp add: commitLocked_def)
  ultimately show ?thesis by (simp add: Inr)
qed

subsection \<open>Witnesses\<close>

definition sampleBlobConfig :: BlobStoreConfig where
  "sampleBlobConfig = \<lparr>CfgNamespace = ''ns'', CfgMaxObjectBytes = 100, CfgAuthorize = (\<lambda>_. Inr ()), CfgIncarnation = ''i''\<rparr>"

definition samplePut :: BlobPutRequest where
  "samplePut = \<lparr>PutScopeRef = ''scope'', PutRetentionRef = ''keep'',
     PutContent = \<lparr>BlobMIME = ''text/plain'', BlobBytes = ''data''\<rparr>, PutSources = None\<rparr>"

definition emptyBlobs :: BlobMemory where
  "emptyBlobs = \<lparr>BmSequence = 0, BmObjects = [], BmClaims = [], BmCheckpoints = [], BmDeletedSources = []\<rparr>"

definition sampleDescriptor :: BlobDescriptor where
  "sampleDescriptor = expectedBlob sampleSha samplePut \<lparr>DescID = ''ns/i/1'', DescRevision = ''immutable''\<rparr>"

definition sampleBlobs :: BlobMemory where
  "sampleBlobs = \<lparr>BmSequence = 1,
     BmObjects = [(\<lparr>DescID = ''ns/i/1'', DescRevision = ''immutable''\<rparr>,
       \<lparr>ObjDescriptor = sampleDescriptor, ObjContent = PutContent samplePut, ObjRetiring = False\<rparr>)],
     BmClaims = [(''keep'', \<lparr>ClObject = \<lparr>DescID = ''ns/i/1'', DescRevision = ''immutable''\<rparr>, ClCheckpoint = noDescriptor,
       ClScopeRef = ''scope'', ClState = claimPending\<rparr>)],
     BmCheckpoints = [], BmDeletedSources = []\<rparr>"

lemma emptyBlobs_reachable: "blob_reachable sampleEnv sampleSha sampleBlobConfig emptyBlobs"
  by (rule blob_reachable.new) (simp add: NewBlobMemory_def sampleBlobConfig_def emptyBlobs_def)

lemma sample_PutBlob:
  "PutBlob sampleEnv sampleSha (memory_put sampleEnv sampleSha sampleBlobConfig None) samplePut None emptyBlobs =
     (Published sampleDescriptor, None, sampleBlobs)"
  by code_simp

lemma sampleBlobs_reachable: "blob_reachable sampleEnv sampleSha sampleBlobConfig sampleBlobs"
proof (rule blob_reachable.step [OF emptyBlobs_reachable blob_step.put])
  show "Blob_Put sampleEnv sampleSha sampleBlobConfig samplePut None emptyBlobs = (Inr sampleDescriptor, sampleBlobs)"
    by code_simp
qed

theorem blob_retention_safety_witness:
  "\<exists>v. map_of (BmObjects sampleBlobs) \<lparr>DescID = ''ns/i/1'', DescRevision = ''immutable''\<rparr> = Some v"
  using blob_retention_safety [OF sampleBlobs_reachable] by (force simp: sampleBlobs_def)

theorem blob_put_resolve_witness:
  "run (ResolveBlob sampleEnv sampleSha (memory_get sampleBlobConfig) ''reader'' sampleDescriptor
     \<lparr>LimMaxBytes = 10, LimAllowedMediaTypes = [''text/plain'']\<rparr> sampleBlobs) = Inr (PutContent samplePut)"
  by (rule blob_put_resolve [OF emptyBlobs_reachable sample_PutBlob])
    (simp_all add: blob_active_def sampleBlobs_def sampleDescriptor_def expectedBlob_def samplePut_def get_allowed_def
      sampleBlobConfig_def)

theorem CommitCheckpoint_atomic_authorized_witness:
  "\<exists>cl. map_of (BmClaims (snd (CommitCheckpoint sampleBlobConfig ''scope'' \<lparr>DescID = ''cp'', DescRevision = ''1''\<rparr> [''keep'']
     (\<lambda>s. s) None sampleBlobs))) ''keep'' = Some cl \<and> ClState cl = claimCommitted"
proof -
  let ?run = "CommitCheckpoint sampleBlobConfig ''scope'' \<lparr>DescID = ''cp'', DescRevision = ''1''\<rparr> [''keep''] (\<lambda>s. s) None sampleBlobs"
  have "fst ?run = Inr ()" by code_simp
  then have "?run = (Inr (), snd ?run)" by (metis prod.collapse)
  from CommitCheckpoint_atomic_authorized [OF sampleBlobs_reachable _ this] show ?thesis by auto
qed

end
