(* ===== verification/Store_Progress.thy ===== *)
theory Store_Progress
  imports State_Store
begin

text \<open>
  Progress of writers under optimistic concurrency (conversation.go with the protocol of errors.go: after a version conflict a writer
  loads the conversation again and commits against the version it returned).
\<close>

subsection \<open>A failed attempt is paid for\<close>

context occ_store
begin

text \<open>
  An attempt that would be accepted on an unchanged conversation can only fail when somebody else has written it since it was loaded.
\<close>

lemma failed_attempt_paid:
  assumes "ok st" "step e (run_events es st) = (Inl err, st')"
    and "view (run_events es st) i = view st i \<Longrightarrow> fst (step e (run_events es st)) = Inr ()"
  shows "fst (view st i) < fst (view st' i)"
proof -
  have "view (run_events es st) i \<noteq> view st i" using assms(2,3) by auto
  with no_aba [OF assms(1)] have "fst (view (run_events es st) i) \<noteq> fst (view st i)" by blast
  with versions_monotone [OF assms(1), of i es] have "fst (view st i) < fst (view (run_events es st) i)" by simp
  then show ?thesis using cas_failure [OF ok_run [OF assms(1)] assms(2)] by simp
qed

end

subsection \<open>The writer\<close>

text \<open>What the loaded state needs for a commit of \<open>ds\<close> to be accepted.\<close>

definition accepted_commit :: "ConversationCodec \<Rightarrow> ConversationState \<Rightarrow> ConversationDelta list \<Rightarrow> bool" where
  "accepted_commit C s ds \<longleftrightarrow> ds \<noteq> [] \<and> Version s < MaxInt \<and>
     \<not> isl (bind_res (ApplyDeltas s ds) (\<lambda>applied.
       bind_res (ProjectCheckpoint (CodecEnv C) (CodecPayloadDigest C) (CodecOpaque C) applied) (\<lambda>proj.
       bind_res (Encode C proj) (Decode C))))"

definition loaded :: "memory_store \<Rightarrow> string \<Rightarrow> ConversationState" where
  "loaded st i = (case run (LoadState st i) of Inr s \<Rightarrow> s | Inl _ \<Rightarrow> EmptyState)"

text \<open>
  A writer decides on deltas from the state it loads. In every round it loads, the other clients run the events of that round, and it
  commits. The result lists the stored states at its loads, whether it succeeded, and the store.
\<close>

fun retry_commit ::
  "ConversationCodec \<Rightarrow> string \<Rightarrow> (ConversationState \<Rightarrow> ConversationDelta list) \<Rightarrow> (ctx \<times> store_op) list list \<Rightarrow> memory_store \<Rightarrow>
   ConversationState list \<times> bool \<times> memory_store" where
  "retry_commit C i plan [] st = ([], False, st)"
| "retry_commit C i plan (es # rounds) st =
     (let s = loaded st i;
          st1 = fold (\<lambda>e st. snd (memory_step C e st)) es st
      in case memory_step C (None, OpCommit i (Version s) (plan s)) st1 of
           (Inr _, st2) \<Rightarrow> ([current st i], True, st2)
         | (Inl _, st2) \<Rightarrow> let (loads, done, st') = retry_commit C i plan rounds st2 in (current st i # loads, done, st'))"

lemma loaded_current: "loaded st i = AllSegmentsSnapshot (current st i)"
  by (simp add: loaded_def LoadState_def run_def bind_def current_def AllSegmentsSnapshot_def EmptyState_def cloneArtifactMap_def split: option.split)

lemma loaded_version [simp]: "Version (loaded st i) = Version (current st i)"
  by (simp add: loaded_current AllSegmentsSnapshot_def)

lemma commit_accepted:
  assumes "store_ok st" "accepted_commit C (current st i) ds"
  shows "fst (memory_step C (None, OpCommit i (Version (current st i)) ds) st) = Inr ()"
proof -
  have "NextConversationVersion (Version (current st i)) = Inr (go_add (Version (current st i)) 1)"
    using assms current_version(1) [OF assms(1), of i] by (simp add: NextConversationVersion_def accepted_commit_def)
  then show ?thesis
    using assms(2) by (cases "st i") (auto simp: accepted_commit_def current_def CommitState_def bind_def bind_res_def EmptyState_def split: sum.splits)
qed

lemma commit_depends_on_current:
  assumes "store_ok st" "current st' i = current st i" "store_ok st'" "accepted_commit C (current st i) ds"
  shows "fst (memory_step C (None, OpCommit i (Version (current st i)) ds) st') = Inr ()"
  using commit_accepted [OF assms(3), of C i ds] assms(2,4) by simp

text \<open>
  C40. Writers make progress. A writer that loads, decides and commits in rounds, each under arbitrary interference by other clients, and whose
  commits are acceptable for the states it loads, either succeeds, and then its commit makes the next version after the one it last loaded; or every
  one of its failed rounds is paid for by a write of somebody else: the version has grown by at least the number of rounds. In particular
  a writer that is not overtaken succeeds in its first round, and one that is overtaken \<open>k\<close> times succeeds within \<open>k + 1\<close> rounds.
\<close>

theorem commit_retry_progress:
  assumes "store_ok st" "retry_commit C i plan rounds st = (loads, finished, st')"
    and "\<forall>s \<in> set loads. accepted_commit C s (plan (AllSegmentsSnapshot s))"
  shows "if finished then Version (current st' i) = Version (last loads) + 1 else Version (current st i) + int (length rounds) \<le> Version (current st' i)"
  using assms
proof (induction rounds arbitrary: st loads)
  case (Cons es rounds)
  let ?st1 = "fold (\<lambda>e st. snd (memory_step C e st)) es st" and ?e = "(None :: ctx, OpCommit i (Version (current st i)) (plan (loaded st i)))"
  have ok1: "store_ok ?st1" by (rule memory.ok_run [OF Cons.prems(1)])
  obtain r st2 where step: "memory_step C ?e ?st1 = (r, st2)" by fastforce
  have ok2: "store_ok st2" using memory.ok_step [OF ok1, of C ?e] step by simp
  show ?case
  proof (cases r)
    case (Inr u)
    with step have "Version (current st2 i) = Version (current st i) + 1"
      using memory.cas_success [OF ok1, of ?e i _ C st2] by (simp del: memory_step.simps add: memory_view_def)
    then show ?thesis using Cons.prems(2) step Inr by (auto simp del: memory_step.simps simp: Let_def)
  next
    case (Inl err)
    then obtain loads' where rest: "retry_commit C i plan rounds st2 = (loads', finished, st')" "loads = current st i # loads'"
      using Cons.prems(2) step by (auto simp del: memory_step.simps simp: Let_def split: prod.splits)
    have "accepted_commit C (current st i) (plan (loaded st i))" using Cons.prems(3) rest(2) by (simp add: loaded_current)
    then have "fst (memory_view st i) < fst (memory_view st2 i)"
      using memory.failed_attempt_paid [OF Cons.prems(1) step [unfolded Inl]] commit_depends_on_current [OF Cons.prems(1) _ ok1]
      by (simp del: memory_step.simps add: memory_view_def)
    then have less: "Version (current st i) < Version (current st2 i)" by (simp add: memory_view_def)
    have "\<forall>s \<in> set loads'. accepted_commit C s (plan (AllSegmentsSnapshot s))" using Cons.prems(3) rest(2) by simp
    note ih = Cons.IH [OF ok2 rest(1) this]
    moreover have "loads' \<noteq> []" if finished using rest(1) that by (cases rounds) (auto simp del: memory_step.simps simp: Let_def split: prod.splits sum.splits)
    ultimately show ?thesis using less rest(2) by (auto split: if_splits)
  qed
qed simp

text \<open>The first attempt is overtaken by another client, the second one succeeds.\<close>

definition progressCodec :: ConversationCodec where
  "progressCodec = sampleCodec\<lparr>CodecMarshalWire := (\<lambda>_. Inr ''{wire}'')\<rparr>"

theorem commit_retry_progress_witness:
  "\<exists>loads st'. retry_commit progressCodec ''c'' (\<lambda>_. sampleDeltas) [[(None, OpClear ''c'' 0)], []] Map.empty = (loads, True, st') \<and>
     map Version loads = [0, 1] \<and> Version (current st' ''c'') = 2"
proof -
  have run: "(case retry_commit progressCodec ''c'' (\<lambda>_. sampleDeltas) [[(None, OpClear ''c'' 0)], []] Map.empty of
      (loads, finished, st') \<Rightarrow> finished \<and> loads = [EmptyState, WithVersion EmptyState 1])" by code_simp
  then obtain st' where r: "retry_commit progressCodec ''c'' (\<lambda>_. sampleDeltas) [[(None, OpClear ''c'' 0)], []] Map.empty =
      ([EmptyState, WithVersion EmptyState 1], True, st')"
    by (auto split: prod.splits)
  have "accepted_commit progressCodec EmptyState sampleDeltas" "accepted_commit progressCodec (WithVersion EmptyState 1) sampleDeltas"
    by code_simp+
  then have "Version (current st' ''c'') = 2"
    using commit_retry_progress [OF _ r] by (simp add: store_ok_def WithVersion_def EmptyState_def)
  then show ?thesis using r by (simp add: EmptyState_def)
qed

end
