(* ===== verification/Spec2Isabelle.thy ===== *)
theory Spec2Isabelle
  imports Budget Budget_Scope Lineage Transform_Log Targets Coverage Redis_Store Postgres_Store Blob_Store Store_Progress
begin

text \<open>
  \<^bold>\<open>A verification of contexty.\<close> The repository is a Go library for typed LLM context: messages with durable identities,
  conversation state with optimistic checkpoints, token budgets, artifacts, lineage and selection of what a model sees.
  This development translates its core into executable definitions and proves the properties that the library promises.
  File names below are relative to the root of the repository.

  \<^bold>\<open>Conventions.\<close> A Go struct is a \<^theory_text>\<open>record\<close>, an interface or an enumeration with known implementations a \<^theory_text>\<open>datatype\<close>, a
  Go map an association list with distinct keys (lists are sorted where the code sorts), a slice a list, or a list option where
  the code distinguishes nil. An \<^verbatim>\<open>int\<close> is an \<open>int\<close>; where the code adds or multiplies unchecked numbers the 64-bit wrap-around is
  written out (\<open>go_add\<close>, \<open>go_sub\<close>, \<open>go_mul\<close> of \<open>Contexty_Prelude\<close>, defined through 64-bit words). Errors are values of \<open>go_error\<close>,
  fallible code returns \<open>go_error + 'a\<close>, and code that takes a \<^verbatim>\<open>context.Context\<close> is a computation \<open>'a comp\<close> over the cancellation
  oracle of the prelude: a context may be cancelled after any number of \<^verbatim>\<open>ctx.Err()\<close> calls. Host callbacks (estimators,
  summarizers, selection and materialization policies) are functions into \<open>'a comp\<close>, so that they may fail, and are arbitrary in every theorem.

  \<^bold>\<open>What is a parameter.\<close> Code outside of the repository is an argument of the definitions: SHA-256 (\<open>sha\<close>), the JSON digests of
  messages, artifacts and reports (\<open>MarshalDigest\<close>, \<open>ArtifactDigest\<close>, \<open>ReportDigests\<close>), MIME parsing, the JSON leaf codecs of
  the conversation codec, UUID generation. What a theorem needs of them is a hypothesis of it (\<open>digest_wf\<close>: a digest is 32 bytes in hexadecimal),
  with a witness on a concrete host.

  \<^bold>\<open>Theories.\<close>
  \<^item> \<open>Contexty_Prelude\<close>: errors, results, cancellable computations, wrapped arithmetic, shared list lemmas.
  \<^item> \<open>Go_Text\<close> (\<^verbatim>\<open>strings\<close>, \<^verbatim>\<open>unicode/utf8\<close> and the string form of \<^verbatim>\<open>encoding/json\<close> as far as the source uses them).
  \<^item> \<open>Message_Model\<close> (\<^verbatim>\<open>model.go\<close>, \<^verbatim>\<open>content_part.go\<close>, \<^verbatim>\<open>role.go\<close>, \<^verbatim>\<open>message_equal.go\<close>, ...): the message tree, deep copies, equality and
    content references. \<open>Samples\<close> and \<open>Decimal\<close> hold concrete values for witnesses and decimal numerals.
  \<^item> \<open>Tool_Rounds\<close> (\<^verbatim>\<open>tool_turn.go\<close>, \<^verbatim>\<open>round_state.go\<close>): canonical tool rounds; the inspection of a history is accurate and
    complete, validation is exact.
  \<^item> \<open>Estimators\<close> (\<^verbatim>\<open>estimator.go\<close>, \<^verbatim>\<open>token.go\<close>, \<^verbatim>\<open>fixed_estimator.go\<close>, \<^verbatim>\<open>estimate_arithmetic.go\<close>): additivity and overflow checks.
  \<^item> \<open>Eviction\<close> (\<^verbatim>\<open>strategies.go\<close>, \<^verbatim>\<open>pipeline.go\<close>): no strategy exceeds the limit, every strategy keeps a contiguous window, and only
    drop-head with \<^verbatim>\<open>KeepTurnAtomicity\<close> false may split a round; drop-head (binary search and
    selective path) is the longest fitting suffix at an allowed boundary.
  \<^item> \<open>Budget\<close> (\<^verbatim>\<open>budget_*.go\<close>, \<^verbatim>\<open>rolling_summary.go\<close>, \<^verbatim>\<open>pipeline.go\<close>): the whole budget execution, which stays within the limit and keeps required
    content; percentages and limits without overflow. \<open>Budget_Scope\<close> (\<^verbatim>\<open>budget_compile_scope.go\<close>): required selection never splits a round, also in
    the scope of a compile, where the sections that it fixes are taken out before the recent suffix is protected.
  \<^item> \<open>Blobs\<close> (\<^verbatim>\<open>blob.go\<close>) and \<open>Blob_Store\<close> (\<^verbatim>\<open>adapters/blob/memory\<close>): the blob contract as the locale \<open>blob_backend\<close>, interpreted by the
    in-memory backend (\<open>memory_blobs\<close>); retention safety over all reachable states.
  \<^item> \<open>Conversation\<close> (\<^verbatim>\<open>conversation.go\<close>, \<^verbatim>\<open>conversation_delta.go\<close>, \<^verbatim>\<open>artifact.go\<close>, \<^verbatim>\<open>merge_policy.go\<close>, \<^verbatim>\<open>checkpoint.go\<close>): state, deltas with their
    invariant, artifact merging, checkpoints.
  \<^item> \<open>State_Codec\<close> (\<^verbatim>\<open>serializer.go\<close>): the storage envelope, whose decoder accepts what its encoder wrote when the leaf codecs are lossless.
  \<^item> \<open>State_Store\<close> (\<^verbatim>\<open>conversation.go\<close>), \<open>Redis_Store\<close>, \<open>Postgres_Store\<close> (\<^verbatim>\<open>adapters/store\<close>): what an optimistic store promises is stated by the
    locales \<open>versioned_store\<close> and \<open>occ_store\<close>; exclusive updates and linearizability are proved there once, and the memory store, the Lua scripts with
    their decimal revisions and the guarded SQL interpret them (\<open>memory\<close>, \<open>redis\<close>, \<open>postgres\<close>).
  \<^item> \<open>Lineage\<close> (\<^verbatim>\<open>lineage.go\<close>): the validation of a lineage graph is exact and its depth-first search terminates.
  \<^item> \<open>Estimate_Report\<close> (\<^verbatim>\<open>estimate_report.go\<close>, \<^verbatim>\<open>estimate_extensions.go\<close>, \<^verbatim>\<open>estimate_codec.go\<close>): a report
    is exact on the content of its request, and validates exactly when no segment repeats a message identity.
  \<^item> \<open>Materialization\<close> (\<^verbatim>\<open>materialization.go\<close>, \<^verbatim>\<open>artifact_budget.go\<close>, \<^verbatim>\<open>artifact_estimate.go\<close>): each revision of an artifact is materialized once.
  \<^item> \<open>Selection\<close> (\<^verbatim>\<open>selection.go\<close>): candidates partition the context, admission is greedy in priority order within the limit, decisions validate.
  \<^item> \<open>Compile_Request\<close> (\<^verbatim>\<open>identity_policy.go\<close>, \<^verbatim>\<open>current_turn.go\<close>, \<^verbatim>\<open>transform_record.go\<close>): normalization gives every message an identity and reports
    it; event identities are hashes of keys that never repeat.
  \<^item> \<open>Transform_Log\<close> (\<^verbatim>\<open>transform_recorder.go\<close>, \<^verbatim>\<open>persistence_projection.go\<close>): the transformation log of a compile and exactly what of its
    result is persisted.
  \<^item> \<open>Opaque_State\<close> (\<^verbatim>\<open>opaque_state*.go\<close>), \<open>Output_Policy\<close> (\<^verbatim>\<open>output_policy*.go\<close>), \<open>Views\<close> (\<^verbatim>\<open>views.go\<close>, \<^verbatim>\<open>view_registry.go\<close>): enforcement of provider
    state, the topology that a policy must keep, text renderings.
  \<^item> \<open>Engine\<close> (\<^verbatim>\<open>compile.go\<close>, \<^verbatim>\<open>output_boundary.go\<close>) and \<open>Targets\<close> (\<^verbatim>\<open>compile_target.go\<close>): the pipeline of a compile, its targets and its entry points; what
    it promises of every output.
  \<^item> \<open>Coverage\<close> (\<^verbatim>\<open>manifest_coverage.go\<close>): the ledger of an accepted manifest tells exactly what became of every input.
  \<^item> \<open>Store_Progress\<close>: a writer that reloads after a conflict makes progress against the memory store.

  \<^bold>\<open>Loops and fuel.\<close> Loops are structural or well-founded recursions. One has fuel, the depth-first search of \<open>Lineage\<close>; the number of
  nodes is enough, which is part of its property. The eviction loop \<open>evictCandidates\<close> of \<open>Budget\<close> could repeat an iteration that removes
  nothing; the model stops there with the outcome \<open>Diverged\<close> of its own, and the properties of \<open>Apply\<close> are about runs that succeed.

  \<^bold>\<open>Not modelled.\<close> A compile is modelled without a trace profile, resources, historical argument projections and observers: left out are
  the compile trace and its records (\<^verbatim>\<open>compile_trace.go\<close>, \<^verbatim>\<open>trace_*.go\<close>, \<^verbatim>\<open>compaction_*.go\<close>, \<^verbatim>\<open>manifest*.go\<close> but for the coverage ledger), export and replay
  (\<^verbatim>\<open>export.go\<close>, \<^verbatim>\<open>replay*.go\<close>, \<^verbatim>\<open>record_*.go\<close>, \<^verbatim>\<open>saved_record.go\<close>), resources (\<^verbatim>\<open>resource*.go\<close>), historical arguments, round repair, prefix diagnostics, labels,
  blob offload of messages, and the chat integration. JSON forms (\<^verbatim>\<open>encoding/json\<close> tags and field order) and network errors of the store adapters are
  not modelled either. Examples, tests and tooling are left out.
\<close>

end
